(* ===== verification/Prelude.thy ===== *)
theory Prelude
  imports Main "HOL-Library.Word"
begin

text \<open>
  Shared ground of the development: the machine integer types of \<^verbatim>\<open>include/types.h\<close>,
  the result type in which every panic, out-of-bounds access and endless wait of the C
  code is a value, bounds-checked access to static C arrays, the constants of
  \<^verbatim>\<open>arch/x86_64/include/vm.h\<close>, and the lemmas on words and lists that the component
  theories share. Two collections carry the automation: \<open>word_nat\<close> moves statements about
  words to natural numbers, \<open>result_simps\<close> evaluates the result monad.
\<close>

unbundle bit_operations_syntax

named_theorems word_nat \<open>facts that move a statement on words to natural numbers\<close>
named_theorems result_simps \<open>evaluation of the result monad\<close>

section \<open>Machine integers\<close>

type_synonym u8 = "8 word"
type_synonym u16 = "16 word"
type_synonym u32 = "32 word"
type_synonym u64 = "64 word"

section \<open>Results\<close>

text \<open>
  \<open>Panic\<close> carries the message of the source's \<^verbatim>\<open>panic(msg)\<close>, which disables interrupts,
  prints and halts. \<open>OutOfBounds\<close> is an access outside a C array, \<open>PageFault\<close> a memory
  access the MMU refuses, \<open>Deadlock\<close> a spin loop whose condition nobody can change in a
  sequential run, \<open>OutOfFuel\<close> a loop that used up the iterations the model grants it.
\<close>

datatype error =
    Panic string
  | OutOfBounds
  | PageFault u64
  | Deadlock
  | OutOfFuel
  | DivideError

type_synonym 'a result = "error + 'a"

fun rbind :: "'a result \<Rightarrow> ('a \<Rightarrow> 'b result) \<Rightarrow> 'b result" where
  "rbind (Inl e) f = Inl e"
| "rbind (Inr x) f = f x"

lemma rbind_cong [fundef_cong]:
  assumes "m = n" and "\<And>x. n = Inr x \<Longrightarrow> f x = g x"
  shows "rbind m f = rbind n g"
  using assms by (cases n) auto

lemma rbind_Inr_iff: "rbind m f = Inr y \<longleftrightarrow> (\<exists>x. m = Inr x \<and> f x = Inr y)"
  by (cases m) auto

lemma rbind_Inl_iff:
  "rbind m f = Inl e \<longleftrightarrow> m = Inl e \<or> (\<exists>x. m = Inr x \<and> f x = Inl e)"
  by (cases m) auto

lemma rbind_assoc: "rbind (rbind m f) g = rbind m (\<lambda>x. rbind (f x) g)"
  by (cases m) auto

declare rbind.simps [result_simps]

section \<open>Static arrays\<close>

text \<open>A C array is a list; a subscript outside it is \<open>OutOfBounds\<close>.\<close>

definition tget :: "'a list \<Rightarrow> u64 \<Rightarrow> 'a result" where
  "tget xs i = (if unat i < length xs then Inr (xs ! unat i) else Inl OutOfBounds)"

definition tset :: "'a list \<Rightarrow> u64 \<Rightarrow> 'a \<Rightarrow> 'a list result" where
  "tset xs i v = (if unat i < length xs then Inr (xs[unat i := v]) else Inl OutOfBounds)"

lemma tget_in [result_simps]: "unat i < length xs \<Longrightarrow> tget xs i = Inr (xs ! unat i)"
  by (simp add: tget_def)

lemma tset_in [result_simps]: "unat i < length xs \<Longrightarrow> tset xs i v = Inr (xs[unat i := v])"
  by (simp add: tset_def)

lemma tget_InrD: "tget xs i = Inr v \<Longrightarrow> unat i < length xs \<and> v = xs ! unat i"
  by (simp add: tget_def split: if_splits)

section \<open>Words and natural numbers\<close>

lemma unat_add_small [word_nat]:
  fixes a b :: "'a::len word"
  assumes "unat a + unat b < 2 ^ LENGTH('a)"
  shows "unat (a + b) = unat a + unat b"
  using assms by (simp add: unat_word_ariths)

lemma unat_sub_le [word_nat]:
  fixes a b :: "'a::len word"
  assumes "b \<le> a"
  shows "unat (a - b) = unat a - unat b"
  using assms by (simp add: unat_sub)

lemma unat_Suc_below [word_nat]:
  fixes i n :: "'a::len word"
  assumes "i < n"
  shows "unat (i + 1) = Suc (unat i)"
proof -
  have "unat i < unat n"
    using assms by (simp add: word_less_nat_alt)
  moreover have "unat n < 2 ^ LENGTH('a)"
    by (rule unsigned_less)
  ultimately have "unat i + 1 < 2 ^ LENGTH('a)"
    by linarith
  then show ?thesis
    using unat_add_small [of i 1] by simp
qed

text \<open>The measure of a loop that counts up to a bound.\<close>

lemma count_up_measure:
  fixes i n :: "'a::len word"
  assumes "i < n"
  shows "unat n - unat (i + 1) < unat n - unat i"
  using assms unat_Suc_below [OF assms] by (simp add: word_less_nat_alt)

lemma unat_shiftr [word_nat]: "unat (drop_bit n (w :: 'a::len word)) = unat w div 2 ^ n"
  by (subst unat_drop_bit_eq) (rule drop_bit_eq_div)

lemma unat_and_mask [word_nat]: "unat ((w :: 'a::len word) AND mask n) = unat w mod 2 ^ n"
proof -
  have "unat (w AND mask n) = unat (take_bit n w)"
    by (simp only: take_bit_eq_mask)
  also have "\<dots> = take_bit n (unat w)"
    by (cases "n < LENGTH('a)")
       (auto simp: unsigned_take_bit_eq take_bit_length_eq take_bit_nat_eq_self_iff
         intro: less_le_trans [OF unsigned_less])
  finally show ?thesis by (simp add: take_bit_eq_mod)
qed

lemma unat_and_not_mask: "unat ((w :: 'a::len word) AND NOT (mask n)) = unat w - unat w mod 2 ^ n"
proof -
  have "w = (w AND mask n) + (w AND NOT (mask n))"
    by (subst disjunctive_add) (auto simp: bit_simps intro: bit_word_eqI)
  then have "w AND NOT (mask n) = w - (w AND mask n)"
    by (simp add: algebra_simps)
  moreover have "w AND mask n \<le> w"
    by (simp add: word_le_nat_alt unat_and_mask)
  ultimately show ?thesis
    by (simp add: unat_sub_le unat_and_mask)
qed
lemma unat_ucast_mod:
  "unat (ucast (w :: 'a::len word) :: 'b::len word) = unat w mod 2 ^ LENGTH('b)"
  by (simp add: unsigned_ucast_eq take_bit_eq_mod)

lemma unat_ucast_up [word_nat]:
  fixes w :: "'a::len word"
  assumes "LENGTH('a) \<le> LENGTH('b)"
  shows "unat (ucast w :: 'b::len word) = unat w"
proof -
  have "unat w < 2 ^ LENGTH('b)"
    using unsigned_less [of w] assms
    by (meson le_less_trans less_le_trans one_le_numeral power_increasing not_le)
  then show ?thesis by (simp add: unat_ucast_mod)
qed

lemma unat_and_63 [word_nat]: "unat ((w :: u64) AND 63) = unat w mod 64"
  using unat_and_mask [of w 6] by (simp add: mask_eq_exp_minus_1)

lemma unat_of_nat_small:
  assumes "n < 2 ^ LENGTH('a)"
  shows "unat (of_nat n :: 'a::len word) = n"
  using assms by (simp add: unsigned_of_nat take_bit_nat_eq_self)

lemma unat_u64_less: "unat (w :: u64) < 2 ^ 64"
  using unsigned_less [of w] by simp

end
