(* ===== verification/Memory.thy ===== *)
theory Memory
  imports Prelude
begin

text \<open>
  Byte-addressed memory and the little-endian loads and stores with which the C code reads and
  writes objects of 1 to 8 bytes. Accesses of several bytes are loops over the bytes; the laws
  (a load returns what was stored, a store leaves every other byte alone) are stated once for
  any length and specialised to \<^verbatim>\<open>uint64_t\<close>, \<^verbatim>\<open>uint32_t\<close> and \<^verbatim>\<open>uint16_t\<close>. \<open>memset\<close>
  and \<open>memcpy\<close> are the string instructions of \<^verbatim>\<open>arch/x86_64/include/asm_string.h\<close>.
\<close>

type_synonym mem = "u64 \<Rightarrow> u8"

fun load_bytes :: "mem \<Rightarrow> u64 \<Rightarrow> nat \<Rightarrow> u64" where
  "load_bytes m a 0 = 0"
| "load_bytes m a (Suc n) = ucast (m a) OR push_bit 8 (load_bytes m (a + 1) n)"

fun store_bytes :: "mem \<Rightarrow> u64 \<Rightarrow> nat \<Rightarrow> u64 \<Rightarrow> mem" where
  "store_bytes m a 0 v = m"
| "store_bytes m a (Suc n) v = store_bytes (m(a := ucast v)) (a + 1) n (drop_bit 8 v)"

definition load64 :: "mem \<Rightarrow> u64 \<Rightarrow> u64" where
  "load64 m a = load_bytes m a 8"

definition store64 :: "mem \<Rightarrow> u64 \<Rightarrow> u64 \<Rightarrow> mem" where
  "store64 m a v = store_bytes m a 8 v"

definition load32 :: "mem \<Rightarrow> u64 \<Rightarrow> u32" where
  "load32 m a = ucast (load_bytes m a 4)"

definition store32 :: "mem \<Rightarrow> u64 \<Rightarrow> u32 \<Rightarrow> mem" where
  "store32 m a v = store_bytes m a 4 (ucast v)"

definition load16 :: "mem \<Rightarrow> u64 \<Rightarrow> u16" where
  "load16 m a = ucast (load_bytes m a 2)"

definition store16 :: "mem \<Rightarrow> u64 \<Rightarrow> u16 \<Rightarrow> mem" where
  "store16 m a v = store_bytes m a 2 (ucast v)"

text \<open>\<open>rep stosb\<close> and \<open>rep movsb\<close>: one byte at a time, upwards.\<close>

fun memset :: "mem \<Rightarrow> u64 \<Rightarrow> u8 \<Rightarrow> nat \<Rightarrow> mem" where
  "memset m dst c 0 = m"
| "memset m dst c (Suc n) = memset (m(dst := c)) (dst + 1) c n"

fun memcpy :: "mem \<Rightarrow> u64 \<Rightarrow> u64 \<Rightarrow> nat \<Rightarrow> mem" where
  "memcpy m dst src 0 = m"
| "memcpy m dst src (Suc n) = memcpy (m(dst := m src)) (dst + 1) (src + 1) n"

section \<open>Ranges of addresses\<close>

text \<open>The bytes \<open>a, \<dots>, a + n - 1\<close>, which may wrap around the address space.\<close>

definition bytes_at :: "u64 \<Rightarrow> nat \<Rightarrow> u64 set" where
  "bytes_at a n = (\<lambda>i. a + of_nat i) ` {..< n}"

lemma bytes_at_0 [simp]: "bytes_at a 0 = {}"
  by (simp add: bytes_at_def)

lemma bytes_at_Suc: "bytes_at a (Suc n) = insert a (bytes_at (a + 1) n)"
  by (simp add: bytes_at_def lessThan_Suc_eq_insert_0 image_image add.assoc)

lemma bytes_at_one [simp]: "bytes_at a (Suc 0) = {a}" "bytes_at a 1 = {a}"
  by (simp_all add: bytes_at_Suc)

lemma in_bytes_at_iff: "x \<in> bytes_at a n \<longleftrightarrow> (\<exists>i < n. x = a + of_nat i)"
  by (auto simp: bytes_at_def)

lemma bytes_at_unat:
  assumes "unat a + n \<le> 2 ^ 64"
  shows "x \<in> bytes_at a n \<longleftrightarrow> unat a \<le> unat x \<and> unat x < unat a + n"
proof
  assume "x \<in> bytes_at a n"
  then obtain i where i: "i < n" "x = a + of_nat i" by (auto simp: in_bytes_at_iff)
  then have "unat x = unat a + i"
    using assms unat_of_nat_small [of i, where 'a = 64] by (simp add: unat_add_small)
  then show "unat a \<le> unat x \<and> unat x < unat a + n" using i(1) by simp
next
  assume x: "unat a \<le> unat x \<and> unat x < unat a + n"
  have "x = a + of_nat (unat x - unat a)"
    using x by (simp add: of_nat_diff)
  then show "x \<in> bytes_at a n"
    using x unfolding in_bytes_at_iff by (intro exI [of _ "unat x - unat a"]) linarith
qed

lemma bytes_at_disjoint:
  assumes "unat a + n \<le> 2 ^ 64" and "unat b + k \<le> 2 ^ 64"
    and "unat a + n \<le> unat b \<or> unat b + k \<le> unat a"
  shows "bytes_at a n \<inter> bytes_at b k = {}"
  using assms by (auto simp: bytes_at_unat)

text \<open>Aligned objects of eight bytes are equal or disjoint.\<close>

lemma aligned_8_disjoint:
  assumes "unat a mod 8 = 0" and "unat b mod 8 = 0" and "a \<noteq> b"
  shows "bytes_at a 8 \<inter> bytes_at b 8 = {}"
proof (rule bytes_at_disjoint)
  have fit: "unat w + 8 \<le> 2 ^ 64" if w: "unat w mod 8 = 0" for w :: u64
  proof -
    obtain k where "unat w = 8 * k" using w by auto
    then show ?thesis using unat_u64_less [of w] by simp
  qed
  show "unat a + 8 \<le> 2 ^ 64" "unat b + 8 \<le> 2 ^ 64" using fit assms by auto
  have "unat a \<noteq> unat b" using assms(3) by (simp add: word_unat_eq_iff)
  moreover obtain j where "unat a = 8 * j" using assms(1) by auto
  moreover obtain k where "unat b = 8 * k" using assms(2) by auto
  ultimately show "unat a + 8 \<le> unat b \<or> unat b + 8 \<le> unat a" by arith
qed

section \<open>Loads and stores\<close>

lemma store_bytes_out:
  assumes "x \<notin> bytes_at a n"
  shows "store_bytes m a n v x = m x"
  using assms by (induction m a n v rule: store_bytes.induct) (auto simp: bytes_at_Suc)

lemma load_bytes_cong:
  assumes "\<And>x. x \<in> bytes_at a n \<Longrightarrow> m x = m' x"
  shows "load_bytes m a n = load_bytes m' a n"
  using assms by (induction m a n rule: load_bytes.induct) (simp_all add: bytes_at_Suc)

lemma load_store_other:
  assumes "bytes_at a n \<inter> bytes_at b k = {}"
  shows "load_bytes (store_bytes m b k v) a n = load_bytes m a n"
  using assms by (intro load_bytes_cong store_bytes_out) auto

lemma ucast_or_push:
  fixes v :: u64
  shows "ucast (ucast v :: u8) OR push_bit 8 (take_bit n (drop_bit 8 v)) = take_bit (8 + n) v"
  by (rule bit_word_eqI) (auto simp: bit_simps)

lemma not_self_bytes_at:
  assumes "n < 2 ^ 64"
  shows "a \<notin> bytes_at (a + 1) n"
proof
  assume "a \<in> bytes_at (a + 1) n"
  then obtain i where i: "i < n" "a = a + 1 + of_nat i" by (auto simp: in_bytes_at_iff)
  then have "(of_nat (Suc i) :: u64) = 0" by (simp add: add.assoc)
  moreover have "unat (of_nat (Suc i) :: u64) = Suc i"
    using i(1) assms by (intro unat_of_nat_small) simp
  ultimately show False by simp
qed

lemma load_store_same:
  assumes "n < 2 ^ 64"
  shows "load_bytes (store_bytes m a n v) a n = take_bit (8 * n) v"
  using assms
proof (induction n arbitrary: m a v)
  case 0
  then show ?case by simp
next
  case (Suc n)
  have "store_bytes (m(a := ucast v)) (a + 1) n (drop_bit 8 v) a = ucast v"
    using Suc.prems by (subst store_bytes_out) (auto simp: not_self_bytes_at)
  then show ?case
    using Suc by (simp add: ucast_or_push)
qed

lemma load64_store64 [simp]: "load64 (store64 m a v) a = v"
  using load_store_same [of 8 m a v] by (simp add: load64_def store64_def take_bit_word_eq_self)

lemma load64_store64_other:
  assumes "bytes_at a 8 \<inter> bytes_at b 8 = {}"
  shows "load64 (store64 m b v) a = load64 m a"
  using assms by (simp add: load64_def store64_def load_store_other)

lemma load64_store64_aligned:
  assumes "unat a mod 8 = 0" and "unat b mod 8 = 0"
  shows "load64 (store64 m b v) a = (if a = b then v else load64 m a)"
  using load64_store64_other [OF aligned_8_disjoint [OF assms]] by auto

lemma load64_upd_other: "x \<notin> bytes_at a 8 \<Longrightarrow> load64 (m(x := v)) a = load64 m a"
  unfolding load64_def by (rule load_bytes_cong) auto

lemma store64_out: "x \<notin> bytes_at a 8 \<Longrightarrow> store64 m a v x = m x"
  by (simp add: store64_def store_bytes_out)

lemma load64_cong: "(\<And>x. x \<in> bytes_at a 8 \<Longrightarrow> m x = m' x) \<Longrightarrow> load64 m a = load64 m' a"
  unfolding load64_def by (rule load_bytes_cong)

lemma load_bytes_zero: "(\<And>x. x \<in> bytes_at a n \<Longrightarrow> m x = 0) \<Longrightarrow> load_bytes m a n = 0"
  by (induction m a n rule: load_bytes.induct) (simp_all add: bytes_at_Suc)

lemma load64_zero: "(\<And>x. x \<in> bytes_at a 8 \<Longrightarrow> m x = 0) \<Longrightarrow> load64 m a = 0"
  unfolding load64_def by (rule load_bytes_zero)

lemma load32_store32 [simp]: "load32 (store32 m a v) a = v"
  using load_store_same [of 4 m a "ucast v"]
  by (simp add: load32_def store32_def) (rule bit_word_eqI, auto simp: bit_simps)

lemma load16_store16 [simp]: "load16 (store16 m a v) a = v"
  using load_store_same [of 2 m a "ucast v"]
  by (simp add: load16_def store16_def) (rule bit_word_eqI, auto simp: bit_simps)

lemma memset_at:
  assumes "n < 2 ^ 64"
  shows "memset m a c n x = (if x \<in> bytes_at a n then c else m x)"
  using assms
  by (induction m a c n rule: memset.induct) (auto simp: bytes_at_Suc)

text \<open>A copy between disjoint ranges moves every byte and changes nothing else.\<close>

lemma memcpy_out:
  assumes "x \<notin> bytes_at dst n"
  shows "memcpy m dst src n x = m x"
  using assms by (induction m dst src n rule: memcpy.induct) (auto simp: bytes_at_Suc)

lemma memcpy_in:
  assumes "bytes_at dst n \<inter> bytes_at src n = {}" and "i < n" and "n < 2 ^ 64"
  shows "memcpy m dst src n (dst + of_nat i) = m (src + of_nat i)"
  using assms
proof (induction m dst src n arbitrary: i rule: memcpy.induct)
  case (1 m dst src)
  then show ?case by simp
next
  case (2 m dst src n)
  have sep: "bytes_at (dst + 1) n \<inter> bytes_at (src + 1) n = {}" "dst \<notin> bytes_at (src + 1) n"
    using "2.prems"(1) by (auto simp: bytes_at_Suc)
  show ?case
  proof (cases i)
    case 0
    then show ?thesis
      using "2.prems"(3) by (simp add: memcpy_out not_self_bytes_at)
  next
    case (Suc k)
    then have "src + 1 + of_nat k \<in> bytes_at (src + 1) n"
      using "2.prems"(2) by (auto simp: in_bytes_at_iff)
    then have "src + 1 + of_nat k \<noteq> dst" using sep(2) by auto
    then show ?thesis
      using "2.IH" [OF sep(1), of k] Suc "2.prems"(2,3) by (simp add: add.assoc del: fun_upd_apply)
         (simp add: add.assoc)
  qed
qed

end
