(* ===== verification/Radix.thy ===== *)
theory Radix
  imports Memory "HOL-Library.Sublist"
begin

text \<open>
  Trees of 4KB tables with 512 entries of 64 bits, as the processor walks them: the page tables
  of \<^verbatim>\<open>arch/x86_64/mm/vm.c\<close>. The locale \<open>radix\<close> takes the meaning of an entry, the table it links,
  as a parameter and shows what storing one entry does to the tree: a leaf or a link to an
  empty table changes no other path.
\<close>

definition slot :: "u64 \<Rightarrow> u64 \<Rightarrow> u64" where
  "slot f i = f + 8 * i"

definition page_aligned :: "u64 \<Rightarrow> bool" where
  "page_aligned f \<longleftrightarrow> unat f mod 4096 = 0"

fun descend :: "(u64 \<Rightarrow> u64 option) \<Rightarrow> mem \<Rightarrow> u64 \<Rightarrow> u64 list \<Rightarrow> u64 option" where
  "descend nxt m f [] = Some f"
| "descend nxt m f (i # is) =
     (case nxt (load64 m (slot f i)) of None \<Rightarrow> None | Some g \<Rightarrow> descend nxt m g is)"

lemma descend_append:
  "descend nxt m f (p @ q) = Option.bind (descend nxt m f p) (\<lambda>g. descend nxt m g q)"
  by (induction p arbitrary: f) (auto split: option.splits)

lemma descend_snoc:
  "descend nxt m f (p @ [i]) = Option.bind (descend nxt m f p) (\<lambda>g. nxt (load64 m (slot g i)))"
  by (simp add: descend_append split: option.splits bind_splits)

text \<open>
  The paths that name a table: at most three indices, the first of them not that of the
  recursive slot.
\<close>

definition good_path :: "u64 list \<Rightarrow> bool" where
  "good_path q \<longleftrightarrow> length q \<le> 3 \<and> (\<forall>i \<in> set q. i < 512) \<and> (q \<noteq> [] \<longrightarrow> hd q \<noteq> 511)"

definition tables_inj :: "(u64 \<Rightarrow> u64 option) \<Rightarrow> mem \<Rightarrow> u64 \<Rightarrow> bool" where
  "tables_inj nxt m r \<longleftrightarrow> page_aligned r
     \<and> (\<forall>q q' f. good_path q \<longrightarrow> good_path q' \<longrightarrow> descend nxt m r q = Some f
          \<longrightarrow> descend nxt m r q' = Some f \<longrightarrow> q = q')"

lemma good_path_prefix: "good_path q \<Longrightarrow> prefix p q \<Longrightarrow> good_path p"
  by (auto simp: good_path_def prefix_def)

lemma good_path_butlast: "good_path (q @ [j]) \<Longrightarrow> good_path q"
  by (erule good_path_prefix) simp

lemma unat_slot:
  assumes "page_aligned f" and "i < 512"
  shows "unat (slot f i) = unat f + 8 * unat i"
proof -
  have i: "unat i < 512" using assms(2) by (simp add: word_less_nat_alt)
  obtain k where k: "unat f = 4096 * k" using assms(1) by (auto simp: page_aligned_def)
  then have "unat f + 8 * unat i < 2 ^ 64" using i unat_u64_less [of f] by simp
  moreover have "unat (8 * i) = 8 * unat i" using i by (simp add: unat_word_ariths)
  ultimately show ?thesis by (simp add: slot_def unat_add_small)
qed

lemma slot_aligned_8:
  assumes "page_aligned f" and "i < 512"
  shows "unat (slot f i) mod 8 = 0"
proof -
  obtain k where "unat f = 4096 * k" using assms(1) by (auto simp: page_aligned_def)
  then have "unat (slot f i) = 8 * (512 * k + unat i)" using unat_slot [OF assms] by simp
  then show ?thesis by simp
qed

lemma slot_eq_iff:
  assumes "page_aligned f" and "page_aligned g" and "i < 512" and "j < 512"
  shows "slot f i = slot g j \<longleftrightarrow> f = g \<and> i = j"
proof
  assume "slot f i = slot g j"
  then have eq: "unat f + 8 * unat i = unat g + 8 * unat j"
    using assms unat_slot by metis
  obtain k where k: "unat f = 4096 * k" using assms(1) by (auto simp: page_aligned_def)
  obtain l where l: "unat g = 4096 * l" using assms(2) by (auto simp: page_aligned_def)
  have "unat i < 512" "unat j < 512" using assms(3,4) by (simp_all add: word_less_nat_alt)
  then have "k = l" using eq k l by linarith
  then have "unat f = unat g \<and> unat i = unat j" using eq k l by simp
  then show "f = g \<and> i = j" by (simp add: word_unat_eq_iff)
qed simp

lemma load_slot_store:
  assumes "page_aligned f" and "page_aligned g" and "i < 512" and "j < 512"
  shows "load64 (store64 m (slot g j) e) (slot f i) = (if f = g \<and> i = j then e else load64 m (slot f i))"
  using assms slot_eq_iff [OF assms]
  by (simp add: load64_store64_aligned slot_aligned_8)

text \<open>A table all of whose entries are zero.\<close>

definition zero_table :: "mem \<Rightarrow> u64 \<Rightarrow> bool" where
  "zero_table m g \<longleftrightarrow> (\<forall>i < 512. load64 m (slot g i) = 0)"

locale radix =
  fixes nxt :: "u64 \<Rightarrow> u64 option"
  assumes nxt_aligned: "nxt e = Some f \<Longrightarrow> page_aligned f"
    and nxt_zero: "nxt 0 = None"
begin

lemma descend_aligned:
  assumes "page_aligned f" and "descend nxt m f p = Some g"
  shows "page_aligned g"
  using assms by (induction p arbitrary: f) (auto split: option.splits dest: nxt_aligned)

lemma tables_inj_aligned:
  assumes "tables_inj nxt m r" and "descend nxt m r q = Some f"
  shows "page_aligned f"
  using descend_aligned [OF _ assms(2)] assms(1) by (simp add: tables_inj_def)

text \<open>A store into the entry \<open>i\<close> of the table at \<open>p\<close> is seen by the paths through it only.\<close>

lemma descend_store:
  assumes "tables_inj nxt m r" and "good_path p" and "descend nxt m r p = Some f" and "i < 512"
    and "good_path q" and "\<not> prefix (p @ [i]) q"
  shows "descend nxt (store64 m (slot f i) e) r q = descend nxt m r q"
  using assms(5,6)
proof (induction q rule: rev_induct)
  case Nil
  then show ?case by simp
next
  case (snoc j q)
  have q: "good_path q" using snoc.prems(1) by (rule good_path_butlast)
  have IH: "descend nxt (store64 m (slot f i) e) r q = descend nxt m r q"
    using snoc.IH [OF q] snoc.prems(2) by auto
  show ?case
  proof (cases "descend nxt m r q")
    case None
    then show ?thesis by (simp add: descend_snoc IH)
  next
    case (Some g)
    have "\<not> (g = f \<and> j = i)"
    proof
      assume "g = f \<and> j = i"
      then have "q = p" using assms(1-3) q Some by (auto simp: tables_inj_def)
      then show False using snoc.prems(2) \<open>g = f \<and> j = i\<close> by auto
    qed
    then have "load64 (store64 m (slot f i) e) (slot g j) = load64 m (slot g j)"
      using load_slot_store [of g f j i m e] tables_inj_aligned [OF assms(1)] Some assms(3,4)
        snoc.prems(1) by (auto simp: good_path_def)
    then show ?thesis by (simp add: descend_snoc IH Some)
  qed
qed

lemma tables_inj_store_leaf:
  assumes "tables_inj nxt m r" and "good_path p" and "descend nxt m r p = Some f" and "i < 512"
    and "length p = 3"
  shows "good_path q \<Longrightarrow> descend nxt (store64 m (slot f i) e) r q = descend nxt m r q"
    and "tables_inj nxt (store64 m (slot f i) e) r"
proof -
  have same: "descend nxt (store64 m (slot f i) e) r q = descend nxt m r q" if "good_path q" for q
  proof (rule descend_store [OF assms(1-4) that])
    show "\<not> prefix (p @ [i]) q"
      using assms(5) that prefix_length_le [of "p @ [i]" q] by (auto simp: good_path_def)
  qed
  then show "good_path q \<Longrightarrow> descend nxt (store64 m (slot f i) e) r q = descend nxt m r q" .
  show "tables_inj nxt (store64 m (slot f i) e) r"
    using assms(1) same by (simp add: tables_inj_def)
qed

text \<open>Overwriting an entry that names no table with another that names none.\<close>

lemma descend_store_none:
  assumes "tables_inj nxt m r" and "good_path p" and "descend nxt m r p = Some f" and "i < 512"
    and "nxt (load64 m (slot f i)) = None" and "nxt e = None"
  shows "good_path q \<Longrightarrow> descend nxt (store64 m (slot f i) e) r q = descend nxt m r q"
    and "tables_inj nxt (store64 m (slot f i) e) r"
proof -
  let ?m = "store64 m (slot f i) e"
  have dp: "descend nxt ?m r p = Some f"
    using descend_store [OF assms(1-4) assms(2), of e] assms(3) by (auto dest: prefix_length_le)
  have same: "descend nxt ?m r q = descend nxt m r q" if q: "good_path q" for q
  proof (cases "prefix (p @ [i]) q")
    case False
    then show ?thesis by (rule descend_store [OF assms(1-4) q])
  next
    case True
    then obtain t where t: "q = p @ i # t" by (auto simp: prefix_def)
    show ?thesis using dp assms(3,5,6) unfolding t by (simp add: descend_append)
  qed
  then show "good_path q \<Longrightarrow> descend nxt ?m r q = descend nxt m r q" .
  show "tables_inj nxt ?m r"
    using assms(1) same by (simp add: tables_inj_def)
qed

text \<open>
  Linking a fresh table into an entry that named none. The table has to be empty, unless it is a
  last one: what it holds then is a leaf entry and names no table.
\<close>

lemma descend_link:
  assumes "tables_inj nxt m r" and "good_path (p @ [i])" and "descend nxt m r p = Some f"
    and "nxt (load64 m (slot f i)) = None" and "nxt e = Some g" and "length p = 2 \<or> zero_table m g"
    and "\<forall>q. good_path q \<longrightarrow> descend nxt m r q \<noteq> Some g"
  defines "m' \<equiv> store64 m (slot f i) e"
  shows "descend nxt m' r (p @ [i]) = Some g"
    and "good_path q \<Longrightarrow> q \<noteq> p @ [i] \<Longrightarrow> descend nxt m' r q = descend nxt m r q"
    and "j < 512 \<Longrightarrow> load64 m' (slot g j) = load64 m (slot g j)" and "tables_inj nxt m' r"
proof -
  have p: "good_path p" using assms(2) by (rule good_path_butlast)
  have i: "i < 512" using assms(2) by (simp add: good_path_def)
  have af: "page_aligned f" and ag: "page_aligned g"
    using tables_inj_aligned [OF assms(1,3)] nxt_aligned [OF assms(5)] by auto
  have fg: "f \<noteq> g" using assms(3,7) p by auto
  have dp: "descend nxt m' r p = Some f"
    using descend_store [OF assms(1) p assms(3) i p, of e] assms(3)
    by (auto simp: m'_def dest: prefix_length_le)
  then show dpi: "descend nxt m' r (p @ [i]) = Some g"
    using assms(5) by (simp add: descend_snoc m'_def)
  have keep: "load64 m' (slot g j) = load64 m (slot g j)" if "j < 512" for j
    using load_slot_store [OF ag af that i] fg by (auto simp: m'_def)
  then show "j < 512 \<Longrightarrow> load64 m' (slot g j) = load64 m (slot g j)" .
  have other: "descend nxt m' r q = descend nxt m r q" if q: "good_path q" "q \<noteq> p @ [i]" for q
  proof (cases "prefix (p @ [i]) q")
    case False
    then show ?thesis using descend_store [OF assms(1) p assms(3) i q(1)] by (simp add: m'_def)
  next
    case True
    then obtain t where "q = (p @ [i]) @ t" by (auto simp: prefix_def)
    then obtain j s where s: "q = p @ [i] @ j # s"
      using q(2) by (cases t) auto
    then have "j < 512" and "length p \<noteq> 2" using q(1) by (auto simp: good_path_def)
    then have "load64 m' (slot g j) = 0" using keep assms(6) by (simp add: zero_table_def)
    then have "descend nxt m' r q = None"
      using dp assms(5) nxt_zero unfolding s by (simp add: descend_append m'_def)
    moreover have "descend nxt m r q = None"
      using assms(3,4) unfolding s by (simp add: descend_append split: bind_splits)
    ultimately show ?thesis by simp
  qed
  then show "good_path q \<Longrightarrow> q \<noteq> p @ [i] \<Longrightarrow> descend nxt m' r q = descend nxt m r q" .
  show "tables_inj nxt m' r"
    unfolding tables_inj_def
  proof (intro conjI allI impI)
    show "page_aligned r" using assms(1) by (simp add: tables_inj_def)
    fix q q' h
    assume q: "good_path q" "good_path q'" "descend nxt m' r q = Some h" "descend nxt m' r q' = Some h"
    consider "q = p @ [i]" "q' = p @ [i]" | "q = p @ [i]" "q' \<noteq> p @ [i]"
      | "q \<noteq> p @ [i]" "q' = p @ [i]" | "q \<noteq> p @ [i]" "q' \<noteq> p @ [i]" by blast
    then show "q = q'"
    proof cases
      case 4
      then show ?thesis using q other assms(1) by (auto simp: tables_inj_def)
    qed (use q dpi other assms(7) in auto)
  qed
qed

end

end
