(* ===== verification/Bits.thy ===== *)
theory Bits
  imports Prelude
begin

text \<open>
  The bit operations of \<^verbatim>\<open>include/utils/bits.h\<close> and \<^verbatim>\<open>utils/bits.c\<close>, and \<open>ceiling64\<close> of
  \<^verbatim>\<open>include/utils/math.h\<close>. A bitmap is the list of its 64-bit words. The abstract view of
  a bitmap is the set \<open>bits_of\<close> of the indices of its set bits; every operation is shown to
  be the set operation it stands for. The word-at-a-time loops of \<open>bitmap64_set_range\<close> and
  \<open>bitmap64_clear_range\<close> differ in one operator only, so their correctness is proved once,
  in the locale \<open>range_update\<close>, and interpreted for each of the two.
\<close>

section \<open>Single words\<close>

definition get_bit64 :: "u64 \<Rightarrow> u8 \<Rightarrow> u8" where
  "get_bit64 data index =
     (let msk = push_bit (unat index) 1 in if data AND msk > 0 then 1 else 0)"

definition set_bit64 :: "u64 \<Rightarrow> u8 \<Rightarrow> u64" where
  "set_bit64 data index = (let msk = push_bit (unat index) 1 in data OR msk)"

definition clear_bit64 :: "u64 \<Rightarrow> u8 \<Rightarrow> u64" where
  "clear_bit64 data index = (let msk = NOT (push_bit (unat index) 1) in data AND msk)"

text \<open>
  \<^verbatim>\<open>__builtin_ctzll\<close> counts the zero bits below the lowest set bit. The source calls the
  result for 0 undefined; the model gives 64 there and no theorem relies on it.
\<close>

function ctz_from :: "u64 \<Rightarrow> nat \<Rightarrow> nat" where
  "ctz_from data i = (if i < 64 \<and> \<not> bit data i then ctz_from data (Suc i) else i)"
  by pat_completeness auto
termination
  by (relation "measure (\<lambda>(d, i). 64 - i)") auto

declare ctz_from.simps [simp del]

definition count_trailing_zeros_bit64 :: "u64 \<Rightarrow> u8" where
  "count_trailing_zeros_bit64 data = of_nat (ctz_from data 0)"

definition ceiling64 :: "u64 \<Rightarrow> u64 \<Rightarrow> u64 result" where
  "ceiling64 data base =
     (if base = 0 then Inl DivideError else Inr (((data + base - 1) div base) * base))"

section \<open>Bitmaps\<close>

definition bitmap64_get :: "u64 list \<Rightarrow> u64 \<Rightarrow> u8 result" where
  "bitmap64_get bm index =
     rbind (tget bm (drop_bit 6 index)) (\<lambda>w.
       Inr (if w AND push_bit (unat (index AND 63)) 1 > 0 then 1 else 0))"

definition bitmap64_set :: "u64 list \<Rightarrow> u64 \<Rightarrow> u64 list result" where
  "bitmap64_set bm index =
     rbind (tget bm (drop_bit 6 index)) (\<lambda>w.
       tset bm (drop_bit 6 index) (w OR push_bit (unat (index AND 63)) 1))"

definition bitmap64_clear :: "u64 list \<Rightarrow> u64 \<Rightarrow> u64 list result" where
  "bitmap64_clear bm index =
     rbind (tget bm (drop_bit 6 index)) (\<lambda>w.
       tset bm (drop_bit 6 index) (w AND NOT (push_bit (unat (index AND 63)) 1)))"

definition bitmap64_check_bit :: "u64 list \<Rightarrow> u64 \<Rightarrow> bool result" where
  "bitmap64_check_bit bm index =
     rbind (tget bm (drop_bit 6 index)) (\<lambda>w.
       let msk = push_bit (unat (index mod 64)) 1 in Inr (w AND msk \<noteq> 0))"

text \<open>
  The loop of the two range operations. \<open>upd w m\<close> is the assignment of the loop body:
  \<^verbatim>\<open>*ptr |= mask\<close> or \<^verbatim>\<open>*ptr &= ~mask\<close>. The loop returns the map, \<open>ptr\<close>, the remaining
  length and \<open>mask\<close>. The first iteration handles \<open>bits\<close> bits, each later one 64, so it
  ends: the length shrinks, except perhaps once.
\<close>

function bitmap64_range_loop ::
    "(u64 \<Rightarrow> u64 \<Rightarrow> u64) \<Rightarrow> u64 list \<Rightarrow> u64 \<Rightarrow> u64 \<Rightarrow> u8 \<Rightarrow> u64
      \<Rightarrow> (u64 list \<times> u64 \<times> u64 \<times> u64) result" where
  "bitmap64_range_loop upd bm ptr len bits msk =
     (if ucast bits \<le> len
      then rbind (tget bm ptr) (\<lambda>w.
           rbind (tset bm ptr (upd w msk)) (\<lambda>bm'.
             bitmap64_range_loop upd bm' (ptr + 1) (len - ucast bits) 64 (NOT 0)))
      else Inr (bm, ptr, len, msk))"
  by pat_completeness auto
termination
proof (relation "measure (\<lambda>(upd, bm, ptr, len, bits, msk).
    unat len + (if bits = 64 then 0 else 1))", goal_cases)
  case 1
  then show ?case by simp
next
  case (2 upd bm ptr len bits msk w bm')
  have sub: "unat (len - ucast bits) = unat len - unat bits"
    using 2(1) by (simp add: unat_sub_le unat_ucast_up)
  have "unat bits \<le> unat len"
    using 2(1) by (simp add: word_le_nat_alt unat_ucast_up)
  then show ?case
    using sub by (cases "bits = 64") auto
qed

declare bitmap64_range_loop.simps [simp del]

definition bitmap64_range ::
    "(u64 \<Rightarrow> u64 \<Rightarrow> u64) \<Rightarrow> u64 list \<Rightarrow> u64 \<Rightarrow> u64 \<Rightarrow> u64 list result" where
  "bitmap64_range upd bm start len =
     (let ptr = drop_bit 6 start;
          bits = 64 - ucast (start AND 63);
          stop = start + len;
          msk = push_bit (unat (start AND 63)) (NOT 0)
      in rbind (bitmap64_range_loop upd bm ptr len bits msk)
           (\<lambda>(bm, ptr, len, msk).
              if len > 0
              then let msk = msk AND drop_bit (unat ((- stop) AND 63)) (NOT 0)
                   in rbind (tget bm ptr) (\<lambda>w. tset bm ptr (upd w msk))
              else Inr bm))"

definition bitmap64_set_range :: "u64 list \<Rightarrow> u64 \<Rightarrow> u64 \<Rightarrow> u64 list result" where
  "bitmap64_set_range bm start len = bitmap64_range (\<lambda>w msk. w OR msk) bm start len"

definition bitmap64_clear_range :: "u64 list \<Rightarrow> u64 \<Rightarrow> u64 \<Rightarrow> u64 list result" where
  "bitmap64_clear_range bm start len =
     bitmap64_range (\<lambda>w msk. w AND NOT msk) bm start len"

section \<open>The bits of a bitmap\<close>

definition test_bit :: "u64 list \<Rightarrow> nat \<Rightarrow> bool" where
  "test_bit bm i \<longleftrightarrow> bit (bm ! (i div 64)) (i mod 64)"

definition bits_of :: "u64 list \<Rightarrow> nat set" where
  "bits_of bm = {i. i < 64 * length bm \<and> test_bit bm i}"

lemma and_push_bit_1:
  "((w :: 'a::len word) AND 2 ^ n = 0) \<longleftrightarrow> \<not> bit w n"
  by (rule and_exp_eq_0_iff_not_bit)

lemma word_pos_iff: "(0 < (w :: 'a::len word)) \<longleftrightarrow> w \<noteq> 0"
  by (simp add: word_gt_0)

lemma unat_mod_64 [word_nat]: "unat ((w :: u64) mod 64) = unat w mod 64"
  by (simp add: unat_mod)

lemma div_64_less: "i < 64 * n \<longleftrightarrow> i div 64 < (n :: nat)"
  by (simp add: less_mult_imp_div_less div_less_iff_less_mult mult.commute)

lemma bitmap64_get_eq:
  assumes "unat i < 64 * length bm"
  shows "bitmap64_get bm i = Inr (if test_bit bm (unat i) then 1 else 0)"
  using assms
  by (simp add: bitmap64_get_def tget_def word_nat div_64_less test_bit_def word_pos_iff
      and_push_bit_1)

lemma bitmap64_get_out:
  assumes "64 * length bm \<le> unat i"
  shows "bitmap64_get bm i = Inl OutOfBounds"
  using assms by (simp add: bitmap64_get_def tget_def word_nat flip: not_less add: div_64_less)

lemma bitmap64_check_bit_eq:
  assumes "unat i < 64 * length bm"
  shows "bitmap64_check_bit bm i = Inr (test_bit bm (unat i))"
  using assms
  by (simp add: bitmap64_check_bit_def tget_def word_nat div_64_less test_bit_def Let_def
      and_push_bit_1)

lemma test_bit_list_update:
  assumes "k < length bm"
  shows "test_bit (bm[k := w]) i = (if i div 64 = k then bit w (i mod 64) else test_bit bm i)"
  using assms by (auto simp: test_bit_def nth_list_update)

lemma bit_push_bit_1: "bit (2 ^ m :: u64) j \<longleftrightarrow> j = m \<and> j < 64"
  by (auto simp: bit_exp_iff dest: bit_imp_le_length)

lemma div_mod_64_eq: "(i div 64 = j div 64 \<and> i mod 64 = j mod (64::nat)) \<longleftrightarrow> i = j"
  by (metis div_mult_mod_eq)

lemma bits_of_list_update:
  assumes "k < length bm"
  shows "bits_of (bm[k := w]) =
    {i. i < 64 * length bm \<and> (if i div 64 = k then bit w (i mod 64) else test_bit bm i)}"
  using assms by (simp add: bits_of_def test_bit_list_update)

lemma bits_of_insert:
  assumes "i < 64 * length bm"
  shows "bits_of (bm[i div 64 := bm ! (i div 64) OR 2 ^ (i mod 64)]) = insert i (bits_of bm)"
proof -
  have "i div 64 < length bm"
    using assms by (simp add: div_64_less)
  moreover have "bit (bm ! (i div 64) OR 2 ^ (i mod 64)) (j mod 64) \<longleftrightarrow> test_bit bm j \<or> j = i"
    if "j div 64 = i div 64" for j
    using that div_mod_64_eq [of j i]
    by (auto simp: bit_or_iff bit_push_bit_1 test_bit_def)
  ultimately show ?thesis
    using assms by (auto simp: bits_of_def test_bit_list_update)
qed

lemma bits_of_remove:
  assumes "i < 64 * length bm"
  shows "bits_of (bm[i div 64 := bm ! (i div 64) AND NOT (2 ^ (i mod 64))]) = bits_of bm - {i}"
proof -
  have "i div 64 < length bm"
    using assms by (simp add: div_64_less)
  moreover have "bit (bm ! (i div 64) AND NOT (2 ^ (i mod 64))) (j mod 64)
      \<longleftrightarrow> test_bit bm j \<and> j \<noteq> i"
    if "j div 64 = i div 64" for j
    using that div_mod_64_eq [of j i]
    by (auto simp: bit_and_iff bit_not_iff bit_push_bit_1 test_bit_def dest: bit_imp_le_length)
  ultimately show ?thesis
    using assms by (auto simp: bits_of_def test_bit_list_update)
qed

lemma bitmap64_set_eq:
  assumes "unat i < 64 * length bm"
  shows "bitmap64_set bm i =
    Inr (bm[unat i div 64 := bm ! (unat i div 64) OR 2 ^ (unat i mod 64)])"
  using assms by (simp add: bitmap64_set_def result_simps word_nat div_64_less)

lemma bitmap64_clear_eq:
  assumes "unat i < 64 * length bm"
  shows "bitmap64_clear bm i =
    Inr (bm[unat i div 64 := bm ! (unat i div 64) AND NOT (2 ^ (unat i mod 64))])"
  using assms by (simp add: bitmap64_clear_def result_simps word_nat div_64_less)

lemma bitmap64_set_bits:
  assumes "unat i < 64 * length bm"
  shows "\<exists>bm'. bitmap64_set bm i = Inr bm' \<and> length bm' = length bm
    \<and> bits_of bm' = insert (unat i) (bits_of bm)"
  using bitmap64_set_eq [OF assms] bits_of_insert [OF assms] by simp

lemma bitmap64_clear_bits:
  assumes "unat i < 64 * length bm"
  shows "\<exists>bm'. bitmap64_clear bm i = Inr bm' \<and> length bm' = length bm
    \<and> bits_of bm' = bits_of bm - {unat i}"
  using bitmap64_clear_eq [OF assms] bits_of_remove [OF assms] by simp

section \<open>Range operations\<close>

lemma complement_mod_64:
  assumes "(a + b) mod 64 = (0 :: nat)" and "a < 64" and "b < 64" and "b \<noteq> 0"
  shows "a = 64 - b"
proof -
  obtain k where "a + b = 64 * k"
    using assms(1) by (auto simp: mod_eq_0_iff_dvd elim: dvdE)
  moreover from this have "k = 1"
    using assms(2-4) by linarith
  ultimately show ?thesis by simp
qed

lemma unat_neg_mod_64:
  assumes "unat (w :: u64) mod 64 \<noteq> 0"
  shows "unat (- w) mod 64 = 64 - unat w mod 64"
proof -
  have "w \<noteq> 0" using assms by auto
  then have "unat (- w) = 2 ^ 64 - unat w"
    using unat_sub_if' [of 0 w] by (simp add: unat_gt_0)
  moreover have "unat w < 2 ^ 64"
    using unsigned_less [of w] by simp
  ultimately have "unat (- w) + unat w = 64 * 2 ^ 58"
    by simp
  then have "(unat (- w) mod 64 + unat w mod 64) mod 64 = 0"
    by (metis mod_add_eq mod_mult_self1_is_0)
  then show ?thesis
    using assms by (intro complement_mod_64) simp_all
qed

lemma bit_high_mask: "bit (NOT (mask k) :: u64) j \<longleftrightarrow> k \<le> j \<and> j < 64"
  by (auto simp: bit_not_iff bit_mask_iff dest: bit_imp_le_length)

text \<open>
  What the two range operations have in common: \<open>upd\<close> combines each bit of the word with
  the bit of the mask by \<open>comb\<close>, and a clear mask bit leaves the word's bit alone.
\<close>

locale range_update =
  fixes upd :: "u64 \<Rightarrow> u64 \<Rightarrow> u64"
    and comb :: "bool \<Rightarrow> bool \<Rightarrow> bool"
  assumes bit_upd: "j < 64 \<Longrightarrow> bit (upd w m) j = comb (bit w j) (bit m j)"
    and comb_False: "comb b False = b"
begin

lemma upd_word:
  assumes "k < length bm"
  shows "test_bit (bm[k := upd (bm ! k) m]) i =
    comb (test_bit bm i) (i div 64 = k \<and> bit m (i mod 64))"
  using assms by (auto simp: test_bit_list_update bit_upd comb_False) (auto simp: test_bit_def)

lemma upd_interval:
  assumes "k < length bm"
    and "\<And>j. j < 64 \<Longrightarrow> bit m j \<longleftrightarrow> lo \<le> 64 * k + j \<and> 64 * k + j < hi"
    and "64 * k \<le> lo" and "hi \<le> 64 * k + 64"
  shows "test_bit (bm[k := upd (bm ! k) m]) i = comb (test_bit bm i) (lo \<le> i \<and> i < hi)"
proof -
  have "(i div 64 = k \<and> bit m (i mod 64)) \<longleftrightarrow> lo \<le> i \<and> i < hi"
  proof (cases "i div 64 = k")
    case True
    then have "64 * k + i mod 64 = i"
      using mult_div_mod_eq [of 64 i] by simp
    then show ?thesis
      using True assms(2) [of "i mod 64"] by simp
  next
    case False
    then have "i < 64 * k \<or> 64 * k + 64 \<le> i"
      by linarith
    then show ?thesis
      using False assms(3,4) by auto
  qed
  then show ?thesis
    using assms(1) by (simp add: upd_word)
qed

lemma comb_empty: "comb b ((x :: nat) \<le> i \<and> i < x) = b"
  by (cases "x \<le> i") (auto simp: comb_False)

lemma comb_join:
  assumes "x \<le> y" and "y \<le> (z :: nat)"
  shows "comb (comb b (x \<le> i \<and> i < y)) (y \<le> i \<and> i < z) = comb b (x \<le> i \<and> i < z)"
proof (cases "i < y")
  case True
  with assms have "(y \<le> i \<and> i < z) = False" and "(x \<le> i \<and> i < z) = (x \<le> i \<and> i < y)"
    by auto
  then show ?thesis by (simp only: comb_False)
next
  case False
  with assms have "(x \<le> i \<and> i < y) = False" and "(x \<le> i \<and> i < z) = (y \<le> i \<and> i < z)"
    by auto
  then show ?thesis by (simp only: comb_False)
qed

text \<open>The position of the loop: the bit number at which the mask of the next word starts.\<close>

lemma range_loop:
  assumes "0 < unat bits" and "unat bits \<le> 64"
    and "msk = NOT (mask (64 - unat bits))"
    and "64 * unat ptr + (64 - unat bits) + unat len \<le> 64 * length bm"
    and "length bm < 2 ^ 64"
  shows "\<exists>bm' ptr' len' lo. bitmap64_range_loop upd bm ptr len bits msk
        = Inr (bm', ptr', len', NOT (mask lo))
      \<and> length bm' = length bm \<and> lo < 64 \<and> unat len' < 64 - lo
      \<and> 64 * unat ptr' + lo + unat len' = 64 * unat ptr + (64 - unat bits) + unat len
      \<and> 64 * unat ptr + (64 - unat bits) \<le> 64 * unat ptr' + lo
      \<and> (\<forall>i. test_bit bm' i = comb (test_bit bm i)
            (64 * unat ptr + (64 - unat bits) \<le> i \<and> i < 64 * unat ptr' + lo))"
  using assms
proof (induction "unat len" arbitrary: bm ptr len bits msk rule: less_induct)
  case less
  let ?p = "64 * unat ptr + (64 - unat bits)"
  show ?case
  proof (cases "ucast bits \<le> len")
    case False
    then have "unat len < unat bits"
      by (simp add: not_le word_less_nat_alt word_nat)
    then have "bitmap64_range_loop upd bm ptr len bits msk
          = Inr (bm, ptr, len, NOT (mask (64 - unat bits)))
        \<and> 64 - unat bits < 64 \<and> unat len < 64 - (64 - unat bits)"
      using False less.prems(1-3)
      by (subst bitmap64_range_loop.simps) simp
    then show ?thesis
      by (rule_tac x = bm in exI, rule_tac x = ptr in exI, rule_tac x = len in exI,
          rule_tac x = "64 - unat bits" in exI) (simp add: comb_empty not_less)
  next
    case True
    let ?bm = "bm[unat ptr := upd (bm ! unat ptr) msk]"
    have le: "unat bits \<le> unat len"
      using True by (simp add: word_le_nat_alt word_nat)
    have len': "unat (len - ucast bits) = unat len - unat bits"
      using True by (simp add: word_nat)
    have ptr: "unat ptr < length bm"
      using less.prems(2,4) le by linarith
    have ptr': "unat (ptr + 1) = Suc (unat ptr)"
      using ptr less.prems(5) unat_add_small [of ptr 1] by simp
    have step: "bitmap64_range_loop upd bm ptr len bits msk
        = bitmap64_range_loop upd ?bm (ptr + 1) (len - ucast bits) 64 (NOT 0)"
      using True ptr
      by (simp add: bitmap64_range_loop.simps [of upd bm ptr len bits msk] result_simps)
    have smaller: "unat (len - ucast bits) < unat len"
      using len' le less.prems(1) by linarith
    have room: "64 * unat (ptr + 1) + (64 - unat (64 :: u8)) + unat (len - ucast bits)
        \<le> 64 * length ?bm"
      using less.prems(2,4) le len' ptr' by simp
    from less.hyps [OF smaller _ _ _ room, of "NOT 0"]
    obtain bm' ptr'' len'' lo where
      run: "bitmap64_range_loop upd ?bm (ptr + 1) (len - ucast bits) 64 (NOT 0)
        = Inr (bm', ptr'', len'', NOT (mask lo))"
      and "length bm' = length bm" "lo < 64" "unat len'' < 64 - lo"
      and pos: "64 * unat ptr'' + lo + unat len'' = 64 * Suc (unat ptr) + (unat len - unat bits)"
      and mono: "64 * Suc (unat ptr) \<le> 64 * unat ptr'' + lo"
      and bits: "\<And>i. test_bit bm' i = comb (test_bit ?bm i)
        (64 * Suc (unat ptr) \<le> i \<and> i < 64 * unat ptr'' + lo)"
      using less.prems(5) le len' ptr' by auto
    have first: "test_bit ?bm i = comb (test_bit bm i) (?p \<le> i \<and> i < 64 * Suc (unat ptr))" for i
      using ptr less.prems(2,3) by (intro upd_interval) (auto simp: bit_high_mask)
    have "test_bit bm' i = comb (test_bit bm i) (?p \<le> i \<and> i < 64 * unat ptr'' + lo)" for i
      unfolding bits [of i] first [of i] using mono by (intro comb_join) auto
    then show ?thesis
      using step run \<open>length bm' = length bm\<close> \<open>lo < 64\<close> \<open>unat len'' < 64 - lo\<close> pos mono le less.prems(2)
      by (rule_tac x = bm' in exI, rule_tac x = ptr'' in exI, rule_tac x = len'' in exI,
          rule_tac x = lo in exI) auto
  qed
qed

lemma range_correct:
  assumes "unat start + unat len \<le> 64 * length bm" and "length bm < 2 ^ 64"
  shows "\<exists>bm'. bitmap64_range upd bm start len = Inr bm' \<and> length bm' = length bm
    \<and> (\<forall>i. test_bit bm' i =
        comb (test_bit bm i) (unat start \<le> i \<and> i < unat start + unat len))"
proof -
  let ?bits = "64 - ucast (start AND 63) :: u8"
  have small: "unat start mod 64 < 64" by simp
  have bits: "unat ?bits = 64 - unat start mod 64"
    by (simp add: unat_sub_le word_le_nat_alt unat_ucast_mod word_nat less_imp_le [OF small])
  have pos: "64 * unat (drop_bit 6 start) + (64 - unat ?bits) = unat start"
    by (simp add: bits word_nat less_imp_le [OF small])
  have msk: "push_bit (unat (start AND 63)) (NOT 0) = NOT (mask (64 - unat ?bits) :: u64)"
    by (simp add: bits word_nat less_imp_le [OF small])
  obtain bm' ptr' len' lo where
    run: "bitmap64_range_loop upd bm (drop_bit 6 start) len ?bits (NOT (mask (64 - unat ?bits)))
        = Inr (bm', ptr', len', NOT (mask lo))"
    and len': "length bm' = length bm" and lo: "lo < 64" and rem: "unat len' < 64 - lo"
    and stop: "64 * unat ptr' + lo + unat len' = unat start + unat len"
    and mono: "unat start \<le> 64 * unat ptr' + lo"
    and loop: "\<And>i. test_bit bm' i =
        comb (test_bit bm i) (unat start \<le> i \<and> i < 64 * unat ptr' + lo)"
    using range_loop [of ?bits _ "drop_bit 6 start" len bm] assms bits pos by auto
  show ?thesis
  proof (cases "len' = 0")
    case True
    then show ?thesis
      using run msk len' stop loop by (simp add: bitmap64_range_def Let_def)
  next
    case False
    let ?r = "lo + unat len'"
    let ?m = "NOT (mask lo) AND drop_bit (unat (- (start + len) AND 63)) (NOT 0) :: u64"
    have r: "0 < unat len'" using False by (simp add: unat_gt_0)
    have "unat (start + len) mod 64 = (unat start + unat len) mod 64"
      by (simp add: unat_word_ariths mod_mod_cancel)
    also have "\<dots> = ?r"
      unfolding stop [symmetric] using rem by (simp add: add.assoc)
    finally have "unat (- (start + len) AND 63) = 64 - ?r"
      using r unat_neg_mod_64 [of "start + len"] by (simp only: unat_and_63)
    then have m: "bit ?m j \<longleftrightarrow> lo \<le> j \<and> j < ?r" if "j < 64" for j
      using that rem by (auto simp: bit_and_iff bit_high_mask bit_mask_iff)
    have ptr: "unat ptr' < length bm'"
      using assms(1) stop r len' by linarith
    let ?bm = "bm'[unat ptr' := upd (bm' ! unat ptr') ?m]"
    have last: "test_bit ?bm i =
        comb (test_bit bm' i) (64 * unat ptr' + lo \<le> i \<and> i < 64 * unat ptr' + ?r)" for i
      using ptr rem m by (intro upd_interval) auto
    have "test_bit ?bm i = comb (test_bit bm i) (unat start \<le> i \<and> i < unat start + unat len)" for i
      unfolding last loop using mono stop comb_join [of "unat start" _ "64 * unat ptr' + ?r"]
      by (simp add: add.assoc)
    moreover have "bitmap64_range upd bm start len = Inr ?bm"
      using run msk False ptr
      by (simp add: bitmap64_range_def Let_def word_pos_iff result_simps)
    ultimately show ?thesis using len' by simp
  qed
qed

end

interpretation set_range: range_update "\<lambda>w m. w OR m" "(\<or>)"
  by unfold_locales (simp_all add: bit_or_iff)

interpretation clear_range: range_update "\<lambda>w m. w AND NOT m" "\<lambda>b c. b \<and> \<not> c"
  by unfold_locales (auto simp: bit_and_iff bit_not_iff dest: bit_imp_le_length)

lemma bitmap64_set_range_bits:
  assumes "unat start + unat len \<le> 64 * length bm" and "length bm < 2 ^ 64"
  shows "\<exists>bm'. bitmap64_set_range bm start len = Inr bm' \<and> length bm' = length bm
    \<and> bits_of bm' = bits_of bm \<union> {unat start ..< unat start + unat len}"
  using set_range.range_correct [OF assms] assms(1)
  by (fastforce simp: bitmap64_set_range_def bits_of_def)

lemma bitmap64_clear_range_bits:
  assumes "unat start + unat len \<le> 64 * length bm" and "length bm < 2 ^ 64"
  shows "\<exists>bm'. bitmap64_clear_range bm start len = Inr bm' \<and> length bm' = length bm
    \<and> bits_of bm' = bits_of bm - {unat start ..< unat start + unat len}"
  using clear_range.range_correct [OF assms] assms(1)
  by (fastforce simp: bitmap64_clear_range_def bits_of_def)

text \<open>A range that leaves the map makes the loop or the last store leave it too.\<close>

lemma range_loop_out:
  assumes "0 < unat bits" and "unat bits \<le> 64" and "length bm < 2 ^ 64"
    and "64 * unat ptr + (64 - unat bits) \<le> 64 * length bm"
    and "64 * length bm < 64 * unat ptr + (64 - unat bits) + unat len"
  shows "rbind (bitmap64_range_loop upd bm ptr len bits msk) (\<lambda>(bm, ptr, len, msk).
      if len > 0 then rbind (tget bm ptr) (g bm ptr len msk) else Inr bm) = Inl OutOfBounds"
  using assms
proof (induction "unat len" arbitrary: bm ptr len bits msk rule: less_induct)
  case less
  show ?case
  proof (cases "ucast bits \<le> len")
    case False
    then have "unat len < unat bits"
      by (simp add: not_le word_less_nat_alt word_nat)
    then have "length bm \<le> unat ptr" and "0 < unat len"
      using less.prems(2,4,5) by linarith+
    then show ?thesis
      using False by (simp add: bitmap64_range_loop.simps [of upd bm ptr len bits msk]
          tget_def word_less_nat_alt)
  next
    case True
    have le: "unat bits \<le> unat len"
      using True by (simp add: word_le_nat_alt word_nat)
    have len': "unat (len - ucast bits) = unat len - unat bits"
      using True by (simp add: word_nat)
    show ?thesis
    proof (cases "unat ptr < length bm")
      case False
      then show ?thesis
        using True by (simp add: bitmap64_range_loop.simps [of upd bm ptr len bits msk] tget_def)
    next
      case ptr: True
      have "unat (ptr + 1) = Suc (unat ptr)"
        using ptr less.prems(3) unat_add_small [of ptr 1] by simp
      then show ?thesis
        using less.hyps [of "len - ucast bits" 64 "bm[unat ptr := upd (bm ! unat ptr) msk]" "ptr + 1"
            "NOT 0"] True ptr less.prems len' le
        by (simp add: bitmap64_range_loop.simps [of upd bm ptr len bits msk] result_simps)
    qed
  qed
qed

lemma bitmap64_range_out:
  assumes "unat start \<le> 64 * length bm" and "64 * length bm < unat start + unat len"
    and "length bm < 2 ^ 64"
  shows "bitmap64_range upd bm start len = Inl OutOfBounds"
proof -
  let ?bits = "64 - ucast (start AND 63) :: u8"
  have small: "unat start mod 64 < 64" by simp
  have bits: "unat ?bits = 64 - unat start mod 64"
    by (simp add: unat_sub_le word_le_nat_alt unat_ucast_mod word_nat less_imp_le [OF small])
  have pos: "64 * unat (drop_bit 6 start) + (64 - unat ?bits) = unat start"
    by (simp add: bits word_nat less_imp_le [OF small])
  have "0 < unat ?bits" "unat ?bits \<le> 64"
    unfolding bits using small by linarith+
  then show ?thesis
    unfolding bitmap64_range_def Let_def using assms pos by (intro range_loop_out) linarith+
qed

lemma ctz_from_correct:
  assumes "bit data k" and "i \<le> k" and "\<And>j. j < i \<Longrightarrow> \<not> bit data j"
  shows "ctz_from data i \<le> k \<and> bit data (ctz_from data i) \<and> (\<forall>j < ctz_from data i. \<not> bit data j)"
  using assms
proof (induction data i rule: ctz_from.induct)
  case (1 data i)
  show ?case
  proof (cases "bit data i")
    case True
    then show ?thesis using 1 by (simp add: ctz_from.simps [of data i])
  next
    case False
    have "k < 64" using bit_imp_le_length [OF "1.prems"(1)] by simp
    moreover have "i < k" using False "1.prems"(1,2) by (metis le_neq_implies_less)
    ultimately show ?thesis
      using 1 False by (auto simp: ctz_from.simps [of data i] less_Suc_eq)
  qed
qed

lemma count_trailing_zeros_correct:
  assumes "data \<noteq> 0"
  shows "unat (count_trailing_zeros_bit64 data) < 64"
    and "bit data (unat (count_trailing_zeros_bit64 data))"
    and "j < unat (count_trailing_zeros_bit64 data) \<Longrightarrow> \<not> bit data j"
proof -
  obtain k where k: "bit data k" using assms by (auto simp: bit_eq_iff)
  have c: "ctz_from data 0 \<le> k" "bit data (ctz_from data 0)" "\<forall>j < ctz_from data 0. \<not> bit data j"
    using ctz_from_correct [OF k, of 0] by auto
  have "k < 64" using bit_imp_le_length [OF k] by simp
  then have "unat (count_trailing_zeros_bit64 data) = ctz_from data 0"
    using c(1) unfolding count_trailing_zeros_bit64_def by (intro unat_of_nat_small) simp
  then show "unat (count_trailing_zeros_bit64 data) < 64"
    "bit data (unat (count_trailing_zeros_bit64 data))"
    "j < unat (count_trailing_zeros_bit64 data) \<Longrightarrow> \<not> bit data j"
    using c \<open>k < 64\<close> by auto
qed

section \<open>Properties\<close>

text \<open>
  C26: \<open>bitmap64_set_range\<close> and \<open>bitmap64_clear_range\<close> set and clear exactly the bits
  \<open>start, \<dots>, start + len - 1\<close> of a map that holds them, whole words and partial words
  alike, and change neither another bit nor the length of the map.
\<close>

theorem bitmap64_ranges_exact:
  assumes "unat start + unat len \<le> 64 * length bm" and "length bm < 2 ^ 64"
  shows "(\<exists>bm'. bitmap64_set_range bm start len = Inr bm' \<and> length bm' = length bm
      \<and> bits_of bm' = bits_of bm \<union> {unat start ..< unat start + unat len})
    \<and> (\<exists>bm'. bitmap64_clear_range bm start len = Inr bm' \<and> length bm' = length bm
      \<and> bits_of bm' = bits_of bm - {unat start ..< unat start + unat len})"
  using bitmap64_set_range_bits [OF assms] bitmap64_clear_range_bits [OF assms] by blast

theorem bitmap64_ranges_exact_witness:
  "(\<exists>bm'. bitmap64_set_range [0, 5, NOT 0] 60 70 = Inr bm' \<and> length bm' = 3
      \<and> bits_of bm' = bits_of [0, 5, NOT 0] \<union> {60 ..< 130})
    \<and> (\<exists>bm'. bitmap64_clear_range [0, 5, NOT 0] 60 70 = Inr bm' \<and> length bm' = 3
      \<and> bits_of bm' = bits_of [0, 5, NOT 0] - {60 ..< 130})"
  using bitmap64_ranges_exact [of 60 70 "[0, 5, NOT 0]"] by (simp add: numeral_3_eq_3)

end
