(* ===== verification/Spinlock.thy ===== *)
theory Spinlock
  imports Prelude
begin

text \<open>
  The ticket lock of \<^verbatim>\<open>include/utils/spinlock.h\<close>. The union \<^verbatim>\<open>spinlock_t\<close> is a record
  of its two 16-bit members together with the 32-bit view \<open>lock_data\<close> that
  \<open>spin_lock_init\<close> and \<open>spin_trylock\<close> use (x86 is little-endian: \<open>obj.next\<close> is the low half).

  Two models of its use: \<open>spin_lock\<close> in a sequential run, where a ticket that is not being
  served can never be served and the wait is the value \<open>Deadlock\<close>; and a step relation
  \<open>lock_step\<close> in which any number of CPUs interleave, one atomic access to the lock at a time.
  For the step relation the ticket counters wrap around at \<open>2 ^ 16\<close> as in the code, and mutual
  exclusion, first-come-first-served order and the absence of a deadlock are shown for fewer
  than \<open>2 ^ 16\<close> CPUs.
\<close>

section \<open>The lock\<close>

record spinlock_t =
  lk_next :: u16
  lk_owner :: u16

definition lock_data :: "spinlock_t \<Rightarrow> u32" where
  "lock_data l = push_bit 16 (ucast (lk_owner l)) OR ucast (lk_next l)"

definition lock_of_data :: "u32 \<Rightarrow> spinlock_t" where
  "lock_of_data d = \<lparr>lk_next = ucast d, lk_owner = ucast (drop_bit 16 d)\<rparr>"

definition SPINLOCK_UNLOCKED :: spinlock_t where
  "SPINLOCK_UNLOCKED = lock_of_data 0"

definition spin_lock_init :: "spinlock_t \<Rightarrow> spinlock_t" where
  "spin_lock_init l = lock_of_data 0"

definition spin_lock :: "spinlock_t \<Rightarrow> spinlock_t result" where
  "spin_lock l =
     (let me = lk_next l; l = l\<lparr>lk_next := me + 1\<rparr>
      in if me \<noteq> lk_owner l then Inl Deadlock else Inr l)"

definition spin_unlock :: "spinlock_t \<Rightarrow> spinlock_t" where
  "spin_unlock l = l\<lparr>lk_owner := lk_owner l + 1\<rparr>"

definition spin_trylock :: "spinlock_t \<Rightarrow> bool \<times> spinlock_t" where
  "spin_trylock l =
     (let me = lk_next l;
          next' = me + 1;
          data = push_bit 16 (ucast me :: u32) + ucast me;
          new_data = push_bit 16 (ucast next' :: u32) + ucast me
      in if lock_data l = data then (True, lock_of_data new_data) else (False, l))"

section \<open>CPUs sharing a lock\<close>

text \<open>
  What a CPU does with the lock: nothing, spin with its ticket in the local variable \<open>me\<close>
  of \<open>spin_lock\<close>, or run its critical section.
\<close>

datatype cpu_pc = Idle | Spinning u16 | Critical u16

record lock_sys =
  ls_lock :: spinlock_t
  ls_pc :: "nat \<Rightarrow> cpu_pc"

text \<open>
  The atomic steps: the fetch-and-add of \<open>spin_lock\<close>, one evaluation of its loop condition
  that fails or succeeds, and the increment of \<open>spin_unlock\<close>. \<open>n\<close> is the number of CPUs.
\<close>

inductive lock_step :: "nat \<Rightarrow> lock_sys \<Rightarrow> lock_sys \<Rightarrow> bool" where
  take_ticket: "i < n \<Longrightarrow> ls_pc s i = Idle \<Longrightarrow> me = lk_next (ls_lock s) \<Longrightarrow>
    lock_step n s (s\<lparr>ls_lock := (ls_lock s)\<lparr>lk_next := me + 1\<rparr>,
                     ls_pc := (ls_pc s)(i := Spinning me)\<rparr>)"
| spin: "i < n \<Longrightarrow> ls_pc s i = Spinning me \<Longrightarrow> me \<noteq> lk_owner (ls_lock s) \<Longrightarrow>
    lock_step n s s"
| enter: "i < n \<Longrightarrow> ls_pc s i = Spinning me \<Longrightarrow> me = lk_owner (ls_lock s) \<Longrightarrow>
    lock_step n s (s\<lparr>ls_pc := (ls_pc s)(i := Critical me)\<rparr>)"
| release: "i < n \<Longrightarrow> ls_pc s i = Critical me \<Longrightarrow>
    lock_step n s (s\<lparr>ls_lock := spin_unlock (ls_lock s),
                     ls_pc := (ls_pc s)(i := Idle)\<rparr>)"

definition lock_sys_init :: lock_sys where
  "lock_sys_init = \<lparr>ls_lock = SPINLOCK_UNLOCKED, ls_pc = (\<lambda>_. Idle)\<rparr>"

inductive lock_reachable :: "nat \<Rightarrow> lock_sys \<Rightarrow> bool" where
  init: "lock_reachable n lock_sys_init"
| step: "lock_reachable n s \<Longrightarrow> lock_step n s t \<Longrightarrow> lock_reachable n t"

fun ticket :: "cpu_pc \<Rightarrow> u16" where
  "ticket Idle = 0"
| "ticket (Spinning me) = me"
| "ticket (Critical me) = me"

text \<open>The CPUs that hold a ticket, and a CPU's distance from being served.\<close>

definition active :: "nat \<Rightarrow> lock_sys \<Rightarrow> nat set" where
  "active n s = {i. i < n \<and> ls_pc s i \<noteq> Idle}"

definition place :: "lock_sys \<Rightarrow> nat \<Rightarrow> nat" where
  "place s i = unat (ticket (ls_pc s i) - lk_owner (ls_lock s))"

section \<open>Sequential behaviour\<close>

definition lock_free :: "spinlock_t \<Rightarrow> bool" where
  "lock_free l \<longleftrightarrow> lk_next l = lk_owner l"

lemma no_bit_beyond_u16: "16 \<le> n \<Longrightarrow> \<not> bit (w :: u16) n"
  by (auto dest: bit_imp_le_length)

lemma lock_data_roundtrip: "lock_of_data (lock_data l) = l"
  by (cases l)
     (auto simp: lock_data_def lock_of_data_def bit_simps no_bit_beyond_u16 intro!: bit_word_eqI)

lemma SPINLOCK_UNLOCKED_free [simp]: "lock_free SPINLOCK_UNLOCKED"
  by (simp add: lock_free_def SPINLOCK_UNLOCKED_def lock_of_data_def)

lemma spin_lock_free:
  assumes "lock_free l"
  shows "spin_lock l = Inr (l\<lparr>lk_next := lk_next l + 1\<rparr>)"
  using assms by (simp add: spin_lock_def lock_free_def)

lemma spin_lock_InrD:
  assumes "spin_lock l = Inr l'"
  shows "lock_free l \<and> l' = l\<lparr>lk_next := lk_next l + 1\<rparr>"
  using assms by (auto simp: spin_lock_def lock_free_def Let_def split: if_splits)

text \<open>A critical section leaves a free lock free.\<close>

lemma spin_unlock_after_lock:
  assumes "spin_lock l = Inr l'"
  shows "lock_free (spin_unlock l')"
  using spin_lock_InrD [OF assms] by (auto simp: lock_free_def spin_unlock_def)

lemma spin_lock_held:
  assumes "lock_free l" and "spin_lock l = Inr l'"
  shows "spin_lock l' = Inl Deadlock"
  using spin_lock_InrD [OF assms(2)] assms(1)
  by (auto simp: spin_lock_def lock_free_def)

section \<open>The invariant of the ticket lock\<close>

text \<open>
  The CPUs with a ticket occupy the places \<open>0, 1, \<dots>\<close> of a queue, each place once; the next
  ticket is the one behind the last place; only the CPU at place 0 is in its critical section.
\<close>

definition lock_inv :: "nat \<Rightarrow> lock_sys \<Rightarrow> bool" where
  "lock_inv n s \<longleftrightarrow>
     bij_betw (place s) (active n s) {0 ..< card (active n s)}
     \<and> lk_next (ls_lock s) = lk_owner (ls_lock s) + of_nat (card (active n s))
     \<and> (\<forall>i me. ls_pc s i = Critical me \<longrightarrow> i < n \<and> place s i = 0)"

lemma finite_active [simp]: "finite (active n s)"
  by (simp add: active_def)

lemma card_active_le: "card (active n s) \<le> n"
proof -
  have "active n s \<subseteq> {..<n}" by (auto simp: active_def)
  then show ?thesis
    by (metis card_lessThan card_mono finite_lessThan)
qed

lemma lock_inv_init: "lock_inv n lock_sys_init"
  by (simp add: lock_inv_def lock_sys_init_def active_def SPINLOCK_UNLOCKED_def
      lock_of_data_def bij_betw_def)

lemma unat_of_nat_u16: "k < 2 ^ 16 \<Longrightarrow> unat (of_nat k :: u16) = k"
  by (simp add: unsigned_of_nat take_bit_nat_eq_self)

lemma lock_inv_take:
  assumes inv: "lock_inv n s" and n: "n < 2 ^ 16" and i: "i < n" "ls_pc s i = Idle"
    and t: "t = s\<lparr>ls_lock := (ls_lock s)\<lparr>lk_next := lk_next (ls_lock s) + 1\<rparr>,
                  ls_pc := (ls_pc s)(i := Spinning (lk_next (ls_lock s)))\<rparr>"
  shows "lock_inv n t"
proof -
  let ?c = "card (active n s)"
  have fresh: "i \<notin> active n s" using i by (simp add: active_def)
  have act: "active n t = insert i (active n s)"
    using i t by (auto simp: active_def)
  have "place t i = unat (of_nat ?c :: u16)"
    using inv t by (simp add: place_def lock_inv_def)
  then have pi: "place t i = ?c"
    using card_active_le [of n s] n by (simp add: unat_of_nat_u16)
  have same: "place t j = place s j" if "j \<in> active n s" for j
    using that fresh t by (auto simp: place_def)
  have "bij_betw (place t) (active n s) {0 ..< ?c}"
    using inv same by (simp add: lock_inv_def cong: bij_betw_cong)
  then have "bij_betw (place t) (insert i (active n s)) (insert ?c {0 ..< ?c})"
    using fresh pi by (auto simp: bij_betw_def)
  moreover have "insert ?c {0 ..< ?c} = {0 ..< Suc ?c}" by auto
  moreover have "i' < n \<and> place t i' = 0" if "ls_pc t i' = Critical me" for i' me
  proof -
    have "ls_pc s i' = Critical me" and "i' \<noteq> i" using that t by (auto split: if_splits)
    then have "i' < n \<and> place s i' = 0" using inv by (simp add: lock_inv_def)
    moreover have "place t i' = place s i'" using t \<open>i' \<noteq> i\<close> by (simp add: place_def)
    ultimately show ?thesis by simp
  qed
  moreover have "lk_next (ls_lock t) = lk_owner (ls_lock t) + of_nat (Suc ?c)"
    using inv t by (simp add: lock_inv_def)
  ultimately show ?thesis
    unfolding lock_inv_def act using fresh by simp
qed

lemma lock_inv_enter:
  assumes inv: "lock_inv n s" and i: "i < n" "ls_pc s i = Spinning (lk_owner (ls_lock s))"
    and t: "t = s\<lparr>ls_pc := (ls_pc s)(i := Critical (lk_owner (ls_lock s)))\<rparr>"
  shows "lock_inv n t"
proof -
  have act: "active n t = active n s" using i t by (auto simp: active_def)
  have pl: "place t = place s" using i t by (auto simp: place_def fun_eq_iff)
  have "place s i = 0" using i by (simp add: place_def)
  then show ?thesis
    using inv act pl t i by (auto simp: lock_inv_def split: if_splits)
qed

lemma unat_minus_1: "x \<noteq> y \<Longrightarrow> unat (x - (y + 1) :: u16) = unat (x - y) - 1"
proof -
  assume "x \<noteq> y"
  then have "1 \<le> x - y"
    by (metis eq_iff_diff_eq_0 linorder_not_less word_less_1)
  then have "unat (x - y - 1) = unat (x - y) - unat (1 :: u16)"
    by (rule unat_sub_le)
  then show ?thesis by (simp add: algebra_simps)
qed

lemma lock_inv_release:
  assumes inv: "lock_inv n s" and i: "i < n" "ls_pc s i = Critical me"
    and t: "t = s\<lparr>ls_lock := spin_unlock (ls_lock s), ls_pc := (ls_pc s)(i := Idle)\<rparr>"
  shows "lock_inv n t"
proof -
  let ?A = "active n s" and ?c = "card (active n s)"
  have bij: "bij_betw (place s) ?A {0 ..< ?c}" using inv by (simp add: lock_inv_def)
  have mem: "i \<in> ?A" using i by (simp add: active_def)
  have pi: "place s i = 0" using inv i by (simp add: lock_inv_def)
  have act: "active n t = ?A - {i}" using i t by (auto simp: active_def)
  have c: "?c = Suc (card (?A - {i}))" by (rule card.remove [OF finite_active mem])
  have other: "0 < place s j" if "j \<in> ?A - {i}" for j
    using that bij mem pi inj_onD [of "place s" ?A j i] by (auto simp: bij_betw_def)
  have pt: "place t j = place s j - 1" if "j \<in> ?A - {i}" for j
  proof -
    have "ticket (ls_pc s j) \<noteq> lk_owner (ls_lock s)"
      using other [OF that] by (auto simp: place_def)
    then show ?thesis
      using that t unat_minus_1 [of "ticket (ls_pc s j)" "lk_owner (ls_lock s)"]
      by (simp add: place_def spin_unlock_def)
  qed
  have "bij_betw (place s) (?A - {i}) ({0 ..< ?c} - {0})"
    using bij mem pi inj_on_image_set_diff [of "place s" ?A ?A "{i}"]
    by (auto simp: bij_betw_def intro: inj_on_diff)
  moreover have "bij_betw (\<lambda>k. k - 1) ({0 ..< ?c} - {0}) {0 ..< card (?A - {i})}"
    unfolding c by (rule bij_betw_byWitness [where f' = Suc]) auto
  ultimately have "bij_betw ((\<lambda>k. k - 1) \<circ> place s) (?A - {i}) {0 ..< card (?A - {i})}"
    by (rule bij_betw_trans)
  then have "bij_betw (place t) (?A - {i}) {0 ..< card (?A - {i})}"
    using pt by (subst bij_betw_cong [where g = "(\<lambda>k. k - 1) \<circ> place s"]) auto
  moreover have "False" if "ls_pc t j = Critical me'" for j me'
  proof -
    have "ls_pc s j = Critical me'" and "j \<noteq> i" using that t by (auto split: if_splits)
    then have "j \<in> ?A - {i}" and "place s j = 0"
      using inv by (auto simp: lock_inv_def active_def)
    then show False using other [of j] by simp
  qed
  moreover have "lk_next (ls_lock t) = lk_owner (ls_lock t) + of_nat (card (?A - {i}))"
    using inv c t by (simp add: lock_inv_def spin_unlock_def)
  ultimately show ?thesis
    unfolding lock_inv_def act by blast
qed

lemma lock_step_inv: "lock_step n s t \<Longrightarrow> n < 2 ^ 16 \<Longrightarrow> lock_inv n s \<Longrightarrow> lock_inv n t"
  by (induction rule: lock_step.induct)
     (auto intro: lock_inv_take lock_inv_enter lock_inv_release)

lemma lock_reachable_inv: "lock_reachable n s \<Longrightarrow> n < 2 ^ 16 \<Longrightarrow> lock_inv n s"
  by (induction rule: lock_reachable.induct) (auto intro: lock_inv_init lock_step_inv)

section \<open>Properties of the ticket lock\<close>

lemma lock_inv_place_eq:
  assumes "lock_inv n s" and "i \<in> active n s" and "j \<in> active n s" and "place s i = place s j"
  shows "i = j"
  using assms by (auto simp: lock_inv_def bij_betw_def dest: inj_onD)

lemma lock_inv_served:
  assumes "lock_inv n s" and "active n s \<noteq> {}"
  shows "\<exists>i \<in> active n s. place s i = 0"
proof -
  have "0 \<in> {0 ..< card (active n s)}"
    using assms(2) by (simp add: card_gt_0_iff)
  then have "0 \<in> place s ` active n s"
    using assms(1) by (simp add: lock_inv_def bij_betw_def)
  then show ?thesis by force
qed

lemma place_zero_iff: "place s i = 0 \<longleftrightarrow> ticket (ls_pc s i) = lk_owner (ls_lock s)"
  by (simp add: place_def unat_eq_0)

text \<open>
  C6: mutual exclusion. With fewer than \<open>2 ^ 16\<close> CPUs (the build allows 16), in every state
  that the CPUs can reach by interleaving the atomic accesses of \<open>spin_lock\<close> and
  \<open>spin_unlock\<close>, with tickets wrapping around at 16 bits, no two CPUs are in a critical section.
\<close>

theorem ticket_lock_mutual_exclusion:
  assumes "lock_reachable n s" and "n < 2 ^ 16"
    and "ls_pc s i = Critical me" and "i \<noteq> j"
  shows "ls_pc s j \<noteq> Critical me'"
proof
  assume j: "ls_pc s j = Critical me'"
  have inv: "lock_inv n s"
    using assms(1,2) by (rule lock_reachable_inv)
  then have "i \<in> active n s \<and> place s i = 0" and "j \<in> active n s \<and> place s j = 0"
    using assms(3) j by (auto simp: lock_inv_def active_def)
  then have "i = j"
    using inv by (auto intro: lock_inv_place_eq)
  then show False using assms(4) by simp
qed

text \<open>A run of two CPUs: the first enters its critical section, the second spins.\<close>

definition two_cpu_state :: lock_sys where
  "two_cpu_state = \<lparr>ls_lock = \<lparr>lk_next = 2, lk_owner = 0\<rparr>,
     ls_pc = (\<lambda>_. Idle)(0 := Critical 0, 1 := Spinning 1)\<rparr>"

lemma two_cpu_state_reachable: "lock_reachable 2 two_cpu_state"
proof -
  let ?a = "lock_sys_init\<lparr>ls_lock := \<lparr>lk_next = 1, lk_owner = 0\<rparr>,
    ls_pc := (ls_pc lock_sys_init)(0 := Spinning 0)\<rparr>"
  let ?b = "?a\<lparr>ls_pc := (ls_pc ?a)(0 := Critical 0)\<rparr>"
  have "lock_step 2 lock_sys_init ?a"
    using lock_step.take_ticket [of 0 2 lock_sys_init 0]
    by (simp add: lock_sys_init_def SPINLOCK_UNLOCKED_def lock_of_data_def)
  moreover have "lock_step 2 ?a ?b"
    using lock_step.enter [of 0 2 ?a 0] by simp
  moreover have "lock_step 2 ?b two_cpu_state"
    using lock_step.take_ticket [of 1 2 ?b 1]
    by (simp add: two_cpu_state_def lock_sys_init_def)
  ultimately show ?thesis
    by (blast intro: lock_reachable.intros)
qed

theorem ticket_lock_mutual_exclusion_witness:
  "lock_reachable 2 two_cpu_state \<and> ls_pc two_cpu_state 0 = Critical 0
    \<and> ls_pc two_cpu_state 1 \<noteq> Critical 0"
proof -
  have crit: "ls_pc two_cpu_state 0 = Critical 0"
    by (simp add: two_cpu_state_def)
  show ?thesis
    using two_cpu_state_reachable crit
      ticket_lock_mutual_exclusion [OF two_cpu_state_reachable _ crit, of 1 0] by simp
qed

text \<open>
  C30: the lock is never lost. Whenever some CPU holds a ticket, exactly one CPU is being
  served: its ticket equals \<open>owner\<close>, so it is in its critical section or its next test of the
  loop condition of \<open>spin_lock\<close> succeeds.
\<close>

theorem ticket_lock_served:
  assumes "lock_reachable n s" and "n < 2 ^ 16" and "j < n" and "ls_pc s j \<noteq> Idle"
  shows "\<exists>!i. i < n \<and> ls_pc s i \<in> {Critical (lk_owner (ls_lock s)),
    Spinning (lk_owner (ls_lock s))}"
proof -
  have inv: "lock_inv n s"
    using assms(1,2) by (rule lock_reachable_inv)
  have served: "(i < n \<and> ls_pc s i \<in> {Critical (lk_owner (ls_lock s)),
      Spinning (lk_owner (ls_lock s))}) \<longleftrightarrow> i \<in> active n s \<and> place s i = 0" for i
    by (cases "ls_pc s i") (auto simp: active_def place_zero_iff)
  have "active n s \<noteq> {}"
    using assms(3,4) by (auto simp: active_def)
  then obtain i where "i \<in> active n s \<and> place s i = 0"
    using lock_inv_served [OF inv] by blast
  then show ?thesis
    unfolding served using lock_inv_place_eq [OF inv] by (intro ex1I [of _ i]) auto
qed

theorem ticket_lock_served_witness:
  "\<exists>!i. i < 2 \<and> ls_pc two_cpu_state i \<in> {Critical (lk_owner (ls_lock two_cpu_state)),
    Spinning (lk_owner (ls_lock two_cpu_state))}"
  using ticket_lock_served [OF two_cpu_state_reachable, of 1] by (simp add: two_cpu_state_def)

text \<open>
  first come, first served. A step never lets a CPU overtake another: while both keep
  their tickets, the one that took its ticket first stays ahead in the queue.
\<close>

theorem ticket_lock_fifo:
  assumes "lock_reachable n s" and "n < 2 ^ 16" and "lock_step n s t"
    and "i \<in> active n s \<inter> active n t" and "j \<in> active n s \<inter> active n t"
    and "place s i < place s j"
  shows "place t i < place t j"
proof -
  have inv: "lock_inv n s"
    using assms(1,2) by (rule lock_reachable_inv)
  show ?thesis
    using assms(3)
  proof cases
    case (take_ticket k me)
    then have "k \<noteq> i" and "k \<noteq> j"
      using assms(4,5) by (auto simp: active_def)
    then show ?thesis
      using assms(6) take_ticket by (simp add: place_def)
  next
    case spin
    then show ?thesis using assms(6) by simp
  next
    case (enter k me)
    then have "place t = place s" by (auto simp: place_def)
    then show ?thesis using assms(6) by simp
  next
    case (release k me)
    have served: "place s k = 0" and "k \<in> active n s"
      using release inv by (auto simp: lock_inv_def active_def)
    have "k \<noteq> i" and "k \<noteq> j"
      using assms(4,5) release by (auto simp: active_def)
    moreover from this have "place s i \<noteq> 0"
      using assms(4) served lock_inv_place_eq [OF inv _ \<open>k \<in> active n s\<close>, of i] by auto
    moreover have "place t x = place s x - 1" if "x \<noteq> k" "place s x \<noteq> 0" for x
      using that release by (simp add: place_def spin_unlock_def unat_minus_1 unat_eq_0)
    ultimately show ?thesis
      using assms(6) by simp
  qed
qed

theorem ticket_lock_fifo_witness:
  "place two_cpu_state 0 < place two_cpu_state 1"
proof -
  let ?t = two_cpu_state
  have "lock_step 2 ?t ?t"
    using lock_step.spin [of 1 2 ?t 1] by (simp add: two_cpu_state_def)
  then show ?thesis
    using ticket_lock_fifo [OF two_cpu_state_reachable, of ?t 0 1]
    by (simp add: two_cpu_state_def active_def place_def)
qed

text \<open>
  C40: a successful \<open>spin_trylock\<close> does not take the lock. It writes the incremented ticket
  into the half of the word that holds \<open>owner\<close> instead of the one that holds \<open>next\<close>: no
  ticket is drawn and \<open>owner\<close> runs one ahead. The next caller of \<open>spin_lock\<close> draws a ticket that
  \<open>owner\<close> has passed and waits, before and also after the matching \<open>spin_unlock\<close>. The caller
  after that one draws the ticket equal to \<open>owner\<close> and enters at once, while the lock is held by
  \<open>spin_trylock\<close>: mutual exclusion is lost.
\<close>

theorem spin_trylock_swaps_halves:
  assumes "lock_free l"
  shows "\<exists>l'. spin_trylock l = (True, l') \<and> lk_next l' = lk_next l
    \<and> lk_owner l' = lk_owner l + 1
    \<and> spin_lock l' = Inl Deadlock \<and> spin_lock (spin_unlock l') = Inl Deadlock
    \<and> spin_lock (l'\<lparr>lk_next := lk_next l' + 1\<rparr>) = Inr (l'\<lparr>lk_next := lk_next l' + 1 + 1\<rparr>)"
proof -
  let ?me = "lk_next l"
  have halves: "push_bit 16 (ucast a :: u32) + ucast b = push_bit 16 (ucast a) OR ucast b"
    for a b :: u16
    by (rule disjunctive_add) (auto simp: bit_simps no_bit_beyond_u16)
  have "lock_data l = push_bit 16 (ucast ?me) + ucast ?me"
    using assms by (simp add: halves lock_data_def lock_free_def)
  moreover have "lock_of_data (push_bit 16 (ucast (?me + 1)) + ucast ?me)
      = \<lparr>lk_next = ?me, lk_owner = ?me + 1\<rparr>"
    unfolding halves using lock_data_roundtrip [of "\<lparr>lk_next = ?me, lk_owner = ?me + 1\<rparr>"]
    by (simp add: lock_data_def)
  moreover have "?me + 1 + 1 \<noteq> ?me"
    by simp
  ultimately show ?thesis
    using assms by (simp add: spin_trylock_def Let_def lock_free_def spin_lock_def spin_unlock_def)
qed

theorem spin_trylock_swaps_halves_witness:
  "\<exists>l'. spin_trylock SPINLOCK_UNLOCKED = (True, l') \<and> lk_next l' = lk_next SPINLOCK_UNLOCKED
    \<and> lk_owner l' = lk_owner SPINLOCK_UNLOCKED + 1
    \<and> spin_lock l' = Inl Deadlock \<and> spin_lock (spin_unlock l') = Inl Deadlock
    \<and> spin_lock (l'\<lparr>lk_next := lk_next l' + 1\<rparr>) = Inr (l'\<lparr>lk_next := lk_next l' + 1 + 1\<rparr>)"
  by (rule spin_trylock_swaps_halves) simp

end
