(* ===== verification/Physical_Runs.thy ===== *)
theory Physical_Runs
  imports Physical
begin

text \<open>
  Contiguous allocation: what \<open>alloc_phys_frames\<close>, \<open>alloc_phys_frames_aligned\<close> and
  \<open>physical_next_free_range\<close> of \<^verbatim>\<open>kernel/mm/physical.c\<close> find. The scans are related to the
  set of free frames, the fuel of the loops is shown to be enough, and the places where the
  search leaves the table or overlooks a run are exhibited.
\<close>

section \<open>Scanning for runs\<close>

lemma test_bit_frames: "p < 64 * length t \<Longrightarrow> test_bit t p \<longleftrightarrow> p \<in> bits_of t"
  by (simp add: bits_of_def)

lemma bitmap64_get_bits:
  assumes "unat i < 64 * length t"
  shows "bitmap64_get t i = Inr (if unat i \<in> bits_of t then 1 else 0)"
  using assms by (simp add: bitmap64_get_eq test_bit_frames)

lemma unat_Suc_small: "unat (i :: u64) + 1 < 2 ^ 64 \<Longrightarrow> unat (i + 1) = Suc (unat i)"
  using unat_add_small [of i 1] by simp

lemma scan_free_correct:
  assumes "length t \<le> 2 ^ 46" and "unat pos \<le> 64 * length t"
    and "64 * length t < fuel + unat pos"
  shows "case lowest_in (bits_of t) (unat pos) (64 * length t) of
      None \<Rightarrow> scan_free fuel t pos = Inl OutOfBounds
    | Some q \<Rightarrow> scan_free fuel t pos = Inr (of_nat q)"
  using assms
proof (induction fuel arbitrary: pos)
  case 0
  then show ?case by simp
next
  case (Suc fuel)
  have fin: "finite (bits_of t)" by (simp add: bits_of_def)
  show ?case
  proof (cases "unat pos < 64 * length t")
    case False
    then have "lowest_in (bits_of t) (unat pos) (64 * length t) = None"
      by (auto simp: lowest_in_def)
    then show ?thesis
      using False by (simp add: bitmap64_get_out)
  next
    case True
    show ?thesis
    proof (cases "unat pos \<in> bits_of t")
      case mem: True
      then have "lowest_in (bits_of t) (unat pos) (64 * length t) = Some (unat pos)"
        using True fin by (intro lowest_in_SomeI) auto
      then show ?thesis using mem True by (simp add: bitmap64_get_bits)
    next
      case no: False
      have nxt: "unat (pos + 1) = Suc (unat pos)"
        using True Suc.prems(1) by (intro unat_Suc_small) simp
      have skip: "lowest_in (bits_of t) (unat pos) (64 * length t)
          = lowest_in (bits_of t) (unat (pos + 1)) (64 * length t)"
        unfolding nxt using no by (intro lowest_in_skip) (auto simp: less_Suc_eq_le not_less_eq_eq
            intro: le_neq_implies_less)
      have step: "scan_free (Suc fuel) t pos = scan_free fuel t (pos + 1)"
        using no True by (simp add: bitmap64_get_bits)
      show ?thesis
        unfolding skip step using Suc.prems True nxt by (intro Suc.IH) auto
    qed
  qed
qed

lemma count_run_cases:
  assumes "length t \<le> 2 ^ 46" and "unat cur \<le> 64 * length t" and "count \<le> num"
  shows "count_run t num cur count = Inl OutOfBounds
    \<or> (\<exists>n. count_run t num cur count = Inr (cur + of_nat n, count + of_nat n)
        \<and> unat count + n \<le> unat num \<and> unat cur + n \<le> 64 * length t
        \<and> {unat cur ..< unat cur + n} \<subseteq> bits_of t
        \<and> (unat count + n < unat num \<longrightarrow>
            unat cur + n < 64 * length t \<and> unat cur + n \<notin> bits_of t))"
  using assms
proof (induction t num cur count rule: count_run.induct)
  case (1 t num cur count)
  show ?case
  proof (cases "count < num")
    case False
    then have "count_run t num cur count = Inr (cur + of_nat 0, count + of_nat 0)"
      by (simp add: count_run.simps [of t num cur count])
    then show ?thesis
      using False "1.prems" by (intro disjI2 exI [of _ 0]) (auto simp: word_le_nat_alt not_less)
  next
    case lt: True
    show ?thesis
    proof (cases "unat cur < 64 * length t")
      case False
      then show ?thesis
        using lt by (simp add: count_run.simps [of t num cur count] bitmap64_get_out)
    next
      case in_t: True
      show ?thesis
      proof (cases "unat cur \<in> bits_of t")
        case False
        then have "count_run t num cur count = Inr (cur + of_nat 0, count + of_nat 0)"
          using lt in_t by (simp add: count_run.simps [of t num cur count] bitmap64_get_bits)
        then show ?thesis
          using False in_t lt by (intro disjI2 exI [of _ 0]) (auto simp: word_less_nat_alt)
      next
        case mem: True
        have cur: "unat (cur + 1) = Suc (unat cur)"
          using in_t "1.prems"(1) by (intro unat_Suc_small) simp
        have count: "unat (count + 1) = Suc (unat count)"
          using lt by (rule unat_Suc_below)
        have step: "count_run t num cur count = count_run t num (cur + 1) (count + 1)"
          using lt in_t mem by (simp add: count_run.simps [of t num cur count] bitmap64_get_bits)
        have "count + 1 \<le> num" using lt by (rule inc_le)
        then consider "count_run t num (cur + 1) (count + 1) = Inl OutOfBounds"
          | n where "count_run t num (cur + 1) (count + 1)
                = Inr (cur + 1 + of_nat n, count + 1 + of_nat n)"
            "Suc (unat count) + n \<le> unat num" "Suc (unat cur) + n \<le> 64 * length t"
            "{Suc (unat cur) ..< Suc (unat cur) + n} \<subseteq> bits_of t"
            "Suc (unat count) + n < unat num \<longrightarrow>
              Suc (unat cur) + n < 64 * length t \<and> Suc (unat cur) + n \<notin> bits_of t"
          using "1.IH" [OF lt bitmap64_get_bits [OF in_t]] mem in_t "1.prems"(1) cur count
          by auto
        then show ?thesis
        proof cases
          case 1
          then show ?thesis using step by simp
        next
          case (2 n)
          have "{unat cur ..< unat cur + Suc n} = insert (unat cur) {Suc (unat cur) ..< Suc (unat cur) + n}"
            by auto
          then have "{unat cur ..< unat cur + Suc n} \<subseteq> bits_of t"
            using 2(4) mem by simp
          then show ?thesis
            using 2 step by (intro disjI2 exI [of _ "Suc n"]) (simp add: algebra_simps)
        qed
      qed
    qed
  qed
qed

section \<open>Contiguous frames\<close>

text \<open>A run of free frames, and the outcome of a successful contiguous allocation.\<close>

definition took_run :: "phys \<Rightarrow> nat \<Rightarrow> nat \<Rightarrow> u64 \<times> phys \<Rightarrow> bool" where
  "took_run st p n out \<longleftrightarrow>
     {p ..< p + n} \<subseteq> frames st \<and> fst out = of_nat (4096 * p)
     \<and> (\<exists>t. snd out = unlock_phys (st\<lparr>mm_table := t\<rparr>) \<and> length t = length (mm_table st)
           \<and> bits_of t = frames st - {p ..< p + n})"

lemma push_PG_BITS: "push_bit PG_BITS (of_nat p) = (of_nat (4096 * p) :: u64)"
  by (simp add: PG_BITS_def push_bit_eq_mult mult.commute)

lemma clear_run:
  assumes "length (mm_table st) \<le> 2 ^ 46" and "p + unat num \<le> 64 * length (mm_table st)"
    and "{p ..< p + unat num} \<subseteq> frames st"
  shows "\<exists>out. rbind (bitmap64_clear_range (mm_table st) (of_nat p) num)
      (\<lambda>t. Inr (push_bit PG_BITS (of_nat p), unlock_phys (st\<lparr>mm_table := t\<rparr>))) = Inr out
    \<and> took_run st p (unat num) out"
proof -
  have p: "unat (of_nat p :: u64) = p"
    using assms(1,2) by (intro unat_of_nat_small) simp
  then obtain t where "bitmap64_clear_range (mm_table st) (of_nat p) num = Inr t"
    "length t = length (mm_table st)" "bits_of t = frames st - {p ..< p + unat num}"
    using bitmap64_clear_range_bits [of "of_nat p" num "mm_table st"] assms(1,2)
    by (auto simp: frames_def)
  then show ?thesis
    using assms(3) by (auto simp: took_run_def push_PG_BITS)
qed

lemma unat_pos_plus_64:
  assumes "length t \<le> 2 ^ 46" and "unat (pos :: u64) < 64 * length t"
  shows "unat (pos + 64) = unat pos + 64"
  using assms by (intro unat_add_small [of pos 64, simplified]) simp

text \<open>One pass of the search: to the next free frame, then along its run.\<close>

lemma search_run_cases:
  assumes "length t \<le> 2 ^ 46" and "unat pos < 64 * length t"
  shows "(\<forall>k :: u64 \<Rightarrow> u64 \<times> u64 \<Rightarrow> (u64 \<times> phys) result.
      rbind (scan_free (Suc (64 * length t)) t pos)
        (\<lambda>pos. rbind (count_run t num pos 0) (k pos)) = Inl OutOfBounds)
    \<or> (\<exists>q n. scan_free (Suc (64 * length t)) t pos = Inr (of_nat q)
        \<and> count_run t num (of_nat q) 0 = Inr (of_nat (q + n), of_nat n)
        \<and> unat pos \<le> q \<and> n \<le> unat num \<and> q + n \<le> 64 * length t
        \<and> {q ..< q + n} \<subseteq> bits_of t \<and> (n < unat num \<longrightarrow> q + n < 64 * length t))"
proof (cases "lowest_in (bits_of t) (unat pos) (64 * length t)")
  case None
  then show ?thesis
    using scan_free_correct [of t pos "Suc (64 * length t)"] assms by simp
next
  case (Some q)
  then have scan: "scan_free (Suc (64 * length t)) t pos = Inr (of_nat q)"
    using scan_free_correct [of t pos "Suc (64 * length t)"] assms by simp
  have q: "unat pos \<le> q" "q < 64 * length t"
    using Some by (auto simp: lowest_in_Some_iff bits_of_def)
  then have "unat (of_nat q :: u64) = q"
    using assms(1) by (intro unat_of_nat_small) simp
  then show ?thesis
    using count_run_cases [of t "of_nat q" 0 num] assms(1) q scan by auto
qed

lemma alloc_frames_loop_hit:
  assumes "length (mm_table st) \<le> 2 ^ 46" and "i < entry_end st"
    and "unat i < length (mm_table st)" and "mm_table st ! unat i \<noteq> 0"
    and "scan_free (Suc (64 * length (mm_table st))) (mm_table st) pos = Inr (of_nat q)"
    and "count_run (mm_table st) num (of_nat q) 0 = Inr (of_nat (q + unat num), num)"
    and "{q ..< q + unat num} \<subseteq> frames st" and "q + unat num \<le> 64 * length (mm_table st)"
  shows "\<exists>out. alloc_frames_loop (Suc fuel) st num i pos = Inr out \<and> took_run st q (unat num) out"
  using assms clear_run [of st q num] by (simp add: result_simps)

lemma alloc_frames_loop_cases:
  assumes "length (mm_table st) \<le> 2 ^ 46" and "unat (entry_end st) \<le> length (mm_table st)"
    and "unat i = unat pos div 64" and "unat pos \<le> 64 * length (mm_table st) + 63"
    and "256 \<le> unat pos" and "64 * length (mm_table st) + 64 \<le> fuel + unat pos"
  shows "alloc_frames_loop fuel st num i pos = Inl OutOfBounds
    \<or> alloc_frames_loop fuel st num i pos = Inr (0, unlock_phys st)
    \<or> (\<exists>p out. alloc_frames_loop fuel st num i pos = Inr out \<and> 256 \<le> p
        \<and> p + unat num \<le> 64 * length (mm_table st) \<and> took_run st p (unat num) out)"
  using assms
proof (induction fuel arbitrary: i pos)
  case 0
  then show ?case by simp
next
  case (Suc fuel)
  let ?t = "mm_table st"
  have i: "unat i < length ?t" if "i < entry_end st"
    using that Suc.prems(2) by (simp add: word_less_nat_alt)
  then have pos: "unat pos < 64 * length ?t" if "i < entry_end st"
    using that Suc.prems(3) by (simp add: div_64_less)
  consider (stop) "\<not> i < entry_end st"
    | (zero) "i < entry_end st" "?t ! unat i = 0"
    | (oob) "i < entry_end st" "?t ! unat i \<noteq> 0"
        "\<forall>k :: u64 \<Rightarrow> u64 \<times> u64 \<Rightarrow> (u64 \<times> phys) result. rbind (scan_free (Suc (64 * length ?t)) ?t pos)
          (\<lambda>pos. rbind (count_run ?t num pos 0) (k pos)) = Inl OutOfBounds"
    | (run) q n where "i < entry_end st" "?t ! unat i \<noteq> 0"
        "scan_free (Suc (64 * length ?t)) ?t pos = Inr (of_nat q)"
        "count_run ?t num (of_nat q) 0 = Inr (of_nat (q + n), of_nat n)"
        "unat pos \<le> q" "n \<le> unat num" "q + n \<le> 64 * length ?t"
        "{q ..< q + n} \<subseteq> bits_of ?t" "n < unat num \<longrightarrow> q + n < 64 * length ?t"
    using search_run_cases [OF Suc.prems(1) pos, of num]
    by (cases "i < entry_end st"; cases "?t ! unat i = 0") blast+
  then show ?case
  proof cases
    case stop
    then show ?thesis by simp
  next
    case zero
    have plus: "unat (pos + 64) = unat pos + 64"
      using Suc.prems(1) pos [OF zero(1)] by (rule unat_pos_plus_64)
    have "alloc_frames_loop (Suc fuel) st num i pos
        = alloc_frames_loop fuel st num (i + 1) (pos + 64)"
      using i zero by (simp add: result_simps)
    moreover have "unat (i + 1) = unat (pos + 64) div 64"
      using unat_Suc_below [OF zero(1)] plus Suc.prems(3) by simp
    ultimately show ?thesis
      using Suc.IH [of "i + 1" "pos + 64"] Suc.prems pos [OF zero(1)] plus by simp
  next
    case oob
    then show ?thesis using i by (simp add: result_simps)
  next
    case (run q n)
    show ?thesis
    proof (cases "n = unat num")
      case True
      then show ?thesis
        using alloc_frames_loop_hit [of st i pos q num fuel] run Suc.prems(1,5) i
        by (force simp: frames_def)
    next
      case False
      let ?pos = "of_nat (q + n) + 1 :: u64"
      have un: "unat (of_nat n :: u64) = n" and uq: "unat (of_nat (q + n) :: u64) = q + n"
        using run(7) Suc.prems(1) by (intro unat_of_nat_small; simp)+
      have "of_nat n \<noteq> num" using False un by auto
      then have "alloc_frames_loop (Suc fuel) st num i pos
          = alloc_frames_loop fuel st num (drop_bit 6 ?pos) ?pos"
        using run i by (simp add: result_simps Let_def)
      moreover have "unat ?pos = Suc (q + n)"
        using uq run(7) Suc.prems(1) by (subst unat_Suc_small) simp_all
      ultimately show ?thesis
        using Suc.IH [of "drop_bit 6 ?pos" ?pos] Suc.prems run(5-9) False
        by (simp add: unat_shiftr)
    qed
  qed
qed

section \<open>Contiguous frames, aligned\<close>

lemma scan_free_aligned_correct:
  assumes "length t \<le> 2 ^ 46" and "unat limit \<le> 64 * length t"
    and "0 < unat inc" and "unat inc \<le> 2 ^ 52" and "unat limit \<le> fuel + unat pos"
  shows "\<exists>pos'. scan_free_aligned (Suc fuel) t limit inc pos = Inr pos'
    \<and> unat pos \<le> unat pos' \<and> (unat inc dvd unat pos \<longrightarrow> unat inc dvd unat pos')
    \<and> (unat pos' < unat limit \<longrightarrow> unat pos' \<in> bits_of t)"
  using assms
proof (induction fuel arbitrary: pos)
  case 0
  then show ?case by (simp add: word_less_nat_alt)
next
  case (Suc fuel)
  show ?case
  proof (cases "pos < limit \<and> unat pos \<notin> bits_of t")
    case False
    then have "scan_free_aligned (Suc (Suc fuel)) t limit inc pos = Inr pos"
      using Suc.prems(2) bitmap64_get_bits [of pos t] by (auto simp: word_less_nat_alt)
    then show ?thesis
      using False by (auto simp: word_less_nat_alt)
  next
    case True
    then have lt: "unat pos < unat limit" by (simp add: word_less_nat_alt)
    then have plus: "unat (pos + inc) = unat pos + unat inc"
      using Suc.prems(1,2,4) by (intro unat_add_small) simp
    have "scan_free_aligned (Suc (Suc fuel)) t limit inc pos
        = scan_free_aligned (Suc fuel) t limit inc (pos + inc)"
      using True lt Suc.prems(2) bitmap64_get_bits [of pos t] by simp
    moreover have "unat limit \<le> fuel + unat (pos + inc)"
      using plus Suc.prems(3,5) by simp
    ultimately show ?thesis
      using Suc.IH [of "pos + inc"] Suc.prems(1-4) plus by auto
  qed
qed

lemma count_run_limit_correct:
  assumes "length t \<le> 2 ^ 46" and "unat limit \<le> 64 * length t" and "count \<le> num"
  shows "\<exists>n. count_run_limit t limit num cur count = Inr (cur + of_nat n, count + of_nat n)
    \<and> unat count + n \<le> unat num \<and> {unat cur ..< unat cur + n} \<subseteq> bits_of t
    \<and> (0 < n \<longrightarrow> unat cur + n \<le> unat limit)"
  using assms
proof (induction t limit num cur count rule: count_run_limit.induct)
  case (1 t limit num cur count)
  show ?case
  proof (cases "count < num \<and> cur < limit \<and> unat cur \<in> bits_of t")
    case False
    then have "count_run_limit t limit num cur count = Inr (cur, count)"
      using "1.prems"(2) bitmap64_get_bits [of cur t]
      by (auto simp: count_run_limit.simps [of t limit num cur count] word_less_nat_alt)
    then show ?thesis
      using "1.prems"(3) by (intro exI [of _ 0]) (simp add: word_le_nat_alt)
  next
    case True
    then have count: "unat (count + 1) = Suc (unat count)" and cur: "unat (cur + 1) = Suc (unat cur)"
      and le: "count + 1 \<le> num" and in_t: "unat cur < 64 * length t"
      using "1.prems"(2) by (auto simp: unat_Suc_below inc_le word_less_nat_alt)
    have guard: "count < num \<and> cur < limit" using True by simp
    have step: "count_run_limit t limit num cur count
        = count_run_limit t limit num (cur + 1) (count + 1)"
      using True in_t by (simp add: count_run_limit.simps [of t limit num cur count]
          bitmap64_get_bits)
    obtain n where n: "count_run_limit t limit num (cur + 1) (count + 1)
          = Inr (cur + 1 + of_nat n, count + 1 + of_nat n)"
      "Suc (unat count) + n \<le> unat num" "{Suc (unat cur) ..< Suc (unat cur) + n} \<subseteq> bits_of t"
      "0 < n \<longrightarrow> Suc (unat cur) + n \<le> unat limit"
      using "1.IH" [OF guard bitmap64_get_bits [OF in_t]] True "1.prems"(1,2) le count cur by auto
    have "{unat cur ..< unat cur + Suc n} = insert (unat cur) {Suc (unat cur) ..< Suc (unat cur) + n}"
      by auto
    then have "{unat cur ..< unat cur + Suc n} \<subseteq> bits_of t"
      using n(3) True by simp
    then show ?thesis
      using n step True
      by (intro exI [of _ "Suc n"]) (auto simp: algebra_simps word_less_nat_alt Suc_le_eq)
  qed
qed

lemma round_up_dvd: "(0 :: nat) < m \<Longrightarrow> m dvd a + m - a mod m"
proof -
  assume "0 < m"
  have "a + m - a mod m = m * (a div m) + m"
    using mult_div_mod_eq [of m a] mod_less_divisor [OF \<open>0 < m\<close>, of a] by linarith
  then show ?thesis by simp
qed

lemma align_step:
  assumes "unat (pos :: u64) \<le> 2 ^ 52" and "unat inc \<le> 2 ^ 52" and "0 < unat inc"
    and "pos' = (if pos mod inc \<noteq> 0 then pos + inc - pos mod inc else pos)"
  shows "unat inc dvd unat pos' \<and> unat pos \<le> unat pos' \<and> unat pos' \<le> unat pos + unat inc"
proof (cases "pos mod inc = 0")
  case True
  then have "unat pos mod unat inc = 0"
    by (metis unat_0 unat_mod)
  then show ?thesis
    using True assms(4) by (simp add: dvd_eq_mod_eq_0)
next
  case False
  have m: "unat (pos mod inc) = unat pos mod unat inc" by (rule unat_mod)
  have lt: "unat pos mod unat inc < unat inc" using assms(3) by simp
  have sum: "unat (pos + inc) = unat pos + unat inc"
    using assms(1,2) by (intro unat_add_small) simp
  have "pos mod inc \<le> pos + inc"
    unfolding word_le_nat_alt m sum using lt by linarith
  then have "unat pos' = unat pos + unat inc - unat pos mod unat inc"
    using False by (simp only: assms(4) unat_sub_le m sum if_True not_False_eq_True)
  then show ?thesis
    using lt round_up_dvd [OF assms(3), of "unat pos"] by simp
qed

text \<open>What the aligned search returns: nothing, or a run that starts at a multiple of \<open>inc\<close>.\<close>

definition aligned_outcome :: "phys \<Rightarrow> u64 \<Rightarrow> u64 \<Rightarrow> (u64 \<times> phys) result \<Rightarrow> bool" where
  "aligned_outcome st inc num r \<longleftrightarrow>
     r = Inr (0, unlock_phys st)
     \<or> (\<exists>p out. r = Inr out \<and> 256 \<le> p \<and> unat inc dvd p \<and> p + unat num \<le> unat (mm_limit st)
         \<and> took_run st p (unat num) out)"

lemma alloc_aligned_pass:
  assumes "length (mm_table st) \<le> 2 ^ 46" and "unat (mm_limit st) \<le> 64 * length (mm_table st)"
    and "0 < unat inc" and "unat inc \<le> 2 ^ 52" and "unat inc dvd unat pos" and "256 \<le> unat pos"
    and "i < entry_end st" and "unat i < length (mm_table st)" and "mm_table st ! unat i \<noteq> 0"
    and "0 < num"
  shows "aligned_outcome st inc num (alloc_aligned_loop (Suc fuel) st num inc i_inc i pos)
    \<or> (\<exists>pos'. alloc_aligned_loop (Suc fuel) st num inc i_inc i pos
          = alloc_aligned_loop fuel st num inc i_inc (drop_bit 6 pos') pos'
        \<and> unat pos < unat pos' \<and> unat inc dvd unat pos' \<and> unat pos' \<le> 2 ^ 54)"
proof -
  let ?t = "mm_table st" and ?lim = "mm_limit st"
  obtain p where scan: "scan_free_aligned (Suc (64 * length ?t)) ?t ?lim inc pos = Inr p"
    and p: "unat pos \<le> unat p" "unat inc dvd unat p"
    using scan_free_aligned_correct [of ?t ?lim inc "64 * length ?t" pos] assms(1-5) by auto
  obtain n where run: "count_run_limit ?t ?lim num p 0 = Inr (p + of_nat n, of_nat n)"
    and n: "n \<le> unat num" "{unat p ..< unat p + n} \<subseteq> bits_of ?t"
      "0 < n \<longrightarrow> unat p + n \<le> unat ?lim"
    using count_run_limit_correct [of ?t ?lim 0 num p] assms(1,2) by auto
  have un: "unat (of_nat n :: u64) = n"
    using n(1) unat_u64_less [of num] by (intro unat_of_nat_small) simp
  show ?thesis
  proof (cases "n = unat num")
    case True
    then have lim: "unat p + unat num \<le> unat ?lim" and num: "of_nat n = num"
      using n(3) assms(10) un by (auto simp: word_less_nat_alt)
    have "alloc_aligned_loop (Suc fuel) st num inc i_inc i pos
        = rbind (bitmap64_clear_range ?t (of_nat (unat p)) num)
            (\<lambda>t. Inr (push_bit PG_BITS (of_nat (unat p)), unlock_phys (st\<lparr>mm_table := t\<rparr>)))"
      using assms(7-9) scan run num by (simp add: result_simps)
    then show ?thesis
      using clear_run [of st "unat p" num] assms(1,2,6) p lim n(2) True
      by (fastforce simp: aligned_outcome_def frames_def)
  next
    case False
    then have ne: "of_nat n \<noteq> num" using un by auto
    show ?thesis
    proof (cases "p + of_nat n \<ge> ?lim")
      case True
      then show ?thesis
        using assms(7-9) scan run ne by (simp add: aligned_outcome_def result_simps)
    next
      case False
      let ?c = "p + of_nat n + 1"
      define pos' where "pos' = (if ?c mod inc \<noteq> 0 then ?c + inc - ?c mod inc else ?c)"
      have "unat p + n < 2 ^ 64" using n(3) unat_u64_less [of ?lim] unat_u64_less [of p] by (cases "n = 0") auto
      then have "unat (p + of_nat n) = unat p + n" using un by (simp add: unat_add_small)
      then have c: "unat ?c = unat p + n + 1" "unat ?c \<le> 2 ^ 52"
        using False assms(1,2) unat_Suc_below [of "p + of_nat n" ?lim]
        by (auto simp: word_le_nat_alt not_le word_less_nat_alt)
      have "alloc_aligned_loop (Suc fuel) st num inc i_inc i pos
          = alloc_aligned_loop fuel st num inc i_inc (drop_bit 6 pos') pos'"
        using assms(3,7-9) scan run ne False
        by (simp add: result_simps Let_def pos'_def unat_gt_0)
      then show ?thesis
        using align_step [OF c(2) assms(4,3) pos'_def] c p(1) assms(4)
        by (intro disjI2 exI [of _ pos']) auto
    qed
  qed
qed

lemma aligned_skip:
  assumes "unat inc = 2 ^ k" and "k \<le> 51" and "i_inc = drop_bit 6 inc"
    and "unat i = unat pos div 64" and "unat inc dvd unat pos" and "unat (pos :: u64) < 2 ^ 52"
  defines "i' \<equiv> (if i_inc > 0 then i + i_inc else i + 1)"
    and "pos' \<equiv> (if i_inc > 0 then pos + inc else pos + 64)"
  shows "unat i' = unat pos' div 64 \<and> unat inc dvd unat pos' \<and> unat pos < unat pos'
    \<and> unat pos' \<le> 2 ^ 54"
proof (cases "i_inc > 0")
  case True
  have i_inc: "unat i_inc = 2 ^ k div 64" using assms(1,3) by (simp add: unat_shiftr)
  have le: "(2 :: nat) ^ k \<le> 2 ^ 51" using assms(2) by (intro power_increasing) auto
  have "6 \<le> k"
  proof (rule ccontr)
    assume "\<not> 6 \<le> k"
    then have "(2 :: nat) ^ k < 2 ^ 6" by (intro power_strict_increasing) auto
    then have "unat i_inc = 0" using i_inc by simp
    then show False using True by (simp add: unat_eq_0)
  qed
  then have "2 ^ 6 dvd (2 :: nat) ^ k" by (rule le_imp_power_dvd)
  then have "(unat pos + 2 ^ k) div 64 = unat pos div 64 + 2 ^ k div 64" by auto
  moreover have "unat (pos + inc) = unat pos + 2 ^ k"
    using assms(1,6) le by (subst unat_add_small) simp_all
  moreover have "unat (i + i_inc) = unat i + unat i_inc"
    using assms(4,6) i_inc le by (intro unat_add_small) simp
  ultimately show ?thesis
    using True assms(1,4-6) i_inc le by (auto simp: i'_def pos'_def)
next
  case False
  then have "i_inc = 0" by (simp add: word_pos_iff)
  then have "unat inc div 2 ^ 6 = 0" using assms(3) by (metis unat_0 unat_shiftr)
  then have "(2 :: nat) ^ k < 2 ^ 6" using assms(1) by (simp add: div_eq_0_iff)
  then have "k < 6" by (rule power_less_imp_less_exp [rotated]) simp
  then have dvd: "(2 :: nat) ^ k dvd 2 ^ 6" by (intro le_imp_power_dvd) simp
  have "unat (pos + 64) = unat pos + 64" and "unat (i + 1) = unat i + 1"
    using assms(4,6) unat_add_small [of pos 64] unat_add_small [of i 1] by simp_all
  then show ?thesis
    using False assms(1,4-6) dvd by (simp add: i'_def pos'_def)
qed

lemma alloc_aligned_loop_correct:
  assumes "length (mm_table st) \<le> 2 ^ 46" and "unat (entry_end st) \<le> length (mm_table st)"
    and "unat (mm_limit st) \<le> 64 * length (mm_table st)"
    and "unat inc = 2 ^ k" and "k \<le> 51" and "i_inc = drop_bit 6 inc" and "0 < num"
    and "unat i = unat pos div 64" and "unat inc dvd unat pos" and "256 \<le> unat pos"
    and "64 * length (mm_table st) \<le> fuel + unat pos"
  shows "aligned_outcome st inc num (alloc_aligned_loop (Suc fuel) st num inc i_inc i pos)"
  using assms
proof (induction fuel arbitrary: i pos)
  case 0
  then have "\<not> i < entry_end st" by (simp add: word_less_nat_alt)
  then show ?case by (simp add: aligned_outcome_def)
next
  case (Suc fuel)
  have le: "(2 :: nat) ^ k \<le> 2 ^ 51" using Suc.prems(5) by (intro power_increasing) auto
  show ?case
  proof (cases "i < entry_end st")
    case False
    then show ?thesis by (simp add: aligned_outcome_def)
  next
    case True
    then have i: "unat i < length (mm_table st)"
      using Suc.prems(2) by (simp add: word_less_nat_alt)
    then have pos: "unat pos < 2 ^ 52"
      using Suc.prems(1,8) by (simp add: div_64_less [symmetric])
    show ?thesis
    proof (cases "mm_table st ! unat i = 0")
      case zero: True
      define i' pos' where "i' = (if i_inc > 0 then i + i_inc else i + 1)"
        and "pos' = (if i_inc > 0 then pos + inc else pos + 64)"
      have "alloc_aligned_loop (Suc (Suc fuel)) st num inc i_inc i pos
          = alloc_aligned_loop (Suc fuel) st num inc i_inc i' pos'"
        using True i zero
        by (simp add: result_simps i'_def pos'_def del: alloc_aligned_loop.simps)
           (simp add: result_simps)
      then show ?thesis
        using Suc.IH [of i' pos'] Suc.prems
          aligned_skip [OF Suc.prems(4-6,8,9) pos] unfolding i'_def [symmetric] pos'_def [symmetric]
        by simp
    next
      case False
      then show ?thesis
        using alloc_aligned_pass [of st inc pos i num "Suc fuel" i_inc] Suc.prems True i le
          Suc.IH by (fastforce simp: unat_shiftr)
    qed
  qed
qed

end
