(* ===== verification/Free_Ranges.thy ===== *)
theory Free_Ranges
  imports Physical_Runs
begin

text \<open>
  \<open>physical_next_free_range\<close> of \<^verbatim>\<open>kernel/mm/physical.c\<close>, with which the boot code and the
  guest memory map enumerate the free memory: it finds the first maximal run of free frames.
\<close>

section \<open>The next free range\<close>

text \<open>
  \<open>partial_run B lo b c\<close>: scanning the set \<open>B\<close> upwards from \<open>lo\<close> has reached \<open>b\<close>; the last \<open>c\<close>
  positions are in \<open>B\<close> and nothing before them is. \<open>next_run B lo p n\<close>: the first maximal run of
  \<open>B\<close> from \<open>lo\<close> on is \<open>n\<close> long and starts at \<open>p\<close>, or \<open>n\<close> is 0 and there is none.
\<close>

definition partial_run :: "nat set \<Rightarrow> nat \<Rightarrow> nat \<Rightarrow> nat \<Rightarrow> bool" where
  "partial_run B lo b c \<longleftrightarrow> lo + c \<le> b \<and> {b - c ..< b} \<subseteq> B
     \<and> (\<forall>q \<in> B. lo \<le> q \<longrightarrow> q < b \<longrightarrow> b - c \<le> q)"

definition next_run :: "nat set \<Rightarrow> nat \<Rightarrow> nat \<Rightarrow> nat \<Rightarrow> bool" where
  "next_run B lo p n \<longleftrightarrow> (if n = 0 then \<forall>q \<in> B. q < lo
     else lo \<le> p \<and> {p ..< p + n} \<subseteq> B \<and> p + n \<notin> B \<and> (\<forall>q \<in> B. lo \<le> q \<longrightarrow> p \<le> q))"

lemma partial_run_extend:
  assumes "partial_run B lo b c" and "{b ..< b + k} \<subseteq> B"
  shows "partial_run B lo (b + k) (c + k)"
proof -
  have "{b + k - (c + k) ..< b + k} = {b - c ..< b} \<union> {b ..< b + k}"
    using assms(1) by (auto simp: partial_run_def)
  then show ?thesis
    using assms by (force simp: partial_run_def)
qed

lemma partial_run_skip:
  assumes "partial_run B lo b 0" and "B \<inter> {b ..< b + k} = {}"
  shows "partial_run B lo (b + k) 0"
  using assms by (fastforce simp: partial_run_def)

lemma partial_run_ends:
  assumes "partial_run B lo b c" and "b \<notin> B" and "0 < c"
  shows "next_run B lo (b - c) c"
proof -
  have "\<forall>q \<in> B. lo \<le> q \<longrightarrow> b - c \<le> q"
  proof (intro ballI impI)
    fix q assume "q \<in> B" "lo \<le> q"
    then show "b - c \<le> q" using assms by (cases "q < b") (auto simp: partial_run_def)
  qed
  then show ?thesis
    using assms by (auto simp: partial_run_def next_run_def)
qed

text \<open>What the function stores for a run, and the outcome of its first loops.\<close>

definition stored_run :: "nat set \<Rightarrow> nat \<Rightarrow> u64 \<times> u64 \<Rightarrow> bool" where
  "stored_run B lo out \<longleftrightarrow> (\<exists>p n. next_run B lo p n \<and> snd out = of_nat (4096 * n)
     \<and> (0 < n \<longrightarrow> fst out = of_nat (4096 * p)))"

lemma push_PG_unat: "push_bit PG_BITS (w :: u64) = of_nat (4096 * unat w)"
  using push_PG_BITS [of "unat w"] by simp

lemma stored_runI:
  assumes "partial_run B lo (unat b0) (unat count)" and "unat b0 \<notin> B" and "0 < count"
  shows "stored_run B lo (push_bit PG_BITS (b0 - count), push_bit PG_BITS count)"
proof -
  have "count \<le> b0"
    using assms(1) by (simp add: partial_run_def word_le_nat_alt)
  then have "unat (b0 - count) = unat b0 - unat count"
    by (rule unat_sub_le)
  moreover have "next_run B lo (unat b0 - unat count) (unat count)"
    using assms by (intro partial_run_ends) (auto simp: word_less_nat_alt)
  ultimately show ?thesis
    unfolding stored_run_def push_PG_unat
    by (intro exI [of _ "unat b0 - unat count"] exI [of _ "unat count"]) simp
qed

lemma next_free_bits_correct:
  assumes "length t \<le> 2 ^ 46" and "unat stop \<le> 64 * length t" and "b0 \<le> stop"
    and "partial_run (bits_of t) lo (unat b0) (unat count)"
  shows "(\<exists>out. next_free_bits t b0 stop count = Inr (Inl out) \<and> stored_run (bits_of t) lo out)
    \<or> (\<exists>c. next_free_bits t b0 stop count = Inr (Inr c)
        \<and> partial_run (bits_of t) lo (unat stop) (unat c))"
  using assms
proof (induction t b0 stop count rule: next_free_bits.induct)
  case (1 t b0 stop count)
  show ?case
  proof (cases "b0 < stop")
    case False
    then have "b0 = stop" using "1.prems"(3) by simp
    then show ?thesis
      using "1.prems"(4) by (simp add: next_free_bits.simps [of t stop stop count])
  next
    case lt: True
    then have b0: "unat b0 < 64 * length t" "unat (b0 + 1) = unat b0 + 1" "b0 + 1 \<le> stop"
      using "1.prems"(2) unat_Suc_below [OF lt] inc_le [OF lt] by (auto simp: word_less_nat_alt)
    have count: "unat (count + 1) = unat count + 1"
      using "1.prems"(1,4) b0(1) by (subst unat_Suc_small) (auto simp: partial_run_def)
    have chk: "bitmap64_check_bit t b0 = Inr (unat b0 \<in> bits_of t)"
      using b0(1) by (simp add: bitmap64_check_bit_eq test_bit_frames)
    show ?thesis
    proof (cases "unat b0 \<in> bits_of t")
      case mem: True
      have "partial_run (bits_of t) lo (unat (b0 + 1)) (unat (count + 1))"
        unfolding b0(2) count using "1.prems"(4) mem by (intro partial_run_extend) auto
      then show ?thesis
        using "1.IH"(1) [OF lt chk mem] "1.prems"(1,2) b0(3) lt chk mem
        by (simp add: next_free_bits.simps [of t b0 stop count])
    next
      case no: False
      show ?thesis
      proof (cases "0 < count")
        case True
        then show ?thesis
          using stored_runI [OF "1.prems"(4) no True] lt chk no
          by (simp add: next_free_bits.simps [of t b0 stop count])
      next
        case False
        then have "count = 0" by (simp add: word_pos_iff)
        then have "partial_run (bits_of t) lo (unat (b0 + 1)) (unat count)"
          using "1.prems"(4) no partial_run_skip [of "bits_of t" lo "unat b0" 1] by (simp add: b0(2))
        then show ?thesis
          using "1.IH"(2) [OF lt chk no False] "1.prems"(1,2) b0(3) lt chk no False
          by (simp add: next_free_bits.simps [of t b0 stop count])
      qed
    qed
  qed
qed

lemma skip_zero_words_correct:
  assumes "unat stop \<le> length t" and "i \<le> stop" and "partial_run (bits_of t) lo (64 * unat i) 0"
  shows "\<exists>i'. skip_zero_words t i stop = Inr i' \<and> i' \<le> stop
    \<and> partial_run (bits_of t) lo (64 * unat i') 0 \<and> (i' < stop \<longrightarrow> t ! unat i' \<noteq> 0)"
  using assms
proof (induction t i stop rule: skip_zero_words.induct)
  case (1 t i stop)
  show ?case
  proof (cases "i < stop \<and> t ! unat i = 0")
    case False
    then show ?thesis
      using "1.prems" by (auto simp: skip_zero_words.simps [of t i stop] result_simps word_less_nat_alt)
  next
    case True
    then have i: "unat i < length t" "unat (i + 1) = unat i + 1" "i + 1 \<le> stop"
      using "1.prems"(1) unat_Suc_below [of i stop] inc_le [of i stop] by (auto simp: word_less_nat_alt)
    have "bits_of t \<inter> {64 * unat i ..< 64 * unat i + 64} = {}"
      using True by (auto simp: bits_of_def test_bit_def) (metis True bit_0_eq bot_apply bot_bool_def
          div_nat_eqI mult.commute mult_Suc_right add.commute)
    then have "partial_run (bits_of t) lo (64 * unat (i + 1)) 0"
      using partial_run_skip [OF "1.prems"(3), of 64] i(2) by (simp add: algebra_simps)
    then show ?thesis
      using "1.IH" [of "t ! unat i"] "1.prems"(1) i True
      by (auto simp: skip_zero_words.simps [of t i stop] result_simps)
  qed
qed

lemma next_free_words_correct:
  assumes "length t \<le> 2 ^ 46" and "unat stop \<le> length t" and "i \<le> stop" and "0 < count"
    and "partial_run (bits_of t) lo (64 * unat i) (unat count)" and "bits_of t \<subseteq> {..< 64 * unat stop}"
  shows "\<exists>out. next_free_words t i stop count = Inr out \<and> stored_run (bits_of t) lo out"
  using assms
proof (induction t i stop count rule: next_free_words.induct)
  case (1 t i stop count)
  have i64: "unat (push_bit 6 i) = 64 * unat i"
    using "1.prems"(1-3) by (simp add: push_bit_eq_mult unat_word_ariths word_le_nat_alt)
  show ?case
  proof (cases "i < stop")
    case False
    then have "i = stop" using "1.prems"(3) by simp
    then have "stored_run (bits_of t) lo (push_bit PG_BITS (push_bit 6 i - count), push_bit PG_BITS count)"
      using "1.prems"(4-6) i64 by (intro stored_runI) auto
    then show ?thesis using False by (simp add: next_free_words.simps [of t i stop count])
  next
    case lt: True
    then have i: "unat i < length t" "unat (i + 1) = unat i + 1" "i + 1 \<le> stop"
      using "1.prems"(2) unat_Suc_below [of i stop] inc_le [of i stop] by (auto simp: word_less_nat_alt)
    have c: "unat count \<le> 64 * unat i" using "1.prems"(5) by (simp add: partial_run_def)
    have bits: "64 * unat i + j \<in> bits_of t \<longleftrightarrow> bit (t ! unat i) j" if "j < 64" for j
      using that i(1) by (simp add: bits_of_def test_bit_def)
    show ?thesis
    proof (cases "t ! unat i = NOT 0")
      case True
      have "{64 * unat i ..< 64 * unat i + 64} \<subseteq> bits_of t"
      proof
        fix q assume "q \<in> {64 * unat i ..< 64 * unat i + 64}"
        then show "q \<in> bits_of t" using bits [of "q - 64 * unat i"] True by (auto simp: bit_not_iff)
      qed
      moreover have count: "unat (count + 64) = unat count + 64"
        using c i(1) "1.prems"(1) unat_add_small [of count 64] by simp
      ultimately have "partial_run (bits_of t) lo (64 * unat (i + 1)) (unat (count + 64))"
        using partial_run_extend [OF "1.prems"(5), of 64] i(2) by (simp add: algebra_simps)
      moreover have "0 < count + 64" using count by (simp add: word_less_nat_alt)
      ultimately show ?thesis
        using "1.IH" [of "t ! unat i"] "1.prems"(1,2,6) i True lt
        by (simp add: next_free_words.simps [of t i stop count] result_simps)
    next
      case False
      define z where "z = count_trailing_zeros_bit64 (NOT (t ! unat i))"
      have "NOT (t ! unat i) \<noteq> 0" using False by (metis bit.double_compl)
      then have z: "unat z < 64" "\<not> bit (t ! unat i) (unat z)"
        "\<And>j. j < unat z \<Longrightarrow> bit (t ! unat i) j"
        using count_trailing_zeros_correct [of "NOT (t ! unat i)"]
        by (auto simp: z_def bit_not_iff)
      let ?c = "count + ucast z"
      let ?b = "push_bit 6 i + ucast z :: u64"
      have uz: "unat (ucast z :: u64) = unat z" by (simp add: unat_ucast_up)
      have c': "unat ?c = unat count + unat z" "unat ?b = 64 * unat i + unat z"
        using c i(1) "1.prems"(1) z(1) uz i64 by (simp_all add: unat_add_small)
      have "{64 * unat i ..< 64 * unat i + unat z} \<subseteq> bits_of t"
      proof
        fix q assume "q \<in> {64 * unat i ..< 64 * unat i + unat z}"
        then show "q \<in> bits_of t" using bits [of "q - 64 * unat i"] z by auto
      qed
      then have "partial_run (bits_of t) lo (unat ?b) (unat ?c)"
        unfolding c' using "1.prems"(5) by (intro partial_run_extend)
      moreover have "unat ?b \<notin> bits_of t" using bits z c' by simp
      moreover have "0 < ?c" using "1.prems"(4) c' by (simp add: word_less_nat_alt)
      ultimately have "stored_run (bits_of t) lo (push_bit PG_BITS (?b - ?c), push_bit PG_BITS ?c)"
        by (rule stored_runI)
      then show ?thesis
        using lt i(1) False
        by (simp add: next_free_words.simps [of t i stop count] result_simps flip: z_def)
    qed
  qed
qed

text \<open>The whole function, below the last word of a table that has a word to spare.\<close>

lemma next_run_none:
  assumes "partial_run B lo b 0" and "B \<subseteq> {..< b}"
  shows "next_run B lo p 0"
  using assms by (fastforce simp: partial_run_def next_run_def)

lemma second_phase_correct:
  assumes "length t \<le> 2 ^ 46" and "unat stop < length t" and "i \<le> stop"
    and "partial_run (bits_of t) lo (64 * unat i) 0" and "bits_of t \<subseteq> {..< 64 * unat stop}"
  shows "\<exists>out. rbind (skip_zero_words t i stop) (\<lambda>i.
        rbind (next_free_bits t (push_bit 6 i) (push_bit 6 (i + 1)) 0) (\<lambda>r. case r of
             Inl out \<Rightarrow> Inr out
           | Inr count \<Rightarrow> next_free_words t (i + 1) stop count)) = Inr out
    \<and> stored_run (bits_of t) lo out"
proof -
  obtain i' where skip: "skip_zero_words t i stop = Inr i'" and le: "i' \<le> stop"
    and run: "partial_run (bits_of t) lo (64 * unat i') 0" and nz: "i' < stop \<longrightarrow> t ! unat i' \<noteq> 0"
    using skip_zero_words_correct [of stop t i lo] assms(2-4) by auto
  have i': "unat i' < length t" using le assms(2) by (simp add: word_le_nat_alt)
  then have suc: "unat (i' + 1) = unat i' + 1" using assms(1) by (subst unat_Suc_small) simp_all
  have p6: "unat (push_bit 6 i') = 64 * unat i'" "unat (push_bit 6 (i' + 1)) = 64 * unat (i' + 1)"
    using i' suc assms(1) by (simp_all add: push_bit_eq_mult unat_word_ariths)
  have "push_bit 6 i' \<le> push_bit 6 (i' + 1)" "unat (push_bit 6 (i' + 1)) \<le> 64 * length t"
    unfolding word_le_nat_alt p6 suc using i' by simp_all
  then consider out where "next_free_bits t (push_bit 6 i') (push_bit 6 (i' + 1)) 0 = Inr (Inl out)"
      "stored_run (bits_of t) lo out"
    | c where "next_free_bits t (push_bit 6 i') (push_bit 6 (i' + 1)) 0 = Inr (Inr c)"
      "partial_run (bits_of t) lo (64 * unat (i' + 1)) (unat c)"
    using next_free_bits_correct [of t "push_bit 6 (i' + 1)" "push_bit 6 i'" lo 0] run assms(1)
    unfolding p6 unat_0 by blast
  then show ?thesis
  proof cases
    case 1
    then show ?thesis using skip by simp
  next
    case (2 c)
    show ?thesis
    proof (cases "i' < stop")
      case True
      have "0 < c"
      proof (rule ccontr)
        assume "\<not> 0 < c"
        then have "c = 0" by (simp add: word_pos_iff)
        then have none: "bits_of t \<inter> {lo ..< 64 * unat i' + 64} = {}"
          using 2(2) suc by (fastforce simp: partial_run_def)
        obtain k where k: "bit (t ! unat i') k"
          using nz True by (auto simp: bit_eq_iff)
        then have "k < 64" using bit_imp_le_length by fastforce
        then have "64 * unat i' + k \<in> bits_of t" using k i' by (simp add: bits_of_def test_bit_def)
        then show False using none run \<open>k < 64\<close> by (auto simp: partial_run_def)
      qed
      then show ?thesis
        using next_free_words_correct [of t stop "i' + 1" c lo] 2 skip assms(1,2,5) inc_le [OF True]
        by simp
    next
      case False
      then have eq: "i' = stop" using le by simp
      have "unat c = 0"
      proof (rule ccontr)
        assume "unat c \<noteq> 0"
        then have "64 * unat (i' + 1) - 1 \<in> bits_of t" using 2(2) by (auto simp: partial_run_def)
        then show False using assms(5) suc eq by auto
      qed
      then have "c = 0" by (simp add: unat_eq_0)
      moreover have "\<not> i' + 1 < stop" using eq suc by (simp add: word_less_nat_alt)
      moreover have "stored_run (bits_of t) lo (x, 0)" for x
        unfolding stored_run_def using next_run_none [OF run, of 0] assms(5) eq
        by (intro exI [of _ 0]) simp
      ultimately show ?thesis
        using 2(1) skip next_free_words.simps [of t "i' + 1" stop 0]
        by simp
    qed
  qed
qed

lemma physical_next_free_range_runs:
  assumes "phys_ok st" and "unat (entry_end st) < length (mm_table st)"
    and "frames st \<subseteq> {..< 64 * unat (entry_end st)}"
  shows "\<exists>out. physical_next_free_range st current start = Inr out
    \<and> stored_run (frames st) (unat current div 4096) out"
proof -
  define b0 where "b0 = drop_bit PG_BITS current"
  define stop where "stop = ((b0 + 64 - 1) div 64) * 64"
  have ub0: "unat b0 = unat current div 4096" by (simp add: b0_def unat_PG)
  have len: "length (mm_table st) \<le> 2 ^ 46" using assms(1) by (simp add: phys_ok_def)
  show ?thesis
  proof (cases "drop_bit 6 b0 \<ge> entry_end st")
    case True
    then have "unat (entry_end st) \<le> unat b0 div 64" by (simp add: word_le_nat_alt unat_shiftr)
    then have "64 * unat (entry_end st) \<le> unat b0" by linarith
    then have "next_run (frames st) (unat b0) 0 0"
      using assms(3) by (force simp: next_run_def)
    then show ?thesis
      unfolding stored_run_def ub0 using True
      by (intro exI [of _ "(start, 0)"] conjI exI [of _ 0])
         (simp_all add: physical_next_free_range_def flip: b0_def)
  next
    case False
    then have lt: "unat b0 div 64 < unat (entry_end st)" by (simp add: word_le_nat_alt unat_shiftr)
    then have b0: "unat b0 < 2 ^ 52" using assms(2) len by simp
    have us: "unat stop = (unat b0 + 63) div 64 * 64"
      using b0 by (simp add: stop_def unat_word_ariths unat_div)
    have ui: "unat (drop_bit 6 stop) = (unat b0 + 63) div 64" "64 * unat (drop_bit 6 stop) = unat stop"
      by (simp_all add: unat_shiftr us)
    have "(unat b0 + 63) div 64 \<le> unat (entry_end st)" using lt by linarith
    then have ile: "drop_bit 6 stop \<le> entry_end st" using ui by (simp add: word_le_nat_alt)
    have sle: "unat stop \<le> 64 * length (mm_table st)" "b0 \<le> stop"
      using ile assms(2) ui(2) us by (simp_all add: word_le_nat_alt)
    have "partial_run (frames st) (unat b0) (unat b0) (unat (0 :: u64))" by (simp add: partial_run_def)
    then consider out where "next_free_bits (mm_table st) b0 stop 0 = Inr (Inl out)"
        "stored_run (frames st) (unat b0) out"
      | c where "next_free_bits (mm_table st) b0 stop 0 = Inr (Inr c)"
        "partial_run (frames st) (unat b0) (64 * unat (drop_bit 6 stop)) (unat c)"
      using next_free_bits_correct [OF len sle, of "unat b0" 0] unfolding ui(2) frames_def by blast
    moreover have eq: "physical_next_free_range st current start
        = rbind (next_free_bits (mm_table st) b0 stop 0) (\<lambda>r. case r of
            Inl out \<Rightarrow> Inr out
          | Inr count \<Rightarrow> if count = 0
              then rbind (skip_zero_words (mm_table st) (drop_bit 6 stop) (entry_end st)) (\<lambda>i.
                   rbind (next_free_bits (mm_table st) (push_bit 6 i) (push_bit 6 (i + 1)) count)
                     (\<lambda>r. case r of Inl out \<Rightarrow> Inr out
                        | Inr count \<Rightarrow> next_free_words (mm_table st) (i + 1) (entry_end st) count))
              else next_free_words (mm_table st) (drop_bit 6 stop) (entry_end st) count)"
      unfolding physical_next_free_range_def Let_def b0_def [symmetric] stop_def [symmetric]
      using False by (simp only: if_False)
    ultimately show ?thesis
    proof cases
      case 1
      then show ?thesis
        unfolding eq using ub0 by simp
    next
      case (2 c)
      show ?thesis
      proof (cases "c = 0")
        case True
        then show ?thesis
          unfolding eq
          using second_phase_correct [OF len assms(2) ile, of "unat b0"] 2 ub0 assms(3)
          by (simp add: frames_def)
      next
        case nz: False
        then show ?thesis
          unfolding eq
          using next_free_words_correct [OF len _ ile, of c "unat b0"] 2 ub0 assms(2,3)
          by (simp add: frames_def word_pos_iff)
      qed
    qed
  qed
qed

end
