(* ===== verification/Frame_Allocator.thy ===== *)
theory Frame_Allocator
  imports Free_Ranges
begin

text \<open>
  The contract between the frame allocator and its clients (page tables, per-CPU areas, VMCS
  regions, extended page tables): \<open>alloc\<close> hands out a frame that was free, and only that one,
  or 0; \<open>free\<close> puts it back. The clients' consequences are proved once in the locale
  \<open>frame_allocator\<close>, which is interpreted on \<open>alloc_phys_frame\<close> and \<open>free_phys_frame\<close>. The
  theory ends with the properties of \<^verbatim>\<open>kernel/mm/physical.c\<close>.
\<close>

section \<open>The contract\<close>

text \<open>Allocating until \<open>n\<close> frames are obtained or the allocator runs out.\<close>

fun alloc_many :: "('s \<Rightarrow> (u64 \<times> 's) result) \<Rightarrow> nat \<Rightarrow> 's \<Rightarrow> (u64 list \<times> 's) result" where
  "alloc_many alloc 0 st = Inr ([], st)"
| "alloc_many alloc (Suc n) st =
     rbind (alloc st) (\<lambda>(f, st).
       if f = 0 then Inr ([], st)
       else rbind (alloc_many alloc n st) (\<lambda>(fs, st). Inr (f # fs, st)))"

definition frame_no :: "u64 \<Rightarrow> nat" where
  "frame_no f = unat f div 4096"

locale frame_allocator =
  fixes alloc :: "'s \<Rightarrow> (u64 \<times> 's) result"
    and free :: "'s \<Rightarrow> u64 \<Rightarrow> 's result"
    and avail :: "'s \<Rightarrow> nat set"
    and ok :: "'s \<Rightarrow> bool"
  assumes alloc_total: "ok st \<Longrightarrow> \<exists>f st'. alloc st = Inr (f, st')"
    and alloc_ok: "ok st \<Longrightarrow> alloc st = Inr (f, st') \<Longrightarrow> ok st'"
    and alloc_aligned: "ok st \<Longrightarrow> alloc st = Inr (f, st') \<Longrightarrow> unat f mod 4096 = 0"
    and alloc_takes: "ok st \<Longrightarrow> alloc st = Inr (f, st') \<Longrightarrow> f \<noteq> 0 \<Longrightarrow>
      frame_no f \<in> avail st \<and> avail st' = avail st - {frame_no f}"
    and alloc_fails: "ok st \<Longrightarrow> alloc st = Inr (0, st') \<Longrightarrow> avail st' = avail st"
    and free_restores: "ok st \<Longrightarrow> alloc st = Inr (f, st') \<Longrightarrow> f \<noteq> 0 \<Longrightarrow>
      \<exists>st''. free st' f = Inr st'' \<and> ok st'' \<and> avail st'' = avail st"
begin

lemma alloc_many_correct:
  assumes "ok st"
  shows "\<exists>fs st'. alloc_many alloc n st = Inr (fs, st') \<and> ok st' \<and> length fs \<le> n
    \<and> distinct (map frame_no fs) \<and> frame_no ` set fs \<subseteq> avail st
    \<and> avail st' = avail st - frame_no ` set fs \<and> 0 \<notin> set fs"
  using assms
proof (induction n arbitrary: st)
  case 0
  then show ?case by simp
next
  case (Suc n)
  obtain f st1 where a: "alloc st = Inr (f, st1)"
    using alloc_total [OF Suc.prems] by blast
  show ?case
  proof (cases "f = 0")
    case True
    then show ?thesis
      using a alloc_ok [OF Suc.prems a] alloc_fails [OF Suc.prems] by simp
  next
    case False
    obtain fs st2 where b: "alloc_many alloc n st1 = Inr (fs, st2)" "ok st2" "length fs \<le> n"
      "distinct (map frame_no fs)" "frame_no ` set fs \<subseteq> avail st1"
      "avail st2 = avail st1 - frame_no ` set fs" "0 \<notin> set fs"
      using Suc.IH [OF alloc_ok [OF Suc.prems a]] by blast
    have "frame_no f \<in> avail st" "avail st1 = avail st - {frame_no f}"
      using alloc_takes [OF Suc.prems a False] by auto
    then show ?thesis
      using a b False by auto
  qed
qed

lemma alloc_twice_distinct:
  assumes "ok st" and "alloc st = Inr (f, st')" and "alloc st' = Inr (g, st'')" and "f \<noteq> 0"
    and "g \<noteq> 0"
  shows "f \<noteq> g"
  using alloc_takes [OF assms(1,2,4)] alloc_takes [OF alloc_ok [OF assms(1,2)] assms(3,5)] by auto

end

section \<open>The contract holds\<close>

lemma alloc_phys_frame_result:
  assumes "phys_ok st" and "alloc_phys_frame st = Inr (f, st')"
  shows "f = 0 \<and> st' = cycle_lock st \<and> lowest_in (frames st) 256 (64 * unat (entry_end st)) = None
    \<or> (\<exists>p t. lowest_in (frames st) 256 (64 * unat (entry_end st)) = Some p
        \<and> f = of_nat (4096 * p) \<and> unat f = 4096 * p \<and> f \<noteq> 0
        \<and> st' = cycle_lock (st\<lparr>mm_table := t\<rparr>) \<and> length t = length (mm_table st)
        \<and> bits_of t = frames st - {p})"
proof (cases "lowest_in (frames st) 256 (64 * unat (entry_end st))")
  case None
  then show ?thesis
    using alloc_phys_frame_cases [OF assms(1)] assms(2) by simp
next
  case (Some p)
  then have p: "p \<in> frames st" "256 \<le> p"
    by (auto simp: lowest_in_Some_iff)
  then have u: "unat (of_nat (4096 * p) :: u64) = 4096 * p"
    using unat_pow_46 [OF assms(1)] by (intro unat_of_frame) simp
  then have "(of_nat (4096 * p) :: u64) \<noteq> 0"
    using p(2) by (metis mult_eq_0_iff not_numeral_le_zero unat_0 zero_neq_numeral)
  then show ?thesis
    using alloc_phys_frame_cases [OF assms(1)] assms(2) Some u by auto
qed

lemma frames_table: "frames (st\<lparr>mm_table := t\<rparr>) = bits_of t"
  by (simp add: frames_def)

lemma free_after_alloc:
  assumes "phys_ok st" and "alloc_phys_frame st = Inr (f, st')" and "f \<noteq> 0"
  shows "\<exists>st''. free_phys_frame st' f = Inr st'' \<and> phys_ok st'' \<and> frames st'' = frames st"
proof -
  obtain p t where p: "lowest_in (frames st) 256 (64 * unat (entry_end st)) = Some p"
    and f: "unat f = 4096 * p" and st': "st' = cycle_lock (st\<lparr>mm_table := t\<rparr>)"
    and t: "length t = length (mm_table st)" "bits_of t = frames st - {p}"
    using alloc_phys_frame_result [OF assms(1,2)] assms(3) by blast
  have mem: "p \<in> frames st" using p by (simp add: lowest_in_Some_iff)
  have ok: "phys_ok st'" using assms(1) t(1) st' by simp
  have "unat f div 4096 < 64 * length (mm_table st')"
    using frames_subset [OF mem] f st' t(1) by simp
  from free_phys_frame_frames [OF ok this] obtain u
    where u: "free_phys_frame st' f = Inr (cycle_lock (st'\<lparr>mm_table := u\<rparr>))"
      "length u = length (mm_table st')" "bits_of u = insert (unat f div 4096) (frames st')"
    by blast
  have "frames (cycle_lock (st'\<lparr>mm_table := u\<rparr>)) = frames st"
    using u(3) f st' t(2) mem by (simp add: frames_table insert_absorb)
  then show ?thesis
    using u(1,2) ok by (intro exI [of _ "cycle_lock (st'\<lparr>mm_table := u\<rparr>)"]) simp
qed

lemma alloc_phys_frame_summary:
  assumes "phys_ok st" and "alloc_phys_frame st = Inr (f, st')"
  shows "phys_ok st' \<and> unat f mod 4096 = 0
    \<and> (if f = 0 then frames st' = frames st
       else frame_no f \<in> frames st \<and> frames st' = frames st - {frame_no f})"
  using alloc_phys_frame_result [OF assms]
proof (elim disjE exE conjE)
  assume "f = 0" "st' = cycle_lock st"
  then show ?thesis using assms(1) by simp
next
  fix p t
  assume p: "lowest_in (frames st) 256 (64 * unat (entry_end st)) = Some p"
    and f: "unat f = 4096 * p" "f \<noteq> 0" and st': "st' = cycle_lock (st\<lparr>mm_table := t\<rparr>)"
    and t: "length t = length (mm_table st)" "bits_of t = frames st - {p}"
  have "p \<in> frames st" using p by (simp add: lowest_in_Some_iff)
  then show ?thesis
    using f t assms(1) by (simp add: st' frame_no_def frames_table)
qed

interpretation frame: frame_allocator alloc_phys_frame free_phys_frame frames phys_ok
proof unfold_locales
  fix st f st'
  assume ok: "phys_ok st"
  show "\<exists>f st'. alloc_phys_frame st = Inr (f, st')"
    using alloc_phys_frame_cases [OF ok] by (auto split: option.splits)
  assume a: "alloc_phys_frame st = Inr (f, st')"
  note r = alloc_phys_frame_summary [OF ok a]
  show "phys_ok st'" "unat f mod 4096 = 0" using r by simp_all
  show "f \<noteq> 0 \<Longrightarrow> frame_no f \<in> frames st \<and> frames st' = frames st - {frame_no f}"
    using r by simp
  show "f \<noteq> 0 \<Longrightarrow> \<exists>st''. free_phys_frame st' f = Inr st'' \<and> phys_ok st'' \<and> frames st'' = frames st"
    using free_after_alloc [OF ok a] .
next
  fix st st'
  assume "phys_ok st" and "alloc_phys_frame st = Inr (0, st')"
  then show "frames st' = frames st"
    using alloc_phys_frame_summary by fastforce
qed

section \<open>A search that leaves the table\<close>

lemma single_free_frame_loop:
  assumes "length (mm_table st) \<le> 2 ^ 46" and "unat (entry_end st) \<le> length (mm_table st)"
    and "p \<in> frames st \<and> 64 * unat i \<le> p \<and> (\<forall>q \<in> frames st. 64 * unat i \<le> q \<longrightarrow> q = p)"
    and "p div 64 < unat (entry_end st)" and "p mod 64 < 62"
    and "1 < num" and "unat pos = 64 * unat i" and "64 * unat (entry_end st) + 2 \<le> fuel + 64 * unat i"
  shows "alloc_frames_loop fuel st num i pos = Inl OutOfBounds"
  using assms
proof (induction fuel arbitrary: i pos)
  case 0
  then have "64 * unat i \<le> p" by auto
  then show ?case using 0 by auto
next
  case (Suc fuel)
  let ?t = "mm_table st"
  have p: "p \<in> frames st" "64 * unat i \<le> p" using Suc.prems(3) by auto
  then have lt: "i < entry_end st" and i: "unat i < length ?t"
    using Suc.prems(2,4) by (auto simp: word_less_nat_alt)
  show ?case
  proof (cases "?t ! unat i = 0")
    case True
    have far: "64 * unat i + 64 \<le> p"
      using word_zero_frames [OF i True p(1)] p(2) by auto
    have "unat (i + 1) = unat i + 1" using unat_Suc_below [OF lt] by simp
    moreover have "unat (pos + 64) = unat pos + 64"
      using Suc.prems(1,7) i by (intro unat_pos_plus_64) simp_all
    moreover have "p \<in> frames st \<and> 64 * (unat i + 1) \<le> p
        \<and> (\<forall>q \<in> frames st. 64 * (unat i + 1) \<le> q \<longrightarrow> q = p)"
      using Suc.prems(3) far by simp
    ultimately have "alloc_frames_loop fuel st num (i + 1) (pos + 64) = Inl OutOfBounds"
      using Suc.IH [of "i + 1" "pos + 64"] Suc.prems(1,2,4-8) by (simp del: alloc_frames_loop.simps)
    then show ?thesis using lt i True by (simp add: result_simps)
  next
    case nz: False
    obtain k where k: "bit (?t ! unat i) k" using nz by (auto simp: bit_eq_iff)
    then have "k < 64" using bit_imp_le_length by fastforce
    then have "64 * unat i + k \<in> frames st" using k i by (simp add: frames_def bits_of_def test_bit_def)
    then have "64 * unat i + k = p" using Suc.prems(3) by auto
    then have pi: "p div 64 = unat i" using \<open>k < 64\<close> by auto
    have only: "q = p" if "q \<in> bits_of ?t" "64 * unat i \<le> q" for q
      using Suc.prems(3) that by (auto simp: frames_def)
    have mem: "p \<in> bits_of ?t" and plt: "p < 64 * length ?t"
      using p(1) frames_subset by (auto simp: frames_def)
    have up: "unat (of_nat p :: u64) = p" "unat (of_nat p + 2 :: u64) = p + 2"
      using plt Suc.prems(1) unat_of_nat_small [of p, where 'a = 64]
        unat_add_small [of "of_nat p :: u64" 2] by simp_all
    have end_t: "p + 2 < 64 * length ?t" using Suc.prems(5) pi i mult_div_mod_eq [of 64 p] by linarith
    have "lowest_in (bits_of ?t) (unat pos) (64 * length ?t) = Some p"
    proof (rule lowest_in_SomeI)
      show "p \<le> q" if "q \<in> bits_of ?t" "unat pos \<le> q" for q
        using only [OF that(1)] that(2) Suc.prems(7) by auto
    qed (use mem plt p(2) Suc.prems(7) finite_frames [of st] in \<open>simp_all add: frames_def\<close>)
    then have scan: "scan_free (Suc (64 * length ?t)) ?t pos = Inr (of_nat p)"
      using scan_free_correct [of ?t pos "Suc (64 * length ?t)"] Suc.prems(1,7) p(2) plt by simp
    have "{q \<in> bits_of ?t. p + 2 \<le> q \<and> q < 64 * length ?t} = {}" using only p(2) by fastforce
    then have "lowest_in (bits_of ?t) (p + 2) (64 * length ?t) = None"
      by (simp add: lowest_in_def)
    then have scan': "scan_free (Suc (64 * length ?t)) ?t (of_nat p + 2) = Inl OutOfBounds"
      using scan_free_correct [of ?t "of_nat p + 2" "Suc (64 * length ?t)"] Suc.prems(1) up end_t
      by simp
    have "p + 1 \<notin> bits_of ?t" using only [of "p + 1"] p(2) by auto
    then have run: "count_run ?t num (of_nat p) 0 = Inr (of_nat p + 1, 1)"
      using mem end_t up Suc.prems(6) count_run.simps [of ?t num "of_nat p" 0]
        count_run.simps [of ?t num "of_nat p + 1" 1] unat_Suc_small [of "of_nat p"] plt Suc.prems(1)
      by (simp add: bitmap64_get_bits word_less_nat_alt)
    have "(p + 2) div 64 = unat i"
      using pi Suc.prems(5) mult_div_mod_eq [of 64 p] by linarith
    then have "drop_bit 6 (of_nat p + 2 :: u64) = i"
      by (simp add: word_unat_eq_iff unat_shiftr up)
    moreover obtain f where "fuel = Suc f" using Suc.prems(4,8) pi by (cases fuel) auto
    moreover have "num \<noteq> 1" using Suc.prems(6) by auto
    ultimately show ?thesis
      using scan scan' run nz lt i
      by (simp add: result_simps Let_def add.assoc)
  qed
qed

section \<open>Properties\<close>

text \<open>A small machine for the examples: six words of bitmap, the first megabyte taken.\<close>

definition small_phys :: "u64 list \<Rightarrow> phys" where
  "small_phys ws = \<lparr>mm_table = [0, 0, 0, 0] @ ws, mm_limit = 384, entry_end = 6,
     phy_lock = SPINLOCK_UNLOCKED\<rparr>"

lemma small_phys_ok [simp]: "2 \<le> length ws \<Longrightarrow> length ws \<le> 4 \<Longrightarrow> phys_ok (small_phys ws)"
  by (simp add: small_phys_def phys_ok_def lock_free_def SPINLOCK_UNLOCKED_def lock_of_data_def)

lemma small_phys_simps [simp]:
  "mm_table (small_phys ws) = [0, 0, 0, 0] @ ws" "mm_limit (small_phys ws) = 384"
  "entry_end (small_phys ws) = 6"
  by (simp_all add: small_phys_def)

lemma unat_2_power: "k < 64 \<Longrightarrow> unat (2 ^ k :: u64) = 2 ^ k"
  using unat_of_nat_small [of "2 ^ k", where 'a = 64] power_strict_increasing [of k 64 "2 :: nat"]
  by simp

lemma first_aligned:
  fixes i :: nat
  assumes "m \<le> 51" and "i = (if 2 ^ m div 64 \<le> (4 :: nat) then 4 else 2 ^ m div 64)"
  shows "4 \<le> i" and "i < 2 ^ 52" and "2 ^ m dvd 64 * i"
proof -
  have le: "(2 :: nat) ^ m \<le> 2 ^ 51" using assms(1) by (intro power_increasing) auto
  show "4 \<le> i" using assms(2) by simp
  have "2 ^ m div 64 \<le> (2 :: nat) ^ m" by (rule div_le_dividend)
  then have "2 ^ m div 64 < (2 :: nat) ^ 52" using le by simp
  then show "i < 2 ^ 52" using assms(2) by simp
  show "2 ^ m dvd 64 * i"
  proof (cases "m \<le> 8")
    case True
    then have "(2 :: nat) ^ m \<le> 2 ^ 8" by (intro power_increasing) auto
    then have "i = 4" using assms(2) by simp
    moreover have "(2 :: nat) ^ m dvd 2 ^ 8" using True by (rule le_imp_power_dvd)
    ultimately show ?thesis by simp
  next
    case False
    then have "(2 :: nat) ^ 9 \<le> 2 ^ m" by (intro power_increasing) auto
    then have "i = 2 ^ m div 64" using assms(2) by simp
    moreover have "(2 :: nat) ^ 6 dvd 2 ^ m" using False by (intro le_imp_power_dvd) simp
    ultimately show ?thesis by simp
  qed
qed

lemma alloc_aligned_outcome:
  assumes "phys_ok st" and "unat (mm_limit st) \<le> 64 * length (mm_table st)"
    and "align = 2 ^ k" and "12 \<le> k" and "k < 64" and "0 < num"
  shows "aligned_outcome (locked st) (2 ^ (k - 12)) num (alloc_phys_frames_aligned st num align)"
proof -
  define inc where "inc = drop_bit PG_BITS align"
  define i where "i = (if drop_bit 6 inc \<le> 4 then 4 else drop_bit 6 inc)"
  have inc: "unat inc = 2 ^ (k - 12)"
    using unat_2_power [OF assms(5)] assms(3,4) by (simp add: inc_def unat_PG power_diff)
  then have eq: "inc = 2 ^ (k - 12)"
    using unat_2_power [of "k - 12"] assms(5) by (simp add: word_unat_eq_iff)
  have "unat i = (if 2 ^ (k - 12) div 64 \<le> (4 :: nat) then 4 else 2 ^ (k - 12) div 64)"
    using inc by (simp add: i_def word_le_nat_alt unat_shiftr)
  then have i: "4 \<le> unat i" "unat i < 2 ^ 52" "2 ^ (k - 12) dvd 64 * unat i"
    using first_aligned [of "k - 12" "unat i"] assms(5) by auto
  have "unat (push_bit 6 i) = 64 * unat i"
    using i(2) by (simp add: push_bit_eq_mult unat_word_ariths)
  then have "aligned_outcome (locked st) inc num (alloc_aligned_loop
      (Suc (64 * length (mm_table st))) (locked st) num inc (drop_bit 6 inc) i (push_bit 6 i))"
    using assms(1,2,5,6) inc i
    by (intro alloc_aligned_loop_correct [where k = "k - 12"]) (auto simp: phys_ok_def)
  moreover have "alloc_phys_frames_aligned st num align = alloc_aligned_loop
      (Suc (64 * length (mm_table st))) (locked st) num inc (drop_bit 6 inc) i (push_bit 6 i)"
    unfolding alloc_phys_frames_aligned_def Let_def inc_def [symmetric] i_def [symmetric]
    using assms(1) by (simp del: alloc_aligned_loop.simps)
  ultimately have "aligned_outcome (locked st) inc num (alloc_phys_frames_aligned st num align)"
    by (simp only:)
  then show ?thesis by (simp only: eq)
qed

lemma took_run_address:
  assumes "phys_ok st" and "took_run (locked st) p n (f, st')"
    and "p + n \<le> 64 * length (mm_table st)" and "0 < n"
  shows "unat f = 4096 * p \<and> phys_ok st' \<and> {p ..< p + n} \<subseteq> frames st
    \<and> frames st' = frames st - {p ..< p + n}"
proof -
  obtain t where t: "st' = unlock_phys ((locked st)\<lparr>mm_table := t\<rparr>)"
    "length t = length (mm_table st)" "bits_of t = frames st - {p ..< p + n}"
    and f: "f = of_nat (4096 * p)" and sub: "{p ..< p + n} \<subseteq> frames st"
    using assms(2) by (auto simp: took_run_def frames_def)
  have "p < 2 ^ 52" using assms(1,3,4) by (simp add: phys_ok_def)
  then have "unat f = 4096 * p"
    unfolding f by (rule unat_of_frame)
  then show ?thesis
    using t sub assms(1) by (simp add: frames_table)
qed

text \<open>
  C28: \<open>physical_free_range\<close> makes exactly the frames that lie wholly inside the byte range
  free, for every range that reaches the first frame boundary above its start and ends inside
  the table, leaves every other frame as it was, and returns with the lock released.
\<close>

theorem physical_free_range_exact:
  assumes "phys_ok st" and "unat start + unat len < 2 ^ 64"
    and "(unat start + 4095) div 4096 \<le> (unat start + unat len) div 4096"
    and "(unat start + unat len) div 4096 \<le> 64 * length (mm_table st)"
  shows "\<exists>st'. physical_free_range st start len = Inr st' \<and> phys_ok st'
    \<and> frames st' = frames st \<union> inner_frames (unat start) (unat len)
    \<and> mm_limit st' = mm_limit st \<and> entry_end st' = entry_end st"
proof -
  obtain t where "physical_free_range st start len = Inr (cycle_lock (st\<lparr>mm_table := t\<rparr>))"
    "length t = length (mm_table st)" "bits_of t = frames st \<union> inner_frames (unat start) (unat len)"
    using physical_free_range_frames [OF assms] by blast
  then show ?thesis
    using assms(1) by (simp add: frames_table)
qed

theorem physical_free_range_exact_witness:
  "\<exists>st'. physical_free_range (small_phys [1, 0]) 0x101800 0x3900 = Inr st' \<and> phys_ok st'
    \<and> frames st' = frames (small_phys [1, 0]) \<union> inner_frames 0x101800 0x3900
    \<and> mm_limit st' = 384 \<and> entry_end st' = 6"
  using physical_free_range_exact [of "small_phys [1, 0]" "0x101800" "0x3900"] by simp

text \<open>
  C29: \<open>physical_take_range\<close> makes exactly the frames that the byte range touches, the partly
  covered first and last one included, unavailable and leaves every other frame as it was.
\<close>

theorem physical_take_range_exact:
  assumes "phys_ok st" and "unat start + unat len + 4096 < 2 ^ 64"
    and "(unat start + unat len + 4095) div 4096 \<le> 64 * length (mm_table st)"
  shows "\<exists>st'. physical_take_range st start len = Inr st' \<and> phys_ok st'
    \<and> frames st' = frames st - touched_frames (unat start) (unat len)
    \<and> mm_limit st' = mm_limit st \<and> entry_end st' = entry_end st"
proof -
  obtain t where "physical_take_range st start len = Inr (cycle_lock (st\<lparr>mm_table := t\<rparr>))"
    "length t = length (mm_table st)" "bits_of t = frames st - touched_frames (unat start) (unat len)"
    using physical_take_range_frames [OF assms] by blast
  then show ?thesis
    using assms(1) by (simp add: frames_table)
qed

theorem physical_take_range_exact_witness:
  "\<exists>st'. physical_take_range (small_phys [NOT 0, NOT 0]) 0x101800 0x3900 = Inr st' \<and> phys_ok st'
    \<and> frames st' = frames (small_phys [NOT 0, NOT 0]) - touched_frames 0x101800 0x3900
    \<and> mm_limit st' = 384 \<and> entry_end st' = 6"
  using physical_take_range_exact [of "small_phys [NOT 0, NOT 0]" "0x101800" "0x3900"] by simp

text \<open>
  a range that starts inside a page and ends in the same page holds no whole frame, but
  the length that \<open>physical_free_range\<close> computes for it wraps around to \<open>2 ^ 52 - 1\<close> frames:
  the function runs over the end of the table, whatever its size.
\<close>

theorem physical_free_range_wraps:
  assumes "phys_ok st" and "unat start mod 4096 \<noteq> 0" and "unat start mod 4096 + unat len < 4096"
    and "unat start div 4096 < 64 * length (mm_table st)"
    and "64 * length (mm_table st) < 2 ^ 52 - 1"
  shows "inner_frames (unat start) (unat len) = {}
    \<and> physical_free_range st start len = Inl OutOfBounds"
proof
  have page: "(unat start + unat len) div 4096 = unat start div 4096"
    "(unat start + unat len) mod 4096 = unat start mod 4096 + unat len"
    using assms(3) page_split [of "unat start"] page_split [of "unat start + unat len"]
    by (linarith, metis mod_add_left_eq mod_less)
  show "inner_frames (unat start) (unat len) = {}"
    unfolding inner_frames_def page page_up [OF assms(2)] by simp
  have no_wrap: "unat start + unat len < 2 ^ 64"
  proof -
    have "unat start div 4096 < 2 ^ 52 - 1" using assms(4,5) by linarith
    then show ?thesis using page(1) page_split [of "unat start + unat len"] assms(3) by simp
  qed
  have "(start + len) mod PG_SIZE = start mod PG_SIZE + len"
    using page(2) no_wrap assms(3)
    by (simp add: word_unat_eq_iff unat_PG unat_add_small)
  then have "len - (PG_SIZE - start mod PG_SIZE) - (start + len) mod PG_SIZE = - PG_SIZE"
    by simp
  then have num: "drop_bit PG_BITS (len - (PG_SIZE - start mod PG_SIZE) - (start + len) mod PG_SIZE)
      = 2 ^ 52 - 1"
    by (simp only:) (simp add: PG_BITS_def PG_SIZE_def)
  have "start mod PG_SIZE \<noteq> 0"
    using assms(2) by (simp add: unat_eq_0 [symmetric] unat_PG del: unat_eq_zero)
  moreover have "unat (drop_bit PG_BITS start + 1) = unat start div 4096 + 1"
    using no_wrap by (simp add: unat_add_small unat_PG)
  then have "bitmap64_set_range (mm_table st) (drop_bit PG_BITS start + 1) (2 ^ 52 - 1) = Inl OutOfBounds"
    unfolding bitmap64_set_range_def using assms(4,5)
    by (intro bitmap64_range_out) simp_all
  ultimately show "physical_free_range st start len = Inl OutOfBounds"
    using assms(1) num by (simp add: physical_free_range_def Let_def)
qed

theorem physical_free_range_wraps_witness:
  "inner_frames 0x101800 0x200 = {}
    \<and> physical_free_range (small_phys [0, 0]) 0x101800 0x200 = Inl OutOfBounds"
  using physical_free_range_wraps [of "small_phys [0, 0]" "0x101800" "0x200"] by simp

text \<open>
  C7: \<open>alloc_phys_frame\<close> is first fit above the first megabyte: it takes the lowest free
  frame from number 256 on, below the limit, and returns its address, which is never 0; it
  returns 0 exactly when there is none, and then changes no frame.
\<close>

theorem alloc_phys_frame_first_fit:
  assumes "phys_ok st"
  shows "\<exists>f st'. alloc_phys_frame st = Inr (f, st') \<and> phys_ok st' \<and>
    (case lowest_in (frames st) 256 (64 * unat (entry_end st)) of
       None \<Rightarrow> f = 0 \<and> frames st' = frames st
     | Some p \<Rightarrow> unat f = 4096 * p \<and> f \<noteq> 0 \<and> frames st' = frames st - {p})"
proof -
  obtain f st' where a: "alloc_phys_frame st = Inr (f, st')"
    using frame.alloc_total [OF assms] by blast
  have "case lowest_in (frames st) 256 (64 * unat (entry_end st)) of
       None \<Rightarrow> f = 0 \<and> frames st' = frames st
     | Some p \<Rightarrow> unat f = 4096 * p \<and> f \<noteq> 0 \<and> frames st' = frames st - {p}"
    using alloc_phys_frame_result [OF assms a]
    by (elim disjE exE conjE) (simp_all add: frames_table)
  then show ?thesis
    using a frame.alloc_ok [OF assms a] by blast
qed

theorem alloc_phys_frame_first_fit_witness:
  "\<exists>f st'. alloc_phys_frame (small_phys [0, 12]) = Inr (f, st') \<and> phys_ok st' \<and>
    (case lowest_in (frames (small_phys [0, 12])) 256 384 of
       None \<Rightarrow> f = 0 \<and> frames st' = frames (small_phys [0, 12])
     | Some p \<Rightarrow> unat f = 4096 * p \<and> f \<noteq> 0 \<and> frames st' = frames (small_phys [0, 12]) - {p})"
  using alloc_phys_frame_first_fit [of "small_phys [0, 12]"] by simp

text \<open>
  C8: any number of allocations in a row hand out pairwise different frames, all of them free
  before and none of them free afterwards, and no other frame changes.
\<close>

theorem alloc_many_disjoint:
  assumes "phys_ok st"
  shows "\<exists>fs st'. alloc_many alloc_phys_frame n st = Inr (fs, st') \<and> phys_ok st' \<and> length fs \<le> n
    \<and> distinct (map frame_no fs) \<and> frame_no ` set fs \<subseteq> frames st
    \<and> frames st' = frames st - frame_no ` set fs \<and> 0 \<notin> set fs"
  using assms by (rule frame.alloc_many_correct)

theorem alloc_many_disjoint_witness:
  "\<exists>fs st'. alloc_many alloc_phys_frame 3 (small_phys [5, NOT 0]) = Inr (fs, st') \<and> phys_ok st'
    \<and> length fs \<le> 3 \<and> distinct (map frame_no fs)
    \<and> frame_no ` set fs \<subseteq> frames (small_phys [5, NOT 0])
    \<and> frames st' = frames (small_phys [5, NOT 0]) - frame_no ` set fs \<and> 0 \<notin> set fs"
  using alloc_many_disjoint [of "small_phys [5, NOT 0]" 3] by simp

text \<open>
  a frame that \<open>alloc_phys_frame\<close> returned and \<open>free_phys_frame\<close> gives back is free again,
  and the allocator is in the state it had before, up to the lock's tickets.
\<close>

theorem free_undoes_alloc:
  assumes "phys_ok st" and "alloc_phys_frame st = Inr (f, st')" and "f \<noteq> 0"
  shows "\<exists>st''. free_phys_frame st' f = Inr st'' \<and> phys_ok st'' \<and> frames st'' = frames st"
  using assms by (rule frame.free_restores)

text \<open>
  C15: \<open>alloc_phys_frames_aligned\<close>, for a positive number of frames and an alignment that is a
  power of two of at least a page, always returns; it returns 0 and takes nothing, or the
  address of a run of free frames above the first megabyte and below the limit, aligned as
  asked, and takes exactly that run.
\<close>

theorem alloc_phys_frames_aligned_correct:
  assumes "phys_ok st" and "unat (mm_limit st) \<le> 64 * length (mm_table st)"
    and "align = 2 ^ k" and "12 \<le> k" and "k < 64" and "0 < num"
  shows "\<exists>f st'. alloc_phys_frames_aligned st num align = Inr (f, st') \<and> phys_ok st' \<and>
    (f = 0 \<and> frames st' = frames st
     \<or> (\<exists>p. unat f = 4096 * p \<and> unat align dvd unat f \<and> 256 \<le> p
          \<and> p + unat num \<le> unat (mm_limit st) \<and> {p ..< p + unat num} \<subseteq> frames st
          \<and> frames st' = frames st - {p ..< p + unat num}))"
proof -
  have "aligned_outcome (locked st) (2 ^ (k - 12)) num (alloc_phys_frames_aligned st num align)"
    using assms by (rule alloc_aligned_outcome)
  then consider "alloc_phys_frames_aligned st num align = Inr (0, cycle_lock st)"
    | p f st' where "alloc_phys_frames_aligned st num align = Inr (f, st')" "256 \<le> p"
      "2 ^ (k - 12) dvd p" "p + unat num \<le> unat (mm_limit st)"
      "took_run (locked st) p (unat num) (f, st')"
    using unat_2_power [of "k - 12"] assms(5) by (auto simp: aligned_outcome_def)
  then show ?thesis
  proof cases
    case 1
    then show ?thesis using assms(1) by simp
  next
    case (2 p f st')
    have "2 ^ 12 * 2 ^ (k - 12) dvd 4096 * p" using 2(3) by simp
    then have "unat align dvd 4096 * p"
      using assms(3,4) unat_2_power [OF assms(5)] power_add [of "2 :: nat" 12 "k - 12"] by simp
    then show ?thesis
      using took_run_address [OF assms(1) 2(5)] 2 assms(2,6)
      by (auto simp: word_less_nat_alt)
  qed
qed

theorem alloc_phys_frames_aligned_correct_witness:
  "\<exists>f st'. alloc_phys_frames_aligned (small_phys [0xF0F, NOT 0]) 4 (2 ^ 14) = Inr (f, st') \<and> phys_ok st' \<and>
    (f = 0 \<and> frames st' = frames (small_phys [0xF0F, NOT 0])
     \<or> (\<exists>p. unat f = 4096 * p \<and> unat (2 ^ 14 :: u64) dvd unat f \<and> 256 \<le> p
          \<and> p + 4 \<le> 384 \<and> {p ..< p + 4} \<subseteq> frames (small_phys [0xF0F, NOT 0])
          \<and> frames st' = frames (small_phys [0xF0F, NOT 0]) - {p ..< p + 4}))"
  using alloc_phys_frames_aligned_correct [of "small_phys [0xF0F, NOT 0]" "2 ^ 14" 14 4]
  by (simp add: word_less_nat_alt)

text \<open>
  \<open>alloc_phys_frames\<close> terminates; it leaves the table (the loop at line 200 has no bound),
  or returns 0 and takes nothing, or returns the address of a run of free frames above the
  first megabyte and takes exactly that run.
\<close>

theorem alloc_phys_frames_outcomes:
  assumes "phys_ok st" and "4 \<le> length (mm_table st)" and "0 < num"
  shows "alloc_phys_frames st num = Inl OutOfBounds
    \<or> (\<exists>f st'. alloc_phys_frames st num = Inr (f, st') \<and> phys_ok st' \<and>
        (f = 0 \<and> frames st' = frames st
         \<or> (\<exists>p. unat f = 4096 * p \<and> 256 \<le> p \<and> {p ..< p + unat num} \<subseteq> frames st
              \<and> frames st' = frames st - {p ..< p + unat num})))"
proof -
  have eq: "alloc_phys_frames st num
      = alloc_frames_loop (Suc (64 * length (mm_table st))) (locked st) num 4 256"
    unfolding alloc_phys_frames_def using assms(1) by (simp del: alloc_frames_loop.simps)
  consider "alloc_phys_frames st num = Inl OutOfBounds"
    | "alloc_phys_frames st num = Inr (0, cycle_lock st)"
    | p f st' where "alloc_phys_frames st num = Inr (f, st')" "256 \<le> p"
      "p + unat num \<le> 64 * length (mm_table st)" "took_run (locked st) p (unat num) (f, st')"
    using alloc_frames_loop_cases [of "locked st" 4 256 "Suc (64 * length (mm_table st))" num]
      assms(1,2) unfolding eq [symmetric] by (auto simp: phys_ok_def)
  then show ?thesis
  proof cases
    case 1
    then show ?thesis by simp
  next
    case 2
    then show ?thesis using assms(1) by simp
  next
    case (3 p f st')
    then show ?thesis
      using took_run_address [OF assms(1) 3(4,3)] assms(3) by (auto simp: word_less_nat_alt)
  qed
qed

theorem alloc_phys_frames_outcomes_witness:
  "alloc_phys_frames (small_phys [7, 0]) 2 = Inl OutOfBounds
    \<or> (\<exists>f st'. alloc_phys_frames (small_phys [7, 0]) 2 = Inr (f, st') \<and> phys_ok st' \<and>
        (f = 0 \<and> frames st' = frames (small_phys [7, 0])
         \<or> (\<exists>p. unat f = 4096 * p \<and> 256 \<le> p \<and> {p ..< p + 2} \<subseteq> frames (small_phys [7, 0])
              \<and> frames st' = frames (small_phys [7, 0]) - {p ..< p + 2})))"
  using alloc_phys_frames_outcomes [of "small_phys [7, 0]" 2] by (simp add: word_less_nat_alt)

text \<open>
  C31: the loop at line 200 is not bounded by the table. When one frame is free above the first
  megabyte and two or more are asked for, \<open>alloc_phys_frames\<close> does not return 0: it resumes
  the search behind that frame, in the word that still holds its bit, and reads past the end
  of \<open>mm_table\<close>.
\<close>

theorem alloc_phys_frames_overruns:
  assumes "phys_ok st" and "frames st \<inter> {256 ..} = {p}" and "p < 64 * unat (entry_end st)"
    and "p mod 64 < 62" and "1 < num"
  shows "alloc_phys_frames st num = Inl OutOfBounds"
proof -
  have p: "p \<in> frames st" "256 \<le> p" "\<forall>q \<in> frames st. 256 \<le> q \<longrightarrow> q = p"
    using assms(2) by blast+
  have e: "frames (locked st) = frames st" "64 * unat (4 :: u64) = 256"
    by (simp_all add: frames_def)
  have only: "p \<in> frames (locked st) \<and> 64 * unat (4 :: u64) \<le> p
      \<and> (\<forall>q \<in> frames (locked st). 64 * unat (4 :: u64) \<le> q \<longrightarrow> q = p)"
    unfolding e using p by blast
  have "p div 64 < unat (entry_end st)" using assms(3) by linarith
  then have "alloc_frames_loop (Suc (64 * length (mm_table st))) (locked st) num 4 256
      = Inl OutOfBounds"
    using assms(1,4,5) by (intro single_free_frame_loop [OF _ _ only]) (simp_all add: phys_ok_def)
  then show ?thesis
    unfolding alloc_phys_frames_def using assms(1) by (simp del: alloc_frames_loop.simps)
qed

lemma bit_8: "bit (8 :: u64) k \<Longrightarrow> k = 3"
  using bit_exp_iff [of 3 k, where 'a = "64 word"] bit_imp_le_length [of "8 :: u64" k] by simp

lemma small_phys_one_frame: "frames (small_phys [8, 0]) \<inter> {256 ..} = {259}"
proof -
  have "frames (small_phys [8, 0]) \<subseteq> {259}"
  proof
    fix q assume q: "q \<in> frames (small_phys [8, 0])"
    have b: "bit (([0, 0, 0, 0, 8, 0] :: u64 list) ! (q div 64)) (q mod 64)" and "q < 384"
      using q by (simp_all add: frames_def bits_of_def test_bit_def)
    have "q div 64 = 0 \<or> q div 64 = 1 \<or> q div 64 = 2 \<or> q div 64 = 3 \<or> q div 64 = 4
        \<or> q div 64 = 5"
      using \<open>q < 384\<close> by linarith
    then have "q div 64 = 4 \<and> bit (8 :: u64) (q mod 64)"
      using b by (elim disjE) simp_all
    then have "q = 259" using bit_8 [of "q mod 64"] mult_div_mod_eq [of 64 q] by linarith
    then show "q \<in> {259}" by simp
  qed
  moreover have "259 \<in> frames (small_phys [8, 0])"
    by (simp add: frames_def bits_of_def test_bit_def)
  ultimately have "frames (small_phys [8, 0]) = {259}" by blast
  then show ?thesis by simp
qed

theorem alloc_phys_frames_overruns_witness:
  "alloc_phys_frames (small_phys [8, 0]) 2 = Inl OutOfBounds"
  using alloc_phys_frames_overruns [OF _ small_phys_one_frame, of 2] by simp

text \<open>
  C27: \<open>physical_next_free_range\<close> stores the first maximal run of free frames at or above the
  frame of \<open>current\<close>, as a start address and a size in bytes; the size is 0 exactly when no
  frame from there on is free. The table must have a word beyond the limit, which the
  function may read.
\<close>

theorem physical_next_free_range_correct:
  assumes "phys_ok st" and "unat (entry_end st) < length (mm_table st)"
    and "frames st \<subseteq> {..< 64 * unat (entry_end st)}"
  shows "\<exists>s n p. physical_next_free_range st current start = Inr (s, of_nat (4096 * n))
    \<and> (if n = 0 then \<forall>q \<in> frames st. q < unat current div 4096
       else s = of_nat (4096 * p) \<and> unat current div 4096 \<le> p \<and> {p ..< p + n} \<subseteq> frames st
         \<and> p + n \<notin> frames st \<and> (\<forall>q \<in> frames st. unat current div 4096 \<le> q \<longrightarrow> p \<le> q))"
proof -
  obtain s size where "physical_next_free_range st current start = Inr (s, size)"
    "stored_run (frames st) (unat current div 4096) (s, size)"
    using physical_next_free_range_runs [OF assms, of current start] by auto
  then show ?thesis
    unfolding stored_run_def next_run_def by (simp only: fst_conv snd_conv) (metis neq0_conv)
qed

theorem physical_next_free_range_correct_witness:
  "\<exists>s n p. physical_next_free_range (small_phys [8, 0, 0]) 0x100000 0 = Inr (s, of_nat (4096 * n))
    \<and> (if n = 0 then \<forall>q \<in> frames (small_phys [8, 0, 0]). q < 256
       else s = of_nat (4096 * p) \<and> 256 \<le> p \<and> {p ..< p + n} \<subseteq> frames (small_phys [8, 0, 0])
         \<and> p + n \<notin> frames (small_phys [8, 0, 0])
         \<and> (\<forall>q \<in> frames (small_phys [8, 0, 0]). 256 \<le> q \<longrightarrow> p \<le> q))"
proof -
  have "frames (small_phys [8, 0, 0]) \<subseteq> {..< 384}"
  proof
    fix q assume "q \<in> frames (small_phys [8, 0, 0])"
    then have "q < 448" "q div 64 \<noteq> 6"
      by (auto simp: frames_def bits_of_def test_bit_def)
    then show "q \<in> {..< 384}" by simp
  qed
  moreover have e: "unat (0x100000 :: u64) div 4096 = 256" by simp
  ultimately show ?thesis
    using physical_next_free_range_correct [of "small_phys [8, 0, 0]" "0x100000" 0] unfolding e
    by simp
qed

lemma up_64_aligned: "n mod 64 = 0 \<Longrightarrow> (n + 63) div 64 = n div (64 :: nat)"
  using mult_div_mod_eq [of 64 n] mult_div_mod_eq [of 64 "n + 63"] mod_less_divisor [of 64 "n + 63"]
  by linarith

lemma up_64: "n mod 64 \<noteq> 0 \<Longrightarrow> (n + 63) div 64 = Suc (n div (64 :: nat))"
  using mult_div_mod_eq [of 64 n] mult_div_mod_eq [of 64 "n + 63"] mod_less_divisor [of 64 "n + 63"]
    mod_less_divisor [of 64 n] by linarith

text \<open>
  \<open>physical_set_limit\<close> sets the limit to the number of whole frames below the address and
  \<open>entry_end\<close> to the number of bitmap words that hold them, which is what the allocation
  loops rely on, when the address is inside the memory that the table describes.
\<close>

theorem physical_set_limit_covers:
  assumes "phys_ok st" and "unat limit div 4096 \<le> 64 * length (mm_table st)"
  shows "\<exists>st'. physical_set_limit st limit = Inr st' \<and> phys_ok st' \<and> frames st' = frames st
    \<and> unat (mm_limit st') = unat limit div 4096
    \<and> unat (entry_end st') = (unat limit div 4096 + 63) div 64"
proof -
  let ?lim = "drop_bit PG_BITS limit"
  let ?e = "if ?lim AND 63 > 0 then drop_bit 6 ?lim + 1 else drop_bit 6 ?lim"
  have lim: "unat ?lim = unat limit div 4096" by (simp add: unat_PG)
  have sh: "unat (drop_bit 6 ?lim) = unat limit div 4096 div 64"
    unfolding unat_shiftr [of 6] lim by simp
  have e: "unat ?e = (unat limit div 4096 + 63) div 64"
  proof (cases "(unat limit div 4096) mod 64 = 0")
    case True
    then have "\<not> 0 < ?lim AND 63" by (simp add: word_less_nat_alt unat_and_63 lim)
    then show ?thesis using True sh up_64_aligned by simp
  next
    case False
    have "unat limit div 4096 < 2 ^ 52" using unat_u64_less [of limit] by simp
    then have "unat (drop_bit 6 ?lim + 1) = unat limit div 4096 div 64 + 1"
      using sh by (subst unat_Suc_small) simp_all
    moreover have "0 < ?lim AND 63" using False by (simp add: word_less_nat_alt unat_and_63 lim)
    ultimately show ?thesis
      using False up_64 by simp
  qed
  have "physical_set_limit st limit = Inr (cycle_lock (st\<lparr>mm_limit := ?lim, entry_end := ?e\<rparr>))"
    using assms(1)
    by (simp add: physical_set_limit_def Let_def locked_def unlock_phys_def cycle_lock_def spin_unlock_def)
  moreover have "unat ?e \<le> length (mm_table st)" using e assms(2) by linarith
  ultimately show ?thesis
    using assms(1) lim e by (simp add: phys_ok_def frames_def)
qed

theorem physical_set_limit_covers_witness:
  "\<exists>st'. physical_set_limit (small_phys [0, 0]) 0x145000 = Inr st' \<and> phys_ok st'
    \<and> frames st' = frames (small_phys [0, 0]) \<and> unat (mm_limit st') = 325
    \<and> unat (entry_end st') = 6"
  using physical_set_limit_covers [of "small_phys [0, 0]" "0x145000"] by simp

lemma small_alloc:
  "alloc_phys_frame (small_phys [1, 0]) = Inr (0x100000, cycle_lock (small_phys [0, 0]))"
  by code_simp

theorem free_undoes_alloc_witness:
  "\<exists>st''. free_phys_frame (cycle_lock (small_phys [0, 0])) 0x100000 = Inr st'' \<and> phys_ok st''
    \<and> frames st'' = frames (small_phys [1, 0])"
  using free_undoes_alloc [OF _ small_alloc] by simp

end
