(* ===== verification/Paging.thy ===== *)
theory Paging
  imports Radix Frame_Allocator
begin

text \<open>
  The kernel's virtual memory, \<^verbatim>\<open>arch/x86_64/mm/vm.c\<close>: every function of the file over a
  machine state with physical memory, \<open>cr3\<close>, the frame allocator and the page table lock. The
  code reaches its own page tables through the recursive slot 511, so each access \<^verbatim>\<open>pt[i]\<close> is
  a load or store at a virtual address that \<open>mmu_walk\<close>, the processor's four-level translation,
  resolves in the tables themselves. Not modelled: access rights and the translation caches
  (translations are always read from memory; \<open>invalidate_page\<close> is recorded in a log).
\<close>

section \<open>The processor's page walk\<close>

text \<open>Bits of an entry that hold a physical address.\<close>

definition ADDR_MASK :: u64 where "ADDR_MASK = NOT (mask 12) AND mask 52"

text \<open>The index into the table that is \<open>n\<close> levels above a page table.\<close>

definition walk_index :: "nat \<Rightarrow> u64 \<Rightarrow> u64" where
  "walk_index n va = drop_bit (12 + 9 * n) va AND mask 9"

definition entry_present :: "u64 \<Rightarrow> bool" where
  "entry_present e \<longleftrightarrow> bit e 0"

definition entry_large :: "u64 \<Rightarrow> bool" where
  "entry_large e \<longleftrightarrow> bit e 7"

text \<open>
  \<open>walk_from m f n va\<close> translates \<open>va\<close> from the table at \<open>f\<close>, \<open>n\<close> levels above a page table:
  a large entry maps a page of 2MB or 1GB, and is a reserved-bit fault in the PML4.
\<close>

fun walk_from :: "mem \<Rightarrow> u64 \<Rightarrow> nat \<Rightarrow> u64 \<Rightarrow> u64 result" where
  "walk_from m f 0 va =
     (let e = load64 m (slot f (walk_index 0 va))
      in if entry_present e then Inr ((e AND ADDR_MASK) OR (va AND mask 12)) else Inl (PageFault va))"
| "walk_from m f (Suc n) va =
     (let e = load64 m (slot f (walk_index (Suc n) va))
      in if \<not> entry_present e then Inl (PageFault va)
         else if entry_large e
         then (if n < 2
               then Inr ((e AND ADDR_MASK AND NOT (mask (12 + 9 * Suc n))) OR (va AND mask (12 + 9 * Suc n)))
               else Inl (PageFault va))
         else walk_from m (e AND ADDR_MASK) n va)"

definition mmu_walk :: "mem \<Rightarrow> u64 \<Rightarrow> u64 \<Rightarrow> u64 result" where
  "mmu_walk m root va = walk_from m (root AND ADDR_MASK) 3 va"

section \<open>Constants\<close>

definition PG_TABLE_ENTRIES :: u64 where "PG_TABLE_ENTRIES = PG_SIZE div 8"
definition PG_TABLE_BITS :: nat where "PG_TABLE_BITS = PG_BITS - 3"
definition PG_TABLE_MASK :: u64 where "PG_TABLE_MASK = push_bit PG_TABLE_BITS 1 - 1"
definition LARGE_PG_BITS :: nat where "LARGE_PG_BITS = 21"
definition LARGE_PG_SIZE :: u64 where "LARGE_PG_SIZE = push_bit LARGE_PG_BITS 1"
definition LARGE_PG_MASK :: u64 where "LARGE_PG_MASK = NOT (LARGE_PG_SIZE - 1)"
definition PGT_P :: u64 where "PGT_P = 0x1"
definition PGT_RW :: u64 where "PGT_RW = 0x2"
definition PGT_PCD :: u64 where "PGT_PCD = 0x10"
definition PGT_XD :: u64 where "PGT_XD = 0x8000000000000000"
definition PDT_PS :: u64 where "PDT_PS = 0x80"
definition PGT_MASK :: u64 where "PGT_MASK = 0xFFFFFFFFFFFFF000"
definition MALLOC_BASE :: u64 where "MALLOC_BASE = 0x600000"
definition BUDDY_MIN_ORDER :: nat where "BUDDY_MIN_ORDER = 5"
definition BUDDY_MAX_ORDER :: nat where "BUDDY_MAX_ORDER = 22"
definition MALLOC_END :: u64 where "MALLOC_END = MALLOC_BASE + push_bit BUDDY_MAX_ORDER 1"
definition KERNEL_MAPPING_BASE :: u64 where "KERNEL_MAPPING_BASE = MALLOC_END"
definition LG_PG_BASE :: u64 where "LG_PG_BASE = KERNEL_MAPPING_BASE + 0x200000"
definition LG_PG_LIMIT :: u64 where "LG_PG_LIMIT = 0x2000000"

section \<open>State\<close>

record kernel =
  k_phys :: phys
  pmem :: mem
  cr3 :: u64
  pg_lock :: spinlock_t
  invlpg_log :: "u64 list"

definition lock_pg :: "kernel \<Rightarrow> kernel result" where
  "lock_pg st = rbind (spin_lock (pg_lock st)) (\<lambda>l. Inr (st\<lparr>pg_lock := l\<rparr>))"

definition unlock_pg :: "kernel \<Rightarrow> kernel" where
  "unlock_pg st = st\<lparr>pg_lock := spin_unlock (pg_lock st)\<rparr>"

text \<open>Reading and writing an aligned \<^verbatim>\<open>uint64_t\<close> at a virtual address.\<close>

definition vload64 :: "kernel \<Rightarrow> u64 \<Rightarrow> u64 result" where
  "vload64 st va = rbind (mmu_walk (pmem st) (cr3 st) va) (\<lambda>pa. Inr (load64 (pmem st) pa))"

definition vstore64 :: "kernel \<Rightarrow> u64 \<Rightarrow> u64 \<Rightarrow> kernel result" where
  "vstore64 st va v =
     rbind (mmu_walk (pmem st) (cr3 st) va) (\<lambda>pa. Inr (st\<lparr>pmem := store64 (pmem st) pa v\<rparr>))"

definition invalidate_page :: "kernel \<Rightarrow> u64 \<Rightarrow> kernel" where
  "invalidate_page st va = st\<lparr>invlpg_log := invlpg_log st @ [va]\<rparr>"

section \<open>The addresses of the paging structures\<close>

definition get_paging_struct_vaddr :: "u64 \<Rightarrow> u8 \<Rightarrow> u64 result" where
  "get_paging_struct_vaddr addr level =
     (let bits = addr
      in if level = 0 then Inr 0xFFFFFFFFFFFFF000
         else if level = 1 then Inr ((drop_bit 27 bits OR 0xFFFFFFFFFFE00000) AND PGT_MASK)
         else if level = 2 then Inr ((drop_bit 18 bits OR 0xFFFFFFFFC0000000) AND PGT_MASK)
         else if level = 3 then Inr ((drop_bit 9 bits OR 0xFFFFFF8000000000) AND PGT_MASK)
         else Inl (Panic ''invalid paging level option''))"

text \<open>The entry indices that the functions compute from an address.\<close>

definition pml4t_entry :: "u64 \<Rightarrow> u64" where
  "pml4t_entry vaddr = drop_bit 39 (vaddr AND 0xFF8000000000)"

definition pdpt_entry :: "u64 \<Rightarrow> u64" where
  "pdpt_entry vaddr = drop_bit 30 (vaddr AND 0x7FC0000000)"

definition pdt_entry :: "u64 \<Rightarrow> u64" where
  "pdt_entry vaddr = drop_bit 21 (vaddr AND 0x3FE00000)"

definition pt_entry :: "u64 \<Rightarrow> u64" where
  "pt_entry vaddr = drop_bit 12 (vaddr AND 0x1FF000)"

text \<open>The four entries that \<open>vm_check_mapping\<close> prints.\<close>

definition vm_check_mapping :: "kernel \<Rightarrow> u64 \<Rightarrow> (u64 list \<times> kernel) result" where
  "vm_check_mapping st addr =
     rbind (lock_pg st) (\<lambda>st.
     rbind (get_paging_struct_vaddr addr 0) (\<lambda>pml4t.
     rbind (vload64 st (slot pml4t (pml4t_entry addr))) (\<lambda>e0.
     rbind (get_paging_struct_vaddr addr 1) (\<lambda>pdpt.
     rbind (vload64 st (slot pdpt (pdpt_entry addr))) (\<lambda>e1.
     rbind (get_paging_struct_vaddr addr 2) (\<lambda>pdt.
     rbind (vload64 st (slot pdt (pdt_entry addr))) (\<lambda>e2.
     rbind (get_paging_struct_vaddr addr 3) (\<lambda>pt.
     rbind (vload64 st (slot pt (pt_entry addr))) (\<lambda>e3.
       Inr ([e0, e1, e2, e3], unlock_pg st))))))))))"

section \<open>Mapping in the dynamic windows\<close>

text \<open>
  The search loop of \<open>vm_map_page\<close> (over a page table, from 0) and of \<open>vm_map_large_page\<close> (over
  a page directory, from the first large page): \<open>va_of\<close> is the address the function returns.
\<close>

function map_slot_loop ::
    "kernel \<Rightarrow> u64 \<Rightarrow> u64 \<Rightarrow> (u64 \<Rightarrow> u64) \<Rightarrow> u64 \<Rightarrow> u64 \<Rightarrow> (u64 \<times> kernel) result" where
  "map_slot_loop st tab entry va_of i stop =
     (if i < stop
      then rbind (vload64 st (slot tab i)) (\<lambda>e.
             if e AND PGT_P = 0
             then rbind (vstore64 st (slot tab i) entry) (\<lambda>st. Inr (va_of i, unlock_pg st))
             else map_slot_loop st tab entry va_of (i + 1) stop)
      else Inr (0, unlock_pg st))"
  by pat_completeness auto
termination
  by (relation "measure (\<lambda>(st, tab, entry, va_of, i, stop). unat stop - unat i)")
     (auto simp: unat_Suc_below word_less_nat_alt intro!: diff_less_mono2)

declare map_slot_loop.simps [simp del]

definition vm_map_page :: "kernel \<Rightarrow> u64 \<Rightarrow> u64 \<Rightarrow> (u64 \<times> kernel) result" where
  "vm_map_page st frame flags =
     rbind (lock_pg st) (\<lambda>st.
     rbind (get_paging_struct_vaddr KERNEL_MAPPING_BASE 3) (\<lambda>pt.
       map_slot_loop st pt (frame OR flags)
         (\<lambda>i. KERNEL_MAPPING_BASE + push_bit PG_BITS i) 0 PG_TABLE_ENTRIES))"

definition vm_map_large_page :: "kernel \<Rightarrow> u64 \<Rightarrow> u64 \<Rightarrow> (u64 \<times> kernel) result" where
  "vm_map_large_page st frame flags =
     rbind (lock_pg st) (\<lambda>st.
     rbind (get_paging_struct_vaddr LG_PG_BASE 2) (\<lambda>pdt.
       map_slot_loop st pdt (frame OR flags) (\<lambda>i. push_bit LARGE_PG_BITS i)
         (drop_bit LARGE_PG_BITS LG_PG_BASE) (drop_bit LARGE_PG_BITS LG_PG_LIMIT)))"

text \<open>The two inner loops of \<open>vm_map_pages\<close> and \<open>vm_map_large_pages\<close>.\<close>

function count_free_slots ::
    "kernel \<Rightarrow> u64 \<Rightarrow> u64 \<Rightarrow> u64 \<Rightarrow> u64 \<Rightarrow> (u64 \<times> u64) result" where
  "count_free_slots st tab j stop count =
     (if j < stop
      then rbind (vload64 st (slot tab j)) (\<lambda>e.
             if e AND PGT_P = 0 then count_free_slots st tab (j + 1) stop (count + 1)
             else Inr (j, count))
      else Inr (j, count))"
  by pat_completeness auto
termination
  by (relation "measure (\<lambda>(st, tab, j, stop, count). unat stop - unat j)")
     (auto simp: unat_Suc_below word_less_nat_alt intro!: diff_less_mono2)

declare count_free_slots.simps [simp del]

function fill_slots ::
    "kernel \<Rightarrow> u64 \<Rightarrow> u64 \<Rightarrow> u64 \<Rightarrow> u64 \<Rightarrow> u64 \<Rightarrow> u64 \<Rightarrow> kernel result" where
  "fill_slots st tab frame flags sz j stop =
     (if j < stop
      then rbind (vstore64 st (slot tab j) (frame OR flags)) (\<lambda>st.
             fill_slots st tab (frame + sz) flags sz (j + 1) stop)
      else Inr st)"
  by pat_completeness auto
termination
  by (relation "measure (\<lambda>(st, tab, frame, flags, sz, j, stop). unat stop - unat j)")
     (auto simp: unat_Suc_below word_less_nat_alt intro!: diff_less_mono2)

declare fill_slots.simps [simp del]

text \<open>
  The outer loop. After a run that is too short the code sets \<^verbatim>\<open>i = j + 1\<close>, and the loop's
  \<^verbatim>\<open>i++\<close> follows. The fuel is one iteration per entry of a table, which is enough when \<open>num\<close>
  is at most the number of entries.
\<close>

fun map_slots_loop ::
    "nat \<Rightarrow> kernel \<Rightarrow> u64 \<Rightarrow> u64 \<Rightarrow> u64 \<Rightarrow> u64 \<Rightarrow> u64 \<Rightarrow> (u64 \<Rightarrow> u64) \<Rightarrow> u64 \<Rightarrow> u64
      \<Rightarrow> (u64 \<times> kernel) result" where
  "map_slots_loop 0 st tab frame num flags sz va_of i stop = Inl OutOfFuel"
| "map_slots_loop (Suc fuel) st tab frame num flags sz va_of i stop =
     (if i < stop
      then rbind (vload64 st (slot tab i)) (\<lambda>e.
             if e AND PGT_P = 0
             then rbind (count_free_slots st tab (i + 1) (i + num) 1) (\<lambda>(j, count).
                    if count = num
                    then rbind (fill_slots st tab frame flags sz i (i + num)) (\<lambda>st.
                           Inr (va_of i, unlock_pg st))
                    else map_slots_loop fuel st tab frame num flags sz va_of (j + 1 + 1) stop)
             else map_slots_loop fuel st tab frame num flags sz va_of (i + 1) stop)
      else Inr (0, unlock_pg st))"

definition vm_map_pages :: "kernel \<Rightarrow> u64 \<Rightarrow> u64 \<Rightarrow> u64 \<Rightarrow> (u64 \<times> kernel) result" where
  "vm_map_pages st frame num flags =
     (if num < 1 then Inr (0, st)
      else rbind (lock_pg st) (\<lambda>st.
           rbind (get_paging_struct_vaddr KERNEL_MAPPING_BASE 3) (\<lambda>pt.
             map_slots_loop 513 st pt frame num flags PG_SIZE
               (\<lambda>i. KERNEL_MAPPING_BASE + push_bit PG_BITS i) 0 (PG_TABLE_ENTRIES - num + 1))))"

definition vm_map_large_pages :: "kernel \<Rightarrow> u64 \<Rightarrow> u64 \<Rightarrow> u64 \<Rightarrow> (u64 \<times> kernel) result" where
  "vm_map_large_pages st frame num flags =
     (if num < 1 then Inr (0, st)
      else rbind (lock_pg st) (\<lambda>st.
           rbind (get_paging_struct_vaddr LG_PG_BASE 2) (\<lambda>pdt.
             map_slots_loop 513 st pdt frame num flags LARGE_PG_SIZE (\<lambda>i. push_bit LARGE_PG_BITS i)
               (drop_bit LARGE_PG_BITS LG_PG_BASE)
               (drop_bit LARGE_PG_BITS LG_PG_LIMIT - num + 1))))"

section \<open>Unmapping\<close>

definition vm_unmap_page :: "kernel \<Rightarrow> u64 \<Rightarrow> (u64 \<times> kernel) result" where
  "vm_unmap_page st va =
     rbind (lock_pg st) (\<lambda>st.
     rbind (get_paging_struct_vaddr va 3) (\<lambda>pt.
       let i = drop_bit PG_BITS va AND PG_TABLE_MASK
       in rbind (vload64 st (slot pt i)) (\<lambda>e.
          let frame = e AND PG_MASK
          in rbind (vstore64 st (slot pt i) 0) (\<lambda>st.
             Inr (frame, unlock_pg (invalidate_page st va))))))"

definition vm_unmap_large_page :: "kernel \<Rightarrow> u64 \<Rightarrow> (u64 \<times> kernel) result" where
  "vm_unmap_large_page st va =
     rbind (lock_pg st) (\<lambda>st.
     rbind (get_paging_struct_vaddr va 2) (\<lambda>pdt.
       let i = drop_bit LARGE_PG_BITS va AND PG_TABLE_MASK
       in rbind (vload64 st (slot pdt i)) (\<lambda>e.
          let frame = e AND LARGE_PG_MASK
          in rbind (vstore64 st (slot pdt i) 0) (\<lambda>st.
             Inr (frame, unlock_pg (invalidate_page st va))))))"

function unmap_slots_loop ::
    "kernel \<Rightarrow> u64 \<Rightarrow> u64 \<Rightarrow> u64 \<Rightarrow> u64 \<Rightarrow> u64 \<Rightarrow> u64 \<Rightarrow> u64 \<Rightarrow> (u64 \<times> kernel) result" where
  "unmap_slots_loop st tab msk sz frame num i pg =
     (if num > 0
      then rbind (if frame = 0 then rbind (vload64 st (slot tab i)) (\<lambda>e. Inr (e AND msk))
                  else Inr frame) (\<lambda>frame.
           rbind (vstore64 st (slot tab i) 0) (\<lambda>st.
             unmap_slots_loop (invalidate_page st pg) tab msk sz frame (num - 1) (i + 1) (pg + sz)))
      else Inr (frame, st))"
  by pat_completeness auto
termination
  by (relation "measure (\<lambda>(st, tab, msk, sz, frame, num, i, pg). unat num)")
     (auto simp: unat_gt_0 unat_minus_one)

declare unmap_slots_loop.simps [simp del]

definition vm_unmap_pages :: "kernel \<Rightarrow> u64 \<Rightarrow> u64 \<Rightarrow> (u64 \<times> kernel) result" where
  "vm_unmap_pages st va num =
     rbind (lock_pg st) (\<lambda>st.
     rbind (get_paging_struct_vaddr va 3) (\<lambda>pt.
     rbind (unmap_slots_loop st pt PG_MASK PG_SIZE 0 num
              (drop_bit PG_BITS va AND PG_TABLE_MASK) va) (\<lambda>(frame, st).
       Inr (frame, unlock_pg st))))"

definition vm_unmap_large_pages :: "kernel \<Rightarrow> u64 \<Rightarrow> u64 \<Rightarrow> (u64 \<times> kernel) result" where
  "vm_unmap_large_pages st va num =
     rbind (lock_pg st) (\<lambda>st.
     rbind (get_paging_struct_vaddr va 2) (\<lambda>pdt.
     rbind (unmap_slots_loop st pdt LARGE_PG_MASK LARGE_PG_SIZE 0 num
              (drop_bit LARGE_PG_BITS va AND PG_TABLE_MASK) va) (\<lambda>(frame, st).
       Inr (frame, unlock_pg st))))"

section \<open>Mapping at a given address\<close>

text \<open>
  The block that \<open>vm_map_page_unrestricted\<close>, \<open>vm_map_large_page_unrestricted\<close> and \<open>vm_init\<close>
  repeat for each level: allocate a table when the entry is not present. The new frame is
  linked as it is; nothing clears it.
\<close>

definition ensure_table :: "kernel \<Rightarrow> u64 \<Rightarrow> u64 \<Rightarrow> string \<Rightarrow> kernel result" where
  "ensure_table st tab entry msg =
     rbind (vload64 st (slot tab entry)) (\<lambda>e.
       if e AND PGT_P = 0
       then rbind (alloc_phys_frame (k_phys st)) (\<lambda>(new, ph).
              let st = st\<lparr>k_phys := ph\<rparr>
              in if new = 0 then Inl (Panic msg)
                 else vstore64 st (slot tab entry) (new OR PGT_P OR PGT_RW))
       else Inr st)"

definition vm_map_page_unrestricted :: "kernel \<Rightarrow> u64 \<Rightarrow> u64 \<Rightarrow> u64 \<Rightarrow> kernel result" where
  "vm_map_page_unrestricted st frame flags vaddr =
     rbind (lock_pg st) (\<lambda>st.
     rbind (get_paging_struct_vaddr vaddr 0) (\<lambda>pml4t.
     rbind (ensure_table st pml4t (pml4t_entry vaddr) ''page allocation for PDPT failed'') (\<lambda>st.
     rbind (get_paging_struct_vaddr vaddr 1) (\<lambda>pdpt.
     rbind (ensure_table st pdpt (pdpt_entry vaddr) ''page allocation for PDT failed'') (\<lambda>st.
     rbind (get_paging_struct_vaddr vaddr 2) (\<lambda>pdt.
     rbind (ensure_table st pdt (pdt_entry vaddr) ''page allocation for PT failed'') (\<lambda>st.
     rbind (get_paging_struct_vaddr vaddr 3) (\<lambda>pt.
     rbind (vload64 st (slot pt (pt_entry vaddr))) (\<lambda>e.
       if e AND PGT_P \<noteq> 0 then Inl (Panic ''page table entry not available'')
       else rbind (vstore64 st (slot pt (pt_entry vaddr)) (frame OR flags)) (\<lambda>st.
            Inr (unlock_pg st)))))))))))"

definition vm_map_large_page_unrestricted :: "kernel \<Rightarrow> u64 \<Rightarrow> u64 \<Rightarrow> u64 \<Rightarrow> kernel result" where
  "vm_map_large_page_unrestricted st frame flags vaddr =
     rbind (lock_pg st) (\<lambda>st.
     rbind (get_paging_struct_vaddr vaddr 0) (\<lambda>pml4t.
     rbind (ensure_table st pml4t (pml4t_entry vaddr) ''page allocation for PDPT failed'') (\<lambda>st.
     rbind (get_paging_struct_vaddr vaddr 1) (\<lambda>pdpt.
     rbind (ensure_table st pdpt (pdpt_entry vaddr) ''page allocation for PDT failed'') (\<lambda>st.
     rbind (get_paging_struct_vaddr vaddr 2) (\<lambda>pdt.
     rbind (vload64 st (slot pdt (pdt_entry vaddr))) (\<lambda>e.
       if e AND PGT_P \<noteq> 0 then Inl (Panic ''page table entry not available'')
       else rbind (vstore64 st (slot pdt (pdt_entry vaddr)) (frame OR flags)) (\<lambda>st.
            Inr (unlock_pg st)))))))))"

section \<open>Initialisation\<close>

text \<open>The loops \<^verbatim>\<open>for (i = ...; i < stop; i++) tab[i] = 0\<close> of \<open>vm_init\<close>, with a 16-bit counter.\<close>

function clear_slots :: "kernel \<Rightarrow> u64 \<Rightarrow> u16 \<Rightarrow> u16 \<Rightarrow> kernel result" where
  "clear_slots st tab i stop =
     (if i < stop
      then rbind (vstore64 st (slot tab (ucast i)) 0) (\<lambda>st. clear_slots st tab (i + 1) stop)
      else Inr st)"
  by pat_completeness auto
termination
  by (relation "measure (\<lambda>(st, tab, i, stop). unat stop - unat i)")
     (auto simp: unat_Suc_below word_less_nat_alt intro!: diff_less_mono2)

declare clear_slots.simps [simp del]

definition vm_init :: "kernel \<Rightarrow> kernel result" where
  "vm_init st =
     rbind (get_paging_struct_vaddr KERNEL_MAPPING_BASE 0) (\<lambda>pml4t.
     rbind (ensure_table st pml4t (pml4t_entry KERNEL_MAPPING_BASE)
              ''page allocation for PDPT failed'') (\<lambda>st.
     rbind (get_paging_struct_vaddr KERNEL_MAPPING_BASE 1) (\<lambda>pdpt.
     rbind (ensure_table st pdpt (pdpt_entry KERNEL_MAPPING_BASE)
              ''page allocation for PDT failed'') (\<lambda>st.
     rbind (get_paging_struct_vaddr KERNEL_MAPPING_BASE 2) (\<lambda>pdt.
     rbind (ensure_table st pdt (pdt_entry KERNEL_MAPPING_BASE)
              ''page allocation for PT failed'') (\<lambda>st.
     rbind (get_paging_struct_vaddr KERNEL_MAPPING_BASE 3) (\<lambda>pt.
     rbind (clear_slots st pt 0 512) (\<lambda>st.
       clear_slots st pdt (ucast (drop_bit LARGE_PG_BITS LG_PG_BASE))
         (ucast (drop_bit LARGE_PG_BITS LG_PG_LIMIT))))))))))"

end
