(* ===== verification/Paging_Walk.thy ===== *)
theory Paging_Walk
  imports Paging
begin

text \<open>
  The page walk and the recursive slot: the virtual addresses that \<open>get_paging_struct_vaddr\<close>
  computes reach the entries of the paging structures, and a store into one entry changes the
  translation of the addresses below that entry only.
\<close>

section \<open>Entries and indices\<close>

definition table_entry :: "u64 \<Rightarrow> u64 option" where
  "table_entry e = (if entry_present e \<and> \<not> entry_large e then Some (e AND ADDR_MASK) else None)"

lemma bit_ADDR_MASK [simp]: "bit ADDR_MASK k \<longleftrightarrow> 12 \<le> k \<and> k < 52"
  by (auto simp: ADDR_MASK_def bit_simps)

lemma page_aligned_iff: "page_aligned f \<longleftrightarrow> f AND mask 12 = 0"
  by (simp add: page_aligned_def unat_eq_0 [symmetric] unat_and_mask del: unat_eq_zero)

lemma page_aligned_bits: "page_aligned f \<longleftrightarrow> (\<forall>k < 12. \<not> bit f k)"
proof
  assume "page_aligned f"
  then have no: "\<not> bit (f AND mask 12) k" for k by (simp add: page_aligned_iff)
  show "\<forall>k < 12. \<not> bit f k"
  proof (intro allI impI)
    fix k :: nat assume "k < 12"
    then show "\<not> bit f k" using no [of k] by (simp add: bit_and_iff bit_mask_iff)
  qed
next
  assume "\<forall>k < 12. \<not> bit f k"
  then show "page_aligned f"
    unfolding page_aligned_iff by (intro bit_word_eqI) (auto simp: bit_simps)
qed

lemma page_aligned_ADDR_MASK [simp]: "page_aligned (e AND ADDR_MASK)"
  by (simp add: page_aligned_bits bit_simps)

interpretation pg: radix table_entry
  by unfold_locales (auto simp: table_entry_def entry_present_def split: if_splits)

lemma walk_index_less [simp]: "walk_index n va < 512"
proof -
  have "unat (walk_index n va) < 512" by (simp add: walk_index_def unat_and_mask)
  then show ?thesis by (simp add: word_less_nat_alt)
qed

lemma bit_walk_index: "bit (walk_index n va) k \<longleftrightarrow> k < 9 \<and> bit va (12 + 9 * n + k)"
  by (auto simp: walk_index_def bit_simps)

lemma masks_eq:
  "(0xFFFFFFFFFFFFF000 :: u64) = NOT (mask 12)" "(0xFFFFFFFFFFE00000 :: u64) = NOT (mask 21)"
  "(0xFFFFFFFFC0000000 :: u64) = NOT (mask 30)" "(0xFFFFFF8000000000 :: u64) = NOT (mask 39)"
  "(0xFF8000000000 :: u64) = push_bit 39 (mask 9)" "(0x7FC0000000 :: u64) = push_bit 30 (mask 9)"
  "(0x3FE00000 :: u64) = push_bit 21 (mask 9)" "(0x1FF000 :: u64) = push_bit 12 (mask 9)"
  "(511 :: u64) = mask 9"
  by (simp_all add: mask_eq_exp_minus_1)

lemma entry_indices:
  "pml4t_entry va = walk_index 3 va" "pdpt_entry va = walk_index 2 va"
  "pdt_entry va = walk_index 1 va" "pt_entry va = walk_index 0 va"
  unfolding pml4t_entry_def pdpt_entry_def pdt_entry_def pt_entry_def masks_eq
  by (rule bit_word_eqI; auto simp: bit_walk_index bit_simps ac_simps)+

lemma slot_or:
  assumes "page_aligned f" and "i < 512"
  shows "slot f i = f OR push_bit 3 i"
proof -
  have "unat i < 2 ^ 9" using assms(2) by (simp add: word_less_nat_alt)
  then have "take_bit 9 i = i"
    by (simp add: word_unat_eq_iff unsigned_take_bit_eq take_bit_nat_eq_self)
  then have i: "bit i k \<Longrightarrow> k < 9" for k
    by (metis bit_take_bit_iff)
  have "f + push_bit 3 i = f OR push_bit 3 i"
    using assms(1) i by (intro disjunctive_add) (auto simp: page_aligned_bits bit_simps, fastforce)
  then show ?thesis
    by (simp add: slot_def push_bit_eq_mult mult.commute)
qed

section \<open>The recursive slot\<close>

text \<open>
  The virtual address of the entry for \<open>va\<close> in the table \<open>k - 1\<close> levels above a page table.
\<close>

definition rec_addr :: "nat \<Rightarrow> u64 \<Rightarrow> u64" where
  "rec_addr k va = (drop_bit (9 * k) va OR NOT (mask (48 - 9 * k))) AND NOT (mask 3)"

lemma bit_rec_addr:
  "bit (rec_addr k va) j \<longleftrightarrow> 3 \<le> j \<and> j < 64 \<and> (48 - 9 * k \<le> j \<or> bit va (9 * k + j))"
  by (auto simp: rec_addr_def bit_simps dest: bit_imp_le_length)

lemma struct_slot:
  assumes "n < 4" and "get_paging_struct_vaddr va (of_nat (3 - n)) = Inr tab"
  shows "slot tab (walk_index n va) = rec_addr (Suc n) va"
proof -
  have "n = 0 \<or> n = 1 \<or> n = 2 \<or> n = 3" using assms(1) by linarith
  then have tab: "tab = (drop_bit (9 * Suc n) va OR NOT (mask (48 - 9 * Suc n))) AND NOT (mask 12)"
    using assms(2)
  proof (elim disjE)
    assume n: "n = 3"
    then have "tab = NOT (mask 12)"
      using assms(2) by (simp add: get_paging_struct_vaddr_def flip: masks_eq)
    then show ?thesis using n by (intro bit_word_eqI) (auto simp: bit_simps)
  qed (auto simp: get_paging_struct_vaddr_def PGT_MASK_def masks_eq)
  then have "page_aligned tab" by (simp add: page_aligned_bits bit_simps)
  then have s: "slot tab (walk_index n va) = tab OR push_bit 3 (walk_index n va)"
    by (simp add: slot_or)
  show ?thesis
    unfolding s unfolding tab using assms(1)
    by (intro bit_word_eqI) (auto simp: bit_rec_addr bit_walk_index bit_simps ac_simps)
qed

lemma walk_index_rec_addr:
  assumes "n < 4" and "0 < k" and "k \<le> 4"
  shows "walk_index n (rec_addr k va) = (if n + k > 3 then 511 else walk_index (n + k) va)"
proof (cases "n + k > 3")
  case True
  then have "walk_index n (rec_addr k va) = mask 9"
    using assms(1) by (intro bit_word_eqI) (auto simp: bit_walk_index bit_rec_addr bit_simps)
  then show ?thesis using True by (simp add: masks_eq)
next
  case False
  then have "walk_index n (rec_addr k va) = walk_index (n + k) va"
    using assms(1,2) by (intro bit_word_eqI) (auto simp: bit_walk_index bit_rec_addr algebra_simps)
  then show ?thesis using False by simp
qed

lemma rec_addr_offset:
  assumes "0 < k" and "k \<le> 4"
  shows "rec_addr k va AND mask 12 = push_bit 3 (walk_index (k - 1) va)"
proof -
  obtain n where k: "k = Suc n" using assms(1) by (cases k) auto
  show ?thesis
    using assms(2) unfolding k
    by (intro bit_word_eqI) (auto simp: bit_walk_index bit_rec_addr bit_simps algebra_simps)
qed

section \<open>Walking through the recursive slot\<close>

definition va_path :: "nat \<Rightarrow> u64 \<Rightarrow> u64 list" where
  "va_path l va = map (\<lambda>n. walk_index (3 - n) va) [0 ..< l]"

lemma va_path_simps [simp]:
  "va_path 0 va = []" "va_path (Suc 0) va = [walk_index 3 va]"
  "va_path 2 va = [walk_index 3 va, walk_index 2 va]"
  "va_path 3 va = [walk_index 3 va, walk_index 2 va, walk_index 1 va]"
  by (simp_all add: va_path_def upt_conv_Cons numeral_2_eq_2 numeral_3_eq_3)

text \<open>The root table, and that its last entry points back to it.\<close>

definition root :: "kernel \<Rightarrow> u64" where
  "root st = cr3 st AND ADDR_MASK"

definition rec_slot :: "mem \<Rightarrow> u64 \<Rightarrow> bool" where
  "rec_slot m r \<longleftrightarrow> page_aligned r \<and> table_entry (load64 m (slot r 511)) = Some r"

lemma walk_from_step:
  assumes "table_entry (load64 m (slot f (walk_index (Suc n) va))) = Some g"
  shows "walk_from m f (Suc n) va = walk_from m g n va"
  using assms by (auto simp: table_entry_def split: if_splits)

lemma walk_from_last:
  assumes "table_entry (load64 m (slot f (walk_index 0 va))) = Some g"
  shows "walk_from m f 0 va = Inr (g OR (va AND mask 12))"
  using assms by (auto simp: table_entry_def split: if_splits)

lemma walk_rec_addr:
  assumes "rec_slot m r" and "n < 4" and "descend table_entry m r (va_path (3 - n) va) = Some f"
  shows "walk_from m r 3 (rec_addr (Suc n) va) = Inr (slot f (walk_index n va))"
proof -
  let ?A = "rec_addr (Suc n) va"
  have r: "table_entry (load64 m (slot r 511)) = Some r" "page_aligned r"
    using assms(1) by (auto simp: rec_slot_def)
  have "page_aligned f" by (rule pg.descend_aligned [OF r(2) assms(3)])
  then have last: "f OR (?A AND mask 12) = slot f (walk_index n va)"
    using assms(2) by (simp add: rec_addr_offset slot_or)
  have "walk_from m r 3 ?A = Inr (f OR (?A AND mask 12))"
  proof -
    consider "n = 0" | "n = 1" | "n = 2" | "n = 3" using assms(2) by linarith
    then show ?thesis
    proof cases
      case 1
      have ix: "walk_index 3 ?A = 511" "walk_index 2 ?A = walk_index 3 va"
        "walk_index 1 ?A = walk_index 2 va" "walk_index 0 ?A = walk_index 1 va"
        using 1 by (simp_all add: walk_index_rec_addr numeral_2_eq_2 numeral_3_eq_3)
      from assms(3) 1 obtain g h where
        "table_entry (load64 m (slot r (walk_index 3 va))) = Some g"
        "table_entry (load64 m (slot g (walk_index 2 va))) = Some h"
        "table_entry (load64 m (slot h (walk_index 1 va))) = Some f"
        by (auto split: option.splits)
      then show ?thesis
        using r(1) ix by (simp add: numeral_3_eq_3 numeral_2_eq_2 walk_from_step walk_from_last
            del: walk_from.simps)
    next
      case 2
      have ix: "walk_index 3 ?A = 511" "walk_index 2 ?A = 511"
        "walk_index 1 ?A = walk_index 3 va" "walk_index 0 ?A = walk_index 2 va"
        using 2 by (simp_all add: walk_index_rec_addr numeral_2_eq_2 numeral_3_eq_3)
      from assms(3) 2 obtain g where
        "table_entry (load64 m (slot r (walk_index 3 va))) = Some g"
        "table_entry (load64 m (slot g (walk_index 2 va))) = Some f"
        by (auto split: option.splits)
      then show ?thesis
        using r(1) ix by (simp add: numeral_3_eq_3 numeral_2_eq_2 walk_from_step walk_from_last
            del: walk_from.simps)
    next
      case 3
      have ix: "walk_index 3 ?A = 511" "walk_index 2 ?A = 511"
        "walk_index 1 ?A = 511" "walk_index 0 ?A = walk_index 3 va"
        using 3 by (simp_all add: walk_index_rec_addr numeral_2_eq_2 numeral_3_eq_3)
      from assms(3) 3 have "table_entry (load64 m (slot r (walk_index 3 va))) = Some f"
        by (auto split: option.splits)
      then show ?thesis
        using r(1) ix by (simp add: numeral_3_eq_3 numeral_2_eq_2 walk_from_step walk_from_last
            del: walk_from.simps)
    next
      case 4
      have ix: "walk_index 3 ?A = 511" "walk_index 2 ?A = 511"
        "walk_index 1 ?A = 511" "walk_index 0 ?A = 511"
        using 4 by (simp_all add: walk_index_rec_addr)
      from assms(3) 4 have "f = r" by simp
      then show ?thesis
        using r(1) ix by (simp add: numeral_3_eq_3 numeral_2_eq_2 walk_from_step walk_from_last
            del: walk_from.simps)
    qed
  qed
  then show ?thesis by (simp only: last)
qed

section \<open>Which translations a store changes\<close>

text \<open>The addresses of the entries that a walk reads.\<close>

fun walk_reads :: "mem \<Rightarrow> u64 \<Rightarrow> nat \<Rightarrow> u64 \<Rightarrow> u64 list" where
  "walk_reads m f 0 va = [slot f (walk_index 0 va)]"
| "walk_reads m f (Suc n) va = slot f (walk_index (Suc n) va) #
     (case table_entry (load64 m (slot f (walk_index (Suc n) va))) of
        None \<Rightarrow> [] | Some g \<Rightarrow> walk_reads m g n va)"

lemma walk_from_cong:
  assumes "\<And>a. a \<in> set (walk_reads m f n va) \<Longrightarrow> load64 m' a = load64 m a"
  shows "walk_from m' f n va = walk_from m f n va"
  using assms
proof (induction m f n va rule: walk_reads.induct)
  case (1 m f va)
  then show ?case by simp
next
  case (2 m f n va)
  have same: "load64 m' (slot f (walk_index (Suc n) va)) = load64 m (slot f (walk_index (Suc n) va))"
    using "2.prems" by simp
  show ?case
  proof (cases "table_entry (load64 m (slot f (walk_index (Suc n) va)))")
    case None
    then show ?thesis
      unfolding walk_from.simps same by (auto simp: table_entry_def Let_def split: if_splits)
  next
    case (Some g)
    then have "walk_from m' g n va = walk_from m g n va"
      using "2.IH" [OF Some] "2.prems" by simp
    then show ?thesis
      using walk_from_step [of m f n va g] walk_from_step [of m' f n va g] Some same by simp
  qed
qed

lemma walk_reads_path:
  assumes "a \<in> set (walk_reads m f n va)"
  shows "\<exists>l g. l \<le> n \<and> a = slot g (walk_index (n - l) va)
    \<and> descend table_entry m f (map (\<lambda>k. walk_index (n - k) va) [0 ..< l]) = Some g"
  using assms
proof (induction m f n va rule: walk_reads.induct)
  case (1 m f va)
  then show ?case by simp
next
  case (2 m f n va)
  show ?case
  proof (cases "a = slot f (walk_index (Suc n) va)")
    case True
    then show ?thesis by (intro exI [of _ 0] exI [of _ f]) simp
  next
    case False
    then obtain h where h: "table_entry (load64 m (slot f (walk_index (Suc n) va))) = Some h"
      "a \<in> set (walk_reads m h n va)"
      using "2.prems" by (cases "table_entry (load64 m (slot f (walk_index (Suc n) va)))") auto
    obtain l g where l: "l \<le> n" "a = slot g (walk_index (n - l) va)"
      "descend table_entry m h (map (\<lambda>k. walk_index (n - k) va) [0 ..< l]) = Some g"
      using "2.IH" [OF h] by blast
    have "map (\<lambda>k. walk_index (Suc n - k) va) [0 ..< Suc l]
        = walk_index (Suc n) va # map (\<lambda>k. walk_index (n - k) va) [0 ..< l]"
      by (simp add: upt_conv_Cons map_Suc_upt [symmetric] del: upt_Suc)
    then show ?thesis
      using l h(1) by (intro exI [of _ "Suc l"] exI [of _ g]) (simp del: upt_Suc)
  qed
qed

lemma va_path_length [simp]: "length (va_path l va) = l"
  by (simp add: va_path_def)

lemma va_path_Suc: "va_path (Suc l) va = va_path l va @ [walk_index (3 - l) va]"
  by (simp add: va_path_def)

lemma good_va_path:
  assumes "l \<le> 3" and "walk_index 3 va \<noteq> 511"
  shows "good_path (va_path l va)"
  using assms by (cases l) (auto simp: good_path_def va_path_def upt_conv_Cons simp del: upt_Suc)

lemma walk_store_other:
  assumes "tables_inj table_entry m r" and "descend table_entry m r (va_path l va) = Some f"
    and "l \<le> 3" and "walk_index 3 va \<noteq> 511" and "walk_index 3 va' \<noteq> 511"
    and "va_path (Suc l) va' \<noteq> va_path (Suc l) va"
  shows "walk_from (store64 m (slot f (walk_index (3 - l) va)) e) r 3 va' = walk_from m r 3 va'"
proof (rule walk_from_cong)
  fix a assume "a \<in> set (walk_reads m r 3 va')"
  then obtain k g where k: "k \<le> 3" "a = slot g (walk_index (3 - k) va')"
    "descend table_entry m r (va_path k va') = Some g"
    using walk_reads_path [of a m r 3 va'] by (auto simp: va_path_def)
  have al: "page_aligned f" "page_aligned g"
    using pg.tables_inj_aligned [OF assms(1)] assms(2) k(3) by auto
  have "\<not> (g = f \<and> walk_index (3 - k) va' = walk_index (3 - l) va)"
  proof
    assume eq: "g = f \<and> walk_index (3 - k) va' = walk_index (3 - l) va"
    then have path: "va_path k va' = va_path l va"
      using assms(1-5) k good_va_path [of k va'] good_va_path [of l va]
      by (auto simp: tables_inj_def)
    then have "k = l" by (metis va_path_length)
    then show False using path eq assms(6) by (simp add: va_path_Suc)
  qed
  then show "load64 (store64 m (slot f (walk_index (3 - l) va)) e) a = load64 m a"
    using load_slot_store [OF al(2,1) walk_index_less walk_index_less] k(2) by auto
qed

lemma rec_slot_store:
  assumes "tables_inj table_entry m r" and "rec_slot m r"
    and "descend table_entry m r (va_path l va) = Some f" and "l \<le> 3" and "walk_index 3 va \<noteq> 511"
  shows "rec_slot (store64 m (slot f (walk_index (3 - l) va)) e) r"
proof -
  have r: "page_aligned r" using assms(2) by (simp add: rec_slot_def)
  have "page_aligned f" using pg.descend_aligned [OF r assms(3)] .
  moreover have "\<not> (r = f \<and> 511 = walk_index (3 - l) va)"
  proof
    assume eq: "r = f \<and> 511 = walk_index (3 - l) va"
    then have "va_path l va = []"
      using assms(1,3-5) good_va_path [of l va] unfolding tables_inj_def
      by (metis descend.simps(1) good_va_path le0 va_path_simps(1))
    then have "l = 0" by (metis list.size(3) va_path_length)
    then show False using eq assms(5) by simp
  qed
  ultimately show ?thesis
    using assms(2) load_slot_store [OF r _ _ walk_index_less, of f 511 m "3 - l" va e]
    by (auto simp: rec_slot_def)
qed

text \<open>A walk that reaches a page table or a page directory.\<close>

lemma walk_prefix:
  assumes "descend table_entry m r (va_path l va) = Some f" and "l \<le> 3"
  shows "walk_from m r 3 va = walk_from m f (3 - l) va"
  using assms
proof (induction l arbitrary: f)
  case 0
  then show ?case by simp
next
  case (Suc l)
  obtain g where g: "descend table_entry m r (va_path l va) = Some g"
    "table_entry (load64 m (slot g (walk_index (3 - l) va))) = Some f"
    using Suc.prems(1) by (auto simp: va_path_Suc descend_snoc split: bind_splits)
  have "3 - l = Suc (3 - Suc l)" using Suc.prems(2) by simp
  then have "walk_from m g (3 - l) va = walk_from m f (3 - Suc l) va"
    using g(2) walk_from_step by metis
  then show ?case using Suc.IH [OF g(1)] Suc.prems(2) by simp
qed

lemma walk_not_present:
  assumes "\<not> entry_present (load64 m (slot f (walk_index n va)))"
  shows "walk_from m f n va = Inl (PageFault va)"
  using assms by (cases n) (simp_all add: Let_def)

lemma walk_descend_3:
  assumes "descend table_entry m r (va_path 3 va) = Some f"
  shows "walk_from m r 3 va = walk_from m f 0 va"
  using walk_prefix [OF assms] by simp

lemma walk_descend_2:
  assumes "descend table_entry m r (va_path 2 va) = Some f"
  shows "walk_from m r 3 va = walk_from m f 1 va"
  using walk_prefix [OF assms] by simp

text \<open>The page of an address: bits 12 to 47.\<close>

definition page_no :: "u64 \<Rightarrow> u64" where
  "page_no va = drop_bit 12 va AND mask 36"

definition large_page_no :: "u64 \<Rightarrow> u64" where
  "large_page_no va = drop_bit 21 va AND mask 27"

lemma walk_index_page_no: "n \<le> 3 \<Longrightarrow> walk_index n va = drop_bit (9 * n) (page_no va) AND mask 9"
  by (rule bit_word_eqI) (auto simp: bit_walk_index page_no_def bit_simps algebra_simps)

lemma walk_index_large_page_no:
  "0 < n \<Longrightarrow> n \<le> 3 \<Longrightarrow> walk_index n va = drop_bit (9 * (n - 1)) (large_page_no va) AND mask 9"
  by (cases n) (auto intro!: bit_word_eqI
      simp: bit_walk_index large_page_no_def bit_simps algebra_simps)

lemma bit_page_no: "bit (page_no va) k \<longleftrightarrow> k < 36 \<and> bit (walk_index (k div 9) va) (k mod 9)"
proof -
  have e: "12 + 9 * (k div 9) + k mod 9 = 12 + k" by simp
  show ?thesis unfolding page_no_def bit_walk_index e by (auto simp: bit_simps add.commute)
qed

lemma bit_large_page_no:
  "bit (large_page_no va) k \<longleftrightarrow> k < 27 \<and> bit (walk_index (Suc (k div 9)) va) (k mod 9)"
proof -
  have e: "12 + 9 * Suc (k div 9) + k mod 9 = 21 + k" by simp
  show ?thesis unfolding large_page_no_def bit_walk_index e by (auto simp: bit_simps add.commute)
qed

lemma va_path_4: "va_path (Suc 3) va = [walk_index 3 va, walk_index 2 va, walk_index 1 va, walk_index 0 va]"
  unfolding va_path_Suc va_path_simps by simp

lemma page_no_path: "va_path (Suc 3) va = va_path (Suc 3) va' \<longleftrightarrow> page_no va = page_no va'"
proof
  assume "va_path (Suc 3) va = va_path (Suc 3) va'"
  then have "walk_index n va = walk_index n va'" if "n < 4" for n
    using that unfolding va_path_4 by (auto simp: less_Suc_eq numeral_eq_Suc)
  then show "page_no va = page_no va'"
    by (intro bit_word_eqI) (auto simp: bit_page_no)
next
  assume "page_no va = page_no va'"
  then show "va_path (Suc 3) va = va_path (Suc 3) va'"
    unfolding va_path_4 by (simp add: walk_index_page_no)
qed

lemma large_page_no_path: "va_path 3 va = va_path 3 va' \<longleftrightarrow> large_page_no va = large_page_no va'"
proof
  assume "va_path 3 va = va_path 3 va'"
  then have "walk_index (Suc n) va = walk_index (Suc n) va'" if "n < 3" for n
    using that unfolding va_path_simps by (auto simp: less_Suc_eq numeral_eq_Suc)
  then show "large_page_no va = large_page_no va'"
    by (intro bit_word_eqI) (auto simp: bit_large_page_no)
next
  assume "large_page_no va = large_page_no va'"
  then show "va_path 3 va = va_path 3 va'"
    by (simp add: walk_index_large_page_no)
qed

end
