(* ===== verification/Paging_Correct.thy ===== *)
theory Paging_Correct
  imports Paging_Walk
begin

text \<open>
  What the operations of \<^verbatim>\<open>arch/x86_64/mm/vm.c\<close> do to translations: mapping makes exactly
  one page (or the pages asked for) translate to the frame, unmapping undoes it, and the
  translation of every other address outside the recursive slot stays as it was.
\<close>

section \<open>The invariant\<close>

text \<open>
  The page tables form a tree outside the recursive slot, no table lies in a free frame, and
  the locks are free. \<open>2 ^ 34\<close> bitmap words describe the \<open>2 ^ 52\<close> bytes that an entry can address.
\<close>

definition tables_not_free :: "kernel \<Rightarrow> bool" where
  "tables_not_free st \<longleftrightarrow> (\<forall>q f. good_path q \<longrightarrow>
     descend table_entry (pmem st) (root st) q = Some f \<longrightarrow> frame_no f \<notin> frames (k_phys st))"

definition pg_inv :: "kernel \<Rightarrow> bool" where
  "pg_inv st \<longleftrightarrow> phys_ok (k_phys st) \<and> length (mm_table (k_phys st)) \<le> 2 ^ 34
     \<and> tables_inj table_entry (pmem st) (root st) \<and> rec_slot (pmem st) (root st)
     \<and> tables_not_free st"

definition pg_ok :: "kernel \<Rightarrow> bool" where
  "pg_ok st \<longleftrightarrow> lock_free (pg_lock st) \<and> pg_inv st"

definition locked_pg :: "kernel \<Rightarrow> kernel" where
  "locked_pg st = st\<lparr>pg_lock := (pg_lock st)\<lparr>lk_next := lk_next (pg_lock st) + 1\<rparr>\<rparr>"

definition cycle_pg :: "kernel \<Rightarrow> kernel" where
  "cycle_pg st = st\<lparr>pg_lock := \<lparr>lk_next = lk_next (pg_lock st) + 1,
     lk_owner = lk_owner (pg_lock st) + 1\<rparr>\<rparr>"

lemma lock_pg_ok [simp]: "lock_free (pg_lock st) \<Longrightarrow> lock_pg st = Inr (locked_pg st)"
  by (simp add: lock_pg_def locked_pg_def spin_lock_free)

lemma locked_pg_simps [simp]:
  "pmem (locked_pg st) = pmem st" "cr3 (locked_pg st) = cr3 st" "k_phys (locked_pg st) = k_phys st"
  "root (locked_pg st) = root st" "invlpg_log (locked_pg st) = invlpg_log st"
  by (simp_all add: locked_pg_def root_def)

lemma unlock_locked_pg [simp]:
  "unlock_pg (locked_pg st) = cycle_pg st"
  "unlock_pg ((locked_pg st)\<lparr>pmem := m\<rparr>) = cycle_pg (st\<lparr>pmem := m\<rparr>)"
  "unlock_pg ((locked_pg st)\<lparr>pmem := m, invlpg_log := g\<rparr>) = cycle_pg (st\<lparr>pmem := m, invlpg_log := g\<rparr>)"
  "unlock_pg ((locked_pg st)\<lparr>k_phys := ph, pmem := m\<rparr>) = cycle_pg (st\<lparr>k_phys := ph, pmem := m\<rparr>)"
  by (simp_all add: unlock_pg_def locked_pg_def cycle_pg_def spin_unlock_def)

lemma cycle_pg_simps [simp]:
  "pmem (cycle_pg st) = pmem st" "cr3 (cycle_pg st) = cr3 st" "k_phys (cycle_pg st) = k_phys st"
  "root (cycle_pg st) = root st" "lock_free (pg_lock (cycle_pg st)) = lock_free (pg_lock st)"
  "invlpg_log (cycle_pg st) = invlpg_log st"
  by (simp_all add: cycle_pg_def root_def lock_free_def)

lemma root_upd [simp]: "root (st\<lparr>pmem := m\<rparr>) = root st" "root (st\<lparr>k_phys := ph\<rparr>) = root st"
  "root (st\<lparr>invlpg_log := g\<rparr>) = root st"
  by (simp_all add: root_def)

lemma mmu_walk_root: "mmu_walk (pmem st) (cr3 st) va = walk_from (pmem st) (root st) 3 va"
  by (simp add: mmu_walk_def root_def)

lemma pg_inv_simps [simp]:
  "pg_inv (cycle_pg st) = pg_inv st" "pg_inv (locked_pg st) = pg_inv st"
  "pg_inv (st\<lparr>invlpg_log := g\<rparr>) = pg_inv st"
  by (simp_all add: pg_inv_def tables_not_free_def)

lemma pg_ok_simps [simp]: "pg_ok (cycle_pg st) = pg_ok st" "pg_ok (st\<lparr>invlpg_log := g\<rparr>) = pg_ok st"
  by (simp_all add: pg_ok_def)

text \<open>The translation of an address, \<open>None\<close> for a page fault.\<close>

definition translate :: "kernel \<Rightarrow> u64 \<Rightarrow> u64 option" where
  "translate st va = (case mmu_walk (pmem st) (cr3 st) va of Inl e \<Rightarrow> None | Inr pa \<Rightarrow> Some pa)"

lemma translate_walk:
  "translate st va = (case walk_from (pmem st) (root st) 3 va of Inl e \<Rightarrow> None | Inr pa \<Rightarrow> Some pa)"
  by (simp add: translate_def mmu_walk_root)

lemma translate_cycle [simp]: "translate (cycle_pg st) = translate st"
  by (rule ext) (simp add: translate_walk)

lemma translate_log [simp]: "translate (st\<lparr>invlpg_log := g\<rparr>) = translate st"
  by (rule ext) (simp add: translate_walk)

lemma translate_phys [simp]: "translate (st\<lparr>k_phys := ph\<rparr>) = translate st"
  by (rule ext) (simp add: translate_def)

text \<open>The addresses whose translation is the kernel's business: all but the recursive slot's.\<close>

definition own_addr :: "u64 \<Rightarrow> bool" where
  "own_addr va \<longleftrightarrow> walk_index 3 va \<noteq> 511"

section \<open>Access to the paging structures\<close>

lemma struct_walk:
  assumes "rec_slot (pmem st) (root st)" and "n < 4"
    and "get_paging_struct_vaddr va (of_nat (3 - n)) = Inr tab"
    and "descend table_entry (pmem st) (root st) (va_path (3 - n) va) = Some f"
  shows "mmu_walk (pmem st) (cr3 st) (slot tab (walk_index n va)) = Inr (slot f (walk_index n va))"
  unfolding mmu_walk_root struct_slot [OF assms(2,3)] by (rule walk_rec_addr [OF assms(1,2,4)])

text \<open>A table whose entries the code reaches as an array at \<open>tab\<close>.\<close>

definition window :: "kernel \<Rightarrow> u64 \<Rightarrow> u64 \<Rightarrow> bool" where
  "window st tab f \<longleftrightarrow> (\<forall>i < 512. mmu_walk (pmem st) (cr3 st) (slot tab i) = Inr (slot f i))"

lemma window_load: "window st tab f \<Longrightarrow> i < 512 \<Longrightarrow>
    vload64 st (slot tab i) = Inr (load64 (pmem st) (slot f i))"
  by (simp add: window_def vload64_def)

lemma window_store: "window st tab f \<Longrightarrow> i < 512 \<Longrightarrow>
    vstore64 st (slot tab i) v = Inr (st\<lparr>pmem := store64 (pmem st) (slot f i) v\<rparr>)"
  by (simp add: window_def vstore64_def)

lemma window_locked [simp]: "window (locked_pg st) tab f = window st tab f"
  by (simp add: window_def)

text \<open>Addresses of the dynamic windows.\<close>

definition kmap_va :: "u64 \<Rightarrow> u64" where
  "kmap_va i = KERNEL_MAPPING_BASE + push_bit PG_BITS i"

lemma KERNEL_MAPPING_BASE_val: "KERNEL_MAPPING_BASE = 0xA00000"
  by (simp add: KERNEL_MAPPING_BASE_def MALLOC_END_def MALLOC_BASE_def BUDDY_MAX_ORDER_def)

lemma bit_less_512:
  assumes "(i :: u64) < 512" and "bit i k"
  shows "k < 9"
proof -
  have "unat i < 2 ^ 9" using assms(1) by (simp add: word_less_nat_alt)
  then have "take_bit 9 i = i"
    by (simp add: word_unat_eq_iff unsigned_take_bit_eq take_bit_nat_eq_self)
  then show ?thesis using assms(2) by (metis bit_take_bit_iff)
qed

lemma bit_kmap_base: "bit (0xA00000 :: int) k \<longleftrightarrow> k = 21 \<or> k = 23"
proof -
  have "(0xA00000 :: int) = 2 ^ 21 OR 2 ^ 23" by simp
  then show ?thesis by (simp only: bit_or_iff bit_exp_iff) auto
qed

lemma bit_5: "bit (5 :: int) k \<longleftrightarrow> k = 0 \<or> k = 2"
proof -
  have "(5 :: int) = 2 ^ 0 OR 2 ^ 2" by simp
  then show ?thesis by (simp only: bit_or_iff bit_exp_iff) auto
qed

lemma kmap_va_or: "i < 512 \<Longrightarrow> kmap_va i = 0xA00000 OR push_bit 12 i"
  unfolding kmap_va_def KERNEL_MAPPING_BASE_val PG_BITS_def
  by (rule disjunctive_add) (auto simp: bit_kmap_base bit_push_bit_iff dest!: bit_less_512)

lemma kmap_va_index:
  assumes "i < 512"
  shows "walk_index 0 (kmap_va i) = i" and "walk_index (Suc 0) (kmap_va i) = 5"
    and "walk_index 2 (kmap_va i) = 0" and "walk_index 3 (kmap_va i) = 0"
proof -
  note b = bit_walk_index kmap_va_or [OF assms] bit_kmap_base bit_or_iff bit_push_bit_iff bit_5
  show "walk_index 0 (kmap_va i) = i" "walk_index (Suc 0) (kmap_va i) = 5"
    "walk_index 2 (kmap_va i) = 0" "walk_index 3 (kmap_va i) = 0"
    by (rule bit_word_eqI; use assms in \<open>auto simp: b dest: bit_less_512\<close>)+
qed

lemma struct_vaddr_cong:
  assumes "n < 2" and "\<And>k. 12 + 9 * Suc n \<le> k \<Longrightarrow> bit va k = bit va' k"
  shows "get_paging_struct_vaddr va (of_nat (3 - n)) = get_paging_struct_vaddr va' (of_nat (3 - n))"
proof -
  have n: "n = 0 \<or> n = 1" using assms(1) by linarith
  have "drop_bit (9 * Suc n) va AND NOT (mask 12) = drop_bit (9 * Suc n) va' AND NOT (mask 12)"
    using assms(2) by (intro bit_word_eqI) (auto simp: bit_simps)
  then have "(drop_bit (9 * Suc n) va OR x) AND NOT (mask 12)
      = (drop_bit (9 * Suc n) va' OR x) AND NOT (mask 12)" for x
    by (simp add: bit.conj_disj_distrib2)
  then show ?thesis
    using n by (elim disjE) (simp_all add: get_paging_struct_vaddr_def PGT_MASK_def masks_eq(1))
qed

lemma kmap_struct:
  assumes "i < 512"
  shows "get_paging_struct_vaddr (kmap_va i) 3 = get_paging_struct_vaddr KERNEL_MAPPING_BASE 3"
proof -
  have "bit (kmap_va i) k = bit KERNEL_MAPPING_BASE k" if "21 \<le> k" for k
    using that assms bit_less_512 [OF assms, of "k - 12"]
    by (auto simp: kmap_va_or KERNEL_MAPPING_BASE_val bit_or_iff bit_push_bit_iff)
  then show ?thesis
    using struct_vaddr_cong [of 0 "kmap_va i" KERNEL_MAPPING_BASE] by simp
qed

definition large_va :: "u64 \<Rightarrow> u64" where
  "large_va i = push_bit LARGE_PG_BITS i"

lemma large_va_index:
  assumes "i < 512"
  shows "walk_index (Suc 0) (large_va i) = i" and "walk_index 2 (large_va i) = 0"
    and "walk_index 3 (large_va i) = 0"
  by (rule bit_word_eqI; use assms in \<open>auto simp: bit_walk_index large_va_def LARGE_PG_BITS_def
      bit_push_bit_iff dest: bit_less_512\<close>)+

lemma LG_PG_BASE_val: "LG_PG_BASE = 0xC00000"
  by (simp add: LG_PG_BASE_def KERNEL_MAPPING_BASE_val)

lemma LG_PG_BASE_large_va: "LG_PG_BASE = large_va 6"
  by (simp add: LG_PG_BASE_val large_va_def LARGE_PG_BITS_def)

lemma large_struct:
  assumes "i < 512"
  shows "get_paging_struct_vaddr (large_va i) 2 = get_paging_struct_vaddr LG_PG_BASE 2"
proof -
  have high: "\<not> bit (large_va i) k" if "i < 512" "30 \<le> k" for i k
    using that by (auto simp: large_va_def LARGE_PG_BITS_def bit_push_bit_iff dest!: bit_less_512)
  show ?thesis
    unfolding LG_PG_BASE_large_va
    using struct_vaddr_cong [of 1 "large_va i" "large_va 6"] high [OF assms] high [of 6] by simp
qed

lemma paths_of_windows:
  assumes "i < 512"
  shows "va_path 3 (kmap_va i) = [0, 0, 5]" and "va_path 2 (large_va i) = [0, 0]"
  using assms by (simp_all add: kmap_va_index large_va_index)

lemma kmap_window:
  assumes "rec_slot (pmem st) (root st)"
    and "descend table_entry (pmem st) (root st) [0, 0, 5] = Some f"
    and "get_paging_struct_vaddr KERNEL_MAPPING_BASE 3 = Inr tab"
  shows "window st tab f"
  unfolding window_def
proof (intro allI impI)
  fix i :: u64 assume i: "i < 512"
  show "mmu_walk (pmem st) (cr3 st) (slot tab i) = Inr (slot f i)"
    using struct_walk [OF assms(1), of 0 "kmap_va i" tab f] i assms(2,3) kmap_struct [OF i]
    by (simp add: paths_of_windows kmap_va_index del: va_path_simps)
qed

lemma large_window:
  assumes "rec_slot (pmem st) (root st)"
    and "descend table_entry (pmem st) (root st) [0, 0] = Some f"
    and "get_paging_struct_vaddr LG_PG_BASE 2 = Inr tab"
  shows "window st tab f"
  unfolding window_def
proof (intro allI impI)
  fix i :: u64 assume i: "i < 512"
  show "mmu_walk (pmem st) (cr3 st) (slot tab i) = Inr (slot f i)"
    using struct_walk [OF assms(1), of 1 "large_va i" tab f] i assms(2,3) large_struct [OF i]
    by (simp add: paths_of_windows large_va_index del: va_path_simps)
qed

section \<open>Storing a leaf\<close>

lemma PGT_P_iff: "e AND PGT_P = 0 \<longleftrightarrow> \<not> entry_present e"
  unfolding PGT_P_def entry_present_def using and_exp_eq_0_iff_not_bit [of e 0] by simp

text \<open>What changes when the page table entry for \<open>va\<close> is overwritten.\<close>

lemma leaf_store:
  fixes e :: u64
  assumes "pg_inv st" and "own_addr va"
    and "descend table_entry (pmem st) (root st) (va_path 3 va) = Some f"
  defines "st' \<equiv> st\<lparr>pmem := store64 (pmem st) (slot f (walk_index 0 va)) e\<rparr>"
  shows "pg_inv st'"
    and "own_addr a \<Longrightarrow> page_no a \<noteq> page_no va \<Longrightarrow> translate st' a = translate st a"
    and "page_no a = page_no va \<Longrightarrow>
      translate st' a = (if entry_present e then Some ((e AND ADDR_MASK) OR (a AND mask 12)) else None)"
    and "good_path q \<Longrightarrow>
      descend table_entry (pmem st') (root st') q = descend table_entry (pmem st) (root st) q"
proof -
  have inj: "tables_inj table_entry (pmem st) (root st)" and rs: "rec_slot (pmem st) (root st)"
    using assms(1) by (auto simp: pg_inv_def)
  have va: "walk_index 3 va \<noteq> 511" using assms(2) by (simp add: own_addr_def)
  have good: "good_path (va_path 3 va)" using va by (intro good_va_path) auto
  note leaf = pg.tables_inj_store_leaf [OF inj good assms(3) walk_index_less va_path_length]
  have same: "descend table_entry (pmem st') (root st') q = descend table_entry (pmem st) (root st) q"
    if "good_path q" for q
    using leaf(1) [OF that] by (simp add: st'_def)
  then show "good_path q \<Longrightarrow>
      descend table_entry (pmem st') (root st') q = descend table_entry (pmem st) (root st) q" .
  have "rec_slot (pmem st') (root st')"
    using rec_slot_store [OF inj rs assms(3) _ va] by (simp add: st'_def)
  moreover have "tables_inj table_entry (pmem st') (root st')"
    using leaf(2) by (simp add: st'_def)
  moreover have "tables_not_free st'"
    using assms(1) same by (auto simp: pg_inv_def tables_not_free_def st'_def)
  ultimately show "pg_inv st'"
    using assms(1) by (simp add: pg_inv_def st'_def)
  show "translate st' a = translate st a" if "own_addr a" "page_no a \<noteq> page_no va"
  proof -
    have "va_path (Suc 3) a \<noteq> va_path (Suc 3) va" using that(2) page_no_path by blast
    then show ?thesis
      using walk_store_other [OF inj assms(3) _ va, of a e] that(1)
      unfolding translate_walk st'_def by (simp add: own_addr_def)
  qed
  show "translate st' a = (if entry_present e then Some ((e AND ADDR_MASK) OR (a AND mask 12)) else None)"
    if "page_no a = page_no va"
  proof -
    have "va_path (Suc 3) a = va_path (Suc 3) va" using that by (simp only: page_no_path)
    then have "va_path 3 a = va_path 3 va" and i: "walk_index 0 a = walk_index 0 va"
      unfolding va_path_4 by auto
    then have "descend table_entry (pmem st') (root st') (va_path 3 a) = Some f"
      using same [OF good] assms(3) by simp
    then have "walk_from (pmem st') (root st') 3 a = walk_from (pmem st') f 0 a"
      by (rule walk_descend_3)
    then show ?thesis
      unfolding translate_walk by (simp add: i) (simp add: st'_def)
  qed
qed

section \<open>The dynamic window of 4KB pages\<close>

lemma map_slot_loop_correct:
  assumes "window st tab f" and "stop \<le> 512"
  shows "(\<exists>k. i \<le> k \<and> k < stop \<and> \<not> entry_present (load64 (pmem st) (slot f k))
        \<and> (\<forall>j. i \<le> j \<longrightarrow> j < k \<longrightarrow> entry_present (load64 (pmem st) (slot f j)))
        \<and> map_slot_loop st tab e va_of i stop
            = Inr (va_of k, unlock_pg (st\<lparr>pmem := store64 (pmem st) (slot f k) e\<rparr>)))
    \<or> (\<forall>j. i \<le> j \<longrightarrow> j < stop \<longrightarrow> entry_present (load64 (pmem st) (slot f j)))
        \<and> map_slot_loop st tab e va_of i stop = Inr (0, unlock_pg st)"
  using assms
proof (induction st tab e va_of i stop rule: map_slot_loop.induct)
  case (1 st tab e va_of i stop)
  show ?case
  proof (cases "i < stop")
    case False
    then show ?thesis by (auto simp: map_slot_loop.simps [of st tab e va_of i stop])
  next
    case lt: True
    then have i: "i < 512" using "1.prems"(2) by (rule less_le_trans)
    note load = window_load [OF "1.prems"(1) i]
    show ?thesis
    proof (cases "entry_present (load64 (pmem st) (slot f i))")
      case False
      then have "map_slot_loop st tab e va_of i stop
          = Inr (va_of i, unlock_pg (st\<lparr>pmem := store64 (pmem st) (slot f i) e\<rparr>))"
        using lt load window_store [OF "1.prems"(1) i]
        by (simp add: map_slot_loop.simps [of st tab e va_of i stop] PGT_P_iff)
      then show ?thesis using False lt by (intro disjI1 exI [of _ i]) auto
    next
      case True
      have "map_slot_loop st tab e va_of i stop = map_slot_loop st tab e va_of (i + 1) stop"
        using lt load True by (simp add: map_slot_loop.simps [of st tab e va_of i stop] PGT_P_iff)
      moreover have "i \<le> j \<longleftrightarrow> j = i \<or> i + 1 \<le> j" for j
        using lt inc_le [of i j] unat_Suc_below [OF lt]
        by (auto simp: word_le_nat_alt word_less_nat_alt word_unat_eq_iff)
      ultimately show ?thesis
        using "1.IH" [OF lt load] "1.prems" True PGT_P_iff by (simp del: One_nat_def) blast
    qed
  qed
qed

lemma kmap_va_own [simp]: "i < 512 \<Longrightarrow> own_addr (kmap_va i)"
  by (simp add: own_addr_def kmap_va_index)

text \<open>An entry made of a frame address and flags.\<close>

definition entry_parts :: "u64 \<Rightarrow> u64 \<Rightarrow> bool" where
  "entry_parts frame flags \<longleftrightarrow> frame AND ADDR_MASK = frame \<and> flags AND ADDR_MASK = 0 \<and> entry_present flags"

lemma entry_parts_or:
  assumes "entry_parts frame flags"
  shows "(frame OR flags) AND ADDR_MASK = frame" and "entry_present (frame OR flags)"
  using assms by (simp_all add: entry_parts_def bit.conj_disj_distrib2 entry_present_def bit_or_iff)

lemma translate_leaf_None:
  assumes "descend table_entry (pmem st) (root st) (va_path 3 va) = Some f"
  shows "translate st va = None \<longleftrightarrow> \<not> entry_present (load64 (pmem st) (slot f (walk_index 0 va)))"
  unfolding translate_walk walk_descend_3 [OF assms] by (simp add: Let_def)

lemma kmap_struct_Inr: "\<exists>tab. get_paging_struct_vaddr va 3 = Inr tab"
  by (simp add: get_paging_struct_vaddr_def)

lemma vm_map_page_cases:
  assumes "pg_ok st" and "descend table_entry (pmem st) (root st) [0, 0, 5] = Some f"
  shows "(\<exists>i. i < 512 \<and> translate st (kmap_va i) = None
        \<and> (\<forall>j. j < i \<longrightarrow> translate st (kmap_va j) \<noteq> None)
        \<and> vm_map_page st frame flags = Inr (kmap_va i,
            cycle_pg (st\<lparr>pmem := store64 (pmem st) (slot f i) (frame OR flags)\<rparr>)))
    \<or> (\<forall>i < 512. translate st (kmap_va i) \<noteq> None) \<and> vm_map_page st frame flags = Inr (0, cycle_pg st)"
proof -
  obtain tab where tab: "get_paging_struct_vaddr KERNEL_MAPPING_BASE 3 = Inr tab"
    using kmap_struct_Inr by blast
  have "window (locked_pg st) tab f"
    using kmap_window [OF _ assms(2) tab] assms(1) by (simp add: pg_ok_def pg_inv_def)
  moreover have eq: "vm_map_page st frame flags
      = map_slot_loop (locked_pg st) tab (frame OR flags) kmap_va 0 512"
    using assms(1) tab
    by (simp add: vm_map_page_def pg_ok_def PG_TABLE_ENTRIES_def PG_SIZE_def kmap_va_def [abs_def])
  ultimately consider (hit) k where "k < 512" "\<not> entry_present (load64 (pmem st) (slot f k))"
      "\<forall>j. j < k \<longrightarrow> entry_present (load64 (pmem st) (slot f j))"
      "vm_map_page st frame flags = Inr (kmap_va k,
         cycle_pg (st\<lparr>pmem := store64 (pmem st) (slot f k) (frame OR flags)\<rparr>))"
    | (full) "\<forall>j < 512. entry_present (load64 (pmem st) (slot f j))"
      "vm_map_page st frame flags = Inr (0, cycle_pg st)"
    using map_slot_loop_correct [of "locked_pg st" tab f 512 0 "frame OR flags" kmap_va] by auto
  moreover have no: "translate st (kmap_va i) = None \<longleftrightarrow> \<not> entry_present (load64 (pmem st) (slot f i))"
    if "i < 512" for i
    using translate_leaf_None [of st "kmap_va i" f] that assms(2)
    by (simp add: paths_of_windows kmap_va_index del: va_path_simps)
  ultimately show ?thesis
  proof cases
    case hit
    have "\<forall>j. j < k \<longrightarrow> translate st (kmap_va j) \<noteq> None"
    proof (intro allI impI)
      fix j assume "j < k"
      then show "translate st (kmap_va j) \<noteq> None"
        using hit(1,3) no [of j] by (meson less_trans)
    qed
    then show ?thesis using hit no [OF hit(1)] by (intro disjI1 exI [of _ k]) simp
  next
    case full
    then show ?thesis using no by (intro disjI2) blast
  qed
qed

section \<open>Unmapping\<close>

lemma vm_unmap_page_eq:
  assumes "pg_ok st" and "descend table_entry (pmem st) (root st) (va_path 3 va) = Some f"
  shows "vm_unmap_page st va = Inr (load64 (pmem st) (slot f (walk_index 0 va)) AND PG_MASK,
    cycle_pg (st\<lparr>pmem := store64 (pmem st) (slot f (walk_index 0 va)) 0,
      invlpg_log := invlpg_log st @ [va]\<rparr>))"
proof -
  obtain tab where tab: "get_paging_struct_vaddr va 3 = Inr tab"
    using kmap_struct_Inr by blast
  have i: "drop_bit PG_BITS va AND PG_TABLE_MASK = walk_index 0 va"
    by (simp add: walk_index_def PG_BITS_def PG_TABLE_MASK_def PG_TABLE_BITS_def mask_eq_exp_minus_1)
  have "mmu_walk (pmem st) (cr3 st) (slot tab (walk_index 0 va)) = Inr (slot f (walk_index 0 va))"
    using struct_walk [of st 0 va tab f] assms tab by (simp add: pg_ok_def pg_inv_def)
  then show ?thesis
    using assms(1) tab i
    by (simp add: vm_unmap_page_def pg_ok_def vload64_def vstore64_def Let_def invalidate_page_def)
qed

section \<open>Mapping at a given address\<close>

text \<open>The frames that \<open>alloc_phys_frame\<close> can return.\<close>

definition avail :: "kernel \<Rightarrow> nat set" where
  "avail st = {p \<in> frames (k_phys st). 256 \<le> p \<and> p < 64 * unat (entry_end (k_phys st))}"

text \<open>Free frames hold zeros: the code links new tables without clearing them.\<close>

definition free_zero :: "kernel \<Rightarrow> bool" where
  "free_zero st \<longleftrightarrow> (\<forall>p \<in> frames (k_phys st). zero_table (pmem st) (of_nat (4096 * p)))"

lemma finite_avail [simp]: "finite (avail st)"
  by (simp add: avail_def)

lemma alloc_in_kernel:
  assumes "pg_inv st"
  obtains (none) ph where "alloc_phys_frame (k_phys st) = Inr (0, ph)" "avail st = {}"
    | (some) p g ph where "alloc_phys_frame (k_phys st) = Inr (g, ph)" "g \<noteq> 0"
      "g = of_nat (4096 * p)" "frame_no g = p" "page_aligned g" "g AND ADDR_MASK = g"
      "p \<in> avail st" "frames ph = frames (k_phys st) - {p}" "entry_end ph = entry_end (k_phys st)"
      "phys_ok ph" "length (mm_table ph) = length (mm_table (k_phys st))" "p = Min (avail st)"
proof -
  have ok: "phys_ok (k_phys st)" using assms by (simp add: pg_inv_def)
  obtain g ph where a: "alloc_phys_frame (k_phys st) = Inr (g, ph)"
    using frame.alloc_total [OF ok] by blast
  from alloc_phys_frame_result [OF ok a] show ?thesis
  proof (elim disjE exE conjE)
    assume "g = 0" and l: "lowest_in (frames (k_phys st)) 256 (64 * unat (entry_end (k_phys st))) = None"
    have "avail st = {}"
      using l by (auto simp: lowest_in_def avail_def Let_def split: if_splits)
    then show ?thesis using none a \<open>g = 0\<close> by simp
  next
    fix p t
    assume l: "lowest_in (frames (k_phys st)) 256 (64 * unat (entry_end (k_phys st))) = Some p"
      and g: "g = of_nat (4096 * p)" "unat g = 4096 * p" "g \<noteq> 0"
      and ph: "ph = cycle_lock ((k_phys st)\<lparr>mm_table := t\<rparr>)"
        "length t = length (mm_table (k_phys st))" "bits_of t = frames (k_phys st) - {p}"
    have p: "p \<in> avail st" using l by (simp add: avail_def lowest_in_Some_iff)
    moreover have "p \<le> q" if "q \<in> avail st" for q
      using l that by (auto simp: avail_def lowest_in_Some_iff intro: leI)
    ultimately have least: "p = Min (avail st)" by (intro Min_eqI [symmetric]) auto
    have "p < 64 * length (mm_table (k_phys st))" using p by (simp add: avail_def frames_subset)
    then have "unat g < 2 ^ 52" using g(2) assms by (simp add: pg_inv_def)
    then have "take_bit 52 g = g"
      by (simp add: word_unat_eq_iff unsigned_take_bit_eq take_bit_nat_eq_self)
    then have "g AND mask 52 = g" by (simp only: take_bit_eq_mask)
    moreover have al: "page_aligned g" using g(2) by (simp add: page_aligned_def)
    then have "g AND NOT (mask 12) = g"
      by (intro bit_word_eqI) (auto simp: page_aligned_bits bit_simps intro: leI)
    ultimately have "g AND ADDR_MASK = g" by (simp add: ADDR_MASK_def flip: and.assoc)
    then show ?thesis
      using some [of g ph p] a g p ph ok al least by (simp add: frame_no_def frames_table)
  qed
qed

text \<open>No large page stands in the way of a 4KB mapping of \<open>va\<close> above the page table.\<close>

definition no_large_at :: "kernel \<Rightarrow> nat \<Rightarrow> u64 \<Rightarrow> bool" where
  "no_large_at st n va \<longleftrightarrow> (\<forall>l f. l < n \<longrightarrow> descend table_entry (pmem st) (root st) (va_path l va) = Some f
     \<longrightarrow> entry_present (load64 (pmem st) (slot f (walk_index (3 - l) va)))
     \<longrightarrow> \<not> entry_large (load64 (pmem st) (slot f (walk_index (3 - l) va))))"

lemma table_entry_new:
  assumes "g AND ADDR_MASK = g"
  shows "table_entry (g OR PGT_P OR PGT_RW) = Some g"
proof -
  have b: "bit g k \<Longrightarrow> 12 \<le> k" for k
    using assms by (metis bit_ADDR_MASK bit_and_iff)
  have low: "bit (PGT_P OR PGT_RW) k \<longleftrightarrow> k = 0 \<or> k = 1" for k
  proof -
    have "(PGT_P OR PGT_RW :: u64) = 2 ^ 0 OR 2 ^ 1" by (simp add: PGT_P_def PGT_RW_def)
    then show ?thesis by (simp only: bit_or_iff bit_exp_iff) (auto simp: exp_eq_zero_iff)
  qed
  have "(PGT_P OR PGT_RW) AND ADDR_MASK = 0"
    by (simp add: PGT_P_def PGT_RW_def ADDR_MASK_def mask_eq_exp_minus_1)
  then have "(g OR PGT_P OR PGT_RW) AND ADDR_MASK = g"
    using assms by (simp add: bit.conj_disj_distrib2)
  moreover have "entry_present (g OR PGT_P OR PGT_RW)" "\<not> entry_large (g OR PGT_P OR PGT_RW)"
    using low [of 0] low [of 7] b [of 7] by (auto simp: entry_present_def entry_large_def bit_or_iff)
  ultimately show ?thesis by (simp add: table_entry_def)
qed

lemma zero_table_store:
  assumes "pg_inv st" and "p \<in> frames (k_phys st)" and "good_path q"
    and "descend table_entry (pmem st) (root st) q = Some f" and "i < 512"
    and "zero_table (pmem st) (of_nat (4096 * p))"
  shows "zero_table (store64 (pmem st) (slot f i) e) (of_nat (4096 * p))"
proof -
  let ?h = "of_nat (4096 * p) :: u64"
  have inj: "tables_inj table_entry (pmem st) (root st)" and nf: "tables_not_free st"
    using assms(1) by (auto simp: pg_inv_def)
  have u: "unat ?h = 4096 * p"
    using assms(1,2) by (intro unat_of_frame unat_pow_46) (auto simp: pg_inv_def)
  then have al: "page_aligned ?h" by (simp add: page_aligned_def)
  have "f \<noteq> ?h" using nf assms(2-4) u by (auto simp: tables_not_free_def frame_no_def)
  then show ?thesis
    using load_slot_store [OF al pg.tables_inj_aligned [OF inj assms(4)] _ assms(5)] assms(6)
    by (auto simp: zero_table_def)
qed

text \<open>
  The state after linking the new table \<open>g\<close>, in the frame \<open>p\<close>, into the entry for \<open>va\<close> of the
  table \<open>f\<close> at depth \<open>l\<close>. A page table (\<open>l = 2\<close>) may hold anything, a table above it is empty.
\<close>

lemma link_table:
  assumes "pg_inv st" and "l = 2 \<or> zero_table (pmem st) g" and "own_addr va" and "l < 3"
    and "descend table_entry (pmem st) (root st) (va_path l va) = Some f"
    and "\<not> entry_present (load64 (pmem st) (slot f (walk_index (3 - l) va)))"
    and "p \<in> frames (k_phys st)" and "g = of_nat (4096 * p)" and "frame_no g = p"
    and "g AND ADDR_MASK = g" and "frames ph = frames (k_phys st) - {p}" and "phys_ok ph"
    and "length (mm_table ph) = length (mm_table (k_phys st))"
  defines "st' \<equiv> st\<lparr>k_phys := ph, pmem := store64 (pmem st) (slot f (walk_index (3 - l) va))
      (g OR PGT_P OR PGT_RW)\<rparr>"
  shows "pg_inv st'" and "free_zero st \<Longrightarrow> free_zero st'"
    and "descend table_entry (pmem st') (root st') (va_path (Suc l) va) = Some g"
    and "own_addr a \<Longrightarrow> va_path (Suc l) a \<noteq> va_path (Suc l) va \<Longrightarrow> translate st' a = translate st a"
    and "good_path q \<Longrightarrow> q \<noteq> va_path (Suc l) va \<Longrightarrow>
      descend table_entry (pmem st') (root st') q = descend table_entry (pmem st) (root st) q"
    and "j < 512 \<Longrightarrow> load64 (pmem st') (slot g j) = load64 (pmem st) (slot g j)"
proof -
  let ?e = "g OR PGT_P OR PGT_RW"
  let ?i = "walk_index (3 - l) va"
  have inj: "tables_inj table_entry (pmem st) (root st)" and rs: "rec_slot (pmem st) (root st)"
    and nf: "tables_not_free st"
    using assms(1) by (auto simp: pg_inv_def)
  have va: "walk_index 3 va \<noteq> 511" using assms(3) by (simp add: own_addr_def)
  have path: "va_path l va @ [?i] = va_path (Suc l) va" by (simp add: va_path_Suc)
  have good: "good_path (va_path l va @ [?i])"
    unfolding path using va assms(4) by (intro good_va_path) auto
  have none: "table_entry (load64 (pmem st) (slot f ?i)) = None"
    using assms(6) by (simp add: table_entry_def)
  have new: "table_entry ?e = Some g" using assms(10) by (rule table_entry_new)
  have empty: "length (va_path l va) = 2 \<or> zero_table (pmem st) g" using assms(2) by simp
  have fresh: "\<forall>q. good_path q \<longrightarrow> descend table_entry (pmem st) (root st) q \<noteq> Some g"
    using nf assms(7,9) by (auto simp: tables_not_free_def)
  note link = pg.descend_link [OF inj good assms(5) none new empty fresh]
  show d: "descend table_entry (pmem st') (root st') (va_path (Suc l) va) = Some g"
    using link(1) by (simp add: st'_def path)
  show "j < 512 \<Longrightarrow> load64 (pmem st') (slot g j) = load64 (pmem st) (slot g j)"
    using link(3) by (simp add: st'_def)
  have same: "descend table_entry (pmem st') (root st') q = descend table_entry (pmem st) (root st) q"
    if "good_path q" "q \<noteq> va_path (Suc l) va" for q
    using link(2) [OF that(1)] that(2) by (simp add: st'_def path)
  then show "good_path q \<Longrightarrow> q \<noteq> va_path (Suc l) va \<Longrightarrow>
      descend table_entry (pmem st') (root st') q = descend table_entry (pmem st) (root st) q" .
  have "tables_not_free st'"
    unfolding tables_not_free_def
  proof (intro allI impI)
    fix q h
    assume q: "good_path q" "descend table_entry (pmem st') (root st') q = Some h"
    show "frame_no h \<notin> frames (k_phys st')"
    proof (cases "q = va_path (Suc l) va")
      case True
      then show ?thesis using q(2) d assms(9,11) by (auto simp: st'_def)
    next
      case False
      then show ?thesis
        using q same nf assms(11) by (auto simp: st'_def tables_not_free_def)
    qed
  qed
  moreover have "rec_slot (pmem st') (root st')"
    using rec_slot_store [OF inj rs assms(5) _ va, of ?e] assms(4) by (simp add: st'_def)
  ultimately show "pg_inv st'"
    using assms(1,12,13) link(4) by (simp add: pg_inv_def st'_def)
  show "free_zero st'" if "free_zero st"
    unfolding free_zero_def
  proof
    fix p' assume p': "p' \<in> frames (k_phys st')"
    then have old: "p' \<in> frames (k_phys st)" by (auto simp: st'_def assms(11))
    then show "zero_table (pmem st') (of_nat (4096 * p'))"
      using zero_table_store [OF assms(1) old good_path_butlast [OF good] assms(5) walk_index_less] that
      by (simp add: free_zero_def st'_def)
  qed
  show "translate st' a = translate st a" if "own_addr a" "va_path (Suc l) a \<noteq> va_path (Suc l) va"
    using walk_store_other [OF inj assms(5) _ va, of a ?e] that assms(4)
    unfolding translate_walk by (simp add: own_addr_def st'_def)
qed

lemma unlinked_translate:
  assumes "descend table_entry (pmem st) (root st) (va_path l va) = Some f" and "l < 3"
    and "\<not> entry_present (load64 (pmem st) (slot f (walk_index (3 - l) va)))"
    and "va_path (Suc l) a = va_path (Suc l) va"
  shows "translate st a = None"
proof -
  have "va_path l a = va_path l va" and "walk_index (3 - l) a = walk_index (3 - l) va"
    using assms(4) by (simp_all add: va_path_Suc)
  then have "walk_from (pmem st) (root st) 3 a = Inl (PageFault a)"
    using walk_prefix [of "pmem st" "root st" l a f] assms(1-3) by (simp add: walk_not_present)
  then show ?thesis by (simp add: translate_walk)
qed

lemma link_new_table:
  assumes "pg_inv st" and "free_zero st" and "own_addr va" and "l < 3"
    and "descend table_entry (pmem st) (root st) (va_path l va) = Some f"
    and "\<not> entry_present (load64 (pmem st) (slot f (walk_index (3 - l) va)))"
    and "p \<in> frames (k_phys st)" and "g = of_nat (4096 * p)" and "frame_no g = p"
    and "g AND ADDR_MASK = g" and "frames ph = frames (k_phys st) - {p}" and "phys_ok ph"
    and "length (mm_table ph) = length (mm_table (k_phys st))"
  defines "st' \<equiv> st\<lparr>k_phys := ph, pmem := store64 (pmem st) (slot f (walk_index (3 - l) va))
      (g OR PGT_P OR PGT_RW)\<rparr>"
  shows "pg_inv st'" and "free_zero st'"
    and "descend table_entry (pmem st') (root st') (va_path (Suc l) va) = Some g"
    and "own_addr a \<Longrightarrow> translate st' a = translate st a"
    and "good_path q \<Longrightarrow> q \<noteq> va_path (Suc l) va \<Longrightarrow>
      descend table_entry (pmem st') (root st') q = descend table_entry (pmem st) (root st) q"
    and "zero_table (pmem st') g"
proof -
  have zero: "zero_table (pmem st) g" using assms(2,7,8) by (simp add: free_zero_def)
  note link = link_table [OF assms(1) disjI2 [OF zero] assms(3-13), folded st'_def]
  show "pg_inv st'" by (rule link(1))
  show "free_zero st'" by (rule link(2) [OF assms(2)])
  show d: "descend table_entry (pmem st') (root st') (va_path (Suc l) va) = Some g" by (rule link(3))
  show "good_path q \<Longrightarrow> q \<noteq> va_path (Suc l) va \<Longrightarrow>
      descend table_entry (pmem st') (root st') q = descend table_entry (pmem st) (root st) q"
    by (rule link(5))
  show zt: "zero_table (pmem st') g" using zero link(6) by (simp add: zero_table_def)
  show "translate st' a = translate st a" if "own_addr a"
  proof (cases "va_path (Suc l) a = va_path (Suc l) va")
    case False
    then show ?thesis using link(4) that by blast
  next
    case True
    have "walk_from (pmem st') g (3 - Suc l) a = Inl (PageFault a)"
      using zt by (intro walk_not_present) (simp add: zero_table_def entry_present_def)
    then have "walk_from (pmem st') (root st') 3 a = Inl (PageFault a)"
      using walk_prefix [of "pmem st'" "root st'" "Suc l" a g] assms(4) d True by simp
    then show ?thesis
      using unlinked_translate [OF assms(5,4,6) True] by (simp add: translate_walk)
  qed
qed

lemma va_path_prefix: "l \<le> k \<Longrightarrow> prefix (va_path l va) (va_path k va)"
  by (induction k) (auto simp: va_path_Suc le_Suc_eq)

lemma no_large_link:
  assumes "pg_inv st" and "own_addr va" and "l < 3"
    and "descend table_entry (pmem st) (root st) (va_path l va) = Some f"
    and "\<not> entry_present (load64 (pmem st) (slot f (walk_index (3 - l) va)))"
    and "pmem st' = store64 (pmem st) (slot f (walk_index (3 - l) va)) e" and "root st' = root st"
    and "table_entry e = Some g" and "zero_table (pmem st') g"
    and "descend table_entry (pmem st') (root st') (va_path (Suc l) va) = Some g"
    and "\<And>q. good_path q \<Longrightarrow> q \<noteq> va_path (Suc l) va \<Longrightarrow>
      descend table_entry (pmem st') (root st') q = descend table_entry (pmem st) (root st) q"
    and "no_large_at st n va" and "n \<le> 3"
  shows "no_large_at st' n va"
  unfolding no_large_at_def
proof (intro allI impI)
  fix k h
  assume k: "k < n" "descend table_entry (pmem st') (root st') (va_path k va) = Some h"
    "entry_present (load64 (pmem st') (slot h (walk_index (3 - k) va)))"
  have inj: "tables_inj table_entry (pmem st) (root st)" using assms(1) by (simp add: pg_inv_def)
  have good: "good_path (va_path j va)" if "j \<le> 3" for j
    using assms(2) that by (simp add: own_addr_def good_va_path)
  have neq: "va_path k va \<noteq> va_path (Suc l) va" if "k \<noteq> Suc l"
    using that by (metis va_path_length)
  have "\<not> Suc l < k"
  proof
    assume lt: "Suc l < k"
    have "prefix (va_path (Suc l) va) (va_path k va)"
      using lt by (intro va_path_prefix) simp
    then obtain t where t: "va_path k va = va_path (Suc l) va @ t" by (auto simp: prefix_def)
    have "descend table_entry (pmem st) (root st) (va_path (Suc l) va) = None"
      using assms(4,5) by (simp add: va_path_Suc descend_snoc table_entry_def)
    then have "descend table_entry (pmem st) (root st) (va_path k va) = None"
      unfolding t by (simp add: descend_append)
    then show False using k(1,2) assms(11,13) good [of k] neq lt by simp
  qed
  then consider "k = Suc l" | "k = l" | "k < l" by linarith
  then show "\<not> entry_large (load64 (pmem st') (slot h (walk_index (3 - k) va)))"
  proof cases
    case 1
    then have "h = g" using k(2) assms(10) by simp
    then show ?thesis using assms(9) by (simp add: zero_table_def entry_large_def)
  next
    case 2
    then have "h = f" using k(1,2) assms(4,11,13) good [of k] neq by simp
    then show ?thesis using 2 assms(6,8) by (auto simp: table_entry_def split: if_splits)
  next
    case 3
    then have h: "descend table_entry (pmem st) (root st) (va_path k va) = Some h"
      using k(1,2) assms(11,13) good [of k] neq by simp
    have "h \<noteq> f"
    proof
      assume "h = f"
      then have "va_path k va = va_path l va"
        using inj h assms(3,4,13) k(1) good [of k] good [of l] by (auto simp: tables_inj_def)
      then show False using 3 by (metis less_irrefl va_path_length)
    qed
    then have "load64 (pmem st') (slot h (walk_index (3 - k) va))
        = load64 (pmem st) (slot h (walk_index (3 - k) va))"
      using load_slot_store [OF pg.tables_inj_aligned [OF inj h] pg.tables_inj_aligned [OF inj assms(4)]
          walk_index_less walk_index_less] by (simp add: assms(6))
    then show ?thesis using assms(12) k(1,3) h by (auto simp: no_large_at_def)
  qed
qed

text \<open>What the blocks before the last entry keep, from the state \<open>st\<close> to \<open>st'\<close>.\<close>

definition linked :: "nat \<Rightarrow> u64 \<Rightarrow> kernel \<Rightarrow> kernel \<Rightarrow> bool" where
  "linked n va st st' \<longleftrightarrow> pg_inv st' \<and> free_zero st' \<and> no_large_at st' n va
     \<and> pg_lock st' = pg_lock st \<and> root st' = root st \<and> invlpg_log st' = invlpg_log st
     \<and> (\<forall>a. own_addr a \<longrightarrow> translate st' a = translate st a)
     \<and> card (avail st) \<le> Suc (card (avail st'))"

lemma ensure_table_correct:
  assumes "pg_inv st" and "free_zero st" and "no_large_at st n va" and "own_addr va"
    and "l < n" and "n \<le> 3"
    and "descend table_entry (pmem st) (root st) (va_path l va) = Some f"
    and "get_paging_struct_vaddr va (of_nat l) = Inr tab"
  shows "ensure_table st tab (walk_index (3 - l) va) msg = Inl (Panic msg) \<and> avail st = {}
    \<or> (\<exists>st' g. ensure_table st tab (walk_index (3 - l) va) msg = Inr st' \<and> linked n va st st'
        \<and> descend table_entry (pmem st') (root st') (va_path (Suc l) va) = Some g)"
proof -
  let ?i = "walk_index (3 - l) va"
  have w: "mmu_walk (pmem st) (cr3 st) (slot tab ?i) = Inr (slot f ?i)"
    using struct_walk [of st "3 - l" va tab f] assms by (simp add: pg_inv_def)
  then have load: "vload64 st (slot tab ?i) = Inr (load64 (pmem st) (slot f ?i))"
    by (simp add: vload64_def)
  show ?thesis
  proof (cases "entry_present (load64 (pmem st) (slot f ?i))")
    case True
    then have "\<not> entry_large (load64 (pmem st) (slot f ?i))"
      using assms(3,5,7) by (auto simp: no_large_at_def)
    then have "descend table_entry (pmem st) (root st) (va_path (Suc l) va)
        = Some (load64 (pmem st) (slot f ?i) AND ADDR_MASK)"
      using True assms(7) by (simp add: va_path_Suc descend_snoc table_entry_def)
    moreover have "ensure_table st tab ?i msg = Inr st"
      using True load by (simp add: ensure_table_def PGT_P_iff)
    ultimately show ?thesis
      using assms(1-3) by (auto simp: linked_def)
  next
    case np: False
    show ?thesis
    proof (cases rule: alloc_in_kernel [OF assms(1)])
      case (1 ph)
      then show ?thesis using np load by (simp add: ensure_table_def PGT_P_iff)
    next
      case (2 p g ph)
      define st' where "st' = st\<lparr>k_phys := ph, pmem := store64 (pmem st) (slot f ?i) (g OR PGT_P OR PGT_RW)\<rparr>"
      have res: "ensure_table st tab ?i msg = Inr st'"
        using np load w 2(1,2)
        by (simp add: ensure_table_def PGT_P_iff vstore64_def st'_def)
      have p: "p \<in> frames (k_phys st)" and l3: "l < 3" using 2(7) assms(5,6) by (auto simp: avail_def)
      note link = link_new_table [OF assms(1,2,4) l3 assms(7) np p 2(3,4,6,8,10,11), folded st'_def]
      have "no_large_at st' n va"
        by (rule no_large_link [OF assms(1,4) l3 assms(7) np, where e = "g OR PGT_P OR PGT_RW" and g = g])
           (use link(3,5,6) table_entry_new [OF 2(6)] assms(3,6) in \<open>simp_all add: st'_def\<close>)
      moreover have "avail st' = avail st - {p}"
        using 2(8,9) by (auto simp: avail_def st'_def)
      then have "card (avail st) \<le> Suc (card (avail st'))"
        using 2(7) by (simp add: card_Diff_singleton)
      ultimately have "linked n va st st'"
        using link(1,2,4) by (simp add: linked_def) (simp add: st'_def root_def)
      then show ?thesis using res link(3) by blast
    qed
  qed
qed

lemma linked_trans:
  assumes "linked n va st st1" and "linked n va st1 st2"
  shows "pg_inv st2" "free_zero st2" "no_large_at st2 n va" "pg_lock st2 = pg_lock st"
    "root st2 = root st" "own_addr a \<Longrightarrow> translate st2 a = translate st a"
    "card (avail st) \<le> card (avail st2) + 2"
  using assms by (auto simp: linked_def)

lemma struct_Inr: "l < 4 \<Longrightarrow> \<exists>tab. get_paging_struct_vaddr va (of_nat l) = Inr tab"
  by (auto simp: get_paging_struct_vaddr_def less_Suc_eq numeral_eq_Suc)

lemma avail_locked [simp]: "avail (locked_pg st) = avail st"
  by (simp add: avail_def)

lemma translate_locked [simp]: "translate (locked_pg st) = translate st"
  by (rule ext) (simp add: translate_walk)

lemma locked_pg_inv_simps [simp]:
  "free_zero (locked_pg st) = free_zero st" "no_large_at (locked_pg st) n va = no_large_at st n va"
  by (simp_all add: free_zero_def no_large_at_def)

text \<open>The first two blocks, which the two functions share.\<close>

lemma ensure_two_levels:
  assumes "pg_inv st" and "free_zero st" and "no_large_at st n va" and "own_addr va"
    and "2 \<le> n" and "n \<le> 3"
    and "get_paging_struct_vaddr va 0 = Inr t0" and "get_paging_struct_vaddr va 1 = Inr t1"
  obtains (panic) msg where "\<And>k :: kernel \<Rightarrow> kernel result. rbind (ensure_table st t0 (pml4t_entry va) m0)
        (\<lambda>st. rbind (ensure_table st t1 (pdpt_entry va) m1) k) = Inl (Panic msg)" "card (avail st) < 2"
    | (ok) st2 f where "\<And>k :: kernel \<Rightarrow> kernel result. rbind (ensure_table st t0 (pml4t_entry va) m0)
        (\<lambda>st. rbind (ensure_table st t1 (pdpt_entry va) m1) k) = k st2"
      "pg_inv st2" "free_zero st2" "no_large_at st2 n va" "pg_lock st2 = pg_lock st" "root st2 = root st"
      "\<And>a. own_addr a \<Longrightarrow> translate st2 a = translate st a" "card (avail st) \<le> card (avail st2) + 2"
      "descend table_entry (pmem st2) (root st2) (va_path 2 va) = Some f"
proof -
  note e = entry_indices
  consider "ensure_table st t0 (pml4t_entry va) m0 = Inl (Panic m0)" "avail st = {}"
    | st1 f1 where "ensure_table st t0 (pml4t_entry va) m0 = Inr st1" "linked n va st st1"
      "descend table_entry (pmem st1) (root st1) (va_path 1 va) = Some f1"
    using ensure_table_correct [OF assms(1-4), of 0 "root st" t0 m0] assms(5-7)
    unfolding e by (auto simp del: va_path_simps simp: va_path_simps(1))
  then show ?thesis
  proof cases
    case 1
    then show ?thesis by (intro panic) auto
  next
    case (2 st1 f1)
    then have inv1: "pg_inv st1" "free_zero st1" "no_large_at st1 n va"
      by (auto simp: linked_def)
    have "1 < n" using assms(5) by simp
    then consider "ensure_table st1 t1 (pdpt_entry va) m1 = Inl (Panic m1)" "avail st1 = {}"
      | st2 f where "ensure_table st1 t1 (pdpt_entry va) m1 = Inr st2" "linked n va st1 st2"
        "descend table_entry (pmem st2) (root st2) (va_path (Suc 1) va) = Some f"
      using ensure_table_correct [OF inv1 assms(4) _ assms(6) 2(3), of t1 m1] assms(8)
      unfolding e by (auto simp del: va_path_simps)
    then show ?thesis
    proof cases
      case 1
      then show ?thesis
        using 2(1,2) by (intro panic) (auto simp: linked_def)
    next
      case s: (2 st2 f)
      note tr = linked_trans [OF 2(2) s(2)]
      show ?thesis
        using 2(1) s(1,3) tr by (intro ok [of st2 f]) (auto simp: numeral_2_eq_2 simp del: va_path_simps)
    qed
  qed
qed

text \<open>The last block of \<open>vm_map_page_unrestricted\<close>, which stores the page table entry.\<close>

definition store_last :: "u64 \<Rightarrow> u64 \<Rightarrow> u64 \<Rightarrow> kernel \<Rightarrow> kernel result" where
  "store_last tab entry e st = rbind (vload64 st (slot tab entry)) (\<lambda>old.
     if old AND PGT_P \<noteq> 0 then Inl (Panic ''page table entry not available'')
     else rbind (vstore64 st (slot tab entry) e) (\<lambda>st. Inr (unlock_pg st)))"

lemma vm_map_page_unrestricted_blocks:
  assumes "lock_free (pg_lock st)"
    and "get_paging_struct_vaddr va 0 = Inr t0" and "get_paging_struct_vaddr va 1 = Inr t1"
    and "get_paging_struct_vaddr va 2 = Inr t2" and "get_paging_struct_vaddr va 3 = Inr t3"
  shows "vm_map_page_unrestricted st frame flags va = rbind (ensure_table (locked_pg st) t0
      (pml4t_entry va) ''page allocation for PDPT failed'') (\<lambda>st. rbind (ensure_table st t1
      (pdpt_entry va) ''page allocation for PDT failed'') (\<lambda>st. rbind (ensure_table st t2
      (pdt_entry va) ''page allocation for PT failed'') (store_last t3 (pt_entry va) (frame OR flags))))"
  using assms by (simp add: vm_map_page_unrestricted_def store_last_def [abs_def])

lemma store_last_correct:
  assumes "pg_inv st" and "lock_free lk" and "pg_lock st = lk\<lparr>lk_next := lk_next lk + 1\<rparr>"
    and "own_addr va" and "entry_parts frame flags"
    and "descend table_entry (pmem st) (root st) (va_path 3 va) = Some f"
    and "get_paging_struct_vaddr va 3 = Inr tab"
  shows "store_last tab (pt_entry va) (frame OR flags) st
        = Inl (Panic ''page table entry not available'') \<and> translate st va \<noteq> None
    \<or> (\<exists>st'. store_last tab (pt_entry va) (frame OR flags) st = Inr st' \<and> pg_ok st'
        \<and> (free_zero st \<longrightarrow> free_zero st') \<and> k_phys st' = k_phys st \<and> translate st va = None
        \<and> (\<forall>a. own_addr a \<longrightarrow> translate st' a =
            (if page_no a = page_no va then Some (frame OR (a AND mask 12)) else translate st a)))"
proof (cases "entry_present (load64 (pmem st) (slot f (walk_index 0 va)))")
  case True
  have w: "mmu_walk (pmem st) (cr3 st) (slot tab (walk_index 0 va)) = Inr (slot f (walk_index 0 va))"
    using struct_walk [of st 0 va tab f] assms(1,6,7) by (simp add: pg_inv_def)
  then show ?thesis
    using translate_leaf_None [OF assms(6)] True
    by (simp add: store_last_def vload64_def entry_indices PGT_P_iff)
next
  case False
  let ?st = "st\<lparr>pmem := store64 (pmem st) (slot f (walk_index 0 va)) (frame OR flags)\<rparr>"
  have w: "mmu_walk (pmem st) (cr3 st) (slot tab (walk_index 0 va)) = Inr (slot f (walk_index 0 va))"
    using struct_walk [of st 0 va tab f] assms(1,6,7) by (simp add: pg_inv_def)
  then have res: "store_last tab (pt_entry va) (frame OR flags) st = Inr (unlock_pg ?st)"
    using False by (simp add: store_last_def vload64_def vstore64_def entry_indices PGT_P_iff)
  note leaf = leaf_store [OF assms(1,4,6), where e = "frame OR flags"]
  have un: "unlock_pg ?st = ?st\<lparr>pg_lock := spin_unlock (pg_lock st)\<rparr>"
    by (simp add: unlock_pg_def)
  have free: "lock_free (pg_lock (unlock_pg ?st))"
    using assms(2,3) by (simp add: un spin_unlock_def lock_free_def)
  have inv: "pg_inv (unlock_pg ?st)"
    using leaf(1) by (simp add: un pg_inv_def tables_not_free_def root_def)
  have good: "good_path (va_path 3 va)"
    using assms(4) by (simp add: own_addr_def good_va_path del: va_path_simps)
  have "free_zero st \<longrightarrow> free_zero (unlock_pg ?st)"
    using zero_table_store [OF assms(1) _ good assms(6) walk_index_less] by (simp add: un free_zero_def)
  moreover have "translate st va = None" using translate_leaf_None [OF assms(6)] False by simp
  moreover have "translate (unlock_pg ?st) a =
      (if page_no a = page_no va then Some (frame OR (a AND mask 12)) else translate st a)"
    if "own_addr a" for a
    using leaf(2) [of a] leaf(3) [of a] that entry_parts_or [OF assms(5)]
    by (simp add: un translate_walk root_def)
  moreover have "k_phys (unlock_pg ?st) = k_phys st" by (simp add: un)
  ultimately show ?thesis using res free inv by (auto simp: pg_ok_def)
qed

lemma pg_lock_locked: "pg_lock (locked_pg st) = (pg_lock st)\<lparr>lk_next := lk_next (pg_lock st) + 1\<rparr>"
  by (simp add: locked_pg_def)

lemma vm_map_page_unrestricted_cases:
  assumes "pg_ok st" and "free_zero st" and "no_large_at st 3 va" and "own_addr va"
    and "entry_parts frame flags"
  shows "(\<exists>msg. vm_map_page_unrestricted st frame flags va = Inl (Panic msg))
      \<and> (translate st va \<noteq> None \<or> card (avail st) < 3)
    \<or> (\<exists>st'. vm_map_page_unrestricted st frame flags va = Inr st' \<and> pg_ok st' \<and> free_zero st'
        \<and> translate st va = None
        \<and> (\<forall>a. own_addr a \<longrightarrow> translate st' a =
            (if page_no a = page_no va then Some (frame OR (a AND mask 12)) else translate st a)))"
proof -
  have inv: "pg_inv (locked_pg st)" "free_zero (locked_pg st)" "no_large_at (locked_pg st) 3 va"
    and lf: "lock_free (pg_lock st)"
    using assms(1-3) by (auto simp: pg_ok_def)
  obtain t0 t1 t2 t3 where t: "get_paging_struct_vaddr va 0 = Inr t0" "get_paging_struct_vaddr va 1 = Inr t1"
    "get_paging_struct_vaddr va 2 = Inr t2" "get_paging_struct_vaddr va 3 = Inr t3"
    using struct_Inr [of 0 va] struct_Inr [of 1 va] struct_Inr [of 2 va] struct_Inr [of 3 va] by auto
  note eq = vm_map_page_unrestricted_blocks [OF lf t, of frame flags]
  show ?thesis
  proof (cases rule: ensure_two_levels [OF inv assms(4) _ _ t(1,2), of
        "''page allocation for PDPT failed''" "''page allocation for PDT failed''", case_names two le panic ok])
    case (panic msg)
    then show ?thesis unfolding eq by simp
  next
    case (ok st2 f2)
    consider "ensure_table st2 t2 (pdt_entry va) ''page allocation for PT failed''
          = Inl (Panic ''page allocation for PT failed'')" "avail st2 = {}"
      | st3 f where "ensure_table st2 t2 (pdt_entry va) ''page allocation for PT failed'' = Inr st3"
        "linked 3 va st2 st3" "descend table_entry (pmem st3) (root st3) (va_path 3 va) = Some f"
      using ensure_table_correct [OF ok(2-4) assms(4), of 2 f2 t2 "''page allocation for PT failed''"]
        ok(9) t(3) unfolding entry_indices by (auto simp: eval_nat_numeral simp del: va_path_simps)
    then show ?thesis
    proof cases
      case 1
      then show ?thesis unfolding eq using ok(1,8) by simp
    next
      case (2 st3 f)
      have inv3: "pg_inv st3" "free_zero st3"
        and lk: "pg_lock st3 = (pg_lock st)\<lparr>lk_next := lk_next (pg_lock st) + 1\<rparr>"
        and tr: "\<And>a. own_addr a \<Longrightarrow> translate st3 a = translate st a"
        using 2(2) ok(5,7) by (auto simp: linked_def pg_lock_locked)
      have res: "vm_map_page_unrestricted st frame flags va = store_last t3 (pt_entry va) (frame OR flags) st3"
        unfolding eq using ok(1) 2(1) by simp
      show ?thesis
        using store_last_correct [OF inv3(1) lf lk assms(4,5) 2(3) t(4)] inv3(2) tr assms(4)
        unfolding res by auto
    qed
  qed simp_all
qed

text \<open>When the tables are there already, nothing is allocated and what free frames hold is irrelevant.\<close>

lemma ensure_table_present:
  assumes "pg_inv st" and "l < 3"
    and "descend table_entry (pmem st) (root st) (va_path (Suc l) va) = Some g"
    and "get_paging_struct_vaddr va (of_nat l) = Inr tab"
  shows "ensure_table st tab (walk_index (3 - l) va) msg = Inr st"
proof -
  obtain f where f: "descend table_entry (pmem st) (root st) (va_path l va) = Some f"
    and e: "table_entry (load64 (pmem st) (slot f (walk_index (3 - l) va))) = Some g"
    using assms(3) by (auto simp: va_path_Suc descend_snoc split: bind_splits)
  have "vload64 st (slot tab (walk_index (3 - l) va)) = Inr (load64 (pmem st) (slot f (walk_index (3 - l) va)))"
    using struct_walk [of st "3 - l" va tab f] assms f by (simp add: pg_inv_def vload64_def)
  moreover have "entry_present (load64 (pmem st) (slot f (walk_index (3 - l) va)))"
    using e by (simp add: table_entry_def split: if_splits)
  ultimately show ?thesis by (simp add: ensure_table_def PGT_P_iff)
qed

lemma descend_upper:
  assumes "descend nxt m r (va_path k va) = Some f" and "l \<le> k"
  obtains g where "descend nxt m r (va_path l va) = Some g"
proof -
  obtain t where "va_path k va = va_path l va @ t"
    using va_path_prefix [OF assms(2), of va] by (auto simp: prefix_def)
  then show ?thesis using assms(1) that by (auto simp: descend_append split: bind_splits)
qed

text \<open>The first two blocks do nothing when the page directory is there.\<close>

lemma vm_map_page_unrestricted_directory:
  assumes "pg_ok st" and "own_addr va" and "descend table_entry (pmem st) (root st) (va_path 2 va) = Some f"
    and "get_paging_struct_vaddr va 2 = Inr t2" and "get_paging_struct_vaddr va 3 = Inr t3"
  shows "vm_map_page_unrestricted st frame flags va = rbind (ensure_table (locked_pg st) t2
      (pdt_entry va) ''page allocation for PT failed'') (store_last t3 (pt_entry va) (frame OR flags))"
proof -
  have inv: "pg_inv (locked_pg st)" and lf: "lock_free (pg_lock st)" using assms(1) by (auto simp: pg_ok_def)
  obtain t0 t1 where t: "get_paging_struct_vaddr va 0 = Inr t0" "get_paging_struct_vaddr va 1 = Inr t1"
    using struct_Inr [of 0 va] struct_Inr [of 1 va] by auto
  obtain g where g: "descend table_entry (pmem (locked_pg st)) (root (locked_pg st)) (va_path (Suc 0) va) = Some g"
    using descend_upper [OF assms(3), of "Suc 0"] by (auto simp del: va_path_simps)
  have f: "descend table_entry (pmem (locked_pg st)) (root (locked_pg st)) (va_path (Suc 1) va) = Some f"
    using assms(3) by (simp add: numeral_2_eq_2 del: va_path_simps)
  have "ensure_table (locked_pg st) t0 (pml4t_entry va) m = Inr (locked_pg st)" for m
    using ensure_table_present [OF inv _ g, of t0 m] t(1) by (simp add: entry_indices)
  moreover have "ensure_table (locked_pg st) t1 (pdpt_entry va) m = Inr (locked_pg st)" for m
    using ensure_table_present [OF inv _ f, of t1 m] t(2) by (simp add: entry_indices)
  ultimately show ?thesis
    unfolding vm_map_page_unrestricted_blocks [OF lf t assms(4,5)] by simp
qed

lemma vm_map_page_unrestricted_present:
  assumes "pg_ok st" and "own_addr va" and "entry_parts frame flags"
    and "descend table_entry (pmem st) (root st) (va_path 3 va) = Some f"
  shows "vm_map_page_unrestricted st frame flags va = Inl (Panic ''page table entry not available'')
        \<and> translate st va \<noteq> None
    \<or> (\<exists>st'. vm_map_page_unrestricted st frame flags va = Inr st' \<and> pg_ok st'
        \<and> (free_zero st \<longrightarrow> free_zero st') \<and> translate st va = None
        \<and> (\<forall>a. own_addr a \<longrightarrow> translate st' a =
            (if page_no a = page_no va then Some (frame OR (a AND mask 12)) else translate st a)))"
proof -
  have inv: "pg_inv (locked_pg st)" and lf: "lock_free (pg_lock st)" using assms(1) by (auto simp: pg_ok_def)
  obtain t2 t3 where t: "get_paging_struct_vaddr va 2 = Inr t2" "get_paging_struct_vaddr va 3 = Inr t3"
    using struct_Inr [of 2 va] struct_Inr [of 3 va] by auto
  have f: "descend table_entry (pmem (locked_pg st)) (root (locked_pg st)) (va_path (Suc 2) va) = Some f"
    using assms(4) by (simp add: numeral_2_eq_2 numeral_3_eq_3 del: va_path_simps)
  obtain d where d: "descend table_entry (pmem st) (root st) (va_path 2 va) = Some d"
    using descend_upper [OF assms(4), of 2] by (auto simp del: va_path_simps)
  have "ensure_table (locked_pg st) t2 (pdt_entry va) m = Inr (locked_pg st)" for m
    using ensure_table_present [OF inv _ f, of t2 m] t(1) by (simp add: entry_indices)
  then have res: "vm_map_page_unrestricted st frame flags va
      = store_last t3 (pt_entry va) (frame OR flags) (locked_pg st)"
    unfolding vm_map_page_unrestricted_directory [OF assms(1,2) d t] by simp
  have "descend table_entry (pmem (locked_pg st)) (root (locked_pg st)) (va_path 3 va) = Some f"
    using assms(4) by simp
  from store_last_correct [OF inv lf pg_lock_locked assms(2,3) this t(2)] show ?thesis
    unfolding res by auto
qed

text \<open>
  The page directory is there and the page table is not: the new page table is the allocated
  frame with whatever it holds.
\<close>

lemma vm_map_page_unrestricted_stale_cases:
  assumes "pg_ok st" and "own_addr va" and "entry_parts frame flags"
    and "descend table_entry (pmem st) (root st) (va_path 2 va) = Some f"
    and "\<not> entry_present (load64 (pmem st) (slot f (walk_index 1 va)))" and "avail st \<noteq> {}"
  defines "p \<equiv> Min (avail st)"
  defines "g \<equiv> of_nat (4096 * p)"
  shows "if entry_present (load64 (pmem st) (slot g (walk_index 0 va)))
     then vm_map_page_unrestricted st frame flags va = Inl (Panic ''page table entry not available'')
     else \<exists>st'. vm_map_page_unrestricted st frame flags va = Inr st' \<and> pg_ok st'
       \<and> frames (k_phys st') = frames (k_phys st) - {p}
       \<and> (\<forall>a. own_addr a \<longrightarrow> translate st' a =
            (if page_no a = page_no va then Some (frame OR (a AND mask 12))
             else if large_page_no a = large_page_no va
             then (let e = load64 (pmem st) (slot g (walk_index 0 a))
                   in if entry_present e then Some ((e AND ADDR_MASK) OR (a AND mask 12)) else None)
             else translate st a))"
proof -
  let ?st = "locked_pg st"
  have inv: "pg_inv ?st" and lf: "lock_free (pg_lock st)" using assms(1) by (auto simp: pg_ok_def)
  obtain t2 t3 where t: "get_paging_struct_vaddr va 2 = Inr t2" "get_paging_struct_vaddr va 3 = Inr t3"
    using struct_Inr [of 2 va] struct_Inr [of 3 va] by auto
  have f: "descend table_entry (pmem ?st) (root ?st) (va_path 2 va) = Some f" using assms(4) by simp
  have i: "walk_index (3 - 2) va = walk_index 1 va" by simp
  have np: "\<not> entry_present (load64 (pmem ?st) (slot f (walk_index (3 - 2) va)))" using assms(5) by simp
  have w: "mmu_walk (pmem ?st) (cr3 ?st) (slot t2 (walk_index 1 va)) = Inr (slot f (walk_index 1 va))"
    using struct_walk [of ?st 1 va t2 f] inv f t(1) by (simp add: pg_inv_def numeral_2_eq_2 del: va_path_simps)
  show ?thesis
  proof (cases rule: alloc_in_kernel [OF inv])
    case (1 ph)
    then show ?thesis using assms(6) by simp
  next
    case (2 p' g' ph)
    have p': "p' = p" using 2(12) by (simp add: p_def)
    have g': "g' = g" using 2(3) by (simp add: p' g_def)
    note 2 = 2 [unfolded p' g']
    define st3 where "st3 = ?st\<lparr>k_phys := ph, pmem := store64 (pmem ?st) (slot f (walk_index 1 va))
        (g OR PGT_P OR PGT_RW)\<rparr>"
    have p: "p \<in> frames (k_phys ?st)" using 2(7) by (simp add: avail_def)
    note link = link_table [OF inv disjI1 [OF refl] assms(2) _ f np p 2(3,4,6,8,10,11), unfolded i, folded st3_def]
    have 3: "Suc 2 = 3" by simp
    have d: "descend table_entry (pmem st3) (root st3) (va_path 3 va) = Some g"
      using link(3) unfolding 3 by simp
    have "ensure_table ?st t2 (pdt_entry va) m = Inr st3" for m
      using np w 2(1,2) by (simp add: ensure_table_def PGT_P_iff vload64_def vstore64_def st3_def entry_indices)
    then have res: "vm_map_page_unrestricted st frame flags va = store_last t3 (pt_entry va) (frame OR flags) st3"
      unfolding vm_map_page_unrestricted_directory [OF assms(1,2,4) t] by simp
    have tr: "translate st3 a = (if large_page_no a = large_page_no va
        then (let e = load64 (pmem st) (slot g (walk_index 0 a))
              in if entry_present e then Some ((e AND ADDR_MASK) OR (a AND mask 12)) else None)
        else translate st a)" if "own_addr a" for a
    proof (cases "large_page_no a = large_page_no va")
      case True
      then have "va_path 3 a = va_path 3 va" by (simp only: large_page_no_path)
      then have "walk_from (pmem st3) (root st3) 3 a = walk_from (pmem st3) g 0 a"
        using d by (intro walk_descend_3) simp
      then show ?thesis using True link(6) [of "walk_index 0 a"] by (simp add: translate_walk Let_def)
    next
      case False
      then have "va_path 3 a \<noteq> va_path 3 va" unfolding large_page_no_path .
      then show ?thesis using link(4) [OF _ that] False unfolding 3 by (simp del: va_path_simps)
    qed
    have "pg_inv st3" using link(1) by simp
    moreover have "pg_lock st3 = (pg_lock st)\<lparr>lk_next := lk_next (pg_lock st) + 1\<rparr>"
      by (simp add: st3_def pg_lock_locked)
    moreover have "translate st3 va \<noteq> None \<longleftrightarrow> entry_present (load64 (pmem st) (slot g (walk_index 0 va)))"
      using tr [OF assms(2)] by (simp add: Let_def)
    moreover have "k_phys st3 = ph" by (simp add: st3_def)
    ultimately show ?thesis
      using store_last_correct [OF _ lf _ assms(2,3) d t(2)] 2(3,7,8) tr
      by (auto simp: res)
  qed
qed

end
