(* ===== verification/Paging_Windows.thy ===== *)
theory Paging_Windows
  imports Paging_Correct
begin

text \<open>
  The two dynamic windows of \<^verbatim>\<open>arch/x86_64/mm/vm.c\<close>: one page table for 4KB pages and a part of
  a page directory for 2MB pages. \<open>vm_map_pages\<close> and \<open>vm_map_large_pages\<close> differ in the table
  they search and in the addresses that depend on an entry of it. The locale \<open>leaf_window\<close> states
  what their loops rely on; it is interpreted for both windows.
\<close>

section \<open>Leaves at the page directory level\<close>

lemma pdt_leaf_store:
  fixes e :: u64
  assumes "pg_inv st" and "own_addr va"
    and "descend table_entry (pmem st) (root st) (va_path 2 va) = Some f"
    and "table_entry (load64 (pmem st) (slot f (walk_index 1 va))) = None" and "table_entry e = None"
  defines "st' \<equiv> st\<lparr>pmem := store64 (pmem st) (slot f (walk_index 1 va)) e\<rparr>"
  shows "pg_inv st'"
    and "own_addr a \<Longrightarrow> large_page_no a \<noteq> large_page_no va \<Longrightarrow> translate st' a = translate st a"
    and "large_page_no a = large_page_no va \<Longrightarrow> translate st' a =
      (if entry_present e then Some ((e AND ADDR_MASK AND NOT (mask 21)) OR (a AND mask 21)) else None)"
    and "good_path q \<Longrightarrow>
      descend table_entry (pmem st') (root st') q = descend table_entry (pmem st) (root st) q"
proof -
  have inj: "tables_inj table_entry (pmem st) (root st)" and rs: "rec_slot (pmem st) (root st)"
    using assms(1) by (auto simp: pg_inv_def)
  have va: "walk_index 3 va \<noteq> 511" using assms(2) by (simp add: own_addr_def)
  have good: "good_path (va_path 2 va)" using va by (intro good_va_path) auto
  note none = pg.descend_store_none [OF inj good assms(3) walk_index_less assms(4,5)]
  have same: "descend table_entry (pmem st') (root st') q = descend table_entry (pmem st) (root st) q"
    if "good_path q" for q
    using none(1) [OF that] by (simp add: st'_def)
  then show "good_path q \<Longrightarrow>
      descend table_entry (pmem st') (root st') q = descend table_entry (pmem st) (root st) q" .
  have "rec_slot (pmem st') (root st')"
    using rec_slot_store [OF inj rs assms(3) _ va, of e] by (simp add: st'_def)
  moreover have "tables_inj table_entry (pmem st') (root st')"
    using none(2) by (simp add: st'_def)
  moreover have "tables_not_free st'"
    using assms(1) same by (auto simp: pg_inv_def tables_not_free_def st'_def)
  ultimately show "pg_inv st'"
    using assms(1) by (simp add: pg_inv_def st'_def)
  show "translate st' a = translate st a" if "own_addr a" "large_page_no a \<noteq> large_page_no va"
  proof -
    have "va_path (Suc 2) a \<noteq> va_path (Suc 2) va"
      using that(2) large_page_no_path [of a va] by (simp add: numeral_3_eq_3 numeral_2_eq_2)
    then show ?thesis
      using walk_store_other [OF inj assms(3) _ va, of a e] that(1)
      unfolding translate_walk st'_def by (simp add: own_addr_def)
  qed
  show "translate st' a = (if entry_present e then Some ((e AND ADDR_MASK AND NOT (mask 21)) OR (a AND mask 21))
      else None)" if "large_page_no a = large_page_no va"
  proof -
    have "va_path 3 a = va_path 3 va" using that by (simp only: large_page_no_path)
    then have "va_path 2 a = va_path 2 va" and i: "walk_index (Suc 0) a = walk_index (Suc 0) va"
      by auto
    then have "descend table_entry (pmem st') (root st') (va_path 2 a) = Some f"
      using same [OF good] assms(3) by simp
    then have "walk_from (pmem st') (root st') 3 a = walk_from (pmem st') f 1 a"
      by (rule walk_descend_2)
    then show ?thesis
      unfolding translate_walk using assms(5)
      by (auto simp: i table_entry_def Let_def st'_def split: if_splits)
  qed
qed

section \<open>A table of leaves\<close>

locale leaf_window =
  fixes tab :: u64
    and J :: "kernel \<Rightarrow> u64 \<Rightarrow> bool"
    and dep :: "u64 \<Rightarrow> u64 option"
    and leaf :: "u64 \<Rightarrow> bool"
  assumes J_window: "J st f \<Longrightarrow> window st tab f \<and> page_aligned f"
    and J_store: "J st f \<Longrightarrow> i < 512 \<Longrightarrow> leaf (load64 (pmem st) (slot f i)) \<Longrightarrow> leaf e \<Longrightarrow>
      J (st\<lparr>pmem := store64 (pmem st) (slot f i) e\<rparr>) f"
    and store_other: "J st f \<Longrightarrow> i < 512 \<Longrightarrow> leaf (load64 (pmem st) (slot f i)) \<Longrightarrow> leaf e \<Longrightarrow>
      own_addr a \<Longrightarrow> dep a \<noteq> Some i \<Longrightarrow>
      translate (st\<lparr>pmem := store64 (pmem st) (slot f i) e\<rparr>) a = translate st a"
    and free_leaf: "\<not> entry_present e \<Longrightarrow> leaf e"
begin

lemma fill_slots_correct:
  assumes "J st f" and "j \<le> stop" and "stop \<le> 512" and "\<And>fr. leaf (fr OR flags)"
    and "\<And>i. j \<le> i \<Longrightarrow> i < stop \<Longrightarrow> \<not> entry_present (load64 (pmem st) (slot f i))"
  shows "\<exists>m. fill_slots st tab frame flags sz j stop = Inr (st\<lparr>pmem := m\<rparr>) \<and> J (st\<lparr>pmem := m\<rparr>) f
    \<and> (\<forall>i < 512. load64 m (slot f i) = (if j \<le> i \<and> i < stop then (frame + sz * (i - j)) OR flags
        else load64 (pmem st) (slot f i)))
    \<and> (\<forall>a. own_addr a \<longrightarrow> (\<forall>i. j \<le> i \<longrightarrow> i < stop \<longrightarrow> dep a \<noteq> Some i) \<longrightarrow>
        translate (st\<lparr>pmem := m\<rparr>) a = translate st a)"
  using assms
proof (induction "unat stop - unat j" arbitrary: st frame j)
  case 0
  then have "\<not> j < stop" by (simp add: word_less_nat_alt)
  then show ?case
    using "0.prems"(1) by (intro exI [of _ "pmem st"]) (auto simp: fill_slots.simps [of st tab frame])
next
  case (Suc n)
  have lt: "j < stop" using Suc.hyps(2) by (simp add: word_less_nat_alt)
  have j: "j < 512" using lt Suc.prems(3) by (rule less_le_trans)
  have uj: "unat (j + 1) = Suc (unat j)" using lt by (rule unat_Suc_below)
  have np: "\<not> entry_present (load64 (pmem st) (slot f j))" using Suc.prems(5) lt by simp
  define st1 where "st1 = st\<lparr>pmem := store64 (pmem st) (slot f j) (frame OR flags)\<rparr>"
  have al: "page_aligned f" and win: "window st tab f" using J_window [OF Suc.prems(1)] by auto
  have J1: "J st1 f"
    using J_store [OF Suc.prems(1) j free_leaf [OF np]] Suc.prems(4) by (simp add: st1_def)
  have ld: "load64 (pmem st1) (slot f i) = (if i = j then frame OR flags else load64 (pmem st) (slot f i))"
    if "i < 512" for i
    using load_slot_store [OF al al that j] by (simp add: st1_def)
  have step: "fill_slots st tab frame flags sz j stop = fill_slots st1 tab (frame + sz) flags sz (j + 1) stop"
    using lt window_store [OF win j] by (simp add: fill_slots.simps [of st tab frame] st1_def)
  have np1: "\<not> entry_present (load64 (pmem st1) (slot f i))" if "j + 1 \<le> i" "i < stop" for i
    using ld [of i] Suc.prems(3,5) that uj by (auto simp: word_le_nat_alt word_less_nat_alt)
  have n: "n = unat stop - unat (j + 1)" using Suc.hyps(2) uj by linarith
  obtain m where m: "fill_slots st1 tab (frame + sz) flags sz (j + 1) stop = Inr (st1\<lparr>pmem := m\<rparr>)"
    "J (st1\<lparr>pmem := m\<rparr>) f"
    "\<And>i. i < 512 \<Longrightarrow> load64 m (slot f i) = (if j + 1 \<le> i \<and> i < stop
        then (frame + sz + sz * (i - (j + 1))) OR flags else load64 (pmem st1) (slot f i))"
    "\<And>a. own_addr a \<Longrightarrow> \<forall>i. j + 1 \<le> i \<longrightarrow> i < stop \<longrightarrow> dep a \<noteq> Some i \<Longrightarrow>
        translate (st1\<lparr>pmem := m\<rparr>) a = translate st1 a"
    using Suc.hyps(1) [OF n J1 inc_le [OF lt] Suc.prems(3,4) np1, of "frame + sz"] by blast
  have st1: "st1\<lparr>pmem := m\<rparr> = st\<lparr>pmem := m\<rparr>" by (simp add: st1_def)
  have loads: "load64 m (slot f i) = (if j \<le> i \<and> i < stop then (frame + sz * (i - j)) OR flags
        else load64 (pmem st) (slot f i))" if i: "i < 512" for i
  proof -
    consider "i = j" | "i < j" | "j + 1 \<le> i"
      using uj by (metis inc_le linorder_cases)
    then show ?thesis
    proof cases
      case 1
      then have "\<not> j + 1 \<le> i" using uj by (simp add: word_le_nat_alt)
      then show ?thesis using m(3) [OF i] ld [OF i] 1 lt by simp
    next
      case 2
      then have "\<not> j + 1 \<le> i" "i \<noteq> j" "\<not> j \<le> i" using uj by (auto simp: word_le_nat_alt word_less_nat_alt)
      then show ?thesis using m(3) [OF i] ld [OF i] by simp
    next
      case 3
      then have "i \<noteq> j" "j \<le> i" using uj by (auto simp: word_le_nat_alt)
      then show ?thesis using m(3) [OF i] ld [OF i] 3 by (simp add: algebra_simps)
    qed
  qed
  have "translate (st\<lparr>pmem := m\<rparr>) a = translate st a"
    if a: "own_addr a" "\<forall>i. j \<le> i \<longrightarrow> i < stop \<longrightarrow> dep a \<noteq> Some i" for a
  proof -
    have "translate st1 a = translate st a"
      unfolding st1_def using a lt
      by (intro store_other [OF Suc.prems(1) j free_leaf [OF np] Suc.prems(4)]) auto
    moreover have "\<forall>i. j + 1 \<le> i \<longrightarrow> i < stop \<longrightarrow> dep a \<noteq> Some i"
      using a(2) uj by (simp add: word_le_nat_alt)
    ultimately show ?thesis using m(4) [OF a(1)] by (simp add: st1)
  qed
  then show ?case
    using step m(1,2) loads by (intro exI [of _ m]) (simp add: st1)
qed

lemma count_free_slots_correct:
  assumes "window st tab f" and "stop \<le> 512" and "j \<le> stop"
  shows "\<exists>k. j \<le> k \<and> k \<le> stop \<and> count_free_slots st tab j stop c = Inr (k, c + (k - j))
    \<and> (\<forall>i. j \<le> i \<longrightarrow> i < k \<longrightarrow> \<not> entry_present (load64 (pmem st) (slot f i)))
    \<and> (k < stop \<longrightarrow> entry_present (load64 (pmem st) (slot f k)))"
  using assms(3)
proof (induction "unat stop - unat j" arbitrary: j c)
  case 0
  then have "j = stop" by (simp add: word_le_nat_alt word_unat_eq_iff)
  then show ?case by (intro exI [of _ stop]) (auto simp: count_free_slots.simps [of st tab stop])
next
  case (Suc n)
  have lt: "j < stop" using Suc.hyps(2) by (simp add: word_less_nat_alt)
  have uj: "unat (j + 1) = Suc (unat j)" using lt by (rule unat_Suc_below)
  have load: "vload64 st (slot tab j) = Inr (load64 (pmem st) (slot f j))"
    using window_load [OF assms(1)] lt assms(2) by (meson less_le_trans)
  show ?case
  proof (cases "entry_present (load64 (pmem st) (slot f j))")
    case True
    then show ?thesis
      using lt load by (intro exI [of _ j]) (auto simp: count_free_slots.simps [of st tab j] PGT_P_iff)
  next
    case False
    have n: "n = unat stop - unat (j + 1)" using Suc.hyps(2) uj by linarith
    obtain k where k: "j + 1 \<le> k" "k \<le> stop"
      "count_free_slots st tab (j + 1) stop (c + 1) = Inr (k, c + 1 + (k - (j + 1)))"
      "\<forall>i. j + 1 \<le> i \<longrightarrow> i < k \<longrightarrow> \<not> entry_present (load64 (pmem st) (slot f i))"
      "k < stop \<longrightarrow> entry_present (load64 (pmem st) (slot f k))"
      using Suc.hyps(1) [OF n inc_le [OF lt], of "c + 1"] by blast
    have "count_free_slots st tab j stop c = Inr (k, c + (k - j))"
      using lt load False k(3) by (simp add: count_free_slots.simps [of st tab j] PGT_P_iff)
    moreover have "\<forall>i. j \<le> i \<longrightarrow> i < k \<longrightarrow> \<not> entry_present (load64 (pmem st) (slot f i))"
      using k(4) False uj by (metis inc_le order_le_less)
    moreover have "j \<le> k" using k(1) uj by (simp add: word_le_nat_alt)
    ultimately show ?thesis using k(2,5) by blast
  qed
qed

text \<open>
  The search: it returns 0 and changes nothing, or finds \<open>num\<close> free entries in a row and fills
  them with consecutive frames.
\<close>

definition mapped_run ::
    "kernel \<Rightarrow> u64 \<Rightarrow> u64 \<Rightarrow> u64 \<Rightarrow> u64 \<Rightarrow> u64 \<Rightarrow> u64 \<Rightarrow> kernel \<Rightarrow> bool" where
  "mapped_run st f frame num flags sz k st' \<longleftrightarrow>
     (\<forall>i. k \<le> i \<longrightarrow> i < k + num \<longrightarrow> \<not> entry_present (load64 (pmem st) (slot f i)))
     \<and> (\<exists>m. st' = unlock_pg (st\<lparr>pmem := m\<rparr>) \<and> J (st\<lparr>pmem := m\<rparr>) f
         \<and> (\<forall>i. k \<le> i \<longrightarrow> i < k + num \<longrightarrow> load64 m (slot f i) = (frame + sz * (i - k)) OR flags)
         \<and> (\<forall>a. own_addr a \<longrightarrow> (\<forall>i. k \<le> i \<longrightarrow> i < k + num \<longrightarrow> dep a \<noteq> Some i) \<longrightarrow>
             translate (st\<lparr>pmem := m\<rparr>) a = translate st a))"

lemma map_slots_loop_correct:
  assumes "J st f" and "\<And>fr. leaf (fr OR flags)" and "0 < num" and "num \<le> limit"
    and "limit \<le> 512" and "stop = limit - num + 1" and "unat stop \<le> fuel + unat i"
  shows "map_slots_loop (Suc fuel) st tab frame num flags sz va_of i stop = Inr (0, unlock_pg st)
    \<or> (\<exists>k st'. map_slots_loop (Suc fuel) st tab frame num flags sz va_of i stop = Inr (va_of k, st')
        \<and> i \<le> k \<and> unat k + unat num \<le> unat limit \<and> mapped_run st f frame num flags sz k st')"
  using assms(7)
proof (induction fuel arbitrary: i)
  case 0
  then have "\<not> i < stop" by (simp add: word_less_nat_alt)
  then show ?case by simp
next
  case (Suc fuel)
  have win: "window st tab f" using J_window [OF assms(1)] by simp
  have us: "unat stop = unat limit - unat num + 1" and l512: "unat limit \<le> 512"
    and nl: "unat num \<le> unat limit" and n0: "0 < unat num"
    using assms(3-6) unat_add_small [of "limit - num" 1]
    by (auto simp: word_le_nat_alt unat_sub_le word_less_nat_alt)
  show ?case
  proof (cases "i < stop")
    case False
    then show ?thesis by simp
  next
    case lt: True
    have ui: "unat i + unat num \<le> unat limit" using lt us nl by (simp add: word_less_nat_alt)
    have un: "unat (i + num) = unat i + unat num" using ui l512 by (intro unat_add_small) simp
    have i1: "unat (i + 1) = Suc (unat i)" using lt by (rule unat_Suc_below)
    have i: "i < 512" using ui l512 n0 by (simp add: word_less_nat_alt)
    note load = window_load [OF win i]
    show ?thesis
    proof (cases "entry_present (load64 (pmem st) (slot f i))")
      case True
      then have "map_slots_loop (Suc (Suc fuel)) st tab frame num flags sz va_of i stop
          = map_slots_loop (Suc fuel) st tab frame num flags sz va_of (i + 1) stop"
        using lt load by (simp add: PGT_P_iff)
      moreover have "i \<le> k" if "i + 1 \<le> k" for k using that i1 by (simp add: word_le_nat_alt)
      ultimately show ?thesis using Suc.IH [of "i + 1"] Suc.prems i1 by fastforce
    next
      case np: False
      have "i + num \<le> 512" "i + 1 \<le> i + num"
        using un i1 ui l512 n0 by (simp_all add: word_le_nat_alt)
      then obtain k where k: "i + 1 \<le> k" "k \<le> i + num"
        "count_free_slots st tab (i + 1) (i + num) 1 = Inr (k, 1 + (k - (i + 1)))"
        "\<forall>j. i + 1 \<le> j \<longrightarrow> j < k \<longrightarrow> \<not> entry_present (load64 (pmem st) (slot f j))"
        using count_free_slots_correct [OF win, of "i + num" "i + 1" 1] by blast
      have cnt: "1 + (k - (i + 1)) = k - i" by simp
      show ?thesis
      proof (cases "k - i = num")
        case True
        then have kn: "k = i + num" by (simp add: algebra_simps)
        have free: "\<not> entry_present (load64 (pmem st) (slot f j))" if "i \<le> j" "j < i + num" for j
          using that np k(4) kn by (metis inc_le order_le_less)
        have le: "i \<le> i + num" using un by (simp add: word_le_nat_alt)
        obtain m where m: "fill_slots st tab frame flags sz i (i + num) = Inr (st\<lparr>pmem := m\<rparr>)"
          "J (st\<lparr>pmem := m\<rparr>) f"
          "\<forall>j < 512. load64 m (slot f j) = (if i \<le> j \<and> j < i + num then (frame + sz * (j - i)) OR flags
            else load64 (pmem st) (slot f j))"
          "\<forall>a. own_addr a \<longrightarrow> (\<forall>j. i \<le> j \<longrightarrow> j < i + num \<longrightarrow> dep a \<noteq> Some j) \<longrightarrow>
            translate (st\<lparr>pmem := m\<rparr>) a = translate st a"
          using fill_slots_correct [OF assms(1) le \<open>i + num \<le> 512\<close> assms(2) free, of frame sz] by blast
        have "map_slots_loop (Suc (Suc fuel)) st tab frame num flags sz va_of i stop
            = Inr (va_of i, unlock_pg (st\<lparr>pmem := m\<rparr>))"
          using lt load np k(3) cnt True m(1) kn by (simp add: PGT_P_iff)
        moreover have "\<forall>j. i \<le> j \<longrightarrow> j < i + num \<longrightarrow> load64 m (slot f j) = (frame + sz * (j - i)) OR flags"
          using m(3) \<open>i + num \<le> 512\<close> by (simp add: less_le_trans [of _ "i + num" 512])
        then have "mapped_run st f frame num flags sz i (unlock_pg (st\<lparr>pmem := m\<rparr>))"
          unfolding mapped_run_def using m(2,4) free by (intro conjI exI [of _ m]) blast+
        ultimately show ?thesis using ui by blast
      next
        case False
        have "unat k \<le> unat i + unat num" using k(2) un by (simp add: word_le_nat_alt)
        then have k2: "unat (k + 1 + 1) = unat k + 2"
          using ui l512 unat_add_small [of k 1] unat_add_small [of "k + 1" 1] by simp
        have ik: "Suc (unat i) \<le> unat k" using k(1) i1 by (simp add: word_le_nat_alt)
        have "map_slots_loop (Suc (Suc fuel)) st tab frame num flags sz va_of i stop
            = map_slots_loop (Suc fuel) st tab frame num flags sz va_of (k + 1 + 1) stop"
          using lt load np k(3) cnt False by (simp add: PGT_P_iff del: map_slots_loop.simps(2))
             (simp add: PGT_P_iff)
        moreover have "i \<le> j" if "k + 1 + 1 \<le> j" for j using that k2 ik by (simp add: word_le_nat_alt)
        ultimately show ?thesis using Suc.IH [of "k + 1 + 1"] Suc.prems k2 ik by fastforce
      qed
    qed
  qed
qed

end

section \<open>The window of 4KB pages\<close>

definition pt_dep :: "u64 \<Rightarrow> u64 option" where
  "pt_dep a = (if va_path 3 a = [0, 0, 5] then Some (walk_index 0 a) else None)"

definition pt_ready :: "kernel \<Rightarrow> u64 \<Rightarrow> bool" where
  "pt_ready st f \<longleftrightarrow> pg_inv st \<and> descend table_entry (pmem st) (root st) [0, 0, 5] = Some f"

definition pdt_dep :: "u64 \<Rightarrow> u64 option" where
  "pdt_dep a = (if va_path 2 a = [0, 0] then Some (walk_index 1 a) else None)"

definition pdt_ready :: "kernel \<Rightarrow> u64 \<Rightarrow> bool" where
  "pdt_ready st f \<longleftrightarrow> pg_inv st \<and> descend table_entry (pmem st) (root st) [0, 0] = Some f"

lemma kmap_struct_val: "get_paging_struct_vaddr KERNEL_MAPPING_BASE 3 = Inr 0xFFFFFF8000005000"
  by (simp add: get_paging_struct_vaddr_def KERNEL_MAPPING_BASE_val PGT_MASK_def)

lemma large_struct_val: "get_paging_struct_vaddr LG_PG_BASE 2 = Inr 0xFFFFFFFFC0000000"
  by (simp add: get_paging_struct_vaddr_def LG_PG_BASE_val PGT_MASK_def)

lemma window_paths:
  assumes "i < 512"
  shows "va_path 3 a = [0, 0, 5] \<Longrightarrow> walk_index 0 a = i \<Longrightarrow> page_no a = page_no (kmap_va i)"
    and "page_no a = page_no (kmap_va i) \<Longrightarrow> pt_dep a = Some i"
    and "va_path 2 a = [0, 0] \<Longrightarrow> walk_index 1 a = i \<Longrightarrow> large_page_no a = large_page_no (large_va i)"
    and "large_page_no a = large_page_no (large_va i) \<Longrightarrow> pdt_dep a = Some i"
proof -
  show "page_no a = page_no (kmap_va i)" if "va_path 3 a = [0, 0, 5]" "walk_index 0 a = i"
    using that assms unfolding page_no_path [symmetric] va_path_4 by (simp add: kmap_va_index)
  show "pt_dep a = Some i" if "page_no a = page_no (kmap_va i)"
    using that assms unfolding page_no_path [symmetric] va_path_4 by (simp add: kmap_va_index pt_dep_def)
  show "large_page_no a = large_page_no (large_va i)" if "va_path 2 a = [0, 0]" "walk_index 1 a = i"
    using that assms unfolding large_page_no_path [symmetric] by (simp add: large_va_index)
  show "pdt_dep a = Some i" if "large_page_no a = large_page_no (large_va i)"
    using that assms unfolding large_page_no_path [symmetric] by (simp add: large_va_index pdt_dep_def)
qed

interpretation pt: leaf_window "0xFFFFFF8000005000" pt_ready pt_dep "\<lambda>e. True"
proof unfold_locales
  fix st f assume "pt_ready st f"
  then show "window st 0xFFFFFF8000005000 f \<and> page_aligned f"
    using kmap_window [OF _ _ kmap_struct_val, of st f] pg.tables_inj_aligned
    by (auto simp: pt_ready_def pg_inv_def simp del: descend.simps)
next
  fix st f i e a
  assume r: "pt_ready st f" and i: "i < (512 :: u64)"
  have d: "descend table_entry (pmem st) (root st) (va_path 3 (kmap_va i)) = Some f"
    using r i by (simp add: pt_ready_def paths_of_windows del: va_path_simps descend.simps)
  have inv: "pg_inv st" using r by (simp add: pt_ready_def)
  have ix: "walk_index 0 (kmap_va i) = i" using i by (simp add: kmap_va_index)
  note leaf = leaf_store [OF inv kmap_va_own [OF i] d, where e = e, unfolded ix]
  have "good_path [0, 0, 5]" by (simp add: good_path_def)
  then show "pt_ready (st\<lparr>pmem := store64 (pmem st) (slot f i) e\<rparr>) f"
    using leaf(1,4) r by (simp add: pt_ready_def del: descend.simps)
  assume a: "own_addr a" "pt_dep a \<noteq> Some i"
  then have "page_no a \<noteq> page_no (kmap_va i)" using window_paths(2) [OF i] by blast
  then show "translate (st\<lparr>pmem := store64 (pmem st) (slot f i) e\<rparr>) a = translate st a"
    using leaf(2) a(1) by blast
qed simp

interpretation pdt: leaf_window "0xFFFFFFFFC0000000" pdt_ready pdt_dep "\<lambda>e. table_entry e = None"
proof unfold_locales
  fix st f assume "pdt_ready st f"
  then show "window st 0xFFFFFFFFC0000000 f \<and> page_aligned f"
    using large_window [OF _ _ large_struct_val, of st f] pg.tables_inj_aligned
    by (auto simp: pdt_ready_def pg_inv_def simp del: descend.simps)
next
  fix st f i e a
  assume r: "pdt_ready st f" and i: "i < (512 :: u64)"
    and none: "table_entry (load64 (pmem st) (slot f i)) = None" "table_entry e = None"
  have d: "descend table_entry (pmem st) (root st) (va_path 2 (large_va i)) = Some f"
    using r i by (simp add: pdt_ready_def paths_of_windows del: va_path_simps descend.simps)
  have inv: "pg_inv st" using r by (simp add: pdt_ready_def)
  have ix: "walk_index 1 (large_va i) = i" using i by (simp add: large_va_index)
  have own: "own_addr (large_va i)" using i by (simp add: own_addr_def large_va_index)
  note leaf = pdt_leaf_store [OF inv own d, unfolded ix, OF none]
  have "good_path [0, 0]" by (simp add: good_path_def)
  then show "pdt_ready (st\<lparr>pmem := store64 (pmem st) (slot f i) e\<rparr>) f"
    using leaf(1,4) r by (simp add: pdt_ready_def del: descend.simps)
  assume a: "own_addr a" "pdt_dep a \<noteq> Some i"
  then have "large_page_no a \<noteq> large_page_no (large_va i)" using window_paths(4) [OF i] by blast
  then show "translate (st\<lparr>pmem := store64 (pmem st) (slot f i) e\<rparr>) a = translate st a"
    using leaf(2) a(1) by blast
next
  fix e assume "\<not> entry_present e"
  then show "table_entry e = None" by (simp add: table_entry_def)
qed

text \<open>The translation of the addresses that depend on an entry of the two tables.\<close>

lemma pt_dep_translate:
  assumes "pt_ready st f" and "pt_dep a = Some i"
  shows "translate st a = (let e = load64 (pmem st) (slot f i) in
    if entry_present e then Some ((e AND ADDR_MASK) OR (a AND mask 12)) else None)"
proof -
  have a: "va_path 3 a = [0, 0, 5]" "walk_index 0 a = i"
    using assms(2) by (auto simp: pt_dep_def simp del: va_path_simps split: if_splits)
  then have "descend table_entry (pmem st) (root st) (va_path 3 a) = Some f"
    using assms(1) by (simp add: pt_ready_def del: va_path_simps descend.simps)
  then show ?thesis
    unfolding translate_walk using a(2) walk_descend_3 by (simp add: Let_def del: va_path_simps)
qed

lemma pdt_dep_translate:
  assumes "pdt_ready st f" and "pdt_dep a = Some i"
    and "table_entry (load64 (pmem st) (slot f i)) = None"
  shows "translate st a = (let e = load64 (pmem st) (slot f i) in
    if entry_present e then Some ((e AND ADDR_MASK AND NOT (mask 21)) OR (a AND mask 21)) else None)"
proof -
  have a: "va_path 2 a = [0, 0]" "walk_index (Suc 0) a = i"
    using assms(2) by (auto simp: pdt_dep_def simp del: va_path_simps split: if_splits)
  then have "descend table_entry (pmem st) (root st) (va_path 2 a) = Some f"
    using assms(1) by (simp add: pdt_ready_def del: va_path_simps descend.simps)
  then have "walk_from (pmem st) (root st) 3 a = walk_from (pmem st) f 1 a"
    by (rule walk_descend_2)
  then show ?thesis
    unfolding translate_walk using a(2) assms(3)
    by (auto simp: Let_def table_entry_def simp del: va_path_simps split: if_splits)
qed

lemma ready_locked [simp]: "pt_ready (locked_pg st) f = pt_ready st f"
  "pdt_ready (locked_pg st) f = pdt_ready st f"
  by (simp_all add: pt_ready_def pdt_ready_def)

lemma ready_pmem_locked: "pt_ready ((locked_pg st)\<lparr>pmem := m\<rparr>) f = pt_ready (st\<lparr>pmem := m\<rparr>) f"
  "pdt_ready ((locked_pg st)\<lparr>pmem := m\<rparr>) f = pdt_ready (st\<lparr>pmem := m\<rparr>) f"
  "translate ((locked_pg st)\<lparr>pmem := m\<rparr>) = translate (st\<lparr>pmem := m\<rparr>)"
  by (simp_all add: pt_ready_def pdt_ready_def pg_inv_def tables_not_free_def fun_eq_iff translate_walk)

lemma vm_map_pages_cases:
  assumes "pt_ready st f" and "lock_free (pg_lock st)" and "0 < num" and "num \<le> 512"
  shows "vm_map_pages st frame num flags = Inr (0, cycle_pg st)
    \<or> (\<exists>k m. vm_map_pages st frame num flags = Inr (kmap_va k, cycle_pg (st\<lparr>pmem := m\<rparr>))
        \<and> unat k + unat num \<le> 512 \<and> pt_ready (st\<lparr>pmem := m\<rparr>) f
        \<and> (\<forall>i. k \<le> i \<longrightarrow> i < k + num \<longrightarrow> \<not> entry_present (load64 (pmem st) (slot f i))
             \<and> load64 m (slot f i) = (frame + PG_SIZE * (i - k)) OR flags)
        \<and> (\<forall>a. own_addr a \<longrightarrow> (\<forall>i. k \<le> i \<longrightarrow> i < k + num \<longrightarrow> pt_dep a \<noteq> Some i) \<longrightarrow>
             translate (st\<lparr>pmem := m\<rparr>) a = translate st a))"
proof -
  have eq: "vm_map_pages st frame num flags = map_slots_loop (Suc 512) (locked_pg st) 0xFFFFFF8000005000
      frame num flags PG_SIZE kmap_va 0 (512 - num + 1)"
  proof -
    have "\<not> num < 1" using assms(3) by (simp add: word_less_nat_alt unat_gt_0)
    then show ?thesis
      using assms(2) unfolding vm_map_pages_def kmap_struct_val
      by (simp add: PG_TABLE_ENTRIES_def PG_SIZE_def kmap_va_def [abs_def] del: map_slots_loop.simps)
  qed
  have "unat (512 - num + 1) \<le> 512"
  proof -
    have "unat (512 - num) = 512 - unat num" using assms(4) by (simp add: unat_sub_le)
    moreover have "0 < unat num" using assms(3) by (simp add: word_less_nat_alt)
    ultimately show ?thesis using unat_add_small [of "512 - num" 1] by simp
  qed
  then show ?thesis
    unfolding eq
    using pt.map_slots_loop_correct [where st = "locked_pg st" and f = f and flags = flags and num = num
        and limit = 512 and fuel = 512 and i = 0 and frame = frame and sz = PG_SIZE and va_of = kmap_va]
      assms
    by (simp add: pt.mapped_run_def ready_pmem_locked del: map_slots_loop.simps) blast
qed

lemma vm_map_large_pages_cases:
  assumes "pdt_ready st f" and "lock_free (pg_lock st)" and "0 < num" and "num \<le> 16"
    and "entry_large flags"
  shows "vm_map_large_pages st frame num flags = Inr (0, cycle_pg st)
    \<or> (\<exists>k m. vm_map_large_pages st frame num flags = Inr (large_va k, cycle_pg (st\<lparr>pmem := m\<rparr>))
        \<and> 6 \<le> unat k \<and> unat k + unat num \<le> 16 \<and> pdt_ready (st\<lparr>pmem := m\<rparr>) f
        \<and> (\<forall>i. k \<le> i \<longrightarrow> i < k + num \<longrightarrow> \<not> entry_present (load64 (pmem st) (slot f i))
             \<and> load64 m (slot f i) = (frame + LARGE_PG_SIZE * (i - k)) OR flags)
        \<and> (\<forall>a. own_addr a \<longrightarrow> (\<forall>i. k \<le> i \<longrightarrow> i < k + num \<longrightarrow> pdt_dep a \<noteq> Some i) \<longrightarrow>
             translate (st\<lparr>pmem := m\<rparr>) a = translate st a))"
proof -
  have eq: "vm_map_large_pages st frame num flags = map_slots_loop (Suc 512) (locked_pg st)
      0xFFFFFFFFC0000000 frame num flags LARGE_PG_SIZE large_va 6 (16 - num + 1)"
  proof -
    have "\<not> num < 1" using assms(3) by (simp add: word_less_nat_alt unat_gt_0)
    then show ?thesis
      using assms(2) unfolding vm_map_large_pages_def large_struct_val
      by (simp add: LG_PG_BASE_val LG_PG_LIMIT_def LARGE_PG_BITS_def large_va_def [abs_def]
          del: map_slots_loop.simps)
  qed
  have "unat (16 - num + 1) \<le> 512"
  proof -
    have "unat (16 - num) = 16 - unat num" using assms(4) by (simp add: unat_sub_le)
    then show ?thesis using unat_add_small [of "16 - num" 1] by simp
  qed
  moreover have "table_entry (fr OR flags) = None" for fr
    using assms(5) by (simp add: table_entry_def entry_large_def bit_or_iff)
  ultimately show ?thesis
    unfolding eq
    using pdt.map_slots_loop_correct [where st = "locked_pg st" and f = f and flags = flags and num = num
        and limit = 16 and fuel = 512 and i = 6 and frame = frame and sz = LARGE_PG_SIZE
        and va_of = large_va] assms(1-4)
    by (simp add: pdt.mapped_run_def ready_pmem_locked word_le_nat_alt del: map_slots_loop.simps) blast
qed

end
