(* ===== verification/Paging_Properties.thy ===== *)
theory Paging_Properties
  imports Paging_Windows
begin

text \<open>
  The properties of \<^verbatim>\<open>arch/x86_64/mm/vm.c\<close>, and a small address space for the examples: a root
  table at \<open>0x1000\<close> with the recursive slot, and below it the tables of the dynamic windows at
  \<open>0x2000\<close>, \<open>0x3000\<close> and \<open>0x4000\<close>.
\<close>

section \<open>A small address space\<close>

definition boot_mem :: mem where
  "boot_mem = store64 (\<lambda>_. 0) 0x1FF8 0x1003"

definition demo_mem :: mem where
  "demo_mem = store64 (store64 (store64 boot_mem 0x1000 0x2003) 0x2000 0x3003) 0x3028 0x4003"

definition demo_kernel :: "mem \<Rightarrow> kernel" where
  "demo_kernel m = \<lparr>k_phys = small_phys [NOT 0, NOT 0], pmem = m, cr3 = 0x1000,
     pg_lock = SPINLOCK_UNLOCKED, invlpg_log = []\<rparr>"

lemma demo_kernel_simps [simp]:
  "pmem (demo_kernel m) = m" "k_phys (demo_kernel m) = small_phys [NOT 0, NOT 0]"
  "lock_free (pg_lock (demo_kernel m))" "root (demo_kernel m) = 0x1000"
  by (simp_all add: demo_kernel_def root_def ADDR_MASK_def mask_eq_exp_minus_1 lock_free_def
      SPINLOCK_UNLOCKED_def lock_of_data_def)

lemma demo_slots: "(0x1FF8 :: u64) = slot 0x1000 511" "(0x1000 :: u64) = slot 0x1000 0"
  "(0x2000 :: u64) = slot 0x2000 0" "(0x3028 :: u64) = slot 0x3000 5"
  by (simp_all add: slot_def)

lemma demo_aligned [simp]: "page_aligned 0x1000" "page_aligned 0x2000" "page_aligned 0x3000"
  "page_aligned 0x4000"
  by (simp_all add: page_aligned_def)

lemma load64_zero_mem [simp]: "load64 (\<lambda>_. 0) a = 0"
  by (rule load64_zero) simp

lemma boot_load:
  assumes "page_aligned f" and "i < 512"
  shows "load64 boot_mem (slot f i) = (if f = 0x1000 \<and> i = 511 then 0x1003 else 0)"
  unfolding boot_mem_def demo_slots(1) using assms by (simp add: load_slot_store)

lemma demo_load:
  assumes "page_aligned f" and "i < 512"
  shows "load64 demo_mem (slot f i) = (if f = 0x3000 \<and> i = 5 then 0x4003
    else if f = 0x2000 \<and> i = 0 then 0x3003 else if f = 0x1000 \<and> i = 0 then 0x2003
    else if f = 0x1000 \<and> i = 511 then 0x1003 else 0)"
proof -
  have eq: "demo_mem = store64 (store64 (store64 boot_mem (slot 0x1000 0) 0x2003) (slot 0x2000 0) 0x3003)
      (slot 0x3000 5) 0x4003"
    unfolding demo_mem_def using demo_slots by metis
  show ?thesis unfolding eq using assms by (simp add: load_slot_store boot_load)
qed

lemma demo_entries [simp]:
  "table_entry 0 = None" "table_entry 0x1003 = Some 0x1000" "table_entry 0x2003 = Some 0x2000"
  "table_entry 0x3003 = Some 0x3000" "table_entry 0x4003 = Some 0x4000"
  by (simp_all add: table_entry_def entry_present_def entry_large_def ADDR_MASK_def
      mask_eq_exp_minus_1)

lemma boot_descend:
  assumes "good_path q"
  shows "descend table_entry boot_mem 0x1000 q = (if q = [] then Some 0x1000 else None)"
  using assms by (cases q) (auto simp: good_path_def boot_load)

lemma demo_descend_pt:
  assumes "\<forall>i \<in> set q. i < 512"
  shows "descend table_entry demo_mem 0x4000 q = (if q = [] then Some 0x4000 else None)"
  using assms by (cases q) (auto simp: demo_load)

lemma demo_descend_pdt:
  assumes "\<forall>i \<in> set q. i < 512"
  shows "descend table_entry demo_mem 0x3000 q =
    (if q = [] then Some 0x3000 else if q = [5] then Some 0x4000 else None)"
  using assms by (cases q) (auto simp: demo_load demo_descend_pt)

lemma demo_descend_pdpt:
  assumes "\<forall>i \<in> set q. i < 512"
  shows "descend table_entry demo_mem 0x2000 q = (if q = [] then Some 0x2000
    else if q = [0] then Some 0x3000 else if q = [0, 5] then Some 0x4000 else None)"
  using assms by (cases q) (auto simp: demo_load demo_descend_pdt)

lemma demo_descend:
  assumes "good_path q"
  shows "descend table_entry demo_mem 0x1000 q = (if q = [] then Some 0x1000
    else if q = [0] then Some 0x2000 else if q = [0, 0] then Some 0x3000
    else if q = [0, 0, 5] then Some 0x4000 else None)"
  using assms by (cases q) (auto simp: good_path_def demo_load demo_descend_pdpt)

lemma demo_frames: "p \<in> frames (small_phys [NOT 0, NOT 0]) \<Longrightarrow> 256 \<le> p"
proof (rule ccontr)
  assume p: "p \<in> frames (small_phys [NOT 0, NOT 0])" and "\<not> 256 \<le> p"
  then have "p div 64 = 0 \<or> p div 64 = 1 \<or> p div 64 = 2 \<or> p div 64 = 3" by linarith
  then show False
    using p by (elim disjE) (simp_all add: frames_def bits_of_def test_bit_def)
qed

lemma demo_pg_inv:
  assumes "\<And>q f. good_path q \<Longrightarrow> descend table_entry m 0x1000 q = Some f \<Longrightarrow> unat f < 0x100000"
    and "tables_inj table_entry m 0x1000" and "rec_slot m 0x1000"
  shows "pg_inv (demo_kernel m)"
proof -
  have "frame_no f \<notin> frames (small_phys [NOT 0, NOT 0])"
    if "good_path q" "descend table_entry m 0x1000 q = Some f" for q f
  proof
    assume "frame_no f \<in> frames (small_phys [NOT 0, NOT 0])"
    then have "256 \<le> unat f div 4096" using demo_frames by (simp add: frame_no_def)
    then show False using assms(1) [OF that] by linarith
  qed
  then show ?thesis
    using assms(2,3) by (simp add: pg_inv_def tables_not_free_def)
qed

lemma boot_pg_ok: "pg_ok (demo_kernel boot_mem)"
proof -
  have "pg_inv (demo_kernel boot_mem)"
  proof (rule demo_pg_inv)
    show "rec_slot boot_mem 0x1000" by (simp add: rec_slot_def boot_load)
    show "tables_inj table_entry boot_mem 0x1000"
      by (auto simp: tables_inj_def boot_descend split: if_splits)
  qed (auto simp: boot_descend split: if_splits)
  then show ?thesis by (simp add: pg_ok_def)
qed

lemma demo_pg_ok: "pg_ok (demo_kernel demo_mem)"
proof -
  have "pg_inv (demo_kernel demo_mem)"
  proof (rule demo_pg_inv)
    show "rec_slot demo_mem 0x1000" by (simp add: rec_slot_def demo_load)
    show "tables_inj table_entry demo_mem 0x1000"
      by (auto simp: tables_inj_def demo_descend split: if_splits)
  qed (auto simp: demo_descend split: if_splits)
  then show ?thesis by (simp add: pg_ok_def)
qed

lemma demo_window: "descend table_entry (pmem (demo_kernel demo_mem)) (root (demo_kernel demo_mem))
    [0, 0, 5] = Some 0x4000"
  using demo_descend [of "[0, 0, 5]"] by (simp add: good_path_def del: descend.simps)

section \<open>Properties\<close>

text \<open>
  C2: the recursive slot works: the address that \<open>get_paging_struct_vaddr\<close> computes for a level,
  indexed with the entry number that the callers compute, is translated by the processor to the
  physical address of exactly that entry of the paging structure of \<open>va\<close>, at all four levels.
\<close>

theorem paging_structs_reached:
  assumes "rec_slot m (r AND ADDR_MASK)" and "level < 4"
    and "get_paging_struct_vaddr va (of_nat level) = Inr tab"
    and "descend table_entry m (r AND ADDR_MASK) (va_path level va) = Some f"
    and "entry = [pml4t_entry va, pdpt_entry va, pdt_entry va, pt_entry va] ! level"
  shows "mmu_walk m r (slot tab entry) = Inr (slot f entry)"
proof -
  have e: "entry = walk_index (3 - level) va"
  proof -
    consider "level = 0" | "level = 1" | "level = 2" | "level = 3" using assms(2) by linarith
    then show ?thesis by cases (simp_all add: assms(5) entry_indices)
  qed
  have s: "slot tab (walk_index (3 - level) va) = rec_addr (Suc (3 - level)) va"
    using assms(2,3) by (intro struct_slot) simp_all
  show ?thesis
    unfolding mmu_walk_def e s using assms(1,2,4) by (intro walk_rec_addr) simp_all
qed

theorem paging_structs_reached_witness:
  "mmu_walk demo_mem 0x1000 (slot 0xFFFFFF8000005000 (pt_entry 0xA03000)) = Inr (slot 0x4000 (pt_entry 0xA03000))"
proof -
  have r: "(0x1000 :: u64) AND ADDR_MASK = 0x1000" by (simp add: ADDR_MASK_def mask_eq_exp_minus_1)
  have p: "va_path 3 0xA03000 = [0, 0, 5]" by (simp add: walk_index_def mask_eq_exp_minus_1)
  have "get_paging_struct_vaddr 0xA03000 3 = Inr 0xFFFFFF8000005000"
    by (simp add: get_paging_struct_vaddr_def PGT_MASK_def)
  then show ?thesis
    using paging_structs_reached [of demo_mem "0x1000" 3 "0xA03000" "0xFFFFFF8000005000" "0x4000"]
      demo_pg_ok demo_descend [of "[0, 0, 5]"]
    by (simp add: r p pg_ok_def pg_inv_def good_path_def del: va_path_simps descend.simps)
qed

text \<open>
  C9: \<open>vm_map_page\<close> maps the frame at the lowest free page of the dynamic window: every address of
  that page translates to the frame, and every other address outside the recursive slot keeps
  its translation. It returns \<open>NULL\<close>, and changes no translation, when the window is full.
\<close>

theorem vm_map_page_correct:
  assumes "pg_ok st" and "descend table_entry (pmem st) (root st) [0, 0, 5] = Some pt"
    and "entry_parts frame flags"
  shows "\<exists>va st'. vm_map_page st frame flags = Inr (va, st') \<and> pg_ok st' \<and>
    ((\<exists>i. i < 512 \<and> va = kmap_va i \<and> translate st va = None
        \<and> (\<forall>j. j < i \<longrightarrow> translate st (kmap_va j) \<noteq> None)
        \<and> (\<forall>a. own_addr a \<longrightarrow> translate st' a =
             (if page_no a = page_no va then Some (frame OR (a AND mask 12)) else translate st a)))
     \<or> va = 0 \<and> (\<forall>i < 512. translate st (kmap_va i) \<noteq> None) \<and> translate st' = translate st)"
  using vm_map_page_cases [OF assms(1,2), of frame flags]
proof (elim disjE exE conjE)
  fix i
  let ?st = "st\<lparr>pmem := store64 (pmem st) (slot pt i) (frame OR flags)\<rparr>"
  assume i: "i < 512" "translate st (kmap_va i) = None"
    "\<forall>j. j < i \<longrightarrow> translate st (kmap_va j) \<noteq> None"
    and res: "vm_map_page st frame flags = Inr (kmap_va i, cycle_pg ?st)"
  have d: "descend table_entry (pmem st) (root st) (va_path 3 (kmap_va i)) = Some pt"
    using assms(2) i(1) by (simp add: paths_of_windows del: va_path_simps descend.simps)
  have inv: "pg_inv st" and lf: "lock_free (pg_lock st)" using assms(1) by (auto simp: pg_ok_def)
  have ix: "walk_index 0 (kmap_va i) = i" using i(1) by (simp add: kmap_va_index)
  note leaf = leaf_store [OF inv kmap_va_own [OF i(1)] d, where e = "frame OR flags", unfolded ix]
  have "\<forall>a. own_addr a \<longrightarrow> translate (cycle_pg ?st) a =
      (if page_no a = page_no (kmap_va i) then Some (frame OR (a AND mask 12)) else translate st a)"
    using leaf(2,3) entry_parts_or [OF assms(3)] by simp
  then show ?thesis
    using res i leaf(1) lf by (intro exI [of _ "kmap_va i"] exI [of _ "cycle_pg ?st"]) (auto simp: pg_ok_def)
next
  assume "\<forall>i < 512. translate st (kmap_va i) \<noteq> None" "vm_map_page st frame flags = Inr (0, cycle_pg st)"
  then show ?thesis using assms(1) by simp
qed

lemma demo_parts: "entry_parts 0x7000 3"
  by (simp add: entry_parts_def ADDR_MASK_def mask_eq_exp_minus_1 entry_present_def)

theorem vm_map_page_correct_witness:
  "\<exists>va st'. vm_map_page (demo_kernel demo_mem) 0x7000 3 = Inr (va, st') \<and> pg_ok st' \<and>
    ((\<exists>i. i < 512 \<and> va = kmap_va i \<and> translate (demo_kernel demo_mem) va = None
        \<and> (\<forall>j. j < i \<longrightarrow> translate (demo_kernel demo_mem) (kmap_va j) \<noteq> None)
        \<and> (\<forall>a. own_addr a \<longrightarrow> translate st' a = (if page_no a = page_no va
             then Some (0x7000 OR (a AND mask 12)) else translate (demo_kernel demo_mem) a)))
     \<or> va = 0 \<and> (\<forall>i < 512. translate (demo_kernel demo_mem) (kmap_va i) \<noteq> None)
       \<and> translate st' = translate (demo_kernel demo_mem))"
  using vm_map_page_correct [OF demo_pg_ok demo_window demo_parts] .

text \<open>
  C12: \<open>vm_unmap_page\<close> undoes \<open>vm_map_page\<close>: it returns the frame, together with the flags above
  bit 11 (the execute-disable flag, which \<open>PG_MASK\<close> does not remove), invalidates the page and
  restores the translation of every address outside the recursive slot.
\<close>

theorem vm_unmap_undoes_map:
  assumes "pg_ok st" and "descend table_entry (pmem st) (root st) [0, 0, 5] = Some pt"
    and "entry_parts frame flags" and "vm_map_page st frame flags = Inr (va, st1)" and "va \<noteq> 0"
  shows "\<exists>st2. vm_unmap_page st1 va = Inr (frame OR (flags AND PG_MASK), st2) \<and> pg_ok st2
    \<and> invlpg_log st2 = invlpg_log st @ [va]
    \<and> (\<forall>a. own_addr a \<longrightarrow> translate st2 a = translate st a)"
proof -
  obtain i where i: "i < 512" "translate st (kmap_va i) = None" and va: "va = kmap_va i"
    and st1: "st1 = cycle_pg (st\<lparr>pmem := store64 (pmem st) (slot pt i) (frame OR flags)\<rparr>)"
    using vm_map_page_cases [OF assms(1,2), of frame flags] assms(4,5) by auto
  let ?st = "st\<lparr>pmem := store64 (pmem st) (slot pt i) (frame OR flags)\<rparr>"
  have d: "descend table_entry (pmem st) (root st) (va_path 3 va) = Some pt"
    using assms(2) i(1) by (simp add: va paths_of_windows del: va_path_simps descend.simps)
  have ix: "walk_index 0 va = i" and own: "own_addr va" using i(1) by (simp_all add: va kmap_va_index)
  have inv: "pg_inv st" and lf: "lock_free (pg_lock st)" using assms(1) by (auto simp: pg_ok_def)
  note leaf = leaf_store [OF inv own d, where e = "frame OR flags", unfolded ix]
  have ok1: "pg_ok st1" using leaf(1) lf by (simp add: st1 pg_ok_def)
  have "good_path (va_path 3 va)" using own by (simp add: own_addr_def good_va_path del: va_path_simps)
  then have d1: "descend table_entry (pmem st1) (root st1) (va_path 3 va) = Some pt"
    using leaf(4) d by (simp add: st1 del: va_path_simps descend.simps)
  define st2 where "st2 = cycle_pg (st1\<lparr>pmem := store64 (pmem st1) (slot pt i) 0,
      invlpg_log := invlpg_log st1 @ [va]\<rparr>)"
  have inv1: "pg_inv st1" using ok1 by (simp add: pg_ok_def)
  note leaf2 = leaf_store [OF inv1 own d1, where e = 0, unfolded ix]
  have "(frame OR flags) AND PG_MASK = frame OR (flags AND PG_MASK)"
  proof -
    have "PG_MASK = NOT (mask 12)" by (simp add: PG_MASK_def PG_SIZE_def mask_eq_exp_minus_1)
    moreover have "frame AND NOT (mask 12) = frame"
    proof -
      have "frame AND ADDR_MASK = frame" using assms(3) by (simp add: entry_parts_def)
      then have b: "bit frame k \<Longrightarrow> 12 \<le> k" for k by (metis bit_ADDR_MASK bit_and_iff)
      show ?thesis by (intro bit_word_eqI) (auto simp: bit_simps dest: b)
    qed
    ultimately show ?thesis by (simp add: bit.conj_disj_distrib2)
  qed
  then have "vm_unmap_page st1 va = Inr (frame OR (flags AND PG_MASK), st2)"
    using vm_unmap_page_eq [OF ok1 d1] by (simp add: ix st2_def) (simp add: st1)
  moreover have "pg_ok st2"
    using leaf2(1) ok1 by (simp add: st2_def pg_ok_def)
  moreover have "translate st2 a = translate st a" if "own_addr a" for a
  proof (cases "page_no a = page_no va")
    case True
    have "translate st a = None"
    proof -
      have "va_path (Suc 3) a = va_path (Suc 3) va" using True by (simp only: page_no_path)
      then have "va_path 3 a = va_path 3 va" "walk_index 0 a = walk_index 0 va"
        unfolding va_path_4 by auto
      then show ?thesis
        using translate_leaf_None [of st a pt] translate_leaf_None [of st va pt] d i(2) va
        by (simp del: va_path_simps descend.simps)
    qed
    then show ?thesis
      using leaf2(3) [OF True] by (simp add: st2_def entry_present_def)
  next
    case False
    then show ?thesis
      using leaf2(2) [OF that] leaf(2) [OF that] by (simp add: st2_def) (simp add: st1)
  qed
  moreover have "invlpg_log st2 = invlpg_log st @ [va]" by (simp add: st2_def st1)
  ultimately show ?thesis by blast
qed

lemma demo_free:
  assumes "i < 512"
  shows "translate (demo_kernel demo_mem) (kmap_va i) = None"
proof -
  have "descend table_entry (pmem (demo_kernel demo_mem)) (root (demo_kernel demo_mem))
      (va_path 3 (kmap_va i)) = Some 0x4000"
    using demo_window assms by (simp add: paths_of_windows del: va_path_simps descend.simps)
  from translate_leaf_None [OF this] show ?thesis
    using assms by (simp add: kmap_va_index demo_load entry_present_def)
qed

lemma demo_map: "\<exists>va st1. vm_map_page (demo_kernel demo_mem) 0x7000 3 = Inr (va, st1) \<and> va \<noteq> 0"
proof -
  have "kmap_va i \<noteq> 0" if "i < 512" for i
    using kmap_va_index(2) [OF that] by (auto simp: walk_index_def)
  note nz = this
  show ?thesis
    using vm_map_page_cases [OF demo_pg_ok demo_window, of "0x7000" 3]
  proof (elim disjE exE conjE)
    fix i :: u64
    assume "i < 512" and "vm_map_page (demo_kernel demo_mem) 0x7000 3 = Inr (kmap_va i,
      cycle_pg ((demo_kernel demo_mem)\<lparr>pmem := store64 (pmem (demo_kernel demo_mem))
        (slot 0x4000 i) (0x7000 OR 3)\<rparr>))"
    then show ?thesis using nz by blast
  next
    assume full: "\<forall>i < 512. translate (demo_kernel demo_mem) (kmap_va i) \<noteq> None"
    have "(0 :: u64) < 512" by simp
    then show ?thesis using full demo_free by blast
  qed
qed

theorem vm_unmap_undoes_map_witness:
  "\<exists>va st1 st2. vm_map_page (demo_kernel demo_mem) 0x7000 3 = Inr (va, st1)
    \<and> vm_unmap_page st1 va = Inr (0x7000 OR (3 AND PG_MASK), st2) \<and> pg_ok st2
    \<and> invlpg_log st2 = invlpg_log (demo_kernel demo_mem) @ [va]
    \<and> (\<forall>a. own_addr a \<longrightarrow> translate st2 a = translate (demo_kernel demo_mem) a)"
  using demo_map vm_unmap_undoes_map [OF demo_pg_ok demo_window demo_parts] by blast

text \<open>
  C1: \<open>vm_map_page_unrestricted\<close> maps exactly the page of \<open>vaddr\<close> to the frame, and changes the
  translation of no other address outside the recursive slot. When the page table of \<open>vaddr\<close> is
  there this needs no assumption on the memory, and the call panics only when the page is mapped
  already. When tables are missing the call allocates them, and since nothing clears a new table
  the statement then assumes that the free frames hold zeros, and that no large page covers the
  address; the call may then also panic when fewer than three frames are left.
\<close>

theorem vm_map_page_unrestricted_correct:
  assumes "pg_ok st" and "own_addr vaddr" and "entry_parts frame flags"
    and "descend table_entry (pmem st) (root st) (va_path 3 vaddr) = None
      \<longrightarrow> free_zero st \<and> no_large_at st 3 vaddr"
  shows "(\<exists>msg. vm_map_page_unrestricted st frame flags vaddr = Inl (Panic msg))
      \<and> (translate st vaddr \<noteq> None
         \<or> descend table_entry (pmem st) (root st) (va_path 3 vaddr) = None \<and> card (avail st) < 3)
    \<or> (\<exists>st'. vm_map_page_unrestricted st frame flags vaddr = Inr st' \<and> pg_ok st'
        \<and> (free_zero st \<longrightarrow> free_zero st') \<and> translate st vaddr = None
        \<and> (\<forall>a. own_addr a \<longrightarrow> translate st' a =
            (if page_no a = page_no vaddr then Some (frame OR (a AND mask 12)) else translate st a)))"
proof (cases "descend table_entry (pmem st) (root st) (va_path 3 vaddr)")
  case None
  then show ?thesis
    using vm_map_page_unrestricted_cases [OF assms(1) _ _ assms(2,3)] assms(4)
    by (auto simp del: va_path_simps)
next
  case (Some f)
  from vm_map_page_unrestricted_present [OF assms(1-3) this] show ?thesis by blast
qed

lemma boot_free_zero: "free_zero (demo_kernel boot_mem)"
  unfolding free_zero_def
proof
  fix p assume p: "p \<in> frames (k_phys (demo_kernel boot_mem))"
  have "phys_ok (small_phys [NOT 0, NOT 0])" by simp
  then have u: "unat (of_nat (4096 * p) :: u64) = 4096 * p"
    using p by (intro unat_of_frame unat_pow_46) auto
  then have "page_aligned (of_nat (4096 * p))" by (simp add: page_aligned_def)
  moreover have "(of_nat (4096 * p) :: u64) \<noteq> 0x1000"
  proof
    assume "(of_nat (4096 * p) :: u64) = 0x1000"
    then have "unat (0x1000 :: u64) = 4096 * p" using u by simp
    then show False using demo_frames [of p] p by simp
  qed
  ultimately show "zero_table (pmem (demo_kernel boot_mem)) (of_nat (4096 * p))"
    by (simp add: zero_table_def boot_load)
qed

lemma boot_no_large: "walk_index 3 va \<noteq> 511 \<Longrightarrow> no_large_at (demo_kernel boot_mem) 3 va"
proof -
  assume va: "walk_index 3 va \<noteq> 511"
  have "\<not> entry_large (load64 boot_mem (slot f (walk_index (3 - l) va)))"
    if "l < 3" "descend table_entry boot_mem 0x1000 (va_path l va) = Some f" for l f
  proof -
    have "va_path l va = []" "f = 0x1000"
      using that boot_descend [OF good_va_path [of l va]] va by (auto split: if_splits)
    then have "l = 0" by (metis list.size(3) va_path_length)
    then show ?thesis using \<open>f = 0x1000\<close> va by (simp add: boot_load entry_large_def)
  qed
  then show ?thesis by (simp add: no_large_at_def)
qed

theorem vm_map_page_unrestricted_correct_witness:
  "(\<exists>msg. vm_map_page_unrestricted (demo_kernel boot_mem) 0x7000 3 0x600000 = Inl (Panic msg))
      \<and> (translate (demo_kernel boot_mem) 0x600000 \<noteq> None
         \<or> descend table_entry boot_mem 0x1000 (va_path 3 0x600000) = None
           \<and> card (avail (demo_kernel boot_mem)) < 3)
    \<or> (\<exists>st'. vm_map_page_unrestricted (demo_kernel boot_mem) 0x7000 3 0x600000 = Inr st'
        \<and> pg_ok st' \<and> (free_zero (demo_kernel boot_mem) \<longrightarrow> free_zero st')
        \<and> translate (demo_kernel boot_mem) 0x600000 = None
        \<and> (\<forall>a. own_addr a \<longrightarrow> translate st' a = (if page_no a = page_no 0x600000
            then Some (0x7000 OR (a AND mask 12)) else translate (demo_kernel boot_mem) a)))"
proof -
  have "walk_index 3 0x600000 \<noteq> 511" by (simp add: walk_index_def mask_eq_exp_minus_1)
  then show ?thesis
    using vm_map_page_unrestricted_correct [OF boot_pg_ok _ demo_parts, of "0x600000"]
      boot_free_zero boot_no_large [of "0x600000"]
    by (simp add: own_addr_def del: va_path_simps descend.simps)
qed

text \<open>
  C25: when the free frames do not hold zeros. The page directory of \<open>vaddr\<close> is there, the page table
  is not: \<open>vm_map_page_unrestricted\<close> links the lowest free frame as the page table without
  clearing it. If its old word at the index of \<open>vaddr\<close> has the present bit the call panics
  although the page was not mapped. Otherwise the page of \<open>vaddr\<close> is mapped, and every other
  address of the same 2MB translates as the old contents of the frame say: each old word with
  the present bit is a new mapping. Nothing outside the 2MB changes.
\<close>

theorem vm_map_page_unrestricted_stale:
  assumes "pg_ok st" and "own_addr vaddr" and "entry_parts frame flags"
    and "descend table_entry (pmem st) (root st) (va_path 2 vaddr) = Some pdt"
    and "\<not> entry_present (load64 (pmem st) (slot pdt (pdt_entry vaddr)))" and "avail st \<noteq> {}"
    and "new = of_nat (4096 * Min (avail st))"
  shows "if entry_present (load64 (pmem st) (slot new (pt_entry vaddr)))
     then vm_map_page_unrestricted st frame flags vaddr = Inl (Panic ''page table entry not available'')
     else \<exists>st'. vm_map_page_unrestricted st frame flags vaddr = Inr st' \<and> pg_ok st'
       \<and> frames (k_phys st') = frames (k_phys st) - {Min (avail st)}
       \<and> (\<forall>a. own_addr a \<longrightarrow> translate st' a =
            (if page_no a = page_no vaddr then Some (frame OR (a AND mask 12))
             else if large_page_no a = large_page_no vaddr
             then (let e = load64 (pmem st) (slot new (pt_entry a))
                   in if entry_present e then Some ((e AND ADDR_MASK) OR (a AND mask 12)) else None)
             else translate st a))"
  unfolding assms(7) entry_indices
  using vm_map_page_unrestricted_stale_cases [OF assms(1-4) _ assms(6)] assms(5) unfolding entry_indices .

definition stale_mem :: mem where
  "stale_mem = store64 demo_mem (slot 0x100000 1) 0x9003"

lemma stale_load:
  assumes "page_aligned f" and "i < 512"
  shows "load64 stale_mem (slot f i) = (if f = 0x100000 \<and> i = 1 then 0x9003 else load64 demo_mem (slot f i))"
proof -
  have "page_aligned 0x100000" by (simp add: page_aligned_def)
  from load_slot_store [OF assms(1) this assms(2)] show ?thesis by (simp add: stale_mem_def)
qed

lemma demo_descend_Some:
  "good_path q \<Longrightarrow> descend table_entry demo_mem 0x1000 q = Some f \<Longrightarrow> f \<in> {0x1000, 0x2000, 0x3000, 0x4000}"
  by (auto simp: demo_descend split: if_splits)

lemma stale_descend:
  "good_path q \<Longrightarrow> descend table_entry stale_mem 0x1000 q = descend table_entry demo_mem 0x1000 q"
proof (induction q rule: rev_induct)
  case (snoc i q)
  have q: "good_path q" using snoc.prems by (rule good_path_butlast)
  have "load64 stale_mem (slot f i) = load64 demo_mem (slot f i)"
    if "descend table_entry demo_mem 0x1000 q = Some f" for f
    using demo_descend_Some [OF q that] snoc.prems stale_load [of f i] by (auto simp: good_path_def)
  then show ?case by (simp add: descend_snoc snoc.IH [OF q] bind_split)
qed simp

lemma stale_pg_ok: "pg_ok (demo_kernel stale_mem)"
proof -
  have "pg_inv (demo_kernel stale_mem)"
  proof (rule demo_pg_inv)
    show "rec_slot stale_mem 0x1000" by (simp add: rec_slot_def stale_load demo_load)
    show "tables_inj table_entry stale_mem 0x1000"
      using demo_pg_ok by (simp add: stale_descend tables_inj_def pg_ok_def pg_inv_def)
  qed (auto simp: stale_descend dest: demo_descend_Some)
  then show ?thesis by (simp add: pg_ok_def)
qed

lemma demo_avail: "avail (demo_kernel m) \<noteq> {}" "Min (avail (demo_kernel m)) = 256"
proof -
  have "256 \<in> avail (demo_kernel m)" by (simp add: avail_def frames_def bits_of_def test_bit_def)
  moreover have "256 \<le> p" if "p \<in> avail (demo_kernel m)" for p using that by (simp add: avail_def)
  ultimately show "avail (demo_kernel m) \<noteq> {}" "Min (avail (demo_kernel m)) = 256"
    by (auto intro: Min_eqI)
qed

theorem vm_map_page_unrestricted_stale_witness:
  "\<exists>st'. vm_map_page_unrestricted (demo_kernel stale_mem) 0x7000 3 0x600000 = Inr st' \<and> pg_ok st'
    \<and> translate st' 0x600000 = Some 0x7000
    \<and> translate (demo_kernel stale_mem) 0x601000 = None \<and> translate st' 0x601000 = Some 0x9000"
proof -
  note w = walk_index_def mask_eq_exp_minus_1
  have p: "va_path 2 0x600000 = [0, 0]" "va_path 2 0x601000 = [0, 0]" by (simp_all add: w)
  have own: "own_addr 0x600000" "own_addr 0x601000" by (simp_all add: own_addr_def w)
  have i: "pdt_entry 0x600000 = 3" "pt_entry 0x600000 = 0" "pt_entry 0x601000 = 1"
    by (simp_all add: entry_indices w)
  have d: "descend table_entry (pmem (demo_kernel stale_mem)) (root (demo_kernel stale_mem)) (va_path 2 0x600000)
      = Some 0x3000"
    using stale_descend [of "[0, 0]"] demo_descend [of "[0, 0]"]
    by (simp add: p good_path_def del: va_path_simps descend.simps)
  have np: "\<not> entry_present (load64 (pmem (demo_kernel stale_mem)) (slot 0x3000 (pdt_entry 0x600000)))"
    by (simp add: i stale_load demo_load entry_present_def)
  have al: "page_aligned 0x100000" by (simp add: page_aligned_def)
  have new: "load64 stale_mem (slot 0x100000 0) = 0" "load64 stale_mem (slot 0x100000 1) = 0x9003"
    using al by (simp_all add: stale_load demo_load)
  have none: "translate (demo_kernel stale_mem) 0x601000 = None"
    by (rule unlinked_translate [of _ 2 "0x600000" "0x3000"])
      (use d np in \<open>simp_all add: w entry_indices del: descend.simps\<close>)
  have pn: "page_no 0x601000 \<noteq> page_no 0x600000" "large_page_no 0x601000 = large_page_no 0x600000"
    by (simp_all add: page_no_def large_page_no_def mask_eq_exp_minus_1)
  have e: "\<not> entry_present 0" "entry_present 0x9003" "(0x9003 :: u64) AND ADDR_MASK = 0x9000"
    by (simp_all add: entry_present_def ADDR_MASK_def mask_eq_exp_minus_1)
  obtain st' where st': "vm_map_page_unrestricted (demo_kernel stale_mem) 0x7000 3 0x600000 = Inr st'" "pg_ok st'"
    and tr: "\<forall>a. own_addr a \<longrightarrow> translate st' a =
            (if page_no a = page_no 0x600000 then Some (0x7000 OR (a AND mask 12))
             else if large_page_no a = large_page_no 0x600000
             then (let e = load64 stale_mem (slot 0x100000 (pt_entry a))
                   in if entry_present e then Some ((e AND ADDR_MASK) OR (a AND mask 12)) else None)
             else translate (demo_kernel stale_mem) a)"
    using vm_map_page_unrestricted_stale [OF stale_pg_ok own(1) demo_parts d np demo_avail(1) refl]
    by (auto simp: i new e demo_avail)
  have "translate st' 0x600000 = Some 0x7000"
    using tr own(1) by (simp add: mask_eq_exp_minus_1)
  moreover have "translate st' 0x601000 = Some 0x9000"
    using tr own(2) by (simp add: pn i new e) (simp add: mask_eq_exp_minus_1)
  ultimately show ?thesis using st' none by blast
qed

text \<open>
  C13: \<open>vm_map_pages\<close>, for 1 to 512 pages, always returns: with \<open>NULL\<close> and no translation changed,
  or with the address of a run of pages of the window that were all unmapped; page \<open>d\<close> of the run
  then translates to frame \<open>d\<close> of the contiguous physical range, and every other address outside
  the recursive slot keeps its translation. (\<open>pt_dep a\<close> is the index of the window's page that
  holds \<open>a\<close>.)
\<close>

theorem vm_map_pages_correct:
  assumes "pg_ok st" and "descend table_entry (pmem st) (root st) [0, 0, 5] = Some pt"
    and "0 < num" and "num \<le> 512" and "\<forall>d. d < num \<longrightarrow> entry_parts (frame + PG_SIZE * d) flags"
  shows "\<exists>va st'. vm_map_pages st frame num flags = Inr (va, st') \<and> pg_ok st' \<and>
    (va = 0 \<and> translate st' = translate st
     \<or> (\<exists>k. va = kmap_va k \<and> unat k + unat num \<le> 512
          \<and> (\<forall>i. k \<le> i \<longrightarrow> i < k + num \<longrightarrow> translate st (kmap_va i) = None)
          \<and> (\<forall>a i. pt_dep a = Some i \<longrightarrow> k \<le> i \<longrightarrow> i < k + num \<longrightarrow>
               translate st' a = Some ((frame + PG_SIZE * (i - k)) OR (a AND mask 12)))
          \<and> (\<forall>a. own_addr a \<longrightarrow> (\<forall>i. k \<le> i \<longrightarrow> i < k + num \<longrightarrow> pt_dep a \<noteq> Some i) \<longrightarrow>
               translate st' a = translate st a)))"
proof -
  have ready: "pt_ready st pt" and lf: "lock_free (pg_lock st)"
    using assms(1,2) by (auto simp: pt_ready_def pg_ok_def simp del: descend.simps)
  show ?thesis
    using vm_map_pages_cases [OF ready lf assms(3,4), of frame flags]
  proof (elim disjE exE conjE)
    assume "vm_map_pages st frame num flags = Inr (0, cycle_pg st)"
    then show ?thesis using assms(1) by simp
  next
    fix k m
    assume res: "vm_map_pages st frame num flags = Inr (kmap_va k, cycle_pg (st\<lparr>pmem := m\<rparr>))"
      and k: "unat k + unat num \<le> 512" and rdy: "pt_ready (st\<lparr>pmem := m\<rparr>) pt"
      and run: "\<forall>i. k \<le> i \<longrightarrow> i < k + num \<longrightarrow> \<not> entry_present (load64 (pmem st) (slot pt i))
             \<and> load64 m (slot pt i) = (frame + PG_SIZE * (i - k)) OR flags"
      and other: "\<forall>a. own_addr a \<longrightarrow> (\<forall>i. k \<le> i \<longrightarrow> i < k + num \<longrightarrow> pt_dep a \<noteq> Some i) \<longrightarrow>
             translate (st\<lparr>pmem := m\<rparr>) a = translate st a"
    have u: "unat (k + num) = unat k + unat num" using k by (intro unat_add_small) simp
    have "translate st (kmap_va i) = None" if i: "k \<le> i" "i < k + num" for i
    proof -
      have "i < 512" using i u k by (simp add: word_less_nat_alt)
      then have "pt_dep (kmap_va i) = Some i" by (simp add: window_paths(2))
      then show ?thesis using pt_dep_translate [OF ready] run i by simp
    qed
    moreover have "translate (cycle_pg (st\<lparr>pmem := m\<rparr>)) a = Some ((frame + PG_SIZE * (i - k)) OR (a AND mask 12))"
      if a: "pt_dep a = Some i" "k \<le> i" "i < k + num" for a i
    proof -
      have "i - k < num" using a(2,3) u by (simp add: word_less_nat_alt word_le_nat_alt unat_sub_le)
      then show ?thesis
        using pt_dep_translate [OF rdy a(1)] run a(2,3) entry_parts_or assms(5) by simp
    qed
    ultimately show ?thesis
      using res k rdy other lf
      by (intro exI [of _ "kmap_va k"] exI [of _ "cycle_pg (st\<lparr>pmem := m\<rparr>)"])
         (auto simp: pg_ok_def pt_ready_def simp del: descend.simps)
  qed
qed

lemma u64_less_3: "(d :: u64) < 3 \<Longrightarrow> d = 0 \<or> d = 1 \<or> d = 2"
  by (auto simp: word_less_nat_alt word_unat_eq_iff)

theorem vm_map_pages_correct_witness:
  "\<exists>va st'. vm_map_pages (demo_kernel demo_mem) 0x7000 3 3 = Inr (va, st') \<and> pg_ok st' \<and>
    (va = 0 \<and> translate st' = translate (demo_kernel demo_mem)
     \<or> (\<exists>k. va = kmap_va k \<and> unat k + 3 \<le> 512
          \<and> (\<forall>i. k \<le> i \<longrightarrow> i < k + 3 \<longrightarrow> translate (demo_kernel demo_mem) (kmap_va i) = None)
          \<and> (\<forall>a i. pt_dep a = Some i \<longrightarrow> k \<le> i \<longrightarrow> i < k + 3 \<longrightarrow>
               translate st' a = Some ((0x7000 + PG_SIZE * (i - k)) OR (a AND mask 12)))
          \<and> (\<forall>a. own_addr a \<longrightarrow> (\<forall>i. k \<le> i \<longrightarrow> i < k + 3 \<longrightarrow> pt_dep a \<noteq> Some i) \<longrightarrow>
               translate st' a = translate (demo_kernel demo_mem) a)))"
proof -
  have "entry_parts (0x7000 + PG_SIZE * d) 3" if "d < 3" for d
    using u64_less_3 [OF that]
    by (elim disjE) (simp_all add: entry_parts_def ADDR_MASK_def mask_eq_exp_minus_1
        entry_present_def PG_SIZE_def)
  then show ?thesis
    using vm_map_pages_correct [OF demo_pg_ok demo_window, of 3 "0x7000" 3] by simp
qed

text \<open>
  C39: the search of \<open>vm_map_pages\<close> overlooks a free run. After a run that is too short it sets
  \<open>i = j + 1\<close>, and the loop's own \<open>i++\<close> then skips the first page behind the occupied one. With
  page 1 of the window in use and the 510 pages from page 2 on free, a request for 510 pages
  returns \<open>NULL\<close>.
\<close>

theorem vm_map_pages_skips_run:
  assumes "pg_ok st" and "descend table_entry (pmem st) (root st) [0, 0, 5] = Some pt"
    and "translate st (kmap_va 1) \<noteq> None"
    and "\<forall>i. i < 512 \<longrightarrow> i \<noteq> 1 \<longrightarrow> translate st (kmap_va i) = None"
  shows "vm_map_pages st frame 510 flags = Inr (0, cycle_pg st)"
proof -
  have ready: "pt_ready st pt" and lf: "lock_free (pg_lock st)"
    using assms(1,2) by (auto simp: pt_ready_def pg_ok_def simp del: descend.simps)
  have tr: "translate st (kmap_va i) = None \<longleftrightarrow> \<not> entry_present (load64 (pmem st) (slot pt i))"
    if "i < 512" for i
    using pt_dep_translate [OF ready, of "kmap_va i" i] window_paths(2) [OF that, of "kmap_va i"]
    by (simp add: Let_def)
  have p1: "entry_present (load64 (pmem st) (slot pt 1))" using tr [of 1] assms(3) by auto
  have p0: "\<not> entry_present (load64 (pmem st) (slot pt 0))" using tr [of 0] assms(4) by auto
  have win: "window (locked_pg st) 0xFFFFFF8000005000 pt" using pt.J_window ready by simp
  have cnt: "count_free_slots (locked_pg st) 0xFFFFFF8000005000 1 510 1 = Inr (1, 1)"
    using window_load [OF win, of 1] p1
    by (simp add: count_free_slots.simps [of "locked_pg st" _ 1] PGT_P_iff)
  have stop: "map_slots_loop (Suc 511) (locked_pg st) 0xFFFFFF8000005000 frame 510 flags PG_SIZE
      kmap_va (1 + 1 + 1) 3 = Inr (0, cycle_pg st)"
    unfolding map_slots_loop.simps(2) by simp
  have "map_slots_loop (Suc (Suc 511)) (locked_pg st) 0xFFFFFF8000005000 frame 510 flags PG_SIZE
      kmap_va 0 3 = Inr (0, cycle_pg st)"
    unfolding map_slots_loop.simps(2) [of "Suc 511"]
    using window_load [OF win, of 0] p0 cnt stop by (simp add: PGT_P_iff)
  then show ?thesis
    using lf unfolding vm_map_pages_def kmap_struct_val
    by (simp add: PG_TABLE_ENTRIES_def PG_SIZE_def kmap_va_def [abs_def] del: map_slots_loop.simps)
qed

text \<open>The small address space with page 1 of the window in use.\<close>

definition busy_kernel :: kernel where
  "busy_kernel = (demo_kernel demo_mem)\<lparr>pmem := store64 demo_mem (slot 0x4000 1) 0x7003\<rparr>"

lemma busy_kernel_facts:
  shows "pg_ok busy_kernel"
    and "descend table_entry (pmem busy_kernel) (root busy_kernel) [0, 0, 5] = Some 0x4000"
    and "translate busy_kernel (kmap_va 1) \<noteq> None"
    and "i < 512 \<Longrightarrow> i \<noteq> 1 \<Longrightarrow> translate busy_kernel (kmap_va i) = None"
proof -
  let ?st = "demo_kernel demo_mem"
  have i1: "(1 :: u64) < 512" by simp
  have d: "descend table_entry (pmem ?st) (root ?st) (va_path 3 (kmap_va 1)) = Some 0x4000"
    using demo_window by (simp add: paths_of_windows del: va_path_simps descend.simps)
  have inv: "pg_inv ?st" using demo_pg_ok by (simp add: pg_ok_def)
  have ix: "walk_index 0 (kmap_va 1) = 1" by (simp add: kmap_va_index)
  note leaf = leaf_store [OF inv kmap_va_own [OF i1] d, where e = "0x7003", unfolded ix]
  have b: "busy_kernel = ?st\<lparr>pmem := store64 (pmem ?st) (slot 0x4000 1) 0x7003\<rparr>"
    by (simp add: busy_kernel_def)
  have "pg_lock busy_kernel = pg_lock ?st" by (simp add: busy_kernel_def)
  then show "pg_ok busy_kernel" using leaf(1) by (simp add: b pg_ok_def)
  have "good_path [0, 0, 5]" by (simp add: good_path_def)
  then show "descend table_entry (pmem busy_kernel) (root busy_kernel) [0, 0, 5] = Some 0x4000"
    using leaf(4) demo_window unfolding b by (simp del: descend.simps)
  show "translate busy_kernel (kmap_va 1) \<noteq> None"
    using leaf(3) [of "kmap_va 1"] unfolding b by (simp add: entry_present_def)
  show "translate busy_kernel (kmap_va i) = None" if "i < 512" "i \<noteq> 1"
  proof -
    have "page_no (kmap_va i) \<noteq> page_no (kmap_va 1)"
      using window_paths(2) [OF that(1), of "kmap_va i"] window_paths(2) [OF i1, of "kmap_va i"] that(2)
      by auto
    then show ?thesis
      using leaf(2) [of "kmap_va i"] demo_free [OF that(1)] that(1) unfolding b by simp
  qed
qed

theorem vm_map_pages_skips_run_witness:
  "vm_map_pages busy_kernel 0x100000 510 3 = Inr (0, cycle_pg busy_kernel)"
  using vm_map_pages_skips_run [OF busy_kernel_facts(1,2,3)] busy_kernel_facts(4) by blast

text \<open>
  \<open>vm_map_large_pages\<close>, for 1 to 16 pages of 2MB, always returns: with \<open>NULL\<close> and no
  translation changed, or with the address of a run of unmapped large pages between \<open>LG_PG_BASE\<close>
  and \<open>LG_PG_LIMIT\<close>, which then maps the contiguous physical range; every other address outside
  the recursive slot keeps its translation.
\<close>

theorem vm_map_large_pages_correct:
  assumes "pg_ok st" and "descend table_entry (pmem st) (root st) [0, 0] = Some pd"
    and "0 < num" and "num \<le> 16" and "entry_large flags" and "entry_present flags"
    and "\<forall>d. d < num \<longrightarrow> ((frame + LARGE_PG_SIZE * d) OR flags) AND ADDR_MASK AND NOT (mask 21)
      = frame + LARGE_PG_SIZE * d"
  shows "\<exists>va st'. vm_map_large_pages st frame num flags = Inr (va, st') \<and> pg_ok st' \<and>
    (va = 0 \<and> translate st' = translate st
     \<or> (\<exists>k. va = large_va k \<and> LG_PG_BASE \<le> va \<and> 6 \<le> unat k \<and> unat k + unat num \<le> 16
          \<and> (\<forall>i. k \<le> i \<longrightarrow> i < k + num \<longrightarrow> translate st (large_va i) = None)
          \<and> (\<forall>a i. pdt_dep a = Some i \<longrightarrow> k \<le> i \<longrightarrow> i < k + num \<longrightarrow>
               translate st' a = Some ((frame + LARGE_PG_SIZE * (i - k)) OR (a AND mask 21)))
          \<and> (\<forall>a. own_addr a \<longrightarrow> (\<forall>i. k \<le> i \<longrightarrow> i < k + num \<longrightarrow> pdt_dep a \<noteq> Some i) \<longrightarrow>
               translate st' a = translate st a)))"
proof -
  have ready: "pdt_ready st pd" and lf: "lock_free (pg_lock st)"
    using assms(1,2) by (auto simp: pdt_ready_def pg_ok_def simp del: descend.simps)
  show ?thesis
    using vm_map_large_pages_cases [OF ready lf assms(3-5), of frame]
  proof (elim disjE exE conjE)
    assume "vm_map_large_pages st frame num flags = Inr (0, cycle_pg st)"
    then show ?thesis using assms(1) by simp
  next
    fix k m
    assume res: "vm_map_large_pages st frame num flags = Inr (large_va k, cycle_pg (st\<lparr>pmem := m\<rparr>))"
      and k: "6 \<le> unat k" "unat k + unat num \<le> 16" and rdy: "pdt_ready (st\<lparr>pmem := m\<rparr>) pd"
      and run: "\<forall>i. k \<le> i \<longrightarrow> i < k + num \<longrightarrow> \<not> entry_present (load64 (pmem st) (slot pd i))
             \<and> load64 m (slot pd i) = (frame + LARGE_PG_SIZE * (i - k)) OR flags"
      and other: "\<forall>a. own_addr a \<longrightarrow> (\<forall>i. k \<le> i \<longrightarrow> i < k + num \<longrightarrow> pdt_dep a \<noteq> Some i) \<longrightarrow>
             translate (st\<lparr>pmem := m\<rparr>) a = translate st a"
    have u: "unat (k + num) = unat k + unat num" using k by (intro unat_add_small) simp
    have none: "table_entry (load64 (pmem st) (slot pd i)) = None" if "k \<le> i" "i < k + num" for i
      using run that by (simp add: table_entry_def)
    have "translate st (large_va i) = None" if i: "k \<le> i" "i < k + num" for i
    proof -
      have "i < 512" using i u k by (simp add: word_less_nat_alt)
      then have "pdt_dep (large_va i) = Some i" by (simp add: window_paths(4))
      then show ?thesis using pdt_dep_translate [OF ready _ none] run i by simp
    qed
    moreover have "translate (cycle_pg (st\<lparr>pmem := m\<rparr>)) a
        = Some ((frame + LARGE_PG_SIZE * (i - k)) OR (a AND mask 21))"
      if a: "pdt_dep a = Some i" "k \<le> i" "i < k + num" for a i
    proof -
      have "i - k < num" using a(2,3) u by (simp add: word_less_nat_alt word_le_nat_alt unat_sub_le)
      moreover have "entry_present (fr OR flags)" "table_entry (fr OR flags) = None" for fr
        using assms(5,6) by (simp_all add: entry_present_def table_entry_def entry_large_def bit_or_iff)
      ultimately show ?thesis
        using pdt_dep_translate [OF rdy a(1)] run a(2,3) assms(7) by simp
    qed
    moreover have "LG_PG_BASE \<le> large_va k"
    proof -
      have "unat (large_va k) = 2097152 * unat k"
        using k(2) by (simp add: large_va_def LARGE_PG_BITS_def push_bit_eq_mult unat_word_ariths)
      then show ?thesis using k(1) by (simp add: LG_PG_BASE_val word_le_nat_alt)
    qed
    ultimately show ?thesis
      using res k rdy other lf
      by (intro exI [of _ "large_va k"] exI [of _ "cycle_pg (st\<lparr>pmem := m\<rparr>)"])
         (auto simp: pg_ok_def pdt_ready_def simp del: descend.simps)
  qed
qed

lemma u64_less_2: "(d :: u64) < 2 \<Longrightarrow> d = 0 \<or> d = 1"
  by (auto simp: word_less_nat_alt word_unat_eq_iff)

theorem vm_map_large_pages_correct_witness:
  "\<exists>va st'. vm_map_large_pages (demo_kernel demo_mem) 0x400000 2 0x83 = Inr (va, st') \<and> pg_ok st' \<and>
    (va = 0 \<and> translate st' = translate (demo_kernel demo_mem)
     \<or> (\<exists>k. va = large_va k \<and> LG_PG_BASE \<le> va \<and> 6 \<le> unat k \<and> unat k + 2 \<le> 16
          \<and> (\<forall>i. k \<le> i \<longrightarrow> i < k + 2 \<longrightarrow> translate (demo_kernel demo_mem) (large_va i) = None)
          \<and> (\<forall>a i. pdt_dep a = Some i \<longrightarrow> k \<le> i \<longrightarrow> i < k + 2 \<longrightarrow>
               translate st' a = Some ((0x400000 + LARGE_PG_SIZE * (i - k)) OR (a AND mask 21)))
          \<and> (\<forall>a. own_addr a \<longrightarrow> (\<forall>i. k \<le> i \<longrightarrow> i < k + 2 \<longrightarrow> pdt_dep a \<noteq> Some i) \<longrightarrow>
               translate st' a = translate (demo_kernel demo_mem) a)))"
proof -
  have w: "descend table_entry (pmem (demo_kernel demo_mem)) (root (demo_kernel demo_mem)) [0, 0]
      = Some 0x3000"
    using demo_descend [of "[0, 0]"] by (simp add: good_path_def del: descend.simps)
  have "((0x400000 + LARGE_PG_SIZE * d) OR 0x83) AND ADDR_MASK AND NOT (mask 21)
      = 0x400000 + LARGE_PG_SIZE * d" if "d < 2" for d
    using u64_less_2 [OF that]
    by (elim disjE) (simp_all add: ADDR_MASK_def mask_eq_exp_minus_1 LARGE_PG_SIZE_def LARGE_PG_BITS_def)
  then show ?thesis
    using vm_map_large_pages_correct [OF demo_pg_ok w, of 2 "0x83" "0x400000"]
    by (simp add: entry_large_def entry_present_def)
qed

end
