(* ===== verification/Linked_List.thy ===== *)
theory Linked_List
  imports Memory
begin

text \<open>
  The circular doubly linked lists of \<^verbatim>\<open>include/utils/list.h\<close>, in byte memory: a
  \<open>list_head\<close> at address \<open>h\<close> has \<open>next\<close> at \<open>h\<close> and \<open>prev\<close> at \<open>h + 8\<close>, and is embedded at
  offset 0 of the structures that use it. \<open>ring m h xs\<close> says that the list with head \<open>h\<close> runs
  through the nodes \<open>xs\<close> in this order, forwards and backwards; the lemmas show what
  \<open>list_add\<close>, \<open>list_add_tail\<close> and \<open>list_del\<close> do to a ring, and that they leave all other nodes
  and all other bytes alone.
\<close>

section \<open>Operations\<close>

definition list_next :: "mem \<Rightarrow> u64 \<Rightarrow> u64" where
  "list_next m h = load64 m h"

definition list_prev :: "mem \<Rightarrow> u64 \<Rightarrow> u64" where
  "list_prev m h = load64 m (h + 8)"

definition set_next :: "mem \<Rightarrow> u64 \<Rightarrow> u64 \<Rightarrow> mem" where
  "set_next m h v = store64 m h v"

definition set_prev :: "mem \<Rightarrow> u64 \<Rightarrow> u64 \<Rightarrow> mem" where
  "set_prev m h v = store64 m (h + 8) v"

definition INIT_LIST_HEAD :: "mem \<Rightarrow> u64 \<Rightarrow> mem" where
  "INIT_LIST_HEAD m lst = (let m = set_next m lst lst in set_prev m lst lst)"

definition list_first_entry :: "mem \<Rightarrow> u64 \<Rightarrow> u64" where
  "list_first_entry m h = list_next m h"

definition list_next_entry :: "mem \<Rightarrow> u64 \<Rightarrow> u64" where
  "list_next_entry m pos = list_next m pos"

definition list_del_entry :: "mem \<Rightarrow> u64 \<Rightarrow> u64 \<Rightarrow> mem" where
  "list_del_entry m p n = (let m = set_prev m n p in set_next m p n)"

definition list_del :: "mem \<Rightarrow> u64 \<Rightarrow> mem" where
  "list_del m entry = list_del_entry m (list_prev m entry) (list_next m entry)"

definition list_add_between :: "mem \<Rightarrow> u64 \<Rightarrow> u64 \<Rightarrow> u64 \<Rightarrow> mem" where
  "list_add_between m new p n =
     (let m = set_prev m n new;
          m = set_next m new n;
          m = set_prev m new p
      in set_next m p new)"

definition list_add :: "mem \<Rightarrow> u64 \<Rightarrow> u64 \<Rightarrow> mem" where
  "list_add m new h = list_add_between m new h (list_next m h)"

definition list_add_tail :: "mem \<Rightarrow> u64 \<Rightarrow> u64 \<Rightarrow> mem" where
  "list_add_tail m new h = list_add_between m new (list_prev m h) h"

definition list_empty :: "mem \<Rightarrow> u64 \<Rightarrow> bool" where
  "list_empty m h = (list_next m h = h)"

text \<open>The nodes that \<open>list_for_each_entry\<close> visits, at most \<open>fuel\<close> of them.\<close>

fun visit_from :: "nat \<Rightarrow> mem \<Rightarrow> u64 \<Rightarrow> u64 \<Rightarrow> u64 list result" where
  "visit_from 0 m h pos = Inl OutOfFuel"
| "visit_from (Suc fuel) m h pos =
     (if pos \<noteq> h
      then rbind (visit_from fuel m h (list_next_entry m pos)) (\<lambda>r. Inr (pos # r))
      else Inr [])"

definition list_for_each_entry :: "nat \<Rightarrow> mem \<Rightarrow> u64 \<Rightarrow> u64 list result" where
  "list_for_each_entry fuel m h = visit_from fuel m h (list_first_entry m h)"

section \<open>Nodes that do not overlap\<close>

definition nodes_apart :: "u64 set \<Rightarrow> bool" where
  "nodes_apart N \<longleftrightarrow> (\<forall>a \<in> N. unat a mod 8 = 0) \<and> (\<forall>a \<in> N. \<forall>b \<in> N. a + 8 \<noteq> b)"

lemma aligned_plus_8: "unat (a :: u64) mod 8 = 0 \<Longrightarrow> unat (a + 8) mod 8 = 0"
  by (simp add: unat_word_ariths mod_mod_cancel)

lemma links_set_next:
  assumes "nodes_apart N" and "a \<in> N" and "b \<in> N"
  shows "list_next (set_next m b v) a = (if a = b then v else list_next m a)"
    and "list_prev (set_next m b v) a = list_prev m a"
  using assms unfolding nodes_apart_def list_next_def list_prev_def set_next_def
  by (auto simp: load64_store64_aligned aligned_plus_8)

lemma links_set_prev:
  assumes "nodes_apart N" and "a \<in> N" and "b \<in> N"
  shows "list_next (set_prev m b v) a = list_next m a"
    and "list_prev (set_prev m b v) a = (if a = b then v else list_prev m a)"
  using assms unfolding nodes_apart_def list_next_def list_prev_def set_prev_def
  by (force simp: load64_store64_aligned aligned_plus_8)+

lemmas links_set = links_set_next links_set_prev

text \<open>The links after the two primitive updates.\<close>

lemma links_add_between:
  assumes "nodes_apart N" and "{new, p, n} \<subseteq> N" and "a \<in> N" and "new \<noteq> p" and "new \<noteq> n"
  shows "list_next (list_add_between m new p n) a =
      (if a = p then new else if a = new then n else list_next m a)"
    and "list_prev (list_add_between m new p n) a =
      (if a = new then p else if a = n then new else list_prev m a)"
  using assms by (auto simp: list_add_between_def Let_def links_set [where N = N])

lemma links_del_entry:
  assumes "nodes_apart N" and "{p, n} \<subseteq> N" and "a \<in> N"
  shows "list_next (list_del_entry m p n) a = (if a = p then n else list_next m a)"
    and "list_prev (list_del_entry m p n) a = (if a = n then p else list_prev m a)"
  using assms by (auto simp: list_del_entry_def Let_def links_set [where N = N])

text \<open>Bytes outside the nodes are not written.\<close>

definition node_bytes :: "u64 \<Rightarrow> u64 set" where
  "node_bytes a = bytes_at a 16"

lemma bytes_at_split: "bytes_at a (n + k) = bytes_at a n \<union> bytes_at (a + of_nat n) k"
  by (induction n arbitrary: a) (auto simp: bytes_at_Suc add.assoc)

lemma node_bytes_halves: "node_bytes a = bytes_at a 8 \<union> bytes_at (a + 8) 8"
  using bytes_at_split [of a 8 8] by (simp add: node_bytes_def)

lemma set_next_out: "x \<notin> node_bytes a \<Longrightarrow> set_next m a v x = m x"
  by (simp add: set_next_def node_bytes_halves store64_out)

lemma set_prev_out: "x \<notin> node_bytes a \<Longrightarrow> set_prev m a v x = m x"
  by (simp add: set_prev_def node_bytes_halves store64_out)

lemma list_add_between_out:
  "x \<notin> node_bytes new \<union> node_bytes p \<union> node_bytes n \<Longrightarrow> list_add_between m new p n x = m x"
  by (simp add: list_add_between_def Let_def set_next_out set_prev_out)

lemma list_del_entry_out:
  "x \<notin> node_bytes p \<union> node_bytes n \<Longrightarrow> list_del_entry m p n x = m x"
  by (simp add: list_del_entry_def Let_def set_next_out set_prev_out)

section \<open>Chains and rings\<close>

fun chain :: "(u64 \<Rightarrow> u64) \<Rightarrow> (u64 \<Rightarrow> u64) \<Rightarrow> u64 list \<Rightarrow> bool" where
  "chain nx pv (a # b # r) \<longleftrightarrow> nx a = b \<and> pv b = a \<and> chain nx pv (b # r)"
| "chain nx pv r \<longleftrightarrow> True"

definition ring :: "mem \<Rightarrow> u64 \<Rightarrow> u64 list \<Rightarrow> bool" where
  "ring m h xs \<longleftrightarrow> chain (list_next m) (list_prev m) (h # xs @ [h]) \<and> distinct (h # xs)"

lemma chain_cong:
  assumes "\<And>a. a \<in> set (butlast zs) \<Longrightarrow> nx a = nx' a" and "\<And>b. b \<in> set (tl zs) \<Longrightarrow> pv b = pv' b"
  shows "chain nx pv zs = chain nx' pv' zs"
  using assms
proof (induction nx pv zs rule: chain.induct)
  case (1 nx pv a b r)
  then have "chain nx pv (b # r) = chain nx' pv' (b # r)"
    by (intro "1.IH") (auto intro: "1.prems" simp: list.set_sel(2))
  then show ?case using 1 by auto
qed auto

lemma chain_join:
  "chain nx pv (us @ [p] @ [n] @ vs) \<longleftrightarrow>
     chain nx pv (us @ [p]) \<and> nx p = n \<and> pv n = p \<and> chain nx pv (n # vs)"
proof (induction us)
  case (Cons u us)
  then show ?case by (cases us) auto
qed simp


lemma ring_distinct: "ring m h xs \<Longrightarrow> distinct (h # xs)"
  by (simp add: ring_def)

lemma ring_first: "ring m h xs \<Longrightarrow> list_next m h = hd (xs @ [h])"
  by (cases xs) (auto simp: ring_def)

lemma ring_middle:
  assumes "ring m h (xs @ e # ys)"
  shows "list_prev m e = last (h # xs)" and "list_next m e = hd (ys @ [h])"
proof -
  have "chain (list_next m) (list_prev m) (butlast (h # xs) @ [last (h # xs)] @ [e] @ ys @ [h])"
    using assms unfolding ring_def by (metis append.assoc append_Cons append_Nil append_butlast_last_id
        list.distinct(1))
  then have "list_prev m e = last (h # xs) \<and> chain (list_next m) (list_prev m) (e # ys @ [h])"
    unfolding chain_join by simp
  then show "list_prev m e = last (h # xs)" "list_next m e = hd (ys @ [h])"
    by (auto) (cases ys, auto)
qed

lemma ring_empty: "ring m h xs \<Longrightarrow> list_empty m h \<longleftrightarrow> xs = []"
  by (cases xs) (auto simp: list_empty_def ring_def)

text \<open>A ring depends on the links of its own nodes only.\<close>

lemma ring_cong:
  assumes "\<And>a. a \<in> set (h # xs) \<Longrightarrow> list_next m a = list_next m' a \<and> list_prev m a = list_prev m' a"
  shows "ring m h xs = ring m' h xs"
  unfolding ring_def
  by (subst chain_cong [of _ "list_next m" "list_next m'" "list_prev m" "list_prev m'"])
     (use assms in \<open>auto simp: butlast_append dest: in_set_butlastD\<close>)

lemma INIT_LIST_HEAD_ring:
  assumes "nodes_apart N" and "h \<in> N"
  shows "ring (INIT_LIST_HEAD m h) h []"
  using assms by (simp add: ring_def INIT_LIST_HEAD_def Let_def links_set [where N = N])

lemma list_add_ring:
  assumes apart: "nodes_apart N" and N: "set (new # h # xs) \<subseteq> N"
    and ring: "ring m h xs" and new: "new \<notin> set (h # xs)"
  shows "ring (list_add m new h) h (new # xs)"
proof -
  let ?m = "list_add m new h"
  define f where "f = hd (xs @ [h])"
  obtain rest where rest: "xs @ [h] = f # rest" by (cases xs) (auto simp: f_def)
  have f: "f \<in> N" "new \<noteq> f" using N new by (cases xs; auto simp: f_def)+
  have nx: "list_next ?m a = (if a = h then new else if a = new then f else list_next m a)"
    and pv: "list_prev ?m a = (if a = new then h else if a = f then new else list_prev m a)"
    if "a \<in> N" for a
    using links_add_between [OF apart, of new h f a m] that N f new ring_first [OF ring]
    by (auto simp: list_add_def f_def)
  have "chain (list_next ?m) (list_prev ?m) (f # rest) =
      chain (list_next m) (list_prev m) (f # rest)"
  proof (rule chain_cong)
    fix a assume "a \<in> set (butlast (f # rest))"
    then have "a \<in> set xs" using rest by (metis butlast_snoc)
    then show "list_next ?m a = list_next m a"
      using nx N new ring_distinct [OF ring] by auto
  next
    fix b assume "b \<in> set (tl (f # rest))"
    then have b: "b \<in> set rest" by simp
    then have "b \<in> set (h # xs)" using rest by (metis in_set_conv_decomp list.set_intros rotate1.simps(2) set_rotate1)
    moreover have "b \<noteq> f"
      using b rest ring_distinct [OF ring]
      by (metis distinct.simps(2) distinct1_rotate rotate1.simps(2))
    ultimately show "list_prev ?m b = list_prev m b"
      using pv N new by auto
  qed
  moreover have "chain (list_next m) (list_prev m) (h # f # rest)"
    using ring rest by (simp add: ring_def)
  moreover have "h \<noteq> new" "h \<in> N" "new \<in> N" using new N by auto
  ultimately show ?thesis
    using new ring_distinct [OF ring] nx pv f by (auto simp: ring_def rest)
qed


lemma list_del_ring:
  assumes apart: "nodes_apart N" and N: "set (h # xs @ e # ys) \<subseteq> N" and ring: "ring m h (xs @ e # ys)"
  shows "ring (list_del m e) h (xs @ ys)"
proof -
  let ?m = "list_del m e"
  define p where "p = last (h # xs)"
  define n where "n = hd (ys @ [h])"
  obtain us where us: "h # xs = us @ [p]" unfolding p_def by (metis append_butlast_last_id list.distinct(1))
  obtain vs where vs: "ys @ [h] = n # vs" by (cases ys) (auto simp: n_def)
  have dist: "distinct (h # xs @ e # ys)" using ring by (rule ring_distinct)
  have pn: "p \<in> N" "n \<in> N" using N us vs by (auto simp: p_def) (cases ys; auto simp: n_def)
  have nx: "list_next ?m a = (if a = p then n else list_next m a)"
    and pv: "list_prev ?m a = (if a = n then p else list_prev m a)" if "a \<in> N" for a
    using links_del_entry [OF apart _ that, of p n m] pn ring_middle [OF ring]
    by (auto simp: list_del_def p_def n_def)
  have "chain (list_next m) (list_prev m) (us @ [p] @ [e] @ ys @ [h])"
    using ring us by (simp add: ring_def) (metis append.assoc append_Cons append_Nil)
  then have old: "chain (list_next m) (list_prev m) (us @ [p])"
      "chain (list_next m) (list_prev m) (n # vs)"
    unfolding chain_join using vs by (auto elim: chain.elims)
  have "chain (list_next ?m) (list_prev ?m) (us @ [p]) = chain (list_next m) (list_prev m) (us @ [p])"
  proof (rule chain_cong)
    fix a assume "a \<in> set (butlast (us @ [p]))"
    then have a: "a \<in> set us" by simp
    then have "a \<in> set (h # xs)" by (simp only: us) simp
    then have "a \<in> N" using N by auto
    moreover have "p \<notin> set us" using dist us by (metis distinct.simps(2) distinct_append not_distinct_conv_prefix append_Cons)
    ultimately show "list_next ?m a = list_next m a" using nx a by auto
  next
    fix b assume "b \<in> set (tl (us @ [p]))"
    then have "b \<in> set xs" using us by (metis list.sel(3))
    moreover have "n \<notin> set xs" using dist by (cases ys) (auto simp: n_def)
    ultimately show "list_prev ?m b = list_prev m b" using pv N by auto
  qed
  moreover have "chain (list_next ?m) (list_prev ?m) (n # vs) = chain (list_next m) (list_prev m) (n # vs)"
  proof (rule chain_cong)
    fix a assume "a \<in> set (butlast (n # vs))"
    then have "a \<in> set ys" using vs by (metis butlast_snoc)
    moreover have "p \<notin> set ys" using dist by (auto simp: p_def dest!: last_in_set)
    ultimately show "list_next ?m a = list_next m a" using nx N by auto
  next
    fix b assume b: "b \<in> set (tl (n # vs))"
    then have "b \<in> set (h # ys)" using vs by (cases ys) auto
    moreover have "b \<noteq> n" using b vs dist by (cases ys) auto
    ultimately show "list_prev ?m b = list_prev m b" using pv N by auto
  qed
  ultimately have "chain (list_next ?m) (list_prev ?m) (us @ [p] @ [n] @ vs)"
    unfolding chain_join using old nx pv pn by simp
  moreover have "us @ [p] @ [n] @ vs = h # (xs @ ys) @ [h]"
    using us vs by (metis append.assoc append_Cons append_Nil)
  ultimately show ?thesis using dist by (simp add: ring_def)
qed

text \<open>Both operations leave a ring of other nodes as it is.\<close>

lemma list_add_other_ring:
  assumes "nodes_apart N" and "set (new # h # xs) \<subseteq> N" and "ring m h xs" and "new \<notin> set (h # xs)"
    and "set (h' # ys) \<subseteq> N" and "set (h' # ys) \<inter> set (new # h # xs) = {}"
  shows "ring (list_add m new h) h' ys = ring m h' ys"
proof (rule ring_cong)
  fix a assume a: "a \<in> set (h' # ys)"
  define f where "f = hd (xs @ [h])"
  have f: "f \<in> set (h # xs)" unfolding f_def by (cases xs) auto
  have "{new, h, f} \<subseteq> N" "a \<in> N" "new \<noteq> h" "new \<noteq> f" "a \<noteq> new" "a \<noteq> h" "a \<noteq> f"
    using a f assms(2,4,5,6) by auto
  then show "list_next (list_add m new h) a = list_next m a \<and> list_prev (list_add m new h) a = list_prev m a"
    using links_add_between [OF assms(1), of new h f a m] ring_first [OF assms(3)]
    by (simp add: list_add_def f_def)
qed

lemma list_del_other_ring:
  assumes "nodes_apart N" and "set (h # xs) \<subseteq> N" and "ring m h xs" and "e \<in> set xs"
    and "set (h' # ys) \<subseteq> N" and "set (h' # ys) \<inter> set (h # xs) = {}"
  shows "ring (list_del m e) h' ys = ring m h' ys"
proof (rule ring_cong)
  fix a assume a: "a \<in> set (h' # ys)"
  obtain us vs where xs: "xs = us @ e # vs" using assms(4) by (auto simp: in_set_conv_decomp)
  have pn: "last (h # us) \<in> set (h # xs)" "hd (vs @ [h]) \<in> set (h # xs)"
    using xs by (auto, cases vs, auto)
  define p where "p = last (h # us)"
  define n where "n = hd (vs @ [h])"
  have "{p, n} \<subseteq> N" "a \<in> N" "a \<noteq> p" "a \<noteq> n"
    using a pn assms(2,5,6) unfolding p_def n_def by auto
  then show "list_next (list_del m e) a = list_next m a \<and> list_prev (list_del m e) a = list_prev m a"
    using links_del_entry [OF assms(1), of p n a m] ring_middle [OF assms(3) [unfolded xs]]
    unfolding list_del_def p_def n_def by simp
qed

lemma list_add_out:
  assumes "ring m h xs" and "x \<notin> (\<Union>a \<in> set (new # h # xs). node_bytes a)"
  shows "list_add m new h x = m x"
proof -
  have "hd (xs @ [h]) \<in> set (h # xs)" by (cases xs) auto
  then show ?thesis
    unfolding list_add_def ring_first [OF assms(1)] using assms(2)
    by (intro list_add_between_out) auto
qed

lemma list_del_out:
  assumes "ring m h xs" and "e \<in> set xs" and "x \<notin> (\<Union>a \<in> set (h # xs). node_bytes a)"
  shows "list_del m e x = m x"
proof -
  obtain us vs where xs: "xs = us @ e # vs" using assms(2) by (auto simp: in_set_conv_decomp)
  have "last (h # us) \<in> set (h # xs)" "hd (vs @ [h]) \<in> set (h # xs)"
    using xs by (auto, cases vs, auto)
  then show ?thesis
    unfolding list_del_def ring_middle [OF assms(1) [unfolded xs]] using assms(3)
    by (intro list_del_entry_out) blast
qed

text \<open>A traversal with enough fuel visits exactly the nodes of the ring, in order.\<close>

lemma visit_from_ring:
  assumes "chain (list_next m) pv (p # xs @ [h])" and "h \<notin> set xs" and "length xs < fuel"
  shows "visit_from fuel m h (list_next m p) = Inr xs"
  using assms
proof (induction xs arbitrary: p fuel)
  case Nil
  then show ?case by (cases fuel) auto
next
  case (Cons x xs)
  then obtain f where f: "fuel = Suc f" by (cases fuel) auto
  have "visit_from f m h (list_next m x) = Inr xs"
    using Cons by (intro Cons.IH) (auto simp: f)
  then show ?case using Cons.prems by (auto simp: f list_next_entry_def)
qed

lemma list_for_each_entry_ring:
  "ring m h xs \<Longrightarrow> length xs < fuel \<Longrightarrow> list_for_each_entry fuel m h = Inr xs"
  unfolding list_for_each_entry_def list_first_entry_def ring_def
  by (rule visit_from_ring [where pv = "list_prev m"]) auto

end
