(* ===== verification/Malloc.thy ===== *)
theory Malloc
  imports Paging Linked_List
begin

text \<open>
  The buddy allocator of \<^verbatim>\<open>kernel/mm/malloc.c\<close>: every function of the file. The 4MB pool and
  the list heads of the buckets live in one byte memory, the kernel's virtual address space; the
  bucket array \<^verbatim>\<open>bsystem\<close> starts at \<open>b_addr\<close>, which the linker chooses, and a bucket takes 24
  bytes, of which the first 16 are the list head \<open>ptr\<close>. The fields \<open>count\<close> and \<open>size\<close> of the
  buckets, to which nothing points, are lists. Out-of-range subscripts are \<open>OutOfBounds\<close>.
\<close>

definition BUDDY_MIN_BLK :: u32 where "BUDDY_MIN_BLK = push_bit BUDDY_MIN_ORDER 1"
definition USED :: u8 where "USED = 0xFF"
definition BUDDY_ENTRIES :: nat where "BUDDY_ENTRIES = BUDDY_MAX_ORDER - BUDDY_MIN_ORDER + 1"

record heap =
  h_mem :: mem
  b_count :: "u32 list"
  b_size :: "u32 list"
  b_addr :: u64
  mem_base :: u64
  mm_lock :: spinlock_t

definition bucket_ptr :: "heap \<Rightarrow> u8 \<Rightarrow> u64" where
  "bucket_ptr st entry = b_addr st + 24 * ucast entry"

definition bucket_size :: "heap \<Rightarrow> u8 \<Rightarrow> u32 result" where
  "bucket_size st entry = tget (b_size st) (ucast entry)"

definition bucket_count :: "heap \<Rightarrow> u8 \<Rightarrow> u32 result" where
  "bucket_count st entry = tget (b_count st) (ucast entry)"

definition add_count :: "heap \<Rightarrow> u8 \<Rightarrow> u32 \<Rightarrow> heap result" where
  "add_count st entry d =
     rbind (tget (b_count st) (ucast entry)) (\<lambda>c.
     rbind (tset (b_count st) (ucast entry) (c + d)) (\<lambda>cs. Inr (st\<lparr>b_count := cs\<rparr>)))"

definition upd_mem :: "heap \<Rightarrow> (mem \<Rightarrow> mem) \<Rightarrow> heap" where
  "upd_mem st f = st\<lparr>h_mem := f (h_mem st)\<rparr>"

definition lock_mm :: "heap \<Rightarrow> heap result" where
  "lock_mm st = rbind (spin_lock (mm_lock st)) (\<lambda>l. Inr (st\<lparr>mm_lock := l\<rparr>))"

definition unlock_mm :: "heap \<Rightarrow> heap" where
  "unlock_mm st = st\<lparr>mm_lock := spin_unlock (mm_lock st)\<rparr>"

section \<open>Orders\<close>

text \<open>
  The loop of \<open>next_power2\<close>. The shift loses the bit of \<open>p\<close> after 27 rounds, so the loop either
  ends within 28 rounds or never.
\<close>

fun next_power2_loop :: "nat \<Rightarrow> u32 \<Rightarrow> u32 \<Rightarrow> u8 \<Rightarrow> u8 result" where
  "next_power2_loop 0 v p cnt = Inl OutOfFuel"
| "next_power2_loop (Suc fuel) v p cnt =
     (if p < v then next_power2_loop fuel v (push_bit 1 p) (cnt + 1) else Inr cnt)"

definition next_power2 :: "nat \<Rightarrow> u32 \<Rightarrow> u8 result" where
  "next_power2 fuel v =
     (let cnt = of_nat BUDDY_MIN_ORDER; p = push_bit BUDDY_MIN_ORDER 1
      in if v < BUDDY_MIN_BLK then Inr (of_nat BUDDY_MIN_ORDER)
         else next_power2_loop fuel v p cnt)"

section \<open>Checking the buckets\<close>

text \<open>
  What \<open>check_buddy_table\<close> prints for a bucket: the count and the order, the blocks without
  their postamble, and whether the count is right. The counter is a byte.
\<close>

definition check_bucket :: "nat \<Rightarrow> heap \<Rightarrow> u8 \<Rightarrow> (u32 \<times> nat \<times> u64 list \<times> bool) result" where
  "check_bucket fuel st entry =
     rbind (bucket_count st entry) (\<lambda>c.
     rbind (bucket_size st entry) (\<lambda>sz.
     rbind (list_for_each_entry fuel (h_mem st) (bucket_ptr st entry)) (\<lambda>bs.
       let bad = filter (\<lambda>b. h_mem st (b + ucast sz - 1) \<noteq> entry) bs;
           counter = of_nat (length bs) :: u8
       in Inr (c, unat entry + BUDDY_MIN_ORDER, bad, ucast counter = c))))"

fun check_buckets :: "nat \<Rightarrow> heap \<Rightarrow> nat \<Rightarrow> u8 \<Rightarrow> u32 \<Rightarrow> ((u32 \<times> nat \<times> u64 list \<times> bool) list \<times> u32) result" where
  "check_buckets fuel st 0 entry tot = Inr ([], tot)"
| "check_buckets fuel st (Suc n) entry tot =
     rbind (check_bucket fuel st entry) (\<lambda>r.
     rbind (bucket_count st entry) (\<lambda>c.
     rbind (bucket_size st entry) (\<lambda>sz.
     rbind (check_buckets fuel st n (entry + 1) (tot + c * sz)) (\<lambda>(rs, tot).
       Inr (r # rs, tot)))))"

definition check_buddy_table ::
    "nat \<Rightarrow> heap \<Rightarrow> ((u32 \<times> nat \<times> u64 list \<times> bool) list \<times> u32 \<times> heap) result" where
  "check_buddy_table fuel st =
     rbind (lock_mm st) (\<lambda>st.
     rbind (check_buckets fuel st BUDDY_ENTRIES 0 0) (\<lambda>(rs, tot).
       Inr (rs, tot, unlock_mm st)))"

section \<open>Freeing\<close>

definition buddy_of :: "heap \<Rightarrow> u64 \<Rightarrow> u32 \<Rightarrow> u64" where
  "buddy_of st blt sz =
     (let buddy_addr = blt;
          buddy_addr = buddy_addr - mem_base st;
          buddy_addr = buddy_addr XOR ucast sz
      in buddy_addr + mem_base st)"

text \<open>The body of the merging loop, when the buddy is free.\<close>

definition merge_step :: "heap \<Rightarrow> u64 \<Rightarrow> u64 \<Rightarrow> u8 \<Rightarrow> u8 \<Rightarrow> (u64 \<times> heap) result" where
  "merge_step st blt buddy entry merge_count =
     rbind (if merge_count > 0
            then rbind (add_count st entry (- 1)) (\<lambda>st. Inr (upd_mem st (\<lambda>m. list_del m blt)))
            else Inr st) (\<lambda>st.
     rbind (add_count st entry (- 1)) (\<lambda>st.
       let st = upd_mem st (\<lambda>m. list_del m buddy);
           entry = entry + 1;
           merged = (if blt < buddy then blt else buddy)
       in rbind (bucket_size st entry) (\<lambda>sz.
          let st = upd_mem st (\<lambda>m. m(merged + ucast sz - 1 := entry));
              st = upd_mem st (\<lambda>m. list_add m merged (bucket_ptr st entry))
          in rbind (add_count st entry 1) (\<lambda>st. Inr (merged, st)))))"

function merge_loop :: "heap \<Rightarrow> u64 \<Rightarrow> u8 \<Rightarrow> u8 \<Rightarrow> (u8 \<times> heap) result" where
  "merge_loop st blt entry merge_count =
     (if entry < of_nat (BUDDY_ENTRIES - 1)
      then rbind (bucket_size st entry) (\<lambda>sz.
             let buddy = buddy_of st blt sz
             in if h_mem st (buddy + ucast sz - 1) = entry
                then rbind (merge_step st blt buddy entry merge_count) (\<lambda>(merged, st).
                     merge_loop st merged (entry + 1) (merge_count + 1))
                else Inr (merge_count, st))
      else Inr (merge_count, st))"
  by pat_completeness auto
termination
  by (relation "measure (\<lambda>(st, blt, entry, mc). unat (of_nat (BUDDY_ENTRIES - 1) :: u8) - unat entry)")
     (auto intro: count_up_measure)

definition buddy_try_merge :: "heap \<Rightarrow> u64 \<Rightarrow> u8 \<Rightarrow> (u8 \<times> heap) result" where
  "buddy_try_merge st blt entry =
     rbind (bucket_count st entry) (\<lambda>c. if c = 0 then Inr (0, st) else merge_loop st blt entry 0)"

definition free :: "heap \<Rightarrow> u64 \<Rightarrow> heap result" where
  "free st ptr =
     rbind (lock_mm st) (\<lambda>st.
       let addr = ptr - 8;
           entry = h_mem st addr
       in rbind (bucket_size st entry) (\<lambda>sz.
          if h_mem st (addr + ucast sz - 1) \<noteq> USED then Inr (unlock_mm st)
          else rbind (buddy_try_merge st addr entry) (\<lambda>(merged, st).
            if merged \<noteq> 0 then Inr (unlock_mm st)
            else let st = upd_mem st (\<lambda>m. m(addr + ucast sz - 1 := entry));
                     st = upd_mem st (\<lambda>m. list_add m addr (bucket_ptr st entry))
                 in rbind (add_count st entry 1) (\<lambda>st. Inr (unlock_mm st)))))"

section \<open>Allocating\<close>

text \<open>\<open>buddy_split\<close> of the bucket with index \<open>entry\<close>.\<close>

definition buddy_split :: "heap \<Rightarrow> u8 \<Rightarrow> heap result" where
  "buddy_split st entry =
     (let blt = list_first_entry (h_mem st) (bucket_ptr st entry);
          st = upd_mem st (\<lambda>m. list_del m blt)
      in rbind (add_count st entry (- 1)) (\<lambda>st.
         let entry = entry - 1
         in rbind (add_count st entry 2) (\<lambda>st.
            rbind (bucket_size st entry) (\<lambda>sz.
            let new_blt = blt + ucast sz;
                st = upd_mem st (\<lambda>m. list_add m new_blt (bucket_ptr st entry));
                st = upd_mem st (\<lambda>m. list_add m blt (bucket_ptr st entry));
                post = new_blt - 1;
                st = upd_mem st (\<lambda>m. m(post := entry));
                post = post + ucast sz
            in Inr (upd_mem st (\<lambda>m. m(post := entry)))))))"

text \<open>
  The search for a bucket that is not empty, with the number of splits it takes; it looks at each
  bucket at most once, which bounds the fuel.
\<close>

fun find_bucket :: "nat \<Rightarrow> heap \<Rightarrow> u8 \<Rightarrow> u8 \<Rightarrow> (u8 \<times> u8) result" where
  "find_bucket 0 st entry split_count = Inl OutOfFuel"
| "find_bucket (Suc fuel) st entry split_count =
     rbind (bucket_count st entry) (\<lambda>c.
       if c = 0
       then let entry = entry + 1
            in if unat entry \<ge> BUDDY_ENTRIES then Inl (Panic ''out of memory'')
               else find_bucket fuel st entry (split_count + 1)
       else Inr (entry, split_count))"

fun split_loop :: "nat \<Rightarrow> heap \<Rightarrow> u8 \<Rightarrow> (u8 \<times> heap) result" where
  "split_loop 0 st entry = Inr (entry, st)"
| "split_loop (Suc split_count) st entry =
     rbind (buddy_split st entry) (\<lambda>st. split_loop split_count st (entry - 1))"

text \<open>
  \<open>malloc\<close>; 64 rounds are enough for \<open>next_power2\<close> whenever it ends.
\<close>

definition malloc :: "heap \<Rightarrow> u32 \<Rightarrow> (u64 \<times> heap) result" where
  "malloc st sz =
     rbind (next_power2 64 (sz + 9)) (\<lambda>order.
       let entry = order - of_nat BUDDY_MIN_ORDER
       in rbind (lock_mm st) (\<lambda>st.
          rbind (bucket_count st entry) (\<lambda>c.
          rbind (if c = 0
                 then rbind (find_bucket (Suc BUDDY_ENTRIES) st entry 0) (\<lambda>(entry, split_count).
                      split_loop (unat split_count) st entry)
                 else Inr (entry, st)) (\<lambda>(entry, st).
            let blt = list_first_entry (h_mem st) (bucket_ptr st entry);
                st = upd_mem st (\<lambda>m. list_del m blt)
            in rbind (add_count st entry (- 1)) (\<lambda>st.
               rbind (bucket_size st entry) (\<lambda>sz.
               let pre = blt;
                   post = pre + ucast sz - 1;
                   st = upd_mem st (\<lambda>m. m(pre := entry));
                   pre = pre + 8;
                   st = upd_mem st (\<lambda>m. m(post := USED))
               in Inr (pre, unlock_mm st)))))))"

section \<open>Initialisation\<close>

text \<open>
  The bucket loop, and the single block of the pool. Between the two \<open>malloc_init\<close> maps the pool:
  it is 4MB, so the large-page branch is taken.
\<close>

fun init_buckets :: "nat \<Rightarrow> heap \<Rightarrow> u8 \<Rightarrow> heap result" where
  "init_buckets 0 st i = Inr st"
| "init_buckets (Suc n) st i =
     rbind (tset (b_count st) (ucast i) 0) (\<lambda>cs.
     rbind (tset (b_size st) (ucast i) (push_bit (unat i + BUDDY_MIN_ORDER) 1)) (\<lambda>ss.
       init_buckets n
         (upd_mem (st\<lparr>b_count := cs, b_size := ss\<rparr>) (\<lambda>m. INIT_LIST_HEAD m (bucket_ptr st i))) (i + 1)))"

fun map_pool :: "nat \<Rightarrow> kernel \<Rightarrow> u64 \<Rightarrow> u64 \<Rightarrow> kernel result" where
  "map_pool 0 k paddr vaddr = Inr k"
| "map_pool (Suc n) k paddr vaddr =
     rbind (vm_map_large_page_unrestricted k paddr (PGT_P OR PGT_RW OR PGT_XD OR PDT_PS) vaddr) (\<lambda>k.
       map_pool n k (paddr + LARGE_PG_SIZE) (vaddr + LARGE_PG_SIZE))"

fun map_pool_small :: "nat \<Rightarrow> kernel \<Rightarrow> u64 \<Rightarrow> u64 \<Rightarrow> kernel result" where
  "map_pool_small 0 k paddr vaddr = Inr k"
| "map_pool_small (Suc n) k paddr vaddr =
     rbind (vm_map_page_unrestricted k paddr (PGT_P OR PGT_RW OR PGT_XD) vaddr) (\<lambda>k.
       map_pool_small n k (paddr + PG_SIZE) (vaddr + PG_SIZE))"

definition malloc_map_pool :: "kernel \<Rightarrow> kernel result" where
  "malloc_map_pool k =
     (let sz = push_bit BUDDY_MAX_ORDER 1 :: u64;
          pages = push_bit (BUDDY_MAX_ORDER - PG_BITS) 1 :: u64
      in if sz < LARGE_PG_SIZE
         then rbind (alloc_phys_frames (k_phys k) pages) (\<lambda>(paddr, ph).
                if paddr = 0 then Inl (Panic ''out of physical memory'')
                else map_pool_small (unat pages) (k\<lparr>k_phys := ph\<rparr>) paddr MALLOC_BASE)
         else rbind (alloc_phys_frames_aligned (k_phys k) pages LARGE_PG_SIZE) (\<lambda>(paddr, ph).
                if paddr = 0 then Inl (Panic ''out of physical memory'')
                else let pages = push_bit (BUDDY_MAX_ORDER - LARGE_PG_BITS) 1 :: u64
                     in map_pool (unat pages) (k\<lparr>k_phys := ph\<rparr>) paddr MALLOC_BASE))"

definition malloc_init_pool :: "heap \<Rightarrow> heap result" where
  "malloc_init_pool st =
     (let st = st\<lparr>mem_base := MALLOC_BASE\<rparr>;
          initial = mem_base st;
          list_count = of_nat BUDDY_ENTRIES - 1 :: u8
      in rbind (tset (b_count st) (ucast list_count) 1) (\<lambda>cs.
         let st = st\<lparr>b_count := cs\<rparr>;
             st = upd_mem st (\<lambda>m. list_add m initial (bucket_ptr st list_count))
         in rbind (bucket_size st list_count) (\<lambda>sz.
            Inr (upd_mem st (\<lambda>m. m(mem_base st + ucast sz - 1 := list_count))))))"

definition malloc_init :: "kernel \<Rightarrow> heap \<Rightarrow> (kernel \<times> heap) result" where
  "malloc_init k st =
     (if (2 :: nat) ^ BUDDY_MIN_ORDER < 16 + 1 then Inl (Panic ''minimum block size too large'')
      else rbind (init_buckets BUDDY_ENTRIES st 0) (\<lambda>st.
           rbind (malloc_map_pool k) (\<lambda>k.
           rbind (malloc_init_pool st) (\<lambda>st. Inr (k, st)))))"

declare merge_loop.simps [simp del]

end
