(* ===== verification/Buddy_Tiling.thy ===== *)
theory Buddy_Tiling
  imports Main
begin

text \<open>
  The abstract state of a buddy allocator: the pool is tiled by blocks, pairs of an offset and
  an order; a block of order \<open>k\<close> has \<open>2 ^ (k + 5)\<close> bytes and an offset that is a multiple of its
  size. The lemmas are the facts that the allocator relies on: splitting a block and merging two
  buddies keep the tiling, and the last byte of a block's buddy is the last byte of the block
  that lies there, whatever its order.
\<close>

type_synonym block = "nat \<times> nat"

definition bsize :: "nat \<Rightarrow> nat" where "bsize k = 2 ^ (k + 5)"
definition pool_size :: nat where "pool_size = 2 ^ 22"

definition bytes_of :: "block \<Rightarrow> nat set" where
  "bytes_of b = {fst b ..< fst b + bsize (snd b)}"

definition valid_block :: "block \<Rightarrow> bool" where
  "valid_block b \<longleftrightarrow> snd b < 18 \<and> bsize (snd b) dvd fst b \<and> fst b + bsize (snd b) \<le> pool_size"

definition tiling :: "block set \<Rightarrow> bool" where
  "tiling T \<longleftrightarrow> (\<forall>b \<in> T. valid_block b)
     \<and> (\<forall>b \<in> T. \<forall>c \<in> T. b \<noteq> c \<longrightarrow> bytes_of b \<inter> bytes_of c = {})
     \<and> (\<Union>b \<in> T. bytes_of b) = {..< pool_size}"

definition buddy :: "block \<Rightarrow> block" where
  "buddy b = (if even (fst b div bsize (snd b)) then fst b + bsize (snd b) else fst b - bsize (snd b), snd b)"

definition parent :: "block \<Rightarrow> block" where
  "parent b = (min (fst b) (fst (buddy b)), Suc (snd b))"

lemma bsize_pos [simp]: "0 < bsize k"
  by (simp add: bsize_def)

lemma bsize_Suc: "bsize (Suc k) = 2 * bsize k"
  by (simp add: bsize_def power_add)

lemma bsize_ge_32: "32 \<le> bsize k"
  by (simp add: bsize_def power_add)

lemma bsize_dvd: "j \<le> k \<Longrightarrow> bsize j dvd bsize k"
  by (simp add: bsize_def le_imp_power_dvd)

lemma bsize_inj: "bsize j = bsize k \<longleftrightarrow> j = k"
  by (simp add: bsize_def)

lemma bsize_17: "bsize 17 = pool_size"
  by (simp add: bsize_def pool_size_def)

lemma bsize_le_pool: "k < 18 \<Longrightarrow> bsize k \<le> pool_size"
  using power_increasing [of "k + 5" 22 "2 :: nat"] by (simp add: bsize_def pool_size_def)

lemma snd_buddy [simp]: "snd (buddy b) = snd b"
  by (simp add: buddy_def)

lemma valid_block_multiple:
  assumes "valid_block b"
  obtains q where "fst b = q * bsize (snd b)"
  using assms by (auto simp: valid_block_def dvd_def mult.commute)

text \<open>Two dyadic blocks are nested or disjoint.\<close>

lemma dyadic_nested:
  assumes "bsize k dvd o1" and "bsize j dvd o2" and "j \<le> k"
    and "x \<in> {o1 ..< o1 + bsize k}" and "x \<in> {o2 ..< o2 + bsize j}"
  shows "o1 \<le> o2" and "o2 + bsize j \<le> o1 + bsize k"
proof -
  obtain a where a: "o1 = bsize j * a" using assms(1,3) bsize_dvd by (metis dvd_trans dvd_def)
  obtain c where c: "o2 = bsize j * c" using assms(2) by (auto simp: dvd_def)
  obtain d where d: "bsize k = bsize j * d" using bsize_dvd [OF assms(3)] by (auto simp: dvd_def)
  have "bsize j * a < bsize j * (c + 1)" "bsize j * c < bsize j * (a + d)"
    using assms(4,5) a c d by (auto simp: algebra_simps)
  then have "a < c + 1" "c < a + d" unfolding mult_less_cancel1 by simp_all
  then have ac: "a \<le> c" "c + 1 \<le> a + d" by simp_all
  show "o1 \<le> o2" using ac(1) a c by simp
  have "bsize j * (c + 1) \<le> bsize j * (a + d)" using ac(2) by (rule mult_le_mono2)
  then show "o2 + bsize j \<le> o1 + bsize k" using a c d by (simp add: algebra_simps)
qed

section \<open>Buddies\<close>

lemma halves:
  assumes "valid_block (p, Suc k)"
  shows "valid_block (p, k)" and "valid_block (p + bsize k, k)"
    and "bytes_of (p, Suc k) = bytes_of (p, k) \<union> bytes_of (p + bsize k, k)"
    and "bytes_of (p, k) \<inter> bytes_of (p + bsize k, k) = {}"
    and "buddy (p, k) = (p + bsize k, k)" and "buddy (p + bsize k, k) = (p, k)"
    and "parent (p, k) = (p, Suc k)" and "parent (p + bsize k, k) = (p, Suc k)"
proof -
  obtain r where r: "p = r * bsize (Suc k)" using assms by (auto simp: valid_block_def dvd_def mult.commute)
  then have p: "p = 2 * r * bsize k" by (simp add: bsize_Suc)
  show "valid_block (p, k)" "valid_block (p + bsize k, k)"
    using assms p by (auto simp: valid_block_def bsize_Suc)
  show "bytes_of (p, Suc k) = bytes_of (p, k) \<union> bytes_of (p + bsize k, k)"
    "bytes_of (p, k) \<inter> bytes_of (p + bsize k, k) = {}"
    by (auto simp: bytes_of_def bsize_Suc)
  have "p div bsize k = 2 * r" "(p + bsize k) div bsize k = 2 * r + 1" using p by simp_all
  then show "buddy (p, k) = (p + bsize k, k)" "buddy (p + bsize k, k) = (p, k)"
    "parent (p, k) = (p, Suc k)" "parent (p + bsize k, k) = (p, Suc k)"
    by (simp_all add: buddy_def parent_def)
qed

text \<open>A block below the top order is the lower or the upper half of its parent.\<close>

lemma parent_split:
  assumes "valid_block b" and "snd b < 17"
  obtains p k where "valid_block (p, Suc k)" "parent b = (p, Suc k)" "k = snd b"
    "b = (p, k) \<and> buddy b = (p + bsize k, k) \<or> b = (p + bsize k, k) \<and> buddy b = (p, k)"
proof -
  obtain q k where b: "b = (q * bsize k, k)" "k < 17"
    using assms valid_block_multiple [OF assms(1)] by (metis prod.collapse)
  define r where "r = q div 2"
  define p where "p = r * bsize (Suc k)"
  have lim: "q * bsize k + bsize k \<le> pool_size" using assms(1) by (simp add: b(1) valid_block_def)
  obtain t where t: "pool_size = t * bsize (Suc k)"
    using bsize_dvd [of "Suc k" 17] b(2) by (auto simp: bsize_17 dvd_def mult.commute)
  have "(q + 1) * bsize k \<le> 2 * t * bsize k" using lim t by (simp add: algebra_simps bsize_Suc)
  then have "q + 1 \<le> 2 * t" using bsize_pos [of k] by (metis mult_le_cancel2 not_less)
  then have "(r + 1) * bsize (Suc k) \<le> t * bsize (Suc k)"
    by (intro mult_le_mono1) (simp add: r_def)
  then have parent: "valid_block (p, Suc k)"
    using b(2) t by (simp add: valid_block_def p_def algebra_simps)
  consider "q = 2 * r" | "q = 2 * r + 1" unfolding r_def by linarith
  then have "b = (p, k) \<or> b = (p + bsize k, k)"
    by cases (simp_all add: b(1) p_def bsize_Suc algebra_simps)
  then show thesis
  proof
    assume e: "b = (p, k)"
    show thesis by (rule that [OF parent]) (simp_all add: e halves(5,7) [OF parent])
  next
    assume e: "b = (p + bsize k, k)"
    show thesis by (rule that [OF parent]) (simp_all add: e halves(6,8) [OF parent])
  qed
qed

lemma buddy_ne:
  assumes "valid_block b" and "snd b < 17"
  shows "fst (buddy b) \<noteq> fst b"
proof -
  obtain p k where "b = (p, k) \<and> buddy b = (p + bsize k, k) \<or> b = (p + bsize k, k) \<and> buddy b = (p, k)"
    using parent_split [OF assms] by metis
  then have "fst b = p \<and> fst (buddy b) = p + bsize k \<or> fst b = p + bsize k \<and> fst (buddy b) = p"
    by (metis fst_conv)
  then show ?thesis using bsize_ge_32 [of k] by linarith
qed

lemma buddy_buddy:
  assumes "valid_block b" and "snd b < 17"
  shows "buddy (buddy b) = b"
proof -
  obtain p k where "valid_block (p, Suc k)"
    "b = (p, k) \<and> buddy b = (p + bsize k, k) \<or> b = (p + bsize k, k) \<and> buddy b = (p, k)"
    using parent_split [OF assms] by metis
  then show ?thesis using halves(5,6) [of p k] by (elim disjE) simp_all
qed

lemma parent_bytes:
  assumes "valid_block b" and "snd b < 17"
  shows "valid_block (parent b)" and "valid_block (buddy b)"
    and "bytes_of (parent b) = bytes_of b \<union> bytes_of (buddy b)"
    and "bytes_of b \<inter> bytes_of (buddy b) = {}"
proof -
  obtain p k where pk: "valid_block (p, Suc k)" "parent b = (p, Suc k)"
    "b = (p, k) \<and> buddy b = (p + bsize k, k) \<or> b = (p + bsize k, k) \<and> buddy b = (p, k)"
    using parent_split [OF assms] by metis
  note h = halves [OF pk(1)]
  show "valid_block (parent b)" using pk by simp
  show "valid_block (buddy b)" using pk(3) h by (elim disjE) simp_all
  show "bytes_of (parent b) = bytes_of b \<union> bytes_of (buddy b)"
    using pk(3) h unfolding pk(2) by (elim disjE) auto
  show "bytes_of b \<inter> bytes_of (buddy b) = {}"
    using pk(3) h by (elim disjE) auto
qed

section \<open>Tilings\<close>

lemma tiling_valid: "tiling T \<Longrightarrow> b \<in> T \<Longrightarrow> valid_block b"
  by (auto simp: tiling_def)

lemma tiling_unique: "tiling T \<Longrightarrow> b \<in> T \<Longrightarrow> c \<in> T \<Longrightarrow> x \<in> bytes_of b \<Longrightarrow> x \<in> bytes_of c \<Longrightarrow> b = c"
  by (auto simp: tiling_def)

lemma bytes_of_nonempty: "fst b \<in> bytes_of b" "fst b + bsize (snd b) - 1 \<in> bytes_of b"
  using bsize_ge_32 [of "snd b"] by (auto simp: bytes_of_def)

lemma tiling_offset: "tiling T \<Longrightarrow> (x, j) \<in> T \<Longrightarrow> (x, k) \<in> T \<Longrightarrow> j = k"
  using tiling_unique [of T "(x, j)" "(x, k)" x] bytes_of_nonempty(1) [of "(x, j)"]
    bytes_of_nonempty(1) [of "(x, k)"] by simp

text \<open>A block replaced by blocks that partition it, and the other way round.\<close>

lemma tiling_disjoint: "tiling T \<Longrightarrow> b \<in> T \<Longrightarrow> c \<in> T \<Longrightarrow> b \<noteq> c \<Longrightarrow> bytes_of b \<inter> bytes_of c = {}"
  by (simp add: tiling_def)

lemma tiling_replace:
  assumes T: "tiling T" and "Old \<subseteq> T" and valid: "\<And>b. b \<in> New \<Longrightarrow> valid_block b"
    and disj: "\<And>b c. b \<in> New \<Longrightarrow> c \<in> New \<Longrightarrow> b \<noteq> c \<Longrightarrow> bytes_of b \<inter> bytes_of c = {}"
    and same: "(\<Union>b \<in> Old. bytes_of b) = (\<Union>b \<in> New. bytes_of b)"
  shows "tiling (T - Old \<union> New)"
proof -
  have old: "bytes_of x \<inter> (\<Union>b \<in> New. bytes_of b) = {}" if "x \<in> T - Old" for x
    unfolding same [symmetric] using tiling_disjoint [OF T, of x] that assms(2) by blast
  have "bytes_of b \<inter> bytes_of c = {}" if bc: "b \<in> T - Old \<union> New" "c \<in> T - Old \<union> New" "b \<noteq> c" for b c
  proof -
    consider "b \<in> T - Old" "c \<in> T - Old" | "b \<in> T - Old" "c \<in> New" | "b \<in> New" "c \<in> T - Old" | "b \<in> New" "c \<in> New"
      using bc by blast
    then show ?thesis
    proof cases
      case 1
      then show ?thesis using tiling_disjoint [OF T] bc(3) by simp
    next
      case 2
      then show ?thesis using old [of b] by blast
    next
      case 3
      then show ?thesis using old [of c] by blast
    next
      case 4
      then show ?thesis using disj bc(3) by simp
    qed
  qed
  moreover have "(\<Union>b \<in> T - Old \<union> New. bytes_of b) = (\<Union>b \<in> T. bytes_of b)"
    using same assms(2) by blast
  ultimately show ?thesis
    using T valid by (auto simp: tiling_def)
qed

lemma tiling_split:
  assumes "tiling T" and "(p, Suc k) \<in> T"
  shows "tiling (T - {(p, Suc k)} \<union> {(p, k), (p + bsize k, k)})"
proof -
  note h = halves [OF tiling_valid [OF assms]]
  show ?thesis
    by (rule tiling_replace [OF assms(1)]) (use assms(2) h(1-4) in auto)
qed

lemma tiling_merge:
  assumes "tiling T" and "b \<in> T" and "buddy b \<in> T" and "snd b < 17"
  shows "tiling (T - {b, buddy b} \<union> {parent b})"
  by (rule tiling_replace [OF assms(1)])
     (use assms parent_bytes [OF tiling_valid [OF assms(1,2)] assms(4)] in auto)

text \<open>
  The block at the end of the buddy's bytes has at most the order of the buddy, and ends where
  the buddy ends. So the byte there is its last byte.
\<close>

lemma tiling_buddy_end:
  assumes T: "tiling T" and b: "b \<in> T" and k: "snd b < 17"
  obtains c where "c \<in> T" "snd c \<le> snd b"
    "fst c + bsize (snd c) = fst (buddy b) + bsize (snd b)"
    "snd c = snd b \<Longrightarrow> c = buddy b" "c \<noteq> b"
proof -
  note v = tiling_valid [OF T b]
  note vb = parent_bytes(2) [OF v k] and disj = parent_bytes(4) [OF v k] and par = parent_bytes(3) [OF v k]
  have vp: "valid_block (parent b)" "snd (parent b) = Suc (snd b)"
    using parent_bytes(1) [OF v k] by (simp_all add: parent_def)
  define x where "x = fst (buddy b) + bsize (snd b) - 1"
  have x: "x \<in> bytes_of (buddy b)" using bytes_of_nonempty(2) [of "buddy b"] by (simp add: x_def)
  then have "x < pool_size" using vb by (auto simp: bytes_of_def valid_block_def)
  then have "x \<in> (\<Union>b \<in> T. bytes_of b)" using T by (simp add: tiling_def)
  then obtain c where c: "c \<in> T" "x \<in> bytes_of c" by blast
  have vc: "valid_block c" using T c(1) by (rule tiling_valid)
  have dvd: "bsize (snd c) dvd fst c" "bsize (snd b) dvd fst (buddy b)"
    using vc vb by (auto simp: valid_block_def)
  have ne: "c \<noteq> b" using c(2) x disj by auto
  have le: "snd c \<le> snd b"
  proof (rule ccontr)
    assume "\<not> snd c \<le> snd b"
    then have big: "snd (parent b) \<le> snd c" using vp(2) by simp
    have "x \<in> bytes_of (parent b)" using par x by blast
    then have "bytes_of (parent b) \<subseteq> bytes_of c"
      using dyadic_nested [OF dvd(1) _ big, of "fst (parent b)" x] c(2) vp(1)
      by (auto simp: bytes_of_def valid_block_def)
    then have "fst b \<in> bytes_of c" using par bytes_of_nonempty(1) [of b] by auto
    then show False using tiling_unique [OF T c(1) b _ bytes_of_nonempty(1)] ne by auto
  qed
  have "fst (buddy b) \<le> fst c \<and> fst c + bsize (snd c) \<le> fst (buddy b) + bsize (snd b)"
    using dyadic_nested [OF dvd(2) dvd(1) le, of x] x c(2) by (auto simp: bytes_of_def)
  moreover have "x < fst c + bsize (snd c)" using c(2) by (auto simp: bytes_of_def)
  ultimately have "end": "fst c + bsize (snd c) = fst (buddy b) + bsize (snd b)"
    using bsize_ge_32 [of "snd b"] unfolding x_def by linarith
  have "c = buddy b" if "snd c = snd b"
    using that "end" by (simp add: prod_eq_iff)
  then show thesis using that [OF c(1) le "end" _ ne] by blast
qed

section \<open>Coalesced sets of free blocks\<close>

definition coalesced :: "block set \<Rightarrow> bool" where
  "coalesced F \<longleftrightarrow> (\<forall>b \<in> F. snd b < 17 \<longrightarrow> buddy b \<notin> F)"

lemma coalesced_mono: "coalesced F \<Longrightarrow> G \<subseteq> F \<Longrightarrow> coalesced G"
  by (auto simp: coalesced_def)

lemma coalesced_insert:
  assumes "coalesced F" and "valid_block b" and "snd b < 17 \<Longrightarrow> buddy b \<notin> F"
    and "\<And>c. c \<in> F \<Longrightarrow> valid_block c"
  shows "coalesced (insert b F)"
proof -
  show ?thesis
    unfolding coalesced_def
  proof (intro ballI impI)
    fix c assume c: "c \<in> insert b F" "snd c < 17"
    then have v: "valid_block c" using assms(2) assms(4) [of c] by blast
    show "buddy c \<notin> insert b F"
      using buddy_buddy [OF v c(2)] buddy_ne [OF v c(2)] c assms(1,3) by (auto simp: coalesced_def)
  qed
qed

text \<open>When every block is free and none can be merged, the pool is a single block.\<close>

lemma coalesced_tiling_single:
  assumes "tiling F" and "coalesced F"
  shows "F = {(0, 17)}"
proof -
  have fin: "finite F"
  proof (rule finite_subset)
    show "F \<subseteq> {..pool_size} \<times> {..<18}" using assms(1) by (force simp: tiling_def valid_block_def)
  qed simp
  have "F \<noteq> {}"
  proof
    assume "F = {}"
    then have "0 \<notin> {..< pool_size}" using assms(1) by (simp add: tiling_def)
    then show False by (simp add: pool_size_def)
  qed
  then obtain b where b: "b \<in> F" "\<And>c. c \<in> F \<Longrightarrow> snd b \<le> snd c"
    using fin by (metis (no_types, lifting) arg_min_if_finite(1) arg_min_least)
  have "snd b = 17"
  proof (rule ccontr)
    assume "snd b \<noteq> 17"
    then have k: "snd b < 17" using tiling_valid [OF assms(1) b(1)] by (auto simp: valid_block_def)
    obtain c where "c \<in> F" "snd c \<le> snd b" "snd c = snd b \<Longrightarrow> c = buddy b"
      using tiling_buddy_end [OF assms(1) b(1) k] by metis
    then have "buddy b \<in> F" using b(2) [of c] by auto
    then show False using assms(2) b(1) k by (auto simp: coalesced_def)
  qed
  then have "b = (0, 17)"
    using tiling_valid [OF assms(1) b(1)] by (simp add: valid_block_def bsize_17 prod_eq_iff)
  moreover have "c = b" if "c \<in> F" for c
  proof (rule tiling_unique [OF assms(1) that b(1), of "fst c"])
    show "fst c \<in> bytes_of c" by (rule bytes_of_nonempty)
    have "fst c + bsize (snd c) \<le> bsize 17"
      using tiling_valid [OF assms(1) that] by (simp only: valid_block_def bsize_17)
    then have "fst c < bsize 17" using bsize_ge_32 [of "snd c"] by linarith
    then show "fst c \<in> bytes_of b"
      by (simp only: \<open>b = (0, 17)\<close> bytes_of_def fst_conv snd_conv) simp
  qed
  ultimately show ?thesis using b(1) by blast
qed

end
