(* ===== verification/Malloc_Buckets.thy ===== *)
theory Malloc_Buckets
  imports Malloc Buddy_Tiling
begin

text \<open>
  The buckets of the buddy allocator as lists of offsets into the pool. \<open>buckets_ok st fl\<close> says
  that the ring of bucket \<open>k\<close> runs through the blocks at the offsets \<open>fl k\<close> and that the count is
  right; the lemmas show what taking a block out of a bucket, putting one in and writing a byte
  of a block do to it, and which bytes of the pool they leave alone.
\<close>

section \<open>The pool\<close>

definition baddr :: "nat \<Rightarrow> u64" where
  "baddr x = MALLOC_BASE + of_nat x"

definition head :: "heap \<Rightarrow> nat \<Rightarrow> u64" where
  "head st k = b_addr st + 24 * of_nat k"

definition pb :: "heap \<Rightarrow> nat \<Rightarrow> u8" where
  "pb st x = h_mem st (baddr x)"

text \<open>
  Where things are: the pool at \<open>MALLOC_BASE\<close>, the bucket array aligned and outside the pool, the
  sizes of the buckets as \<open>malloc_init\<close> sets them.
\<close>

definition pool_ok :: "heap \<Rightarrow> bool" where
  "pool_ok st \<longleftrightarrow> mem_base st = MALLOC_BASE \<and> unat (b_addr st) mod 8 = 0
     \<and> (unat (b_addr st) + 432 \<le> 0x600000 \<or> 0xA00000 \<le> unat (b_addr st) \<and> unat (b_addr st) + 432 \<le> 2 ^ 64)
     \<and> length (b_count st) = 18 \<and> b_size st = map (\<lambda>k. of_nat (bsize k)) [0..<18]"

definition nodes :: "heap \<Rightarrow> u64 set" where
  "nodes st = head st ` {..<18} \<union> baddr ` {x. x < pool_size \<and> 32 dvd x}"

lemma unat_baddr: "x < pool_size \<Longrightarrow> unat (baddr x) = 0x600000 + x"
proof -
  assume "x < pool_size"
  then have x: "x < 4194304" by (simp add: pool_size_def)
  then have u: "unat (of_nat x :: u64) = x" by (intro unat_of_nat_small) simp
  then have "unat (MALLOC_BASE + of_nat x) = unat MALLOC_BASE + unat (of_nat x :: u64)"
    using x by (intro unat_add_small) (simp add: MALLOC_BASE_def)
  then show ?thesis using u by (simp add: baddr_def MALLOC_BASE_def)
qed

lemma baddr_inj: "x < pool_size \<Longrightarrow> y < pool_size \<Longrightarrow> baddr x = baddr y \<longleftrightarrow> x = y"
  using unat_baddr by (metis add_left_cancel)

lemma unat_head: "pool_ok st \<Longrightarrow> k < 18 \<Longrightarrow> unat (head st k) = unat (b_addr st) + 24 * k"
proof -
  assume "pool_ok st" and k: "k < 18"
  then have fit: "unat (b_addr st) + 432 \<le> 2 ^ 64" by (auto simp: pool_ok_def)
  have u: "unat (24 * of_nat k :: u64) = 24 * k"
  proof -
    have "(24 * of_nat k :: u64) = of_nat (24 * k)" by simp
    then show ?thesis using k by (simp only:) (intro unat_of_nat_small, simp)
  qed
  show ?thesis
    unfolding head_def using k fit by (subst unat_add_small) (simp_all add: u)
qed

lemma head_inj: "pool_ok st \<Longrightarrow> j < 18 \<Longrightarrow> k < 18 \<Longrightarrow> head st j = head st k \<longleftrightarrow> j = k"
  by (metis unat_head add_left_cancel mult_cancel1 zero_neq_numeral)

lemma node_bytes_unat:
  assumes "unat a + 16 \<le> 2 ^ 64"
  shows "x \<in> node_bytes a \<longleftrightarrow> unat a \<le> unat x \<and> unat x < unat a + 16"
  using assms by (simp add: node_bytes_def bytes_at_unat)

lemma baddr_node_bytes:
  assumes "p < pool_size" and "x < pool_size"
  shows "baddr x \<in> node_bytes (baddr p) \<longleftrightarrow> p \<le> x \<and> x < p + 16"
  using assms by (subst node_bytes_unat) (auto simp: unat_baddr pool_size_def)

lemma baddr_head_bytes:
  assumes "pool_ok st" and "k < 18" and "x < pool_size"
  shows "baddr x \<notin> node_bytes (head st k)"
  using assms unat_head [OF assms(1,2)]
  by (subst node_bytes_unat) (auto simp: unat_baddr pool_size_def pool_ok_def)

lemma head_not_block:
  assumes "pool_ok st" and "k < 18" and "x < pool_size"
  shows "head st k \<noteq> baddr x"
proof
  assume "head st k = baddr x"
  then have "unat (b_addr st) + 24 * k = 0x600000 + x"
    using unat_head [OF assms(1,2)] unat_baddr [OF assms(3)] by simp
  then show False using assms by (auto simp: pool_ok_def pool_size_def)
qed

lemma node_unat_cases:
  assumes "pool_ok st" and "a \<in> nodes st"
  shows "(\<exists>k < 18. unat a = unat (b_addr st) + 24 * k) \<or> (\<exists>q < 131072. unat a = 0x600000 + 32 * q)"
proof -
  consider (head) k where "k < 18" "a = head st k" | (block) x where "x < pool_size" "32 dvd x" "a = baddr x"
    using assms(2) by (auto simp: nodes_def)
  then show ?thesis
  proof cases
    case head
    then show ?thesis using unat_head [OF assms(1)] by blast
  next
    case block
    then obtain q where "x = 32 * q" by auto
    then show ?thesis using block unat_baddr [of x] by (intro disjI2 exI [of _ q]) (simp add: pool_size_def)
  qed
qed

lemma nodes_apart_nodes:
  assumes ok: "pool_ok st"
  shows "nodes_apart (nodes st)"
proof -
  have b: "unat (b_addr st) mod 8 = 0"
    "unat (b_addr st) + 432 \<le> 0x600000 \<or> 0xA00000 \<le> unat (b_addr st) \<and> unat (b_addr st) + 432 \<le> 2 ^ 64"
    using ok by (auto simp: pool_ok_def)
  have "unat a mod 8 = 0" if a: "a \<in> nodes st" for a
    using node_unat_cases [OF ok a] b(1) by (elim disjE exE conjE) presburger+
  moreover have "a + 8 \<noteq> c" if ac: "a \<in> nodes st" "c \<in> nodes st" for a c
  proof
    assume eq: "a + 8 = c"
    have small: "unat a + 8 < 2 ^ 64" using node_unat_cases [OF ok ac(1)] b(2) by auto
    then have c: "unat c = unat a + 8"
      unfolding eq [symmetric] by (subst unat_add_small) simp_all
    consider (a1) j where "j < 18" "unat a = unat (b_addr st) + 24 * j"
      | (a2) q where "q < 131072" "unat a = 0x600000 + 32 * q"
      using node_unat_cases [OF ok ac(1)] by blast
    then show False
    proof cases
      case (a1 j)
      then have "unat c \<noteq> unat (b_addr st) + 24 * k" for k
        unfolding c a1(2) add.assoc add_left_cancel by presburger
      moreover have "unat c < 0x600000 \<or> 0xA00000 \<le> unat c" using b(2) a1 c by linarith
      ultimately show False using node_unat_cases [OF ok ac(2)] by fastforce
    next
      case (a2 q)
      then have "unat c \<noteq> 0x600000 + 32 * r" for r
        unfolding c a2(2) add.assoc add_left_cancel by presburger
      moreover have "unat c \<noteq> unat (b_addr st) + 24 * k" if "k < 18" for k
        using b(2) a2 c that by linarith
      ultimately show False using node_unat_cases [OF ok ac(2)] by blast
    qed
  qed
  ultimately show ?thesis by (auto simp: nodes_apart_def)
qed


section \<open>Buckets as lists of offsets\<close>

type_synonym flists = "nat \<Rightarrow> nat list"

definition flists_ok :: "flists \<Rightarrow> bool" where
  "flists_ok fl \<longleftrightarrow> (\<forall>k < 18. \<forall>x \<in> set (fl k). 32 dvd x \<and> x < pool_size)
     \<and> (\<forall>j < 18. \<forall>k < 18. j \<noteq> k \<longrightarrow> set (fl j) \<inter> set (fl k) = {})"

definition buckets_ok :: "heap \<Rightarrow> flists \<Rightarrow> bool" where
  "buckets_ok st fl \<longleftrightarrow> flists_ok fl
     \<and> (\<forall>k < 18. ring (h_mem st) (head st k) (map baddr (fl k))
          \<and> unat (b_count st ! k) = length (fl k))"

lemma buckets_ring: "buckets_ok st fl \<Longrightarrow> k < 18 \<Longrightarrow> ring (h_mem st) (head st k) (map baddr (fl k))"
  by (simp add: buckets_ok_def)

lemma buckets_count: "buckets_ok st fl \<Longrightarrow> k < 18 \<Longrightarrow> unat (b_count st ! k) = length (fl k)"
  by (simp add: buckets_ok_def)

lemma flists_ok_mono: "flists_ok fl \<Longrightarrow> (\<And>k. set (fl' k) \<subseteq> set (fl k)) \<Longrightarrow> flists_ok fl'"
  unfolding flists_ok_def by (meson disjoint_iff subsetD)

lemma flists_in:
  assumes "flists_ok fl" and "k < 18" and "x \<in> set (fl k)"
  shows "32 dvd x" and "x < pool_size"
  using assms by (auto simp: flists_ok_def)

lemma buckets_flists: "buckets_ok st fl \<Longrightarrow> flists_ok fl"
  by (simp add: buckets_ok_def)

lemma buckets_distinct: "buckets_ok st fl \<Longrightarrow> k < 18 \<Longrightarrow> distinct (fl k)"
  using ring_distinct [OF buckets_ring, of st fl k] by (auto simp: distinct_map)

lemma buckets_nodes:
  assumes "flists_ok fl" and "k < 18"
  shows "set (head st k # map baddr (fl k)) \<subseteq> nodes st"
  using assms by (auto simp: nodes_def flists_ok_def)

lemma bucket_nodes_disjoint:
  assumes ok: "pool_ok st" and fl: "flists_ok fl" and jk: "j < 18" "k < 18" "j \<noteq> k"
  shows "set (head st j # map baddr (fl j)) \<inter> set (head st k # map baddr (fl k)) = {}"
proof -
  have "baddr x \<noteq> baddr y" if "x \<in> set (fl j)" "y \<in> set (fl k)" for x y
    using that fl jk baddr_inj flists_in(2) [OF fl] unfolding flists_ok_def by blast
  moreover have "head st j \<noteq> baddr y" if "y \<in> set (fl k)" for y
    using head_not_block [OF ok jk(1) flists_in(2) [OF fl jk(2) that]] .
  moreover have "head st k \<noteq> baddr x" if "x \<in> set (fl j)" for x
    using head_not_block [OF ok jk(2) flists_in(2) [OF fl jk(1) that]] .
  moreover have "head st j \<noteq> head st k" using head_inj [OF ok jk(1,2)] jk(3) by simp
  ultimately show ?thesis by (simp add: disjoint_iff image_iff) metis
qed

lemma bucket_length:
  assumes "buckets_ok st fl" and "k < 18"
  shows "length (fl k) \<le> pool_size"
proof -
  have "length (fl k) = card (set (fl k))"
    using buckets_distinct [OF assms] by (simp add: distinct_card)
  also have "\<dots> \<le> card {..< pool_size}"
    by (rule card_mono) (use flists_in(2) [OF buckets_flists [OF assms(1)] assms(2)] in auto)
  finally show ?thesis by simp
qed

text \<open>Offsets that lie in the list node of a block of some bucket.\<close>

definition in_node :: "nat set \<Rightarrow> nat \<Rightarrow> bool" where
  "in_node S x \<longleftrightarrow> (\<exists>p \<in> S. p \<le> x \<and> x < p + 16)"

lemma baddr_not_in_nodes:
  assumes "pool_ok st" and "k < 18" and "\<And>p. p \<in> S \<Longrightarrow> p < pool_size" and "x < pool_size"
    and "\<not> in_node S x"
  shows "baddr x \<notin> (\<Union>a \<in> insert (head st k) (baddr ` S). node_bytes a)"
  using assms baddr_head_bytes [OF assms(1,2,4)] by (auto simp: in_node_def baddr_node_bytes)

subsection \<open>Taking a block out\<close>

definition del_block :: "heap \<Rightarrow> nat \<Rightarrow> nat \<Rightarrow> heap" where
  "del_block st k x = st\<lparr>h_mem := list_del (h_mem st) (baddr x),
     b_count := (b_count st)[k := b_count st ! k - 1]\<rparr>"

lemma head_cong [simp]: "head (st\<lparr>h_mem := m, b_count := c\<rparr>) k = head st k"
  "head (st\<lparr>h_mem := m\<rparr>) k = head st k" "head (st\<lparr>b_count := c\<rparr>) k = head st k"
  by (simp_all add: head_def)

lemma pool_ok_del [simp]: "pool_ok (del_block st k x) = pool_ok st"
  by (simp add: pool_ok_def del_block_def)

lemma map_remove1_inj: "inj_on f (insert x (set xs)) \<Longrightarrow> map f (remove1 x xs) = remove1 (f x) (map f xs)"
  by (induction xs) (auto simp: inj_on_def)

lemma del_block_buckets:
  assumes ok: "pool_ok st" and b: "buckets_ok st fl" and k: "k < 18" and x: "x \<in> set (fl k)"
  shows "buckets_ok (del_block st k x) (fl(k := remove1 x (fl k)))"
proof -
  let ?st = "del_block st k x" and ?fl = "fl(k := remove1 x (fl k))"
  note fl = buckets_flists [OF b]
  note apart = nodes_apart_nodes [OF ok]
  obtain us vs where uv: "fl k = us @ x # vs" using x by (auto simp: in_set_conv_decomp)
  then have rem: "remove1 x (fl k) = us @ vs"
    using buckets_distinct [OF b k] by (simp add: remove1_append)
  have mem: "h_mem ?st = list_del (h_mem st) (baddr x)" "head ?st j = head st j" for j
    by (simp_all add: del_block_def)
  have "ring (h_mem ?st) (head st j) (map baddr (?fl j))" if j: "j < 18" for j
  proof (cases "j = k")
    case True
    have "ring (list_del (h_mem st) (baddr x)) (head st k) (map baddr us @ map baddr vs)"
      by (rule list_del_ring [OF apart])
         (use buckets_nodes [OF fl k, of st] buckets_ring [OF b k] in \<open>simp_all add: uv\<close>)
    then show ?thesis using True by (simp add: mem rem)
  next
    case False
    have "ring (list_del (h_mem st) (baddr x)) (head st j) (map baddr (fl j))
        = ring (h_mem st) (head st j) (map baddr (fl j))"
      by (rule list_del_other_ring [OF apart buckets_nodes [OF fl k] buckets_ring [OF b k] _
            buckets_nodes [OF fl j] bucket_nodes_disjoint [OF ok fl j k False]]) (use x in simp)
    then show ?thesis using False buckets_ring [OF b j] by (simp add: mem)
  qed
  moreover have "unat (b_count ?st ! j) = length (?fl j)" if j: "j < 18" for j
  proof -
    have len: "length (b_count st) = 18" using ok by (simp add: pool_ok_def)
    have pos: "0 < unat (b_count st ! k)" using buckets_count [OF b k] x by (cases "fl k") auto
    then have "1 \<le> b_count st ! k" by (simp add: word_le_nat_alt)
    then have "unat (b_count st ! k - 1) = length (fl k) - 1"
      using buckets_count [OF b k] by (simp add: unat_sub_le)
    then show ?thesis
      using len j k x buckets_count [OF b j] by (auto simp: del_block_def length_remove1)
  qed
  moreover have "flists_ok ?fl"
    by (rule flists_ok_mono [OF fl]) (use set_remove1_subset [of x "fl k"] in auto)
  ultimately show ?thesis by (simp add: buckets_ok_def mem)
qed

lemma del_block_pb:
  assumes "pool_ok st" and "buckets_ok st fl" and "k < 18" and "x \<in> set (fl k)"
    and "y < pool_size" and "\<not> in_node (set (fl k)) y"
  shows "pb (del_block st k x) y = pb st y"
proof -
  have "list_del (h_mem st) (baddr x) (baddr y) = h_mem st (baddr y)"
  proof (rule list_del_out [OF buckets_ring [OF assms(2,3)]])
    show "baddr y \<notin> (\<Union>a \<in> set (head st k # map baddr (fl k)). node_bytes a)"
      using baddr_not_in_nodes [OF assms(1,3) _ assms(5,6)]
        flists_in(2) [OF buckets_flists [OF assms(2)] assms(3)] by simp
  qed (use assms(4) in simp)
  then show ?thesis by (simp add: pb_def del_block_def)
qed


subsection \<open>Putting a block in\<close>

definition put_block :: "heap \<Rightarrow> nat \<Rightarrow> nat \<Rightarrow> heap" where
  "put_block st k x = st\<lparr>h_mem := list_add (h_mem st) (baddr x) (head st k),
     b_count := (b_count st)[k := b_count st ! k + 1]\<rparr>"

lemma pool_ok_put [simp]: "pool_ok (put_block st k x) = pool_ok st"
  by (simp add: pool_ok_def put_block_def)

definition fresh_block :: "flists \<Rightarrow> nat \<Rightarrow> bool" where
  "fresh_block fl x \<longleftrightarrow> 32 dvd x \<and> x < pool_size \<and> (\<forall>k < 18. x \<notin> set (fl k))"

lemma fresh_not_in_ring:
  assumes ok: "pool_ok st" and fl: "flists_ok fl" and x: "fresh_block fl x" and k: "k < 18"
  shows "baddr x \<notin> set (head st k # map baddr (fl k))" and "baddr x \<in> nodes st"
proof -
  have "baddr x \<noteq> head st k"
    using head_not_block [OF ok k, of x] x by (auto simp: fresh_block_def)
  moreover have "baddr x \<noteq> baddr y" if "y \<in> set (fl k)" for y
    using that x k baddr_inj flists_in(2) [OF fl k that] by (auto simp: fresh_block_def)
  ultimately show "baddr x \<notin> set (head st k # map baddr (fl k))" by auto
  show "baddr x \<in> nodes st" using x by (auto simp: fresh_block_def nodes_def)
qed

lemma put_block_buckets:
  assumes ok: "pool_ok st" and b: "buckets_ok st fl" and k: "k < 18" and x: "fresh_block fl x"
  shows "buckets_ok (put_block st k x) (fl(k := x # fl k))"
proof -
  let ?st = "put_block st k x" and ?fl = "fl(k := x # fl k)"
  note fl = buckets_flists [OF b]
  note apart = nodes_apart_nodes [OF ok]
  note fr = fresh_not_in_ring [OF ok fl x]
  have mem: "h_mem ?st = list_add (h_mem st) (baddr x) (head st k)" "head ?st j = head st j" for j
    by (simp_all add: put_block_def)
  have N: "set (baddr x # head st k # map baddr (fl k)) \<subseteq> nodes st"
    using buckets_nodes [OF fl k, of st] fr(2) [OF k] by simp
  have "ring (h_mem ?st) (head st j) (map baddr (?fl j))" if j: "j < 18" for j
  proof (cases "j = k")
    case True
    then show ?thesis
      using list_add_ring [OF apart N buckets_ring [OF b k] fr(1) [OF k]] by (simp add: mem)
  next
    case False
    have "set (head st j # map baddr (fl j)) \<inter> set (baddr x # head st k # map baddr (fl k)) = {}"
      using bucket_nodes_disjoint [OF ok fl j k False] fr(1) [OF j] by auto
    then show ?thesis
      using list_add_other_ring [OF apart N buckets_ring [OF b k] fr(1) [OF k] buckets_nodes [OF fl j]]
        buckets_ring [OF b j] False by (simp add: mem)
  qed
  moreover have "unat (b_count ?st ! j) = length (?fl j)" if j: "j < 18" for j
  proof -
    have len: "length (b_count st) = 18" using ok by (simp add: pool_ok_def)
    have "unat (b_count st ! k + 1) = length (fl k) + 1"
      using buckets_count [OF b k] bucket_length [OF b k]
      by (subst unat_add_small) (simp_all add: pool_size_def)
    then show ?thesis
      using len j k buckets_count [OF b j] by (auto simp: put_block_def)
  qed
  moreover have "flists_ok ?fl"
    using fl x k unfolding flists_ok_def fresh_block_def by auto
  ultimately show ?thesis by (simp add: buckets_ok_def mem)
qed

lemma put_block_pb:
  assumes "pool_ok st" and "buckets_ok st fl" and "k < 18" and "x < pool_size"
    and "y < pool_size" and "\<not> in_node (insert x (set (fl k))) y"
  shows "pb (put_block st k x) y = pb st y"
proof -
  have "list_add (h_mem st) (baddr x) (head st k) (baddr y) = h_mem st (baddr y)"
  proof (rule list_add_out [OF buckets_ring [OF assms(2,3)]])
    show "baddr y \<notin> (\<Union>a \<in> set (baddr x # head st k # map baddr (fl k)). node_bytes a)"
      using baddr_not_in_nodes [OF assms(1,3) _ assms(5,6)] assms(4)
        flists_in(2) [OF buckets_flists [OF assms(2)] assms(3)] by auto
  qed
  then show ?thesis by (simp add: pb_def put_block_def)
qed

subsection \<open>Writing a byte\<close>

definition poke :: "heap \<Rightarrow> nat \<Rightarrow> u8 \<Rightarrow> heap" where
  "poke st x v = st\<lparr>h_mem := (h_mem st)(baddr x := v)\<rparr>"

lemma pool_ok_poke [simp]: "pool_ok (poke st x v) = pool_ok st"
  by (simp add: pool_ok_def poke_def)

lemma pb_poke: "x < pool_size \<Longrightarrow> y < pool_size \<Longrightarrow> pb (poke st x v) y = (if y = x then v else pb st y)"
  by (simp add: pb_def poke_def baddr_inj)

lemma poke_buckets:
  assumes ok: "pool_ok st" and b: "buckets_ok st fl" and x: "x < pool_size"
    and out: "\<And>k. k < 18 \<Longrightarrow> \<not> in_node (set (fl k)) x"
  shows "buckets_ok (poke st x v) fl"
proof -
  have "ring (h_mem (poke st x v)) (head st k) (map baddr (fl k)) = ring (h_mem st) (head st k) (map baddr (fl k))"
    if k: "k < 18" for k
  proof (rule ring_cong)
    fix a assume "a \<in> set (head st k # map baddr (fl k))"
    then have "baddr x \<notin> node_bytes a"
      using baddr_not_in_nodes [OF ok k _ x out [OF k]]
        flists_in(2) [OF buckets_flists [OF b] k] by auto
    then show "list_next (h_mem (poke st x v)) a = list_next (h_mem st) a
        \<and> list_prev (h_mem (poke st x v)) a = list_prev (h_mem st) a"
      by (simp add: poke_def list_next_def list_prev_def load64_upd_other node_bytes_halves)
  qed
  then show ?thesis using b by (simp add: buckets_ok_def) (simp add: poke_def)
qed

end
