(* ===== verification/Malloc_Invariant.thy ===== *)
theory Malloc_Invariant
  imports Malloc_Buckets
begin

text \<open>
  The invariant of the buddy allocator. The pool is tiled by free blocks (those in the buckets),
  used blocks and, while an operation is under way, blocks in limbo. The last byte of a free
  block holds its order, the last byte of a used block \<open>USED\<close> and its first byte the order. Each
  primitive step of the operations (taking a block out of its bucket, writing a byte of a block
  in limbo, splitting or merging blocks in limbo, putting a block into a bucket) keeps the
  invariant and every byte of the used blocks.
\<close>

definition last_byte :: "block \<Rightarrow> nat" where
  "last_byte b = fst b + bsize (snd b) - 1"

definition free_blocks :: "flists \<Rightarrow> block set" where
  "free_blocks fl = {b. snd b < 18 \<and> fst b \<in> set (fl (snd b))}"

definition hinv :: "heap \<Rightarrow> flists \<Rightarrow> block set \<Rightarrow> block set \<Rightarrow> block set \<Rightarrow> bool" where
  "hinv st fl U L E \<longleftrightarrow> pool_ok st \<and> buckets_ok st fl \<and> tiling (free_blocks fl \<union> U \<union> L)
     \<and> free_blocks fl \<inter> U = {} \<and> free_blocks fl \<inter> L = {} \<and> U \<inter> L = {}
     \<and> (\<forall>b \<in> free_blocks fl - E. pb st (last_byte b) = of_nat (snd b))
     \<and> (\<forall>b \<in> U. pb st (last_byte b) = USED \<and> pb st (fst b) = of_nat (snd b))"

text \<open>The bytes of the used blocks, which no operation may change.\<close>

definition keeps :: "block set \<Rightarrow> heap \<Rightarrow> heap \<Rightarrow> bool" where
  "keeps U st st' \<longleftrightarrow> (\<forall>b \<in> U. \<forall>y \<in> bytes_of b. pb st' y = pb st y)"

lemma keeps_refl [simp]: "keeps U st st"
  by (simp add: keeps_def)

lemma keeps_trans: "keeps U st st' \<Longrightarrow> keeps U st' st'' \<Longrightarrow> keeps U st st''"
  by (simp add: keeps_def)

lemma keeps_mono: "keeps U st st' \<Longrightarrow> V \<subseteq> U \<Longrightarrow> keeps V st st'"
  by (auto simp: keeps_def)

section \<open>Offsets of blocks\<close>

lemma valid_offset: "valid_block b \<Longrightarrow> 32 dvd fst b \<and> fst b < pool_size"
  using bsize_dvd [of 0 "snd b"] bsize_ge_32 [of "snd b"]
  by (auto simp: valid_block_def bsize_def [of 0] intro: dvd_trans)

lemma valid_last: "valid_block b \<Longrightarrow> last_byte b < pool_size \<and> last_byte b \<in> bytes_of b"
  using bsize_ge_32 [of "snd b"] bytes_of_nonempty(2) [of b]
  by (auto simp: valid_block_def last_byte_def)

lemma bytes_in_pool: "valid_block b \<Longrightarrow> y \<in> bytes_of b \<Longrightarrow> y < pool_size"
  by (auto simp: valid_block_def bytes_of_def)

lemma last_not_in_node:
  assumes "valid_block b" and "\<And>p. p \<in> S \<Longrightarrow> 32 dvd p"
  shows "\<not> in_node S (last_byte b)"
proof
  assume "in_node S (last_byte b)"
  then obtain p where p: "p \<in> S" "p \<le> last_byte b" "last_byte b < p + 16" by (auto simp: in_node_def)
  have "32 dvd fst b + bsize (snd b)"
    using assms(1) valid_offset [OF assms(1)] bsize_dvd [of 0 "snd b"] by (simp add: bsize_def [of 0])
  then obtain q where "fst b + bsize (snd b) = 32 * q" by (auto simp: dvd_def)
  then have "last_byte b + 1 = 32 * q" using bsize_ge_32 [of "snd b"] by (simp add: last_byte_def)
  moreover obtain r where "p = 32 * r" using assms(2) [OF p(1)] by (auto simp: dvd_def)
  ultimately show False using p(2,3) by presburger
qed

text \<open>A byte of a block is in no list node of another block.\<close>

lemma byte_not_in_node:
  assumes "tiling T" and "b \<in> T" and "y \<in> bytes_of b"
    and "\<And>p. p \<in> S \<Longrightarrow> \<exists>k. (p, k) \<in> T \<and> (p, k) \<noteq> b"
  shows "\<not> in_node S y"
proof
  assume "in_node S y"
  then obtain p where p: "p \<in> S" "p \<le> y" "y < p + 16" by (auto simp: in_node_def)
  obtain k where k: "(p, k) \<in> T" "(p, k) \<noteq> b" using assms(4) [OF p(1)] by auto
  have "y \<in> bytes_of (p, k)" using p bsize_ge_32 [of k] by (simp add: bytes_of_def)
  then show False using tiling_unique [OF assms(1) k(1) assms(2) _ assms(3)] k(2) by simp
qed

section \<open>Free blocks\<close>

lemma free_blocks_del:
  assumes "buckets_ok st fl" and "k < 18" and "x \<in> set (fl k)"
  shows "free_blocks (fl(k := remove1 x (fl k))) = free_blocks fl - {(x, k)}"
  using buckets_distinct [OF assms(1,2)] assms(2)
  by (auto simp: free_blocks_def prod_eq_iff split: if_splits)

lemma free_blocks_put: "k < 18 \<Longrightarrow> free_blocks (fl(k := x # fl k)) = insert (x, k) (free_blocks fl)"
  by (auto simp: free_blocks_def prod_eq_iff)

lemma free_block_iff: "(x, k) \<in> free_blocks fl \<longleftrightarrow> k < 18 \<and> x \<in> set (fl k)"
  by (simp add: free_blocks_def)

lemma hinv_valid: "hinv st fl U L E \<Longrightarrow> b \<in> free_blocks fl \<union> U \<union> L \<Longrightarrow> valid_block b"
  unfolding hinv_def using tiling_valid by blast

lemma hinv_fresh:
  assumes inv: "hinv st fl U L E" and b: "(x, j) \<in> U \<union> L"
  shows "fresh_block fl x"
proof -
  have v: "valid_block (x, j)" using hinv_valid [OF inv] b by blast
  have "x \<notin> set (fl k)" if k: "k < 18" for k
  proof
    assume "x \<in> set (fl k)"
    then have f: "(x, k) \<in> free_blocks fl" using k by (simp add: free_block_iff)
    have "tiling (free_blocks fl \<union> U \<union> L)" using inv by (simp add: hinv_def)
    from tiling_unique [OF this, of "(x, k)" "(x, j)" x] have "(x, k) = (x, j)"
      using f b bytes_of_nonempty(1) [of "(x, k)"] bytes_of_nonempty(1) [of "(x, j)"] by simp
    then show False using f b inv unfolding hinv_def by blast
  qed
  then show ?thesis using valid_offset [OF v] by (simp add: fresh_block_def)
qed

text \<open>Bytes of blocks outside the buckets are in no list node.\<close>

lemma other_byte_not_in_node:
  assumes inv: "hinv st fl U L E" and b: "b \<in> U \<union> L" and y: "y \<in> bytes_of b" and k: "k < 18"
  shows "\<not> in_node (set (fl k)) y"
proof (rule byte_not_in_node)
  show "tiling (free_blocks fl \<union> U \<union> L)" using inv by (simp add: hinv_def)
  show "\<exists>k. (p, k) \<in> free_blocks fl \<union> U \<union> L \<and> (p, k) \<noteq> b" if "p \<in> set (fl k)" for p
  proof -
    have "(p, k) \<in> free_blocks fl" using that k by (simp add: free_block_iff)
    then show ?thesis using b inv unfolding hinv_def by blast
  qed
qed (use b y in auto)

lemma free_offsets_dvd: "hinv st fl U L E \<Longrightarrow> k < 18 \<Longrightarrow> p \<in> set (fl k) \<Longrightarrow> 32 dvd p"
  unfolding hinv_def using flists_in(1) buckets_flists by blast


section \<open>Primitive steps\<close>

text \<open>Steps that only change how blocks in limbo are accounted for.\<close>

lemma hinv_unuse:
  assumes "hinv st fl U L E" and "b \<in> U"
  shows "hinv st fl (U - {b}) (insert b L) E"
proof -
  have "free_blocks fl \<union> (U - {b}) \<union> insert b L = free_blocks fl \<union> U \<union> L" using assms(2) by blast
  then show ?thesis using assms unfolding hinv_def by auto
qed

lemma hinv_use:
  assumes "hinv st fl U L E" and "b \<in> L" and "pb st (last_byte b) = USED"
    and "pb st (fst b) = of_nat (snd b)"
  shows "hinv st fl (insert b U) (L - {b}) E"
proof -
  have "free_blocks fl \<union> insert b U \<union> (L - {b}) = free_blocks fl \<union> U \<union> L" using assms(2) by blast
  then show ?thesis using assms unfolding hinv_def by auto
qed

lemma hinv_split:
  assumes inv: "hinv st fl U L E" and b: "(p, Suc k) \<in> L"
  shows "hinv st fl U (L - {(p, Suc k)} \<union> {(p, k), (p + bsize k, k)}) E"
proof -
  let ?T = "free_blocks fl \<union> U \<union> L"
  have T: "tiling ?T" "(p, Suc k) \<in> ?T" using inv b by (simp_all add: hinv_def)
  note h = halves [OF tiling_valid [OF T]]
  have "bytes_of c \<inter> bytes_of (p, Suc k) = {}" if "c \<in> free_blocks fl \<union> U" for c
    using tiling_disjoint [OF T(1), of c "(p, Suc k)"] that b inv unfolding hinv_def by blast
  then have disj: "{(p, k), (p + bsize k, k)} \<inter> (free_blocks fl \<union> U) = {}"
    using h(3) bytes_of_nonempty(1) by fast
  have eq: "free_blocks fl \<union> U \<union> (L - {(p, Suc k)} \<union> {(p, k), (p + bsize k, k)})
      = ?T - {(p, Suc k)} \<union> {(p, k), (p + bsize k, k)}"
    using b inv unfolding hinv_def by blast
  show ?thesis
    using inv tiling_split [OF T] disj unfolding hinv_def eq by auto
qed

lemma hinv_merge:
  assumes inv: "hinv st fl U L E" and b: "b \<in> L" "buddy b \<in> L" and k: "snd b < 17"
  shows "hinv st fl U (L - {b, buddy b} \<union> {parent b}) E"
proof -
  let ?T = "free_blocks fl \<union> U \<union> L"
  have T: "tiling ?T" "b \<in> ?T" "buddy b \<in> ?T" using inv b by (simp_all add: hinv_def)
  note h = parent_bytes [OF tiling_valid [OF T(1,2)] k]
  have "bytes_of c \<inter> bytes_of (parent b) = {}" if "c \<in> free_blocks fl \<union> U" for c
    using tiling_disjoint [OF T(1), of c b] tiling_disjoint [OF T(1), of c "buddy b"] that b inv
    unfolding hinv_def h(3) by blast
  then have disj: "parent b \<notin> free_blocks fl \<union> U"
    using bytes_of_nonempty(1) by fast
  have eq: "free_blocks fl \<union> U \<union> (L - {b, buddy b} \<union> {parent b}) = ?T - {b, buddy b} \<union> {parent b}"
    using b inv unfolding hinv_def by blast
  show ?thesis
    using inv tiling_merge [OF T k] disj unfolding hinv_def eq by auto
qed

text \<open>Writing a byte of a block in limbo.\<close>

lemma hinv_poke:
  assumes inv: "hinv st fl U L E" and b: "b \<in> L" and y: "y \<in> bytes_of b"
  shows "hinv (poke st y v) fl U L E" and "keeps U st (poke st y v)"
proof -
  let ?T = "free_blocks fl \<union> U \<union> L"
  have T: "tiling ?T" using inv by (simp add: hinv_def)
  have vb: "valid_block b" using hinv_valid [OF inv] b by blast
  have yp: "y < pool_size" using bytes_in_pool [OF vb y] .
  have same: "pb (poke st y v) z = pb st z" if c: "c \<in> free_blocks fl \<union> U" "z \<in> bytes_of c" for c z
  proof -
    have "c \<noteq> b" using c b inv unfolding hinv_def by blast
    then have "z \<noteq> y" using tiling_unique [OF T, of c b z] c b y by blast
    moreover have "z < pool_size" using bytes_in_pool [of c] hinv_valid [OF inv, of c] c by blast
    ultimately show ?thesis using yp by (simp add: pb_poke)
  qed
  show "keeps U st (poke st y v)" unfolding keeps_def using same by blast
  have "buckets_ok (poke st y v) fl"
    using inv other_byte_not_in_node [OF inv _ y] b yp unfolding hinv_def
    by (intro poke_buckets) auto
  moreover have "pb (poke st y v) (last_byte c) = pb st (last_byte c)"
      "pb (poke st y v) (fst c) = pb st (fst c)" if c: "c \<in> free_blocks fl \<union> U" for c
    using same [OF c] valid_last [of c] bytes_of_nonempty(1) [of c] hinv_valid [OF inv, of c] c by auto
  ultimately show "hinv (poke st y v) fl U L E"
    using inv unfolding hinv_def by auto
qed

text \<open>Taking a block out of its bucket.\<close>

lemma hinv_del:
  assumes inv: "hinv st fl U L E" and k: "k < 18" and x: "x \<in> set (fl k)"
  shows "hinv (del_block st k x) (fl(k := remove1 x (fl k))) U (insert (x, k) L) E"
    and "keeps U st (del_block st k x)"
    and "b \<in> free_blocks fl \<union> U \<union> L \<Longrightarrow> pb (del_block st k x) (last_byte b) = pb st (last_byte b)"
proof -
  let ?st = "del_block st k x" and ?fl = "fl(k := remove1 x (fl k))"
  have ok: "pool_ok st" and bk: "buckets_ok st fl" using inv by (simp_all add: hinv_def)
  note fb = free_blocks_del [OF bk k x]
  have xk: "(x, k) \<in> free_blocks fl" using k x by (simp add: free_block_iff)
  have same: "pb ?st y = pb st y" if "c \<in> U" "y \<in> bytes_of c" for c y
    using del_block_pb [OF ok bk k x] other_byte_not_in_node [OF inv _ that(2) k] that(1)
      bytes_in_pool [of c y] hinv_valid [OF inv, of c] that by blast
  show last: "pb ?st (last_byte b) = pb st (last_byte b)" if "b \<in> free_blocks fl \<union> U \<union> L" for b
    using del_block_pb [OF ok bk k x] last_not_in_node [of b "set (fl k)"] hinv_valid [OF inv that]
      valid_last [of b] free_offsets_dvd [OF inv k] by blast
  show "keeps U st ?st" unfolding keeps_def using same by blast
  have "free_blocks ?fl \<union> U \<union> insert (x, k) L = free_blocks fl \<union> U \<union> L"
    using fb xk by blast
  moreover have "pb ?st (fst c) = pb st (fst c)" if "c \<in> U" for c
    using same [OF that bytes_of_nonempty(1)] .
  ultimately show "hinv ?st ?fl U (insert (x, k) L) E"
    using inv del_block_buckets [OF ok bk k x] last fb xk unfolding hinv_def by auto
qed

text \<open>Putting a block into its bucket, before or after its postamble is written.\<close>

lemma hinv_put:
  assumes inv: "hinv st fl U L E" and xk: "(x, k) \<in> L"
  shows "hinv (put_block st k x) (fl(k := x # fl k)) U (L - {(x, k)}) (insert (x, k) E)"
    and "keeps U st (put_block st k x)"
    and "b \<in> free_blocks fl \<union> U \<union> L \<Longrightarrow> pb (put_block st k x) (last_byte b) = pb st (last_byte b)"
proof -
  let ?st = "put_block st k x" and ?fl = "fl(k := x # fl k)"
  have ok: "pool_ok st" and bk: "buckets_ok st fl" and T: "tiling (free_blocks fl \<union> U \<union> L)"
    using inv by (simp_all add: hinv_def)
  have v: "valid_block (x, k)" using hinv_valid [OF inv, of "(x, k)"] xk by blast
  then have k: "k < 18" by (simp add: valid_block_def)
  have xp: "x < pool_size" "32 dvd x" using valid_offset [OF v] by auto
  note fb = free_blocks_put [OF k, of fl x]
  have out: "\<not> in_node (insert x (set (fl k))) y" if "c \<in> U" "y \<in> bytes_of c" for c y
  proof (rule byte_not_in_node [OF T _ that(2)])
    show "c \<in> free_blocks fl \<union> U \<union> L" using that by simp
    show "\<exists>j. (p, j) \<in> free_blocks fl \<union> U \<union> L \<and> (p, j) \<noteq> c" if p: "p \<in> insert x (set (fl k))" for p
    proof -
      have "(p, k) \<in> free_blocks fl \<union> L" using p xk k by (auto simp: free_block_iff)
      then show ?thesis using \<open>c \<in> U\<close> inv unfolding hinv_def by blast
    qed
  qed
  have same: "pb ?st y = pb st y" if "c \<in> U" "y \<in> bytes_of c" for c y
    using put_block_pb [OF ok bk k xp(1)] out [OF that] bytes_in_pool [of c y] hinv_valid [OF inv, of c] that
    by blast
  show last: "pb ?st (last_byte b) = pb st (last_byte b)" if "b \<in> free_blocks fl \<union> U \<union> L" for b
  proof -
    have "\<not> in_node (insert x (set (fl k))) (last_byte b)"
      by (rule last_not_in_node [OF hinv_valid [OF inv that]])
         (use xp free_offsets_dvd [OF inv k] in auto)
    then show ?thesis
      using put_block_pb [OF ok bk k xp(1)] valid_last [OF hinv_valid [OF inv that]] by blast
  qed
  show "keeps U st ?st" unfolding keeps_def using same by blast
  have "free_blocks ?fl \<union> U \<union> (L - {(x, k)}) = free_blocks fl \<union> U \<union> L"
    unfolding fb using xk by blast
  moreover have "pb ?st (fst c) = pb st (fst c)" if "c \<in> U" for c
    using same [OF that bytes_of_nonempty(1)] .
  moreover have "buckets_ok ?st ?fl"
    using put_block_buckets [OF ok bk k] hinv_fresh [OF inv] xk by blast
  ultimately show "hinv ?st ?fl U (L - {(x, k)}) (insert (x, k) E)"
    using inv last fb xk unfolding hinv_def by auto
qed

text \<open>The postamble of a block is in place.\<close>

lemma hinv_posted:
  assumes "hinv st fl U L (insert b E)" and "pb st (last_byte b) = of_nat (snd b)"
  shows "hinv st fl U L E"
  using assms unfolding hinv_def by auto

text \<open>Writing the postamble of a free block.\<close>

lemma hinv_post:
  assumes inv: "hinv st fl U L (insert b E)" and b: "b \<in> free_blocks fl"
  shows "hinv (poke st (last_byte b) (of_nat (snd b))) fl U L E"
    and "keeps U st (poke st (last_byte b) (of_nat (snd b)))"
proof -
  let ?st = "poke st (last_byte b) (of_nat (snd b))"
  have ok: "pool_ok st" and bk: "buckets_ok st fl" and T: "tiling (free_blocks fl \<union> U \<union> L)"
    using inv by (simp_all add: hinv_def)
  have vb: "valid_block b" using hinv_valid [OF inv] b by blast
  note lb = valid_last [OF vb]
  have same: "pb ?st z = pb st z" if c: "c \<in> free_blocks fl \<union> U" "c \<noteq> b" "z \<in> bytes_of c" for c z
  proof -
    have "z \<noteq> last_byte b" using tiling_unique [OF T, of c b z] c b lb by blast
    moreover have "z < pool_size" using bytes_in_pool [of c] hinv_valid [OF inv, of c] c by blast
    ultimately show ?thesis using lb by (simp add: pb_poke)
  qed
  have used: "c \<noteq> b" if "c \<in> U" for c using that b inv unfolding hinv_def by blast
  show "keeps U st ?st" unfolding keeps_def using same used by blast
  have "buckets_ok ?st fl"
    using last_not_in_node [OF vb] free_offsets_dvd [OF inv] lb by (intro poke_buckets [OF ok bk]) blast+
  moreover have oth: "pb ?st (last_byte c) = pb st (last_byte c)" "pb ?st (fst c) = pb st (fst c)"
    if c: "c \<in> free_blocks fl \<union> U" "c \<noteq> b" for c
    using same [OF c] valid_last [of c] bytes_of_nonempty(1) [of c] hinv_valid [OF inv, of c] c by auto
  moreover have "pb ?st (last_byte c) = of_nat (snd c)" if c: "c \<in> free_blocks fl - E" for c
  proof (cases "c = b")
    case True
    then show ?thesis using lb by (simp add: pb_poke)
  next
    case False
    then show ?thesis using oth(1) [of c] c inv unfolding hinv_def by auto
  qed
  ultimately show "hinv ?st fl U L E"
    using inv used unfolding hinv_def by auto
qed

end
