(* ===== verification/Malloc_Correct.thy ===== *)
theory Malloc_Correct
  imports Malloc_Invariant
begin

text \<open>
  Correctness of \<open>malloc\<close> and \<open>free\<close>: the functions of \<^verbatim>\<open>kernel/mm/malloc.c\<close> are sequences of
  the primitive steps of the invariant, so they keep it and every byte of the used blocks.
\<close>

section \<open>Subscripts and addresses\<close>

lemma u8_index: "k < 18 \<Longrightarrow> unat (of_nat k :: u8) = k"
  by (rule unat_of_nat_small) simp

lemma u8_ucast: "k < 18 \<Longrightarrow> (ucast (of_nat k :: u8) :: u64) = of_nat k"
  by (rule word_unat_eq_iff [THEN iffD2]) (simp add: unat_ucast_up u8_index unat_of_nat_small)

lemma u8_ucast_index: "k < 18 \<Longrightarrow> unat (ucast (of_nat k :: u8) :: u64) = k"
  by (simp add: unat_ucast_up u8_index)

lemma u8_eq: "j < 18 \<Longrightarrow> k < 18 \<Longrightarrow> (of_nat j :: u8) = of_nat k \<longleftrightarrow> j = k"
  using u8_index by metis

lemma bucket_ptr_head: "k < 18 \<Longrightarrow> bucket_ptr st (of_nat k) = head st k"
  by (simp add: bucket_ptr_def head_def u8_ucast)

lemma bucket_size_eq: "pool_ok st \<Longrightarrow> k < 18 \<Longrightarrow> bucket_size st (of_nat k) = Inr (of_nat (bsize k))"
  unfolding bucket_size_def by (subst tget_in) (auto simp: u8_ucast_index pool_ok_def)

lemma bucket_count_eq: "pool_ok st \<Longrightarrow> k < 18 \<Longrightarrow> bucket_count st (of_nat k) = Inr (b_count st ! k)"
  unfolding bucket_count_def by (subst tget_in) (auto simp: u8_ucast_index pool_ok_def)

lemma add_count_eq:
  "pool_ok st \<Longrightarrow> k < 18 \<Longrightarrow>
     add_count st (of_nat k) d = Inr (st\<lparr>b_count := (b_count st)[k := b_count st ! k + d]\<rparr>)"
  unfolding add_count_def by (simp add: tget_in tset_in u8_ucast_index pool_ok_def)

lemma baddr_add: "baddr x + of_nat n = baddr (x + n)"
  by (simp add: baddr_def)

lemma baddr_sub_1: "0 < x \<Longrightarrow> baddr x - 1 = baddr (x - 1)"
  by (simp add: baddr_def of_nat_diff)

lemma size_ucast: "k < 18 \<Longrightarrow> (ucast (of_nat (bsize k) :: u32) :: u64) = of_nat (bsize k)"
proof (rule word_unat_eq_iff [THEN iffD2])
  assume "k < 18"
  then have "bsize k \<le> 4194304" using bsize_le_pool [of k] by (simp add: pool_size_def)
  then show "unat (ucast (of_nat (bsize k) :: u32) :: u64) = unat (of_nat (bsize k) :: u64)"
    by (simp add: unat_ucast_up unat_of_nat_small)
qed

lemma last_byte_addr: "k < 18 \<Longrightarrow> baddr x + ucast (of_nat (bsize k) :: u32) - 1 = baddr (last_byte (x, k))"
  using bsize_ge_32 [of k] by (simp add: size_ucast baddr_add last_byte_def baddr_sub_1)

lemma baddr_less: "x < pool_size \<Longrightarrow> y < pool_size \<Longrightarrow> baddr x < baddr y \<longleftrightarrow> x < y"
  by (simp add: word_less_nat_alt unat_baddr)

lemma xor_bsize: "of_nat (q * bsize k) XOR (of_nat (bsize k) :: u64)
    = of_nat ((if even q then q + 1 else q - 1) * bsize k)"
proof -
  have "q * bsize k XOR bsize k = (q XOR 1) * bsize k"
    using push_bit_xor [of "k + 5" q 1] by (simp add: bsize_def push_bit_eq_mult)
  moreover have "q XOR 1 = (if even q then q + 1 else q - 1)"
    by (simp add: xor_Suc_0_eq)
  ultimately have "q * bsize k XOR bsize k = (if even q then q + 1 else q - 1) * bsize k" by simp
  then show ?thesis by (simp only: of_nat_xor_eq [symmetric])
qed


lemma buddy_of_eq:
  assumes "mem_base st = MALLOC_BASE" and "valid_block (x, k)"
  shows "buddy_of st (baddr x) (of_nat (bsize k)) = baddr (fst (buddy (x, k)))"
proof -
  have k: "k < 18" using assms(2) by (simp add: valid_block_def)
  obtain q where q: "x = q * bsize k" using valid_block_multiple [OF assms(2)] by auto
  have "fst (buddy (x, k)) = (if even q then q + 1 else q - 1) * bsize k"
    using q by (auto simp: buddy_def algebra_simps)
  then have "of_nat x XOR (of_nat (bsize k) :: u64) = of_nat (fst (buddy (x, k)))"
    using xor_bsize [of q k] q by simp
  then show ?thesis
    by (simp add: buddy_of_def assms(1) size_ucast [OF k] baddr_def)
qed

section \<open>The primitive steps in the code\<close>

lemma code_poke: "upd_mem st (\<lambda>m. m(baddr x := v)) = poke st x v"
  by (simp add: upd_mem_def poke_def)

lemma code_put:
  "pool_ok st \<Longrightarrow> k < 18 \<Longrightarrow>
     add_count (upd_mem st (\<lambda>m. list_add m (baddr x) (bucket_ptr st (of_nat k)))) (of_nat k) 1
     = Inr (put_block st k x)"
  by (subst add_count_eq) (simp_all add: upd_mem_def put_block_def bucket_ptr_head pool_ok_def)

lemma code_del:
  "pool_ok st \<Longrightarrow> k < 18 \<Longrightarrow>
     add_count (upd_mem st (\<lambda>m. list_del m (baddr x))) (of_nat k) (- 1) = Inr (del_block st k x)"
  by (subst add_count_eq) (simp_all add: upd_mem_def del_block_def pool_ok_def)

lemma code_count_del:
  "upd_mem (st\<lparr>b_count := (b_count st)[k := b_count st ! k + - 1]\<rparr>) (\<lambda>m. list_del m (baddr x))
     = del_block st k x"
  by (simp add: upd_mem_def del_block_def)

section \<open>Merging\<close>

text \<open>
  The byte that \<open>buddy_try_merge\<close> tests tells whether the buddy is free as a whole: it is the last
  byte of some block of at most the same order.
\<close>

lemma buddy_free_iff:
  assumes inv: "hinv st fl U {} {}" and b: "b \<in> free_blocks fl \<union> U" and k: "snd b < 17"
  shows "pb st (last_byte (buddy b)) = of_nat (snd b) \<longleftrightarrow> buddy b \<in> free_blocks fl"
proof
  assume "buddy b \<in> free_blocks fl"
  then show "pb st (last_byte (buddy b)) = of_nat (snd b)" using inv by (auto simp: hinv_def)
next
  assume pb: "pb st (last_byte (buddy b)) = of_nat (snd b)"
  have T: "tiling (free_blocks fl \<union> U)" using inv by (simp add: hinv_def)
  obtain c where c: "c \<in> free_blocks fl \<union> U" "snd c \<le> snd b"
    "fst c + bsize (snd c) = fst (buddy b) + bsize (snd b)" "snd c = snd b \<Longrightarrow> c = buddy b"
    using tiling_buddy_end [OF T b k] by metis
  have same: "last_byte c = last_byte (buddy b)" using c(3) by (simp add: last_byte_def)
  show "buddy b \<in> free_blocks fl"
  proof (cases "c \<in> free_blocks fl")
    case True
    then have "(of_nat (snd c) :: u8) = of_nat (snd b)" using inv pb same by (auto simp: hinv_def)
    then have "snd c = snd b" using u8_eq [of "snd c" "snd b"] c(2) k by simp
    then show ?thesis using c(4) True by simp
  next
    case False
    then have "USED = of_nat (snd b)" using c(1) inv pb same by (auto simp: hinv_def)
    then have "unat USED = unat (of_nat (snd b) :: u8)" by simp
    then show ?thesis using u8_index [of "snd b"] k by (simp add: USED_def)
  qed
qed

text \<open>The part of a merge after the freed block has left its bucket.\<close>

definition join_block :: "heap \<Rightarrow> block \<Rightarrow> heap" where
  "join_block st b =
     put_block (poke (del_block st (snd b) (fst (buddy b))) (last_byte (parent b)) (of_nat (Suc (snd b))))
       (Suc (snd b)) (fst (parent b))"

definition join_lists :: "flists \<Rightarrow> block \<Rightarrow> flists" where
  "join_lists fl b =
     (let fl = fl(snd b := remove1 (fst (buddy b)) (fl (snd b)))
      in fl(Suc (snd b) := fst (parent b) # fl (Suc (snd b))))"

lemma join_block_inv:
  assumes inv: "hinv st fl U {b} {}" and bud: "buddy b \<in> free_blocks fl" and k: "snd b < 17"
  shows "hinv (join_block st b) (join_lists fl b) U {} {}" and "keeps U st (join_block st b)"
    and "free_blocks (join_lists fl b) = free_blocks fl - {buddy b} \<union> {parent b}"
proof -
  define k where "k = snd b"
  define y where "y = fst (buddy b)"
  define q where "q = fst (parent b)"
  have eqs: "snd b = k" "fst (buddy b) = y" "fst (parent b) = q" by (simp_all add: k_def y_def q_def)
  have bud': "buddy b = (y, k)" and par: "parent b = (q, Suc k)"
    by (simp_all add: k_def y_def q_def prod_eq_iff parent_def)
  have y: "y \<in> set (fl k)" "k < 18"
    using bud k by (auto simp: bud' free_block_iff eqs)
  define s1 where "s1 = del_block st k y"
  define f1 where "f1 = fl(k := remove1 y (fl k))"
  define s2 where "s2 = poke s1 (last_byte (parent b)) (of_nat (Suc k))"
  have vb: "valid_block b" using hinv_valid [OF inv] by blast
  note d = hinv_del [OF inv y(2,1), folded s1_def f1_def]
  have "hinv s1 f1 U ({(y, k), b} - {b, (y, k)} \<union> {parent b}) {}"
    using hinv_merge [OF d(1) _ _ k] unfolding bud' by simp
  then have m: "hinv s1 f1 U {parent b} {}" by simp
  have lb: "last_byte (parent b) \<in> bytes_of (parent b)" "last_byte (parent b) < pool_size"
    using valid_last [OF parent_bytes(1) [OF vb k]] by auto
  note p = hinv_poke [OF m _ lb(1), of "of_nat (Suc k)", folded s2_def]
  have p2: "hinv s2 f1 U {(q, Suc k)} {}" "keeps U s1 s2" using p par by simp_all
  note t = hinv_put [OF p2(1), of q "Suc k"]
  have st': "join_block st b = put_block s2 (Suc k) q"
    by (simp only: join_block_def eqs s1_def s2_def)
  have fl': "join_lists fl b = f1(Suc k := q # f1 (Suc k))"
    by (simp only: join_lists_def Let_def eqs f1_def)
  have "pb s2 (last_byte (q, Suc k)) = of_nat (Suc k)"
    using lb(2) unfolding s2_def par by (simp add: pb_poke del: of_nat_Suc)
  then have post: "pb (put_block s2 (Suc k) q) (last_byte (q, Suc k)) = of_nat (snd (q, Suc k))"
    using t(3) [of "(q, Suc k)"] by simp
  have "hinv (put_block s2 (Suc k) q) (f1(Suc k := q # f1 (Suc k))) U {} (insert (q, Suc k) {})"
    using t(1) unfolding Diff_cancel by blast
  then show "hinv (join_block st b) (join_lists fl b) U {} {}"
    unfolding st' fl' using post by (rule hinv_posted)
  show "keeps U st (join_block st b)"
    unfolding st' using keeps_trans [OF keeps_trans [OF d(2) p2(2)] t(2)] by simp
  have bk: "buckets_ok st fl" using inv by (simp add: hinv_def)
  have "free_blocks f1 = free_blocks fl - {(y, k)}"
    unfolding f1_def by (rule free_blocks_del [where st = st]) (fact bk y)+
  then show "free_blocks (join_lists fl b) = free_blocks fl - {buddy b} \<union> {parent b}"
    using free_blocks_put [of "Suc k" f1 q] k eqs(1) unfolding fl' bud' par by simp
qed

text \<open>\<open>merge_step\<close>, first with the freed block still used, then with it in its bucket.\<close>

lemma merge_tail_eq:
  assumes ok: "pool_ok st" and vb: "valid_block b" and k: "snd b < 17"
  shows "rbind (add_count st (of_nat (snd b)) (- 1)) (\<lambda>st.
       let st = upd_mem st (\<lambda>m. list_del m (baddr (fst (buddy b))));
           entry = of_nat (snd b) + 1;
           merged = (if baddr (fst b) < baddr (fst (buddy b)) then baddr (fst b) else baddr (fst (buddy b)))
       in rbind (bucket_size st entry) (\<lambda>sz.
          let st = upd_mem st (\<lambda>m. m(merged + ucast sz - 1 := entry));
              st = upd_mem st (\<lambda>m. list_add m merged (bucket_ptr st entry))
          in rbind (add_count st entry 1) (\<lambda>st. Inr (merged, st))))
    = Inr (baddr (fst (parent b)), join_block st b)"
proof -
  define k where "k = snd b"
  define q where "q = fst (parent b)"
  have k18: "k < 18" "Suc k < 18" using k by (simp_all add: k_def)
  have entry: "of_nat (snd b) + 1 = (of_nat (Suc k) :: u8)" by (simp add: k_def)
  have pool: "fst b < pool_size" "fst (buddy b) < pool_size"
    using valid_offset [OF vb] valid_offset [OF parent_bytes(2) [OF vb k]] by auto
  have merged: "(if baddr (fst b) < baddr (fst (buddy b)) then baddr (fst b) else baddr (fst (buddy b)))
      = baddr q"
    using pool by (auto simp: q_def baddr_less parent_def min_def)
  have par: "last_byte (q, Suc k) = last_byte (parent b)" by (simp add: parent_def q_def k_def)
  have kb: "snd b = k" "fst (parent b) = q" by (simp_all add: k_def q_def)
  define s1 where "s1 = del_block st k (fst (buddy b))"
  define s2 where "s2 = poke s1 (last_byte (parent b)) (of_nat (Suc k))"
  have ok1: "pool_ok s1" "pool_ok s2" using ok by (simp_all add: s1_def s2_def)
  show ?thesis
    unfolding entry merged Let_def join_block_def unfolding kb
    by (simp only: add_count_eq [OF ok k18(1)] rbind.simps code_count_del s1_def [symmetric]
        bucket_size_eq [OF ok1(1) k18(2)] last_byte_addr [OF k18(2)] par code_poke s2_def [symmetric]
        code_put [OF ok1(2) k18(2)])
qed

lemma merge_step_used:
  assumes "pool_ok st" and "valid_block b" and "snd b < 17"
  shows "merge_step st (baddr (fst b)) (baddr (fst (buddy b))) (of_nat (snd b)) 0
    = Inr (baddr (fst (parent b)), join_block st b)"
  using merge_tail_eq [OF assms] by (simp only: merge_step_def rbind.simps less_irrefl if_False)

lemma merge_step_free:
  assumes "pool_ok st" and "valid_block b" and "snd b < 17" and "0 < mc"
  shows "merge_step st (baddr (fst b)) (baddr (fst (buddy b))) (of_nat (snd b)) mc
    = Inr (baddr (fst (parent b)), join_block (del_block st (snd b) (fst b)) b)"
proof -
  have k: "snd b < 18" using assms(3) by simp
  have ok: "pool_ok (del_block st (snd b) (fst b))" using assms(1) by simp
  show ?thesis
    unfolding merge_step_def using merge_tail_eq [OF ok assms(2,3)] assms(4)
    by (simp only: add_count_eq [OF assms(1) k] rbind.simps if_True code_count_del)
qed


text \<open>One round of the merging loop.\<close>

lemma buddy_limit: "(of_nat k :: u8) < of_nat (BUDDY_ENTRIES - 1) \<longleftrightarrow> k < 17" if "k < 18"
  using u8_index [OF that]
  by (simp add: word_less_nat_alt BUDDY_ENTRIES_def BUDDY_MAX_ORDER_def BUDDY_MIN_ORDER_def)

lemma merge_loop_round:
  assumes inv: "hinv st fl U {} {}" and b: "(x, k) \<in> free_blocks fl \<union> U" and k: "k < 17"
  shows "merge_loop st (baddr x) (of_nat k) mc =
    (if buddy (x, k) \<in> free_blocks fl
     then rbind (merge_step st (baddr x) (baddr (fst (buddy (x, k)))) (of_nat k) mc) (\<lambda>(merged, st).
            merge_loop st merged (of_nat (Suc k)) (mc + 1))
     else Inr (mc, st))"
proof -
  have v: "valid_block (x, k)" using hinv_valid [OF inv] b by blast
  have k18: "k < 18" using k by simp
  have ok: "pool_ok st" using inv by (simp add: hinv_def)
  have base: "mem_base st = MALLOC_BASE" using ok by (simp add: pool_ok_def)
  have last: "h_mem st (baddr (fst (buddy (x, k))) + ucast (of_nat (bsize k) :: u32) - 1)
      = pb st (last_byte (buddy (x, k)))"
    using last_byte_addr [OF k18, of "fst (buddy (x, k))"] by (simp add: pb_def buddy_def)
  have "free": "pb st (last_byte (buddy (x, k))) = of_nat k \<longleftrightarrow> buddy (x, k) \<in> free_blocks fl"
    using buddy_free_iff [OF inv b] k by simp
  have entry: "of_nat k + 1 = (of_nat (Suc k) :: u8)" by simp
  have lim: "(of_nat k :: u8) < of_nat (BUDDY_ENTRIES - 1)" using buddy_limit [OF k18] k by blast
  show ?thesis
    unfolding merge_loop.simps [of st "baddr x" "of_nat k" mc]
    by (simp only: lim if_True bucket_size_eq [OF ok k18] rbind.simps Let_def buddy_of_eq [OF base v]
        last "free" entry)
qed

lemma merge_loop_top: "merge_loop st (baddr x) (of_nat 17) mc = Inr (mc, st)"
  using buddy_limit [of 17] by (subst merge_loop.simps) simp

text \<open>The merging loop once the block is in its bucket.\<close>

lemma merge_loop_free:
  assumes "hinv st fl U {} {}" and "(x, k) \<in> free_blocks fl" and "0 < unat mc" and "unat mc \<le> k"
    and "coalesced (free_blocks fl - {(x, k)})"
  shows "\<exists>mc' st' fl'. merge_loop st (baddr x) (of_nat k) mc = Inr (mc', st') \<and> mc' \<noteq> 0
    \<and> hinv st' fl' U {} {} \<and> keeps U st st' \<and> coalesced (free_blocks fl')"
  using assms
proof (induction "17 - k" arbitrary: st fl x k mc)
  case 0
  have v: "valid_block (x, k)" using hinv_valid [OF "0.prems"(1)] "0.prems"(2) by blast
  then have k: "k = 17" using "0.hyps" by (simp add: valid_block_def)
  have "coalesced (insert (x, k) (free_blocks fl - {(x, k)}))"
    by (rule coalesced_insert [OF "0.prems"(5) v])
       (use k hinv_valid [OF "0.prems"(1)] in auto)
  then have "coalesced (free_blocks fl)" using "0.prems"(2) by (simp add: insert_absorb)
  moreover have "mc \<noteq> 0" using "0.prems"(3) by auto
  ultimately show ?case
    using "0.prems"(1) merge_loop_top [of st x mc] k by auto
next
  case (Suc n)
  let ?b = "(x, k)"
  have inv: "hinv st fl U {} {}" and b: "?b \<in> free_blocks fl" using Suc.prems by auto
  have v: "valid_block ?b" using hinv_valid [OF inv] b by blast
  have k: "k < 17" "k < 18" using Suc.hyps(2) by auto
  have ok: "pool_ok st" using inv by (simp add: hinv_def)
  have mc: "mc \<noteq> 0" "0 < mc" using Suc.prems(3) by (auto simp: word_pos_iff)
  have step: "merge_loop st (baddr x) (of_nat k) mc =
      (if buddy ?b \<in> free_blocks fl
       then merge_loop (join_block (del_block st k x) ?b) (baddr (fst (parent ?b))) (of_nat (Suc k)) (mc + 1)
       else Inr (mc, st))"
    using merge_step_free [OF ok v _ mc(2)] k(1) b
    by (simp only: merge_loop_round [OF inv UnI1 [OF b] k(1)] fst_conv snd_conv rbind.simps prod.case)
  show ?case
  proof (cases "buddy ?b \<in> free_blocks fl")
    case False
    have "coalesced (insert ?b (free_blocks fl - {?b}))"
      by (rule coalesced_insert [OF Suc.prems(5) v]) (use False hinv_valid [OF inv] in auto)
    then have "coalesced (free_blocks fl)" using b by (simp add: insert_absorb)
    then show ?thesis using False step inv mc(1) by auto
  next
    case True
    let ?s = "del_block st k x" and ?f = "fl(k := remove1 x (fl k))"
    have x: "x \<in> set (fl k)" using b by (simp add: free_block_iff)
    have bk: "buckets_ok st fl" using inv by (simp add: hinv_def)
    note d = hinv_del [OF inv k(2) x]
    have fd: "free_blocks ?f = free_blocks fl - {?b}" by (rule free_blocks_del [where st = st, OF bk k(2) x])
    have k': "snd ?b < 17" using k by simp
    have "buddy ?b \<noteq> ?b" using buddy_ne [OF v k'] by metis
    then have bud: "buddy ?b \<in> free_blocks ?f" unfolding fd using True by blast
    note j = join_block_inv [OF d(1) bud k']
    have par: "parent ?b = (fst (parent ?b), Suc k)" by (simp add: parent_def)
    have mc': "unat (mc + 1) = Suc (unat mc)"
      using Suc.prems(4) k by (subst unat_add_small) simp_all
    obtain mc'' st' fl' where r: "merge_loop (join_block ?s ?b) (baddr (fst (parent ?b))) (of_nat (Suc k)) (mc + 1)
          = Inr (mc'', st')" "mc'' \<noteq> 0" "hinv st' fl' U {} {}" "keeps U (join_block ?s ?b) st'"
        "coalesced (free_blocks fl')"
    proof (rule exE [OF Suc.hyps(1) [OF _ j(1), of "Suc k" "fst (parent ?b)" "mc + 1"]])
      show "n = 17 - Suc k" using Suc.hyps(2) by simp
      show "(fst (parent ?b), Suc k) \<in> free_blocks (join_lists ?f ?b)"
        unfolding j(3) using par by (metis UnI2 singletonI)
      show "0 < unat (mc + 1)" "unat (mc + 1) \<le> Suc k" using mc' Suc.prems(4) by simp_all
      show "coalesced (free_blocks (join_lists ?f ?b) - {(fst (parent ?b), Suc k)})"
        using Suc.prems(5) unfolding j(3) fd par [symmetric] by (rule coalesced_mono) auto
    qed auto
    have "keeps U st st'" using keeps_trans [OF keeps_trans [OF d(2) j(2)] r(4)] .
    then show ?thesis using r True step by auto
  qed
qed

lemma buddy_try_merge_cases:
  assumes inv: "hinv st fl U {} {}" and b: "(x, k) \<in> U" and co: "coalesced (free_blocks fl)"
  shows "buddy_try_merge st (baddr x) (of_nat k) = Inr (0, st) \<and> (k < 17 \<longrightarrow> buddy (x, k) \<notin> free_blocks fl)
    \<or> (\<exists>mc st' fl'. buddy_try_merge st (baddr x) (of_nat k) = Inr (mc, st') \<and> mc \<noteq> 0
        \<and> hinv st' fl' (U - {(x, k)}) {} {} \<and> keeps (U - {(x, k)}) st st' \<and> coalesced (free_blocks fl'))"
proof -
  let ?b = "(x, k)" and ?V = "U - {(x, k)}"
  have v: "valid_block ?b" using hinv_valid [OF inv] b by blast
  have k: "k < 18" using v by (simp add: valid_block_def)
  have ok: "pool_ok st" and bk: "buckets_ok st fl" using inv by (simp_all add: hinv_def)
  have cnt: "b_count st ! k = 0 \<longleftrightarrow> fl k = []" using buckets_count [OF bk k] by (simp add: word_unat_eq_iff)
  have bud_k: "buddy ?b \<in> free_blocks fl \<Longrightarrow> fl k \<noteq> []"
    by (auto simp: free_blocks_def)
  show ?thesis
  proof (cases "k < 17 \<and> buddy ?b \<in> free_blocks fl")
    case False
    have "merge_loop st (baddr x) (of_nat k) 0 = Inr (0, st)"
    proof (cases "k < 17")
      case True
      then show ?thesis using False merge_loop_round [OF inv UnI2 [OF b]] by simp
    next
      case False
      then have "k = 17" using k by simp
      then show ?thesis using merge_loop_top by simp
    qed
    then show ?thesis
      using False by (auto simp: buddy_try_merge_def bucket_count_eq [OF ok k])
  next
    case True
    then have k17: "k < 17" "snd ?b < 17" and bud: "buddy ?b \<in> free_blocks fl" by auto
    have limbo: "hinv st fl ?V {?b} {}" using hinv_unuse [OF inv b] by simp
    note j = join_block_inv [OF limbo bud k17(2)]
    have par: "parent ?b = (fst (parent ?b), Suc k)" by (simp add: parent_def)
    have step: "buddy_try_merge st (baddr x) (of_nat k) =
        merge_loop (join_block st ?b) (baddr (fst (parent ?b))) (of_nat (Suc k)) 1"
    proof -
      have "b_count st ! k \<noteq> 0" using cnt bud_k [OF bud] by simp
      then have "buddy_try_merge st (baddr x) (of_nat k) = merge_loop st (baddr x) (of_nat k) 0"
        by (simp add: buddy_try_merge_def bucket_count_eq [OF ok k])
      also have "\<dots> = merge_loop (join_block st ?b) (baddr (fst (parent ?b))) (of_nat (Suc k)) (0 + 1)"
        using merge_step_used [OF ok v k17(2)] bud
        by (simp only: merge_loop_round [OF inv UnI2 [OF b] k17(1)] fst_conv snd_conv rbind.simps prod.case if_True)
      finally show ?thesis by (simp only: add_0)
    qed
    have "(fst (parent ?b), Suc k) \<in> free_blocks (join_lists fl ?b)"
      unfolding j(3) using par by (metis UnI2 singletonI)
    moreover have "coalesced (free_blocks (join_lists fl ?b) - {(fst (parent ?b), Suc k)})"
      using co unfolding j(3) par [symmetric] by (rule coalesced_mono) auto
    ultimately obtain mc st' fl' where "merge_loop (join_block st ?b) (baddr (fst (parent ?b))) (of_nat (Suc k)) 1 = Inr (mc, st')"
      "mc \<noteq> 0" "hinv st' fl' ?V {} {}" "keeps ?V (join_block st ?b) st'" "coalesced (free_blocks fl')"
      using merge_loop_free [OF j(1), of "fst (parent ?b)" "Suc k" 1] by auto
    then show ?thesis using step keeps_trans [OF j(2)] by auto
  qed
qed


section \<open>Freeing\<close>

text \<open>The state between operations.\<close>

definition heap_ok :: "heap \<Rightarrow> flists \<Rightarrow> block set \<Rightarrow> bool" where
  "heap_ok st fl U \<longleftrightarrow> hinv st fl U {} {} \<and> coalesced (free_blocks fl) \<and> lock_free (mm_lock st)"

lemma lock_irrelevant [simp]:
  "pool_ok (st\<lparr>mm_lock := l\<rparr>) = pool_ok st" "head (st\<lparr>mm_lock := l\<rparr>) k = head st k"
  "pb (st\<lparr>mm_lock := l\<rparr>) y = pb st y"
  by (simp_all add: pool_ok_def head_def pb_def)

lemma hinv_lock [simp]: "hinv (st\<lparr>mm_lock := l\<rparr>) fl U L E = hinv st fl U L E"
  by (simp add: hinv_def buckets_ok_def)

lemma keeps_lock [simp]:
  "keeps U (st\<lparr>mm_lock := l\<rparr>) st' = keeps U st st'" "keeps U st (st'\<lparr>mm_lock := l\<rparr>) = keeps U st st'"
  by (simp_all add: keeps_def)

lemma lock_mm_free:
  assumes "lock_free (mm_lock st)"
  obtains l where "lock_mm st = Inr (st\<lparr>mm_lock := l\<rparr>)" "lock_free (spin_unlock l)"
  using assms by (auto simp: lock_mm_def spin_lock_def spin_unlock_def lock_free_def Let_def)

text \<open>The operations in between do not touch the lock.\<close>

lemma mm_lock_steps [simp]:
  "mm_lock (del_block st k x) = mm_lock st" "mm_lock (put_block st k x) = mm_lock st"
  "mm_lock (poke st y v) = mm_lock st"
  by (simp_all add: del_block_def put_block_def poke_def)

lemma add_count_lock: "add_count st e d = Inr st' \<Longrightarrow> mm_lock st' = mm_lock st"
  by (auto simp: add_count_def rbind_Inr_iff)

lemma upd_mem_lock [simp]: "mm_lock (upd_mem st f) = mm_lock st"
  by (simp add: upd_mem_def)

lemma merge_step_lock: "merge_step st blt bd e mc = Inr (m, st') \<Longrightarrow> mm_lock st' = mm_lock st"
  by (auto simp: merge_step_def rbind_Inr_iff Let_def split: if_splits dest!: add_count_lock)

lemma merge_loop_lock: "merge_loop st blt e mc = Inr (r, st') \<Longrightarrow> mm_lock st' = mm_lock st"
proof (induction st blt e mc rule: merge_loop.induct)
  case (1 st blt e mc)
  consider "st' = st"
    | sz merged s2 where "e < of_nat (BUDDY_ENTRIES - 1)" "bucket_size st e = Inr sz"
        "h_mem st (buddy_of st blt sz + ucast sz - 1) = e"
        "merge_step st blt (buddy_of st blt sz) e mc = Inr (merged, s2)"
        "merge_loop s2 merged (e + 1) (mc + 1) = Inr (r, st')"
    using "1.prems" unfolding merge_loop.simps [of st blt e mc] Let_def
    by (fastforce simp: rbind_Inr_iff split: if_splits)
  then show ?case
  proof cases
    case 2
    then show ?thesis using "1.IH" [OF 2(1,2) refl 2(3,4) refl 2(5)] merge_step_lock [OF 2(4)] by simp
  qed simp
qed

lemma buddy_try_merge_lock: "buddy_try_merge st blt e = Inr (r, st') \<Longrightarrow> mm_lock st' = mm_lock st"
  by (auto simp: buddy_try_merge_def rbind_Inr_iff split: if_splits dest: merge_loop_lock)

lemma free_keeps_inv:
  assumes h: "heap_ok st fl U" and b: "(x, k) \<in> U"
  shows "\<exists>st' fl'. free st (baddr x + 8) = Inr st' \<and> heap_ok st' fl' (U - {(x, k)})
    \<and> keeps (U - {(x, k)}) st st'"
proof -
  let ?b = "(x, k)" and ?V = "U - {(x, k)}"
  have inv: "hinv st fl U {} {}" and co: "coalesced (free_blocks fl)" and fr: "lock_free (mm_lock st)"
    using h by (auto simp: heap_ok_def)
  obtain l where l: "lock_mm st = Inr (st\<lparr>mm_lock := l\<rparr>)" "lock_free (spin_unlock l)"
    using lock_mm_free [OF fr] .
  define s where "s = st\<lparr>mm_lock := l\<rparr>"
  have sinv: "hinv s fl U {} {}" using inv by (simp add: s_def)
  have v: "valid_block ?b" using hinv_valid [OF inv] b by blast
  have k: "k < 18" using v by (simp add: valid_block_def)
  have ok: "pool_ok s" using sinv by (simp add: hinv_def)
  have entry: "h_mem s (baddr x) = of_nat k" and used: "h_mem s (baddr (last_byte ?b)) = USED"
    using sinv b by (auto simp: hinv_def pb_def)
  have code: "free st (baddr x + 8) =
      rbind (buddy_try_merge s (baddr x) (of_nat k)) (\<lambda>(merged, st).
        if merged \<noteq> 0 then Inr (unlock_mm st)
        else let st = poke st (last_byte ?b) (of_nat k);
                 st = upd_mem st (\<lambda>m. list_add m (baddr x) (bucket_ptr st (of_nat k)))
             in rbind (add_count st (of_nat k) 1) (\<lambda>st. Inr (unlock_mm st)))"
    unfolding free_def l(1) rbind.simps s_def [symmetric] Let_def
    by (simp only: add_diff_cancel_right' entry bucket_size_eq [OF ok k] rbind.simps
        last_byte_addr [OF k] used not_True_eq_False simp_thms if_False code_poke)
  consider (none) "buddy_try_merge s (baddr x) (of_nat k) = Inr (0, s)" "k < 17 \<longrightarrow> buddy ?b \<notin> free_blocks fl"
    | (some) mc st' fl' where "buddy_try_merge s (baddr x) (of_nat k) = Inr (mc, st')" "mc \<noteq> 0"
        "hinv st' fl' ?V {} {}" "keeps ?V s st'" "coalesced (free_blocks fl')"
    using buddy_try_merge_cases [OF sinv b co] by blast
  then show ?thesis
  proof cases
    case some
    have "mm_lock st' = l" using buddy_try_merge_lock [OF some(1)] by (simp add: s_def)
    then show ?thesis
      using some l(2) code by (auto simp: heap_ok_def unlock_mm_def s_def)
  next
    case none
    let ?s1 = "poke s (last_byte ?b) (of_nat k)"
    let ?fl = "fl(k := x # fl k)"
    have "hinv s fl ?V {?b} {}" using hinv_unuse [OF sinv b] by simp
    note p = hinv_poke [OF this _ valid_last [OF v, THEN conjunct2], of "of_nat k"]
    have p1: "hinv ?s1 fl ?V {?b} {}" "keeps ?V s ?s1" using p by simp_all
    note q = hinv_put [OF p1(1), of x k]
    have post: "pb (put_block ?s1 k x) (last_byte ?b) = of_nat (snd ?b)"
      using q(3) [of ?b] valid_last [OF v] by (simp add: pb_poke)
    have put: "hinv (put_block ?s1 k x) ?fl ?V {} (insert ?b {})"
      using q(1) by simp
    have fin: "hinv (put_block ?s1 k x) ?fl ?V {} {}" by (rule hinv_posted [OF put post])
    have "coalesced (insert ?b (free_blocks fl))"
      using coalesced_insert [OF co v] none(2) hinv_valid [OF inv] by auto
    then have co': "coalesced (free_blocks ?fl)" by (simp only: free_blocks_put [OF k])
    have "free st (baddr x + 8) = Inr (unlock_mm (put_block ?s1 k x))"
      unfolding code none(1) Let_def rbind.simps prod.case
      using code_put [of ?s1 k x] ok k by simp
    moreover have "keeps ?V s (put_block ?s1 k x)" using keeps_trans [OF p1(2) q(2)] by simp
    ultimately show ?thesis
      using fin co' l(2) by (auto simp: heap_ok_def unlock_mm_def s_def intro!: exI [of _ ?fl])
  qed
qed

end
