(* ===== verification/Malloc_Alloc.thy ===== *)
theory Malloc_Alloc
  imports Malloc_Correct
begin

text \<open>
  Correctness of \<open>malloc\<close>: the order it computes, its search for a bucket, the splits, and the
  block it takes.
\<close>

section \<open>Orders\<close>

lemma unat_order: "i \<le> 31 \<Longrightarrow> unat (2 ^ i :: u32) = 2 ^ i"
proof -
  assume "i \<le> 31"
  then have "(2 :: nat) ^ i < 2 ^ 32" by (intro power_strict_increasing) auto
  then have "unat (of_nat (2 ^ i) :: u32) = 2 ^ i" by (intro unat_of_nat_small) simp
  then show ?thesis by simp
qed

lemma order_less: "i \<le> 31 \<Longrightarrow> (2 ^ i :: u32) < v \<longleftrightarrow> 2 ^ i < unat v"
  by (simp only: word_less_nat_alt unat_order)

lemma order_shift: "push_bit 1 (2 ^ i :: u32) = 2 ^ Suc i"
  by (simp add: push_bit_eq_mult)

text \<open>The loop stops at the first power of two that is large enough.\<close>

lemma next_power2_loop_ends:
  assumes "unat v \<le> 2 ^ 31" and "i \<le> 31" and "31 - i < fuel"
  shows "\<exists>N. i \<le> N \<and> N \<le> 31 \<and> unat v \<le> 2 ^ N \<and> (N = i \<or> 2 ^ (N - 1) < unat v)
    \<and> next_power2_loop fuel v (2 ^ i) (of_nat i) = Inr (of_nat N)"
  using assms
proof (induction fuel arbitrary: i)
  case (Suc fuel)
  show ?case
  proof (cases "2 ^ i < unat v")
    case True
    then have i: "i < 31" using Suc.prems by (cases "i = 31") auto
    have less: "31 - Suc i < fuel" using i Suc.prems(3) by simp
    obtain N where N: "Suc i \<le> N" "N \<le> 31" "unat v \<le> 2 ^ N" "N = Suc i \<or> 2 ^ (N - 1) < unat v"
      "next_power2_loop fuel v (2 ^ Suc i) (of_nat (Suc i)) = Inr (of_nat N)"
      using Suc.IH [OF Suc.prems(1) _ less] i by auto
    have "2 ^ (N - 1) < unat v" using N(4) True by auto
    moreover have "next_power2_loop (Suc fuel) v (2 ^ i) (of_nat i) = Inr (of_nat N)"
      using N(5) True Suc.prems(2) order_less [of i v] by (simp add: add.commute mult.commute)
    ultimately show ?thesis using N(1-3) by (intro exI [of _ N]) simp
  next
    case False
    then show ?thesis using Suc.prems(2) order_less [of i v] by (intro exI [of _ i]) (simp)
  qed
qed simp

text \<open>Above \<open>2 ^ 31\<close> the bit is shifted out before the loop stops.\<close>

lemma next_power2_loop_zero: "0 < v \<Longrightarrow> next_power2_loop fuel v 0 cnt = Inl OutOfFuel"
  by (induction fuel arbitrary: cnt) auto

lemma next_power2_loop_diverges:
  assumes "2 ^ 31 < unat v" and "i \<le> 32"
  shows "next_power2_loop fuel v (2 ^ i) cnt = Inl OutOfFuel"
  using assms
proof (induction fuel arbitrary: i cnt)
  case (Suc fuel)
  show ?case
  proof (cases "i = 32")
    case True
    have "0 < v" using Suc.prems(1) by (simp add: word_less_nat_alt)
    moreover have "(2 ^ i :: u32) = 0" using True by simp
    ultimately show ?thesis using next_power2_loop_zero [of v "Suc fuel"] by (simp only:)
  next
    case False
    then have i: "i \<le> 31" using Suc.prems(2) by simp
    have "(2 :: nat) ^ i \<le> 2 ^ 31" using i by (intro power_increasing) auto
    then show ?thesis
      using Suc.IH [of "Suc i"] Suc.prems i order_less [OF i, of v]
      by (simp add: mult.commute)
  qed
qed simp

lemma next_power2_order:
  assumes "unat v \<le> 2 ^ 31" and "27 \<le> fuel"
  obtains N where "5 \<le> N" "N \<le> 31" "unat v \<le> 2 ^ N" "N = 5 \<or> 2 ^ (N - 1) < unat v"
    "next_power2 fuel v = Inr (of_nat N)"
proof (cases "v < BUDDY_MIN_BLK")
  case True
  then have "unat v \<le> 2 ^ 5"
    by (simp add: BUDDY_MIN_BLK_def BUDDY_MIN_ORDER_def word_less_nat_alt push_bit_of_1)
  then show thesis using True by (intro that [of 5]) (simp_all add: next_power2_def BUDDY_MIN_ORDER_def)
next
  case False
  then show thesis
    using next_power2_loop_ends [OF assms(1), of 5 fuel] assms(2) that
    by (auto simp: next_power2_def BUDDY_MIN_ORDER_def)
qed

lemma next_power2_diverges:
  assumes "2 ^ 31 < unat v"
  shows "next_power2 fuel v = Inl OutOfFuel"
proof -
  have "\<not> v < BUDDY_MIN_BLK"
    using assms by (simp add: BUDDY_MIN_BLK_def BUDDY_MIN_ORDER_def word_less_nat_alt push_bit_of_1)
  then show ?thesis
    using next_power2_loop_diverges [OF assms, of 5 fuel 5]
    by (simp add: next_power2_def BUDDY_MIN_ORDER_def)
qed

section \<open>The search\<close>

lemma find_bucket_search:
  assumes ok: "pool_ok st" and bk: "buckets_ok st fl"
    and "k < 18" and "18 - k < fuel" and "\<And>j. k \<le> j \<Longrightarrow> j < n \<Longrightarrow> fl j = []" and "n = 18 \<or> k \<le> n \<and> n < 18 \<and> fl n \<noteq> []"
  shows "find_bucket fuel st (of_nat k) sc =
    (if n = 18 then Inl (Panic ''out of memory'') else Inr (of_nat n, sc + of_nat (n - k)))"
  using assms(3-6)
proof (induction fuel arbitrary: k sc)
  case (Suc fuel)
  have cnt: "b_count st ! k = 0 \<longleftrightarrow> fl k = []"
    using buckets_count [OF bk Suc.prems(1)] by (simp add: word_unat_eq_iff)
  have entry: "of_nat k + 1 = (of_nat (Suc k) :: u8)" by simp
  have suc: "unat (of_nat (Suc k) :: u8) = Suc k"
    using Suc.prems(1) by (intro unat_of_nat_small) simp
  show ?case
  proof (cases "fl k = []")
    case False
    then have "k = n" using Suc.prems by (metis le_refl nat_less_le nat_neq_iff)
    then show ?thesis using False cnt Suc.prems(1) by (simp add: bucket_count_eq [OF ok])
  next
    case True
    then have n: "Suc k \<le> n" using Suc.prems(1,4) by (metis Suc_leI le_neq_implies_less less_imp_le)
    have step: "find_bucket (Suc fuel) st (of_nat k) sc =
        (if Suc k \<ge> 18 then Inl (Panic ''out of memory'') else find_bucket fuel st (of_nat (Suc k)) (sc + 1))"
      using True cnt suc
      by (simp add: bucket_count_eq [OF ok Suc.prems(1)] entry BUDDY_ENTRIES_def BUDDY_MAX_ORDER_def
          BUDDY_MIN_ORDER_def del: of_nat_Suc)
    show ?thesis
    proof (cases "Suc k < 18")
      case True
      then have "find_bucket fuel st (of_nat (Suc k)) (sc + 1) =
          (if n = 18 then Inl (Panic ''out of memory'') else Inr (of_nat n, sc + 1 + of_nat (n - Suc k)))"
        using Suc.prems n by (intro Suc.IH) auto
      moreover have "sc + 1 + of_nat (n - Suc k) = sc + of_nat (n - k)"
        using n by (simp add: Suc_diff_Suc [symmetric] del: Suc_diff_Suc)
      ultimately show ?thesis using step True by simp
    next
      case False
      then have "n = 18" using n Suc.prems(4) by auto
      then show ?thesis using step False by simp
    qed
  qed
qed simp

section \<open>Splitting\<close>

lemma first_block:
  assumes "buckets_ok st fl" and "k < 18" and "fl k = x # r"
  shows "list_first_entry (h_mem st) (bucket_ptr st (of_nat k)) = baddr x"
  using ring_first [OF buckets_ring [OF assms(1,2)]] assms(3)
  by (simp add: list_first_entry_def bucket_ptr_head [OF assms(2)])

definition split_block :: "heap \<Rightarrow> nat \<Rightarrow> nat \<Rightarrow> heap" where
  "split_block st k x =
     poke (poke (put_block (put_block (del_block st (Suc k) x) k (x + bsize k)) k x)
       (last_byte (x, k)) (of_nat k)) (last_byte (x + bsize k, k)) (of_nat k)"

definition split_lists :: "flists \<Rightarrow> nat \<Rightarrow> nat \<Rightarrow> flists" where
  "split_lists fl k x = fl(Suc k := remove1 x (fl (Suc k)), k := x # (x + bsize k) # fl k)"

lemma buddy_split_eq:
  assumes ok: "pool_ok st" and bk: "buckets_ok st fl" and k: "Suc k < 18" and fl: "fl (Suc k) = x # r"
  shows "buddy_split st (of_nat (Suc k)) = Inr (split_block st k x)"
proof -
  have k18: "k < 18" using k by simp
  have entry: "of_nat (Suc k) - 1 = (of_nat k :: u8)" by simp
  let ?s1 = "del_block st (Suc k) x"
  have ok1: "pool_ok ?s1" using ok by simp
  have new: "baddr x + ucast (of_nat (bsize k) :: u32) = baddr (x + bsize k)"
    by (simp add: size_ucast [OF k18] baddr_add)
  have post1: "baddr (x + bsize k) - 1 = baddr (last_byte (x, k))"
    using last_byte_addr [OF k18, of x] by (simp only: new)
  have post2: "baddr (last_byte (x, k)) + ucast (of_nat (bsize k) :: u32) = baddr (last_byte (x + bsize k, k))"
    using bsize_ge_32 [of k] by (simp add: size_ucast [OF k18] baddr_add last_byte_def)
  let ?s2 = "?s1\<lparr>b_count := (b_count ?s1)[k := b_count ?s1 ! k + 2]\<rparr>"
  have ok2: "pool_ok ?s2" using ok1 by (simp add: pool_ok_def)
  have len: "length (b_count ?s1) = 18" using ok1 by (simp add: pool_ok_def)
  have two: "(b_count ?s1)[k := b_count ?s1 ! k + 2] =
      ((b_count ?s1)[k := b_count ?s1 ! k + 1])[k := (b_count ?s1)[k := b_count ?s1 ! k + 1] ! k + 1]"
    using len k18 by (simp add: add.assoc)
  have body: "buddy_split st (of_nat (Suc k)) =
      Inr (upd_mem (upd_mem (upd_mem (upd_mem ?s2
        (\<lambda>m. list_add m (baddr (x + bsize k)) (head ?s2 k))) (\<lambda>m. list_add m (baddr x) (head ?s2 k)))
        (\<lambda>m. m(baddr (last_byte (x, k)) := of_nat k))) (\<lambda>m. m(baddr (last_byte (x + bsize k, k)) := of_nat k)))"
    unfolding buddy_split_def first_block [OF bk k fl] Let_def entry code_del [OF ok k] rbind.simps
      add_count_eq [OF ok1 k18] bucket_size_eq [OF ok2 k18] new post1 post2
    by (simp add: bucket_ptr_head [OF k18] upd_mem_def head_def bucket_ptr_def u8_ucast [OF k18])
  show ?thesis
    unfolding body split_block_def two
    by (simp add: upd_mem_def put_block_def poke_def head_def)
qed

lemma split_block_inv:
  assumes inv: "hinv st fl U {} {}" and k: "Suc k < 18" and fl: "fl (Suc k) = x # r"
  shows "hinv (split_block st k x) (split_lists fl k x) U {} {}"
    and "keeps U st (split_block st k x)"
    and "free_blocks (split_lists fl k x) = free_blocks fl - {(x, Suc k)} \<union> {(x, k), (x + bsize k, k)}"
proof -
  let ?y = "x + bsize k"
  define f1 where "f1 = fl(Suc k := remove1 x (fl (Suc k)))"
  define f2 where "f2 = f1(k := ?y # f1 k)"
  define f3 where "f3 = f2(k := x # f2 k)"
  define s1 where "s1 = del_block st (Suc k) x"
  define s2 where "s2 = put_block s1 k ?y"
  define s3 where "s3 = put_block s2 k x"
  define s4 where "s4 = poke s3 (last_byte (x, k)) (of_nat k)"
  define s5 where "s5 = poke s4 (last_byte (?y, k)) (of_nat k)"
  have k18: "k < 18" using k by simp
  have xin: "x \<in> set (fl (Suc k))" using fl by simp
  have ne: "(x, k) \<noteq> (?y, k)" by simp
  note d = hinv_del [OF inv k xin, folded s1_def f1_def]
  have "hinv s1 f1 U ({(x, Suc k)} - {(x, Suc k)} \<union> {(x, k), (?y, k)}) {}"
    by (rule hinv_split [OF d(1)]) simp
  then have i1: "hinv s1 f1 U {(x, k), (?y, k)} {}" by simp
  note p2 = hinv_put [OF i1, of ?y k, folded s2_def f2_def]
  have "{(x, k), (?y, k)} - {(?y, k)} = {(x, k)}" using bsize_ge_32 [of k] by auto
  then have i2: "hinv s2 f2 U {(x, k)} {(?y, k)}" using p2(1) by simp
  note p3 = hinv_put [OF i2, of x k, folded s3_def f3_def]
  have i3: "hinv s3 f3 U {} (insert (x, k) {(?y, k)})" using p3(1) by simp
  have fb: "free_blocks f1 = free_blocks fl - {(x, Suc k)}"
    unfolding f1_def by (rule free_blocks_del [where st = st]) (use inv k xin in \<open>auto simp: hinv_def\<close>)
  have fb3: "free_blocks f3 = free_blocks fl - {(x, Suc k)} \<union> {(x, k), (?y, k)}"
    unfolding f3_def f2_def free_blocks_put [OF k18] fb by blast
  have in3: "(x, k) \<in> free_blocks f3" "(?y, k) \<in> free_blocks f3" unfolding fb3 by blast+
  note q4 = hinv_post [OF i3 in3(1), unfolded snd_conv, folded s4_def]
  note q5 = hinv_post [OF q4(1) in3(2), unfolded snd_conv, folded s5_def]
  have lists: "split_lists fl k x = f3" by (simp add: split_lists_def f3_def f2_def f1_def)
  have st: "split_block st k x = s5"
    by (simp only: split_block_def s5_def s4_def s3_def s2_def s1_def)
  show "hinv (split_block st k x) (split_lists fl k x) U {} {}" using q5(1) by (simp only: st lists)
  have "keeps U s1 s3" using keeps_trans [OF p2(2) p3(2)] by simp
  then show "keeps U st (split_block st k x)"
    unfolding st using keeps_trans d(2) q4(2) q5(2) by blast
  show "free_blocks (split_lists fl k x) = free_blocks fl - {(x, Suc k)} \<union> {(x, k), (?y, k)}"
    using fb3 by (simp only: lists)
qed

text \<open>What a sequence of splits leaves of the block \<open>(x, j)\<close> beside \<open>(x, e)\<close>: its right halves.\<close>

definition right_halves :: "nat \<Rightarrow> nat \<Rightarrow> nat \<Rightarrow> block set" where
  "right_halves x e j = (\<lambda>i. (x + bsize i, i)) ` {e ..< j}"

lemma right_halves_Suc: "e \<le> j \<Longrightarrow> right_halves x e (Suc j) = insert (x + bsize j, j) (right_halves x e j)"
  by (auto simp: right_halves_def atLeastLessThanSuc)

lemma right_halves_empty [simp]: "right_halves x e e = {}"
  by (simp add: right_halves_def)

lemma coalesced_split:
  assumes T: "tiling (F \<union> U)" and b: "(x, Suc k) \<in> F" and co: "coalesced (F - {(x, Suc k)})"
  shows "coalesced (F - {(x, Suc k)} \<union> {(x, k), (x + bsize k, k)} - {(x, k)})"
proof -
  have v: "valid_block (x, Suc k)" using tiling_valid [OF T] b by blast
  have not_in: "(x, k) \<notin> F" using tiling_offset [OF T, of x "Suc k" k] b by auto
  have "coalesced (insert (x + bsize k, k) (F - {(x, Suc k)}))"
    by (rule coalesced_insert [OF co halves(2) [OF v]])
       (use halves(6) [OF v] not_in tiling_valid [OF T] in auto)
  then show ?thesis by (rule coalesced_mono) auto
qed

lemma split_loop_splits:
  assumes "hinv st fl U {} {}" and "e + n < 18" and "fl (e + n) = x # r"
    and "coalesced (free_blocks fl - {(x, e + n)})"
  shows "\<exists>st' fl' r'. split_loop n st (of_nat (e + n)) = Inr (of_nat e, st') \<and> hinv st' fl' U {} {}
    \<and> keeps U st st' \<and> mm_lock st' = mm_lock st \<and> fl' e = x # r'
    \<and> free_blocks fl' - {(x, e)} = free_blocks fl - {(x, e + n)} \<union> right_halves x e (e + n)
    \<and> coalesced (free_blocks fl' - {(x, e)})"
  using assms
proof (induction n arbitrary: st fl r)
  case 0
  then show ?case by auto
next
  case (Suc n)
  let ?k = "e + n"
  let ?s = "split_block st ?k x" and ?f = "split_lists fl ?k x"
  have k: "Suc ?k < 18" using Suc.prems(2) by simp
  have fl: "fl (Suc ?k) = x # r" using Suc.prems(3) by simp
  have ok: "pool_ok st" and bk: "buckets_ok st fl" and T: "tiling (free_blocks fl \<union> U)"
    using Suc.prems(1) by (simp_all add: hinv_def)
  note i = split_block_inv [OF Suc.prems(1) k fl]
  have xin: "(x, Suc ?k) \<in> free_blocks fl" using k fl by (simp add: free_block_iff)
  have entry: "of_nat (Suc ?k) - 1 = (of_nat ?k :: u8)" by simp
  have co: "coalesced (free_blocks ?f - {(x, ?k)})"
    using coalesced_split [OF T xin] Suc.prems(4) unfolding i(3) by simp
  have fk: "?f ?k = x # (x + bsize ?k) # fl ?k" by (simp add: split_lists_def)
  obtain st' fl' r' where r: "split_loop n ?s (of_nat ?k) = Inr (of_nat e, st')" "hinv st' fl' U {} {}"
    "keeps U ?s st'" "mm_lock st' = mm_lock ?s" "fl' e = x # r'"
    "free_blocks fl' - {(x, e)} = free_blocks ?f - {(x, ?k)} \<union> right_halves x e ?k"
    "coalesced (free_blocks fl' - {(x, e)})"
    using Suc.IH [OF i(1) _ fk co] k by auto
  have code: "split_loop (Suc n) st (of_nat (Suc ?k)) = Inr (of_nat e, st')"
    using r(1) by (simp only: split_loop.simps buddy_split_eq [OF ok bk k fl] rbind.simps entry)
  have "(x, ?k) \<notin> free_blocks fl" using tiling_offset [OF T, of x "Suc ?k" ?k] xin by auto
  then have "free_blocks ?f - {(x, ?k)} = free_blocks fl - {(x, Suc ?k)} \<union> {(x + bsize ?k, ?k)}"
    unfolding i(3) by auto
  then have "free_blocks fl' - {(x, e)} = free_blocks fl - {(x, Suc ?k)} \<union> right_halves x e (Suc ?k)"
    unfolding r(6) right_halves_Suc [OF le_add1] by blast
  moreover have "keeps U st st'" using keeps_trans [OF i(2) r(3)] .
  moreover have "mm_lock st' = mm_lock st" using r(4) by (simp add: split_block_def)
  ultimately show ?case using code r(2,5,7) by auto
qed

section \<open>Taking the block\<close>

definition take_block :: "heap \<Rightarrow> nat \<Rightarrow> nat \<Rightarrow> heap" where
  "take_block st e x = poke (poke (del_block st e x) x (of_nat e)) (last_byte (x, e)) USED"

lemma take_block_inv:
  assumes inv: "hinv st fl U {} {}" and e: "e < 18" and fl: "fl e = x # r"
  shows "hinv (take_block st e x) (fl(e := r)) (insert (x, e) U) {} {}" and "keeps U st (take_block st e x)"
    and "free_blocks (fl(e := r)) = free_blocks fl - {(x, e)}"
proof -
  let ?b = "(x, e)"
  define s1 where "s1 = del_block st e x"
  define s2 where "s2 = poke s1 x (of_nat e)"
  define s3 where "s3 = poke s2 (last_byte ?b) USED"
  have xin: "x \<in> set (fl e)" and rem: "remove1 x (fl e) = r" using fl by simp_all
  have v: "valid_block ?b" using hinv_valid [OF inv] xin e by (auto simp: free_block_iff)
  note d = hinv_del [OF inv e xin, unfolded rem, folded s1_def]
  have x1: "x \<in> bytes_of ?b" using bytes_of_nonempty(1) [of ?b] by simp
  note p = hinv_poke [OF d(1) _ x1, of "of_nat e", folded s2_def]
  have i2: "hinv s2 (fl(e := r)) U {?b} {}" and k2: "keeps U s1 s2" using p by simp_all
  have l3: "last_byte ?b \<in> bytes_of ?b" "last_byte ?b < pool_size" "x < pool_size" "last_byte ?b \<noteq> x"
    using valid_last [OF v] valid_offset [OF v] bsize_ge_32 [of e] by (auto simp: last_byte_def)
  note q = hinv_poke [OF i2 _ l3(1), of USED, folded s3_def]
  have i3: "hinv s3 (fl(e := r)) U {?b} {}" and k3: "keeps U s2 s3" using q by simp_all
  have "pb s3 (last_byte ?b) = USED" "pb s3 (fst ?b) = of_nat (snd ?b)"
    using l3 by (simp_all add: s3_def s2_def pb_poke)
  then have "hinv s3 (fl(e := r)) (insert ?b U) ({?b} - {?b}) {}" by (intro hinv_use [OF i3]) simp_all
  moreover have st: "take_block st e x = s3" by (simp only: take_block_def s3_def s2_def s1_def)
  ultimately show "hinv (take_block st e x) (fl(e := r)) (insert ?b U) {} {}" by simp
  show "keeps U st (take_block st e x)" unfolding st using keeps_trans d(2) k2 k3 by blast
  show "free_blocks (fl(e := r)) = free_blocks fl - {?b}"
    using free_blocks_del [of st fl e x] inv e xin rem by (simp add: hinv_def)
qed

section \<open>\<open>malloc\<close>\<close>

text \<open>The order that a block needs to have for \<open>n\<close> bytes, and the bucket that is split for it.\<close>

definition order_for :: "nat \<Rightarrow> nat" where
  "order_for n = length (takeWhile (\<lambda>e. bsize e < n) [0..<18])"

definition bucket_for :: "flists \<Rightarrow> nat \<Rightarrow> nat" where
  "bucket_for fl e = e + length (takeWhile (\<lambda>j. fl j = []) [e..<18])"

lemma takeWhile_upt:
  assumes "a \<le> n" and "n \<le> b" and "\<And>i. a \<le> i \<Longrightarrow> i < n \<Longrightarrow> P i" and "n < b \<Longrightarrow> \<not> P n"
  shows "takeWhile P [a..<b] = [a..<n]"
proof -
  have "[a..<b] = [a..<n] @ [n..<b]" using assms(1,2) by (metis le_Suc_ex upt_add_eq_append)
  moreover have "takeWhile P [n..<b] = []" using assms(4) by (cases "n < b") (auto simp: upt_conv_Cons)
  ultimately show ?thesis using assms(3) takeWhile_append2 [of "[a..<n]" P "[n..<b]"] by simp
qed

lemma order_for_eq:
  assumes "e < 18" and "n \<le> bsize e" and "e = 0 \<or> bsize (e - 1) < n"
  shows "order_for n = e"
proof -
  have "bsize i < n" if "i < e" for i
  proof -
    have "bsize i \<le> bsize (e - 1)" using that by (simp add: bsize_def power_increasing)
    then show ?thesis using assms(3) that by auto
  qed
  then have "takeWhile (\<lambda>e. bsize e < n) [0..<18] = [0..<e]"
    using assms(1,2) by (intro takeWhile_upt) auto
  then show ?thesis by (simp add: order_for_def)
qed

lemma bucket_for_props:
  assumes "e \<le> 18"
  shows "e \<le> bucket_for fl e" and "bucket_for fl e \<le> 18"
    and "e \<le> j \<Longrightarrow> j < bucket_for fl e \<Longrightarrow> fl j = []"
    and "bucket_for fl e < 18 \<Longrightarrow> fl (bucket_for fl e) \<noteq> []"
proof -
  let ?t = "takeWhile (\<lambda>j. fl j = []) [e..<18]"
  show "e \<le> bucket_for fl e" by (simp add: bucket_for_def)
  have len: "length ?t \<le> length [e..<18]" by (rule length_takeWhile_le)
  then show "bucket_for fl e \<le> 18" using assms by (simp add: bucket_for_def)
  show "fl j = []" if "e \<le> j" "j < bucket_for fl e"
  proof -
    have l: "j - e < length ?t" using that by (simp add: bucket_for_def)
    then have "?t ! (j - e) = j" using that len by (simp add: takeWhile_nth)
    then have "j \<in> set ?t" using l by (metis nth_mem)
    then show ?thesis by (auto dest: set_takeWhileD)
  qed
  show "fl (bucket_for fl e) \<noteq> []" if "bucket_for fl e < 18"
  proof -
    have "length ?t < length [e..<18]" using that assms by (simp add: bucket_for_def)
    then show ?thesis using nth_length_takeWhile [of "\<lambda>j. fl j = []" "[e..<18]"] that
      by (simp add: bucket_for_def)
  qed
qed

lemma next_power2_order_for:
  assumes "unat v \<le> pool_size"
  shows "next_power2 64 v = Inr (of_nat (order_for (unat v) + 5))" and "order_for (unat v) < 18"
    and "unat v \<le> bsize (order_for (unat v))"
    and "order_for (unat v) = 0 \<or> bsize (order_for (unat v) - 1) < unat v"
proof -
  have "unat v \<le> 2 ^ 31" using assms by (simp add: pool_size_def)
  then obtain N where N: "5 \<le> N" "unat v \<le> 2 ^ N" "N = 5 \<or> 2 ^ (N - 1) < unat v"
    "next_power2 64 v = Inr (of_nat N)" using next_power2_order [of v 64] by auto
  define e where "e = N - 5"
  have Ne: "N = e + 5" using N(1) by (simp add: e_def)
  have "e < 18"
  proof (rule ccontr)
    assume "\<not> e < 18"
    then have "22 \<le> N - 1" "N \<noteq> 5" using Ne by simp_all
    then show False
      using power_increasing [of 22 "N - 1" "2 :: nat"] N(3) assms by (simp add: pool_size_def)
  qed
  moreover have "unat v \<le> bsize e" using N(2) by (simp add: Ne bsize_def)
  moreover have "e = 0 \<or> bsize (e - 1) < unat v"
  proof (cases e)
    case (Suc m)
    then show ?thesis using N(3) by (simp add: Ne bsize_def add.commute)
  qed simp
  ultimately have "order_for (unat v) = e" "e < 18" "unat v \<le> bsize e" "e = 0 \<or> bsize (e - 1) < unat v"
    using order_for_eq by auto
  then show "next_power2 64 v = Inr (of_nat (order_for (unat v) + 5))" "order_for (unat v) < 18"
    "unat v \<le> bsize (order_for (unat v))" "order_for (unat v) = 0 \<or> bsize (order_for (unat v) - 1) < unat v"
    using N(4) Ne by simp_all
qed

text \<open>What follows the search for a bucket.\<close>

definition malloc_take :: "heap \<Rightarrow> u8 \<Rightarrow> (u64 \<times> heap) result" where
  "malloc_take st entry =
     (let blt = list_first_entry (h_mem st) (bucket_ptr st entry);
          st = upd_mem st (\<lambda>m. list_del m blt)
      in rbind (add_count st entry (- 1)) (\<lambda>st.
         rbind (bucket_size st entry) (\<lambda>sz.
         let pre = blt;
             post = pre + ucast sz - 1;
             st = upd_mem st (\<lambda>m. m(pre := entry));
             pre = pre + 8;
             st = upd_mem st (\<lambda>m. m(post := USED))
         in Inr (pre, unlock_mm st))))"

lemma malloc_take_eq:
  assumes "hinv st fl U {} {}" and "e < 18" and "fl e = x # r"
  shows "malloc_take st (of_nat e) = Inr (baddr x + 8, unlock_mm (take_block st e x))"
proof -
  have ok: "pool_ok st" "pool_ok (del_block st e x)" and bk: "buckets_ok st fl"
    using assms(1) by (simp_all add: hinv_def)
  show ?thesis
    unfolding malloc_take_def first_block [OF bk assms(2,3)] Let_def code_del [OF ok(1) assms(2)] rbind.simps
      bucket_size_eq [OF ok(2) assms(2)] last_byte_addr [OF assms(2)] code_poke take_block_def ..
qed

text \<open>The search and the splits.\<close>

definition malloc_find :: "heap \<Rightarrow> u8 \<Rightarrow> (u8 \<times> heap) result" where
  "malloc_find st entry =
     rbind (bucket_count st entry) (\<lambda>c.
       if c = 0
       then rbind (find_bucket (Suc BUDDY_ENTRIES) st entry 0) (\<lambda>(entry, split_count).
            split_loop (unat split_count) st entry)
       else Inr (entry, st))"

lemma malloc_find_take:
  "malloc st sz = rbind (next_power2 64 (sz + 9)) (\<lambda>order.
     rbind (lock_mm st) (\<lambda>st. rbind (malloc_find st (order - of_nat BUDDY_MIN_ORDER)) (\<lambda>(entry, st).
       malloc_take st entry)))"
  unfolding malloc_def malloc_find_def malloc_take_def Let_def by (simp only: rbind_assoc)

lemma malloc_find_fails:
  assumes inv: "hinv st fl U {} {}" and e: "e < 18" and full: "bucket_for fl e = 18"
  shows "malloc_find st (of_nat e) = Inl (Panic ''out of memory'')"
proof -
  have ok: "pool_ok st" and bk: "buckets_ok st fl" using inv by (simp_all add: hinv_def)
  have e18: "e \<le> 18" using e by simp
  note b = bucket_for_props [OF e18, where fl = fl]
  have "fl e = []" using b(3) [of e] full e by simp
  then have "b_count st ! e = 0" using buckets_count [OF bk e] by (simp add: word_unat_eq_iff)
  moreover have "find_bucket (Suc BUDDY_ENTRIES) st (of_nat e) 0 = Inl (Panic ''out of memory'')"
    using find_bucket_search [OF ok bk e, of "Suc BUDDY_ENTRIES" 18 0] b(3) full
    by (simp add: BUDDY_ENTRIES_def BUDDY_MAX_ORDER_def BUDDY_MIN_ORDER_def)
  ultimately show ?thesis by (simp add: malloc_find_def bucket_count_eq [OF ok e])
qed

lemma malloc_find_splits:
  assumes inv: "hinv st fl U {} {}" and co: "coalesced (free_blocks fl)" and e: "e < 18"
    and some: "bucket_for fl e < 18"
  shows "\<exists>st' fl' x r. malloc_find st (of_nat e) = Inr (of_nat e, st') \<and> hinv st' fl' U {} {}
    \<and> keeps U st st' \<and> mm_lock st' = mm_lock st \<and> fl' e = x # r \<and> x = hd (fl (bucket_for fl e))
    \<and> free_blocks fl' - {(x, e)} = free_blocks fl - {(x, bucket_for fl e)} \<union> right_halves x e (bucket_for fl e)
    \<and> coalesced (free_blocks fl' - {(x, e)})"
proof -
  define j where "j = bucket_for fl e"
  have ok: "pool_ok st" and bk: "buckets_ok st fl" using inv by (simp_all add: hinv_def)
  have e18: "e \<le> 18" using e by simp
  note b = bucket_for_props [OF e18, where fl = fl, folded j_def]
  have j: "j < 18" "fl j \<noteq> []" using b(4) some by (simp_all add: j_def)
  then obtain x r where fl: "fl j = x # r" by (cases "fl j") auto
  have co': "coalesced (free_blocks fl - {(x, j)})" using co by (rule coalesced_mono) auto
  have cnt: "b_count st ! e = 0 \<longleftrightarrow> fl e = []" using buckets_count [OF bk e] by (simp add: word_unat_eq_iff)
  show ?thesis
  proof (cases "fl e = []")
    case False
    then have "j = e" using b(1,3) by (metis le_refl le_neq_implies_less)
    moreover have "malloc_find st (of_nat e) = Inr (of_nat e, st)"
      using False cnt by (simp add: malloc_find_def bucket_count_eq [OF ok e])
    ultimately show ?thesis
      unfolding j_def [symmetric] using inv fl co' by (intro exI [of _ st] exI [of _ fl] exI [of _ x]) auto
  next
    case True
    have "find_bucket (Suc BUDDY_ENTRIES) st (of_nat e) 0 = Inr (of_nat j, of_nat (j - e))"
      using find_bucket_search [OF ok bk e, of "Suc BUDDY_ENTRIES" j 0] b j
      by (simp add: BUDDY_ENTRIES_def BUDDY_MAX_ORDER_def BUDDY_MIN_ORDER_def)
    moreover have "unat (of_nat (j - e) :: u8) = j - e" using j by (intro unat_of_nat_small) simp
    ultimately have "malloc_find st (of_nat e) = split_loop (j - e) st (of_nat (e + (j - e)))"
      using True cnt b(1) by (simp add: malloc_find_def bucket_count_eq [OF ok e])
    then show ?thesis
      unfolding j_def [symmetric]
      using split_loop_splits [OF inv, of e "j - e" x r] j b(1) fl co' by auto
  qed
qed

text \<open>
  \<open>malloc\<close> on a good heap, for a size that fits: the order is the least that is large enough, and
  the block comes from the first bucket of at least this order that is not empty.
\<close>

lemma order_word: "of_nat (e + 5) - of_nat BUDDY_MIN_ORDER = (of_nat e :: u8)"
  by (simp add: BUDDY_MIN_ORDER_def)

lemma malloc_fails:
  assumes h: "heap_ok st fl U" and small: "unat (sz + 9) \<le> pool_size"
    and full: "bucket_for fl (order_for (unat (sz + 9))) = 18"
  shows "malloc st sz = Inl (Panic ''out of memory'')"
proof -
  note o = next_power2_order_for [OF small]
  obtain l where l: "lock_mm st = Inr (st\<lparr>mm_lock := l\<rparr>)" using h lock_mm_free by (auto simp: heap_ok_def)
  have "hinv (st\<lparr>mm_lock := l\<rparr>) fl U {} {}" using h by (simp add: heap_ok_def)
  then show ?thesis
    unfolding malloc_find_take o(1) rbind.simps l order_word
    by (simp only: malloc_find_fails [OF _ o(2) full] rbind.simps)
qed

lemma malloc_succeeds:
  assumes h: "heap_ok st fl U" and small: "unat (sz + 9) \<le> pool_size"
    and e: "e = order_for (unat (sz + 9))" and j: "j = bucket_for fl e" "j < 18" and x: "x = hd (fl j)"
  shows "\<exists>st' fl'. malloc st sz = Inr (baddr x + 8, st') \<and> heap_ok st' fl' (insert (x, e) U) \<and> keeps U st st'
    \<and> free_blocks fl' = free_blocks fl - {(x, j)} \<union> right_halves x e j"
proof -
  note o = next_power2_order_for [OF small, folded e]
  have fr: "lock_free (mm_lock st)" and co: "coalesced (free_blocks fl)" using h by (simp_all add: heap_ok_def)
  obtain l where l: "lock_mm st = Inr (st\<lparr>mm_lock := l\<rparr>)" "lock_free (spin_unlock l)"
    using lock_mm_free [OF fr] .
  define s where "s = st\<lparr>mm_lock := l\<rparr>"
  have inv: "hinv s fl U {} {}" using h by (simp add: heap_ok_def s_def)
  obtain st1 fl1 r where f: "malloc_find s (of_nat e) = Inr (of_nat e, st1)" "hinv st1 fl1 U {} {}"
    "keeps U s st1" "mm_lock st1 = mm_lock s" "fl1 e = x # r"
    "free_blocks fl1 - {(x, e)} = free_blocks fl - {(x, j)} \<union> right_halves x e j"
    "coalesced (free_blocks fl1 - {(x, e)})"
    using malloc_find_splits [OF inv co o(2)] j x by auto
  note t = take_block_inv [OF f(2) o(2) f(5)]
  let ?st = "unlock_mm (take_block st1 e x)"
  have "malloc st sz = Inr (baddr x + 8, ?st)"
    unfolding malloc_find_take o(1) rbind.simps l order_word s_def [symmetric] f(1) prod.case
    by (rule malloc_take_eq [OF f(2) o(2) f(5)])
  moreover have "mm_lock (take_block st1 e x) = l" using f(4) by (simp add: take_block_def s_def)
  then have "heap_ok ?st (fl1(e := r)) (insert (x, e) U)"
    using t(1) f(7) l(2) by (simp only: heap_ok_def unlock_mm_def hinv_lock t(3)) (simp add: lock_free_def)
  moreover have "keeps U st ?st"
    using keeps_trans [OF f(3) t(2)] by (simp add: unlock_mm_def s_def)
  ultimately show ?thesis using t(3) f(6) by (intro exI [of _ ?st] exI [of _ "fl1(e := r)"]) simp
qed

text \<open>Sizes that no bucket holds.\<close>

lemma malloc_too_large:
  assumes h: "heap_ok st fl U" and big: "pool_size < unat (sz + 9)" "unat (sz + 9) \<le> 2 ^ 31"
  shows "malloc st sz = Inl OutOfBounds"
proof -
  obtain N where N: "5 \<le> N" "N \<le> 31" "unat (sz + 9) \<le> 2 ^ N" "next_power2 64 (sz + 9) = Inr (of_nat N)"
    using next_power2_order [OF big(2), of 64] by auto
  have N22: "22 < N"
  proof (rule ccontr)
    assume "\<not> 22 < N"
    then have "(2 :: nat) ^ N \<le> 2 ^ 22" by (intro power_increasing) auto
    then show False using N(3) big(1) by (simp add: pool_size_def)
  qed
  define e where "e = N - 5"
  have e: "N = e + 5" "18 \<le> e" "e < 27" using N N22 by (auto simp: e_def)
  obtain l where l: "lock_mm st = Inr (st\<lparr>mm_lock := l\<rparr>)" using h lock_mm_free by (auto simp: heap_ok_def)
  have u: "unat (ucast (of_nat e :: u8) :: u64) = e"
    using e by (simp add: unat_ucast_up unat_of_nat_small)
  have "length (b_count st) = 18" using h by (simp add: heap_ok_def hinv_def pool_ok_def)
  then have "malloc_find (st\<lparr>mm_lock := l\<rparr>) (of_nat e) = Inl OutOfBounds"
    using u e by (simp add: malloc_find_def bucket_count_def tget_def)
  then show ?thesis
    unfolding malloc_find_take N(4) e(1) rbind.simps l order_word by (simp only: rbind.simps)
qed

end
