(* ===== verification/Malloc_Init.thy ===== *)
theory Malloc_Init
  imports Malloc_Alloc
begin

text \<open>
  Initialisation of the buddy allocator: \<open>malloc_init\<close> turns any memory into a heap that
  satisfies the invariant, with a single free block of 4MB.
\<close>

section \<open>The buckets\<close>

text \<open>What \<open>malloc_init\<close> needs: the bucket array lies outside the pool, the lock is free.\<close>

definition heap_raw :: "heap \<Rightarrow> bool" where
  "heap_raw st \<longleftrightarrow> unat (b_addr st) mod 8 = 0
     \<and> (unat (b_addr st) + 432 \<le> 0x600000 \<or> 0xA00000 \<le> unat (b_addr st) \<and> unat (b_addr st) + 432 \<le> 2 ^ 64)
     \<and> length (b_count st) = 18 \<and> length (b_size st) = 18 \<and> lock_free (mm_lock st)"

text \<open>The heap with the fields that \<open>malloc_init\<close> sets in place.\<close>

definition sized :: "heap \<Rightarrow> heap" where
  "sized st = st\<lparr>mem_base := MALLOC_BASE, b_size := map (\<lambda>k. of_nat (bsize k)) [0..<18]\<rparr>"

lemma sized_ok: "heap_raw st \<Longrightarrow> pool_ok (sized st)"
  by (simp add: heap_raw_def pool_ok_def sized_def)

lemma sized_head [simp]: "head (sized st) k = head st k"
  by (simp add: head_def sized_def)

lemma heads_apart: "heap_raw st \<Longrightarrow> nodes_apart (head st ` {..<18})"
  using nodes_apart_nodes [OF sized_ok, of st] by (auto simp: nodes_apart_def nodes_def)

lemma raw_head_inj: "heap_raw st \<Longrightarrow> j < 18 \<Longrightarrow> k < 18 \<Longrightarrow> head st j = head st k \<longleftrightarrow> j = k"
  using head_inj [OF sized_ok] by simp

lemma init_head_rings:
  assumes raw: "heap_raw st" and j: "j < 18" and k: "k < 18"
  shows "ring (INIT_LIST_HEAD m (head st k)) (head st j) [] \<longleftrightarrow> j = k \<or> ring m (head st j) []"
proof (cases "j = k")
  case True
  then show ?thesis using INIT_LIST_HEAD_ring [OF heads_apart [OF raw]] k by simp
next
  case False
  then have "head st j \<noteq> head st k" using raw_head_inj [OF raw j k] by simp
  then have "ring (INIT_LIST_HEAD m (head st k)) (head st j) [] = ring m (head st j) []"
    using j k by (intro ring_cong)
      (simp add: INIT_LIST_HEAD_def Let_def links_set [OF heads_apart [OF raw]])
  then show ?thesis using False by simp
qed

lemma bucket_size_word: "push_bit (BUDDY_MIN_ORDER + i) 1 = (of_nat (bsize i) :: u32)"
  by (simp add: bsize_def BUDDY_MIN_ORDER_def push_bit_eq_mult add.commute)

lemma init_buckets_correct:
  assumes "heap_raw st" and "i + n = 18" and "\<forall>k < i. b_count st ! k = 0 \<and> b_size st ! k = of_nat (bsize k)
      \<and> ring (h_mem st) (head st k) []"
  shows "\<exists>st'. init_buckets n st (of_nat i) = Inr st' \<and> heap_raw st' \<and> (\<forall>k < 18. b_count st' ! k = 0
      \<and> b_size st' ! k = of_nat (bsize k) \<and> ring (h_mem st') (head st' k) [])"
  using assms
proof (induction n arbitrary: st i)
  case 0
  then show ?case by auto
next
  case (Suc n)
  have i: "i < 18" using Suc.prems(2) by simp
  have len: "length (b_count st) = 18" "length (b_size st) = 18" using Suc.prems(1) by (simp_all add: heap_raw_def)
  let ?st = "st\<lparr>b_count := (b_count st)[i := 0], b_size := (b_size st)[i := of_nat (bsize i)],
      h_mem := INIT_LIST_HEAD (h_mem st) (head st i)\<rparr>"
  have head: "head ?st k = head st k" for k by (simp add: head_def)
  have entry: "of_nat i + 1 = (of_nat (Suc i) :: u8)" by simp
  have code: "init_buckets (Suc n) st (of_nat i) = init_buckets n ?st (of_nat (Suc i))"
    using i len by (simp add: tset_in u8_ucast_index u8_index bucket_size_word upd_mem_def bucket_ptr_head
        add.commute del: push_bit_of_1)
  have raw: "heap_raw ?st" using Suc.prems(1) by (simp add: heap_raw_def)
  have "\<forall>k < Suc i. b_count ?st ! k = 0 \<and> b_size ?st ! k = of_nat (bsize k)
      \<and> ring (h_mem ?st) (head ?st k) []"
  proof (intro allI impI)
    fix k assume "k < Suc i"
    then show "b_count ?st ! k = 0 \<and> b_size ?st ! k = of_nat (bsize k) \<and> ring (h_mem ?st) (head ?st k) []"
      using Suc.prems(3) i len init_head_rings [OF Suc.prems(1), of k i "h_mem st"]
      unfolding head by (cases "k = i") simp_all
  qed
  then show ?case using Suc.IH [OF raw, of "Suc i"] Suc.prems(2) code by simp
qed

section \<open>The pool\<close>

lemma tiling_pool: "tiling {(0, 17)}"
  by (auto simp: tiling_def valid_block_def bytes_of_def bsize_17 [simplified])

definition pool_lists :: flists where
  "pool_lists k = (if k = 17 then [0] else [])"

lemma pool_lists_blocks: "free_blocks pool_lists = {(0, 17)}"
  by (auto simp: free_blocks_def pool_lists_def split: if_splits)

lemma malloc_init_pool_correct:
  assumes raw: "heap_raw st" and init: "\<forall>k < 18. b_count st ! k = 0 \<and> b_size st ! k = of_nat (bsize k)
      \<and> ring (h_mem st) (head st k) []"
  shows "\<exists>st'. malloc_init_pool st = Inr st' \<and> heap_ok st' pool_lists {}"
proof -
  let ?s = "st\<lparr>mem_base := MALLOC_BASE\<rparr>"
  have sizes: "b_size st = map (\<lambda>k. of_nat (bsize k)) [0..<18]"
    using init raw by (intro nth_equalityI) (simp_all add: heap_raw_def)
  have s: "?s = sized st" by (simp add: sized_def sizes)
  have ok: "pool_ok ?s" using sized_ok [OF raw] by (simp add: s)
  have bk: "buckets_ok ?s (\<lambda>_. [])" using init by (simp add: buckets_ok_def flists_ok_def head_def)
  have inv: "hinv ?s (\<lambda>_. []) {} {(0, 17)} {}"
    using ok bk tiling_pool by (simp add: hinv_def free_blocks_def)
  note p = hinv_put [OF inv, of 0 17]
  have lists: "(\<lambda>_. [])(17 := [0]) = pool_lists" by (simp add: fun_eq_iff pool_lists_def)
  let ?p = "put_block ?s 17 0"
  have i2: "hinv ?p pool_lists {} {} (insert (0, 17) {})" using p(1) by (simp add: lists)
  have "(0, 17) \<in> free_blocks pool_lists" by (simp add: pool_lists_blocks)
  note q = hinv_post [OF i2 this, unfolded snd_conv]
  let ?q = "poke ?p (last_byte (0, 17)) (of_nat 17)"
  have lc: "of_nat BUDDY_ENTRIES - 1 = (of_nat 17 :: u8)"
    by (simp add: BUDDY_ENTRIES_def BUDDY_MAX_ORDER_def BUDDY_MIN_ORDER_def)
  have cnt: "b_count st ! 17 = 0" using init by simp
  have addr: "MALLOC_BASE = baddr 0" by (simp add: baddr_def)
  have "malloc_init_pool st = Inr ?q"
  proof -
    have len: "length (b_count st) = 18" using raw by (simp add: heap_raw_def)
    have set: "tset (b_count st) (ucast (of_nat 17 :: u8)) 1 = Inr ((b_count st)[17 := 1])"
      using len u8_ucast_index [of 17] by (simp only: tset_in)
    let ?c = "?s\<lparr>b_count := (b_count st)[17 := 1]\<rparr>"
    have put: "upd_mem ?c (\<lambda>m. list_add m (baddr 0) (bucket_ptr ?c (of_nat 17))) = ?p"
      using bucket_ptr_head [of 17 ?c] cnt by (simp only:) (simp add: upd_mem_def put_block_def head_def)
    have okp: "pool_ok ?p" using ok by simp
    have base: "mem_base ?p = baddr 0" using okp by (simp add: pool_ok_def addr)
    show ?thesis
      unfolding malloc_init_pool_def Let_def lc
      using set put okp base bucket_size_eq [OF okp, of 17] last_byte_addr [of 17 0]
      by (simp add: addr [symmetric] code_poke [symmetric])
  qed
  moreover have "heap_ok ?q pool_lists {}"
    using q(1) raw by (simp add: heap_ok_def pool_lists_blocks coalesced_def heap_raw_def)
  ultimately show ?thesis by blast
qed

definition malloc_init_heap :: "heap \<Rightarrow> heap result" where
  "malloc_init_heap st = rbind (init_buckets BUDDY_ENTRIES st 0) malloc_init_pool"

lemma malloc_init_heap_ok:
  assumes raw: "heap_raw st"
  shows "\<exists>st'. malloc_init_heap st = Inr st' \<and> heap_ok st' pool_lists {}"
proof -
  obtain s1 where s1: "init_buckets 18 st (of_nat 0) = Inr s1" "heap_raw s1"
    "\<forall>k < 18. b_count s1 ! k = 0 \<and> b_size s1 ! k = of_nat (bsize k) \<and> ring (h_mem s1) (head s1 k) []"
    using init_buckets_correct [OF raw, of 0 18] by auto
  have n: "BUDDY_ENTRIES = 18" by (simp add: BUDDY_ENTRIES_def BUDDY_MAX_ORDER_def BUDDY_MIN_ORDER_def)
  show ?thesis
    using malloc_init_pool_correct [OF s1(2,3)] s1(1)
    unfolding malloc_init_heap_def n by (simp del: init_buckets.simps)
qed

lemma malloc_init_ok:
  assumes raw: "heap_raw st"
  shows "\<exists>st'. malloc_init_heap st = Inr st' \<and> heap_ok st' pool_lists {}
    \<and> malloc_init k st = rbind (malloc_map_pool k) (\<lambda>k'. Inr (k', st'))"
proof -
  obtain st' where st': "malloc_init_heap st = Inr st'" "heap_ok st' pool_lists {}"
    using malloc_init_heap_ok [OF raw] by blast
  then have "malloc_init k st = rbind (malloc_map_pool k) (\<lambda>k'. Inr (k', st'))"
    unfolding malloc_init_heap_def malloc_init_def rbind_Inr_iff by (auto simp: BUDDY_MIN_ORDER_def)
  then show ?thesis using st' by blast
qed

end
