(* ===== verification/Heap_Client.thy ===== *)
theory Heap_Client
  imports Prelude
begin

text \<open>
  The contract between a heap and the code that uses it. A client allocates, frees what it has
  allocated and writes into what it has allocated, in any order; the locale \<open>allocator\<close> states
  what the heap promises, and the lemmas in it what a client may rely on in every state it can
  reach: the pieces it holds never overlap, freeing a piece always works, and no byte of a piece
  changes unless the client writes it.
\<close>

text \<open>A live allocation is a pointer with the size that was requested.\<close>

type_synonym live = "(u64 \<times> u32) set"

definition span :: "u64 \<Rightarrow> u32 \<Rightarrow> u64 set" where
  "span p sz = (\<lambda>i. p + of_nat i) ` {..< unat sz}"

definition spans :: "live \<Rightarrow> u64 set" where
  "spans L = (\<Union>(p, sz) \<in> L. span p sz)"

inductive client_step ::
    "('s \<Rightarrow> u32 \<Rightarrow> (u64 \<times> 's) result) \<Rightarrow> ('s \<Rightarrow> u64 \<Rightarrow> 's result) \<Rightarrow> ('s \<Rightarrow> u64 \<Rightarrow> u8 \<Rightarrow> 's) \<Rightarrow> nat
       \<Rightarrow> 's \<times> live \<Rightarrow> 's \<times> live \<Rightarrow> bool"
  for alloc dealloc put limit where
  client_alloc: "unat sz \<le> limit \<Longrightarrow> alloc st sz = Inr (p, st') \<Longrightarrow>
    client_step alloc dealloc put limit (st, L) (st', insert (p, sz) L)"
| client_free: "(p, sz) \<in> L \<Longrightarrow> dealloc st p = Inr st' \<Longrightarrow>
    client_step alloc dealloc put limit (st, L) (st', L - {(p, sz)})"
| client_write: "a \<in> spans L \<Longrightarrow>
    client_step alloc dealloc put limit (st, L) (put st a v, L)"

inductive_cases client_stepE: "client_step alloc dealloc put limit (st, L) (st', L')"

locale allocator =
  fixes alloc :: "'s \<Rightarrow> u32 \<Rightarrow> (u64 \<times> 's) result"
    and dealloc :: "'s \<Rightarrow> u64 \<Rightarrow> 's result"
    and put :: "'s \<Rightarrow> u64 \<Rightarrow> u8 \<Rightarrow> 's"
    and get :: "'s \<Rightarrow> u64 \<Rightarrow> u8"
    and limit :: nat
    and ok :: "'s \<Rightarrow> live \<Rightarrow> bool"
  assumes alloc_ok: "ok st L \<Longrightarrow> unat sz \<le> limit \<Longrightarrow> alloc st sz = Inr (p, st') \<Longrightarrow>
      (p, sz) \<notin> L \<and> ok st' (insert (p, sz) L) \<and> (\<forall>a \<in> spans L. get st' a = get st a)"
    and dealloc_ok: "ok st L \<Longrightarrow> (p, sz) \<in> L \<Longrightarrow>
      \<exists>st'. dealloc st p = Inr st' \<and> ok st' (L - {(p, sz)}) \<and> (\<forall>a \<in> spans (L - {(p, sz)}). get st' a = get st a)"
    and put_ok: "ok st L \<Longrightarrow> a \<in> spans L \<Longrightarrow> ok (put st a v) L"
    and get_put: "get (put st a v) b = (if b = a then v else get st b)"
    and apart: "ok st L \<Longrightarrow> (p, s) \<in> L \<Longrightarrow> (q, t) \<in> L \<Longrightarrow> (p, s) \<noteq> (q, t) \<Longrightarrow> span p s \<inter> span q t = {}"
begin

lemma step_ok: "client_step alloc dealloc put limit (st, L) (st', L') \<Longrightarrow> ok st L \<Longrightarrow> ok st' L'"
  by (erule client_stepE) (auto dest: alloc_ok dealloc_ok intro: put_ok)

lemma run_ok:
  assumes "(client_step alloc dealloc put limit)\<^sup>*\<^sup>* (st, L) (st', L')" and "ok st L"
  shows "ok st' L'"
  using assms by (induction "(st', L')" arbitrary: st' L' rule: rtranclp_induct) (auto intro: step_ok)

text \<open>Data survives every step that does not write it.\<close>

lemma step_keeps:
  assumes step: "client_step alloc dealloc put limit (st, L) (st', L')" and ok: "ok st L"
    and a: "a \<in> spans L" "a \<in> spans L'"
  shows "get st' a = get st a \<or> (\<exists>v. st' = put st a v)"
  using step
proof (rule client_stepE)
  fix sz p assume "L' = insert (p, sz) L" "unat sz \<le> limit" "alloc st sz = Inr (p, st')"
  then show ?thesis using alloc_ok [OF ok] a(1) by blast
next
  fix p sz assume "L' = L - {(p, sz)}" "(p, sz) \<in> L" "dealloc st p = Inr st'"
  then show ?thesis using dealloc_ok [OF ok, of p sz] a(2) by auto
next
  fix b v assume "st' = put st b v"
  then show ?thesis by (cases "a = b") (auto simp: get_put)
qed

lemma free_never_fails: "ok st L \<Longrightarrow> (p, sz) \<in> L \<Longrightarrow> \<exists>st'. dealloc st p = Inr st'"
  using dealloc_ok by blast

end

end
