(* ===== verification/Malloc_Properties.thy ===== *)
theory Malloc_Properties
  imports Malloc_Init Heap_Client
begin

text \<open>
  What the clients of \<open>malloc\<close> and \<open>free\<close> rely on: the buddy allocator is an \<open>allocator\<close>, in
  every state that a client can reach from \<open>malloc_init\<close>.
\<close>

section \<open>Live allocations\<close>

definition block_ptr :: "block \<Rightarrow> u64" where
  "block_ptr b = baddr (fst b) + 8"

definition heap_live :: "heap \<Rightarrow> live \<Rightarrow> bool" where
  "heap_live st L \<longleftrightarrow> (\<exists>fl U f. heap_ok st fl U \<and> bij_betw f L U
     \<and> (\<forall>(p, sz) \<in> L. p = block_ptr (f (p, sz)) \<and> unat sz + 9 \<le> bsize (snd (f (p, sz)))))"

definition heap_put :: "heap \<Rightarrow> u64 \<Rightarrow> u8 \<Rightarrow> heap" where
  "heap_put st a v = upd_mem st (\<lambda>m. m(a := v))"

definition max_request :: nat where "max_request = 2 ^ 22 - 9"

text \<open>The block of a live allocation.\<close>

lemma live_block:
  assumes "bij_betw f L U" and "(p, sz) \<in> L"
    and "\<forall>(p, sz) \<in> L. p = block_ptr (f (p, sz)) \<and> unat sz + 9 \<le> bsize (snd (f (p, sz)))"
  shows "f (p, sz) \<in> U" and "p = block_ptr (f (p, sz))" and "unat sz + 9 \<le> bsize (snd (f (p, sz)))"
proof -
  show "f (p, sz) \<in> U" using bij_betwE [OF assms(1)] assms(2) by blast
  show "p = block_ptr (f (p, sz))" "unat sz + 9 \<le> bsize (snd (f (p, sz)))"
    using bspec [OF assms(3,2)] unfolding prod.case by blast+
qed

lemma span_member: "i < unat sz \<Longrightarrow> p + of_nat i \<in> span p sz"
  by (simp add: span_def)

text \<open>The bytes between preamble and postamble of a block.\<close>

lemma span_offset:
  assumes "unat sz + 9 \<le> bsize (snd b)" and "a \<in> span (block_ptr b) sz"
  obtains y where "a = baddr y" "y \<in> bytes_of b" "y \<noteq> fst b" "y \<noteq> last_byte b"
proof -
  obtain i where i: "i < unat sz" "a = block_ptr b + of_nat i" using assms(2) by (auto simp: span_def)
  have "a = baddr (fst b + 8 + i)"
    using i(2) baddr_add [of "fst b" 8] baddr_add [of "fst b + 8" i] by (simp add: block_ptr_def)
  then show thesis
    by (rule that) (use assms(1) i(1) in \<open>auto simp: bytes_of_def last_byte_def\<close>)
qed

lemma hinv_user_write:
  assumes inv: "hinv st fl U {} {}" and b: "b \<in> U" and y: "y \<in> bytes_of b" "y \<noteq> fst b" "y \<noteq> last_byte b"
  shows "hinv (poke st y v) fl U {} {}"
proof -
  have vb: "valid_block b" using hinv_valid [OF inv] b by blast
  have yp: "y < pool_size" "last_byte b < pool_size" "fst b < pool_size"
    using bytes_in_pool [OF vb y(1)] valid_last [OF vb] valid_offset [OF vb] by auto
  have "hinv st fl (U - {b}) {b} {}" using hinv_unuse [OF inv b] by simp
  then have p: "hinv (poke st y v) fl (U - {b}) {b} {}" by (rule hinv_poke(1)) (use y in auto)
  have "pb st (last_byte b) = USED" "pb st (fst b) = of_nat (snd b)" using inv b by (auto simp: hinv_def)
  then have "hinv (poke st y v) fl (insert b (U - {b})) ({b} - {b}) {}"
    by (intro hinv_use [OF p]) (use yp y in \<open>simp_all add: pb_poke\<close>)
  then show ?thesis using b by (simp add: insert_absorb)
qed

lemma heap_live_write:
  assumes "heap_live st L" and "a \<in> spans L"
  shows "heap_live (heap_put st a v) L"
proof -
  obtain fl U f where h: "heap_ok st fl U" "bij_betw f L U"
    "\<forall>(p, sz) \<in> L. p = block_ptr (f (p, sz)) \<and> unat sz + 9 \<le> bsize (snd (f (p, sz)))"
    using assms(1) unfolding heap_live_def by blast
  obtain p sz where ps: "(p, sz) \<in> L" "a \<in> span p sz" using assms(2) by (auto simp: spans_def)
  define b where "b = f (p, sz)"
  note b = live_block [OF h(2) ps(1) h(3), folded b_def]
  obtain y where y: "a = baddr y" "y \<in> bytes_of b" "y \<noteq> fst b" "y \<noteq> last_byte b"
    using span_offset [OF b(3) ps(2) [unfolded b(2)]] .
  have eq: "heap_put st a v = poke st y v" by (simp add: heap_put_def y(1) code_poke)
  have "heap_ok (poke st y v) fl U"
    using h(1) hinv_user_write [OF _ b(1) y(2-4)] by (simp add: heap_ok_def)
  then show ?thesis unfolding heap_live_def eq using h(2,3) by blast
qed

text \<open>A byte of a live allocation is a byte of a used block.\<close>

lemma keeps_spans:
  assumes "keeps U st st'" and "bij_betw f L U" and "a \<in> spans L"
    and "\<forall>(p, sz) \<in> L. p = block_ptr (f (p, sz)) \<and> unat sz + 9 \<le> bsize (snd (f (p, sz)))"
  shows "h_mem st' a = h_mem st a"
proof -
  obtain p sz where ps: "(p, sz) \<in> L" "a \<in> span p sz" using assms(3) by (auto simp: spans_def)
  define b where "b = f (p, sz)"
  note b = live_block [OF assms(2) ps(1) assms(4), folded b_def]
  obtain y where "a = baddr y" "y \<in> bytes_of b"
    using span_offset [OF b(3) ps(2) [unfolded b(2)]] .
  then show ?thesis using assms(1) b(1) by (auto simp: keeps_def pb_def)
qed

lemma free_offset_unused:
  assumes "heap_ok st fl U" and "x \<in> set (fl j)" and "j < 18"
  shows "(x, k) \<notin> U"
proof
  assume u: "(x, k) \<in> U"
  have "tiling (free_blocks fl \<union> U)" "free_blocks fl \<inter> U = {}" using assms(1) by (simp_all add: heap_ok_def hinv_def)
  moreover have "(x, j) \<in> free_blocks fl" using assms(2,3) by (simp add: free_block_iff)
  ultimately show False using u tiling_offset [of "free_blocks fl \<union> U" x j k] by blast
qed

lemma block_ptr_inj:
  assumes "valid_block b" and "valid_block c" and "block_ptr b = block_ptr c"
  shows "fst b = fst c"
  using assms valid_offset [of b] valid_offset [of c] baddr_inj [of "fst b" "fst c"]
  by (simp add: block_ptr_def)

text \<open>The outcome of \<open>malloc\<close> with live allocations.\<close>

lemma request_size:
  assumes "unat (sz :: u32) \<le> max_request"
  shows "unat (sz + 9) = unat sz + 9 \<and> unat (sz + 9) \<le> pool_size"
proof -
  have "unat (sz + 9) = unat sz + unat (9 :: u32)"
    using assms by (intro unat_add_small) (simp add: max_request_def)
  then show ?thesis using assms by (simp add: max_request_def pool_size_def)
qed

lemma heap_live_malloc:
  assumes live: "heap_live st L" and sz: "unat sz \<le> max_request" and m: "malloc st sz = Inr (p, st')"
  shows "(p, sz) \<notin> L \<and> heap_live st' (insert (p, sz) L) \<and> (\<forall>a \<in> spans L. h_mem st' a = h_mem st a)"
proof -
  obtain fl U f where h: "heap_ok st fl U" "bij_betw f L U"
    "\<forall>(p, sz) \<in> L. p = block_ptr (f (p, sz)) \<and> unat sz + 9 \<le> bsize (snd (f (p, sz)))"
    using live unfolding heap_live_def by blast
  note r = request_size [OF sz]
  define e where "e = order_for (unat (sz + 9))"
  define j where "j = bucket_for fl e"
  define x where "x = hd (fl j)"
  have small: "unat (sz + 9) \<le> pool_size" using r by simp
  have e: "e < 18" "unat sz + 9 \<le> bsize e"
    using next_power2_order_for(2,3) [OF small] r by (simp_all add: e_def)
  have e18: "e \<le> 18" using e(1) by simp
  have j: "j < 18" using malloc_fails [OF h(1) small] m bucket_for_props(2) [OF e18, of fl]
    by (cases "j = 18") (auto simp: e_def j_def)
  have x: "x \<in> set (fl j)"
    using bucket_for_props(4) [OF e18, of fl] j by (simp add: x_def j_def)
  obtain st1 fl1 where s: "malloc st sz = Inr (baddr x + 8, st1)" "heap_ok st1 fl1 (insert (x, e) U)" "keeps U st st1"
    using malloc_succeeds [OF h(1) small e_def j_def j x_def] by blast
  have eq: "p = block_ptr (x, e)" "st' = st1" using m s(1) by (simp_all add: block_ptr_def)
  have new: "(p, sz) \<notin> L"
  proof
    assume l: "(p, sz) \<in> L"
    define c where "c = f (p, sz)"
    note c = live_block(1,2) [OF h(2) l h(3), folded c_def]
    have "valid_block c" "valid_block (x, e)"
      using s(2) hinv_valid [of st1 fl1 "insert (x, e) U" "{}" "{}"] c(1) by (auto simp: heap_ok_def)
    then have "fst c = x" using block_ptr_inj [of c "(x, e)"] c(2) eq(1) by simp
    then show False using free_offset_unused [OF h(1) x j, of "snd c"] c(1) by (metis prod.collapse)
  qed
  let ?f = "f((p, sz) := (x, e))"
  have "(x, e) \<notin> U" using free_offset_unused [OF h(1) x j] .
  moreover have "bij_betw ?f L U \<longleftrightarrow> bij_betw f L U" using new by (intro bij_betw_cong) auto
  ultimately have "bij_betw ?f (insert (p, sz) L) (insert (x, e) U)"
    using h(2) new notIn_Un_bij_betw [of "(p, sz)" L ?f U] by simp
  moreover have "\<forall>(q, t) \<in> insert (p, sz) L. q = block_ptr (?f (q, t)) \<and> unat t + 9 \<le> bsize (snd (?f (q, t)))"
    using h(3) eq(1) e(2) by (auto split: if_splits)
  ultimately have "heap_live st' (insert (p, sz) L)" unfolding heap_live_def using s(2) eq(2) by blast
  moreover have "\<forall>a \<in> spans L. h_mem st' a = h_mem st a"
    using keeps_spans [OF s(3) h(2) _ h(3)] eq(2) by blast
  ultimately show ?thesis using new by blast
qed

lemma heap_live_free:
  assumes live: "heap_live st L" and p: "(p, sz) \<in> L"
  shows "\<exists>st'. free st p = Inr st' \<and> heap_live st' (L - {(p, sz)})
    \<and> (\<forall>a \<in> spans (L - {(p, sz)}). h_mem st' a = h_mem st a)"
proof -
  obtain fl U f where h: "heap_ok st fl U" "bij_betw f L U"
    "\<forall>(p, sz) \<in> L. p = block_ptr (f (p, sz)) \<and> unat sz + 9 \<le> bsize (snd (f (p, sz)))"
    using live unfolding heap_live_def by blast
  obtain x k where b: "f (p, sz) = (x, k)" by fastforce
  have xk: "(x, k) \<in> U" "p = baddr x + 8"
    using live_block [OF h(2) p h(3), unfolded b] by (simp_all add: block_ptr_def)
  obtain st' fl' where s: "free st p = Inr st'" "heap_ok st' fl' (U - {(x, k)})" "keeps (U - {(x, k)}) st st'"
    using free_keeps_inv [OF h(1) xk(1)] xk(2) by blast
  have bij: "bij_betw f (L - {(p, sz)}) (U - {(x, k)})"
    using bij_betw_DiffI [OF h(2), of "{(p, sz)}" "{(x, k)}"] p b xk(1) by simp
  have sub: "\<forall>(p', sz') \<in> L - {(p, sz)}. p' = block_ptr (f (p', sz')) \<and> unat sz' + 9 \<le> bsize (snd (f (p', sz')))"
    using h(3) by blast
  show ?thesis
    using s bij sub keeps_spans [OF s(3) bij _ sub] unfolding heap_live_def by blast
qed

lemma heap_live_apart:
  assumes live: "heap_live st L" and pq: "(p, s) \<in> L" "(q, t) \<in> L" "(p, s) \<noteq> (q, t)"
  shows "span p s \<inter> span q t = {}"
proof -
  obtain fl U f where h: "heap_ok st fl U" "bij_betw f L U"
    "\<forall>(p, sz) \<in> L. p = block_ptr (f (p, sz)) \<and> unat sz + 9 \<le> bsize (snd (f (p, sz)))"
    using live unfolding heap_live_def by blast
  define b where "b = f (p, s)"
  define c where "c = f (q, t)"
  note b = live_block [OF h(2) pq(1) h(3), folded b_def] and c = live_block [OF h(2) pq(2) h(3), folded c_def]
  have ne: "b \<noteq> c" using h(2) pq unfolding b_def c_def bij_betw_def inj_on_def by blast
  have T: "tiling (free_blocks fl \<union> U)" using h(1) by (simp add: heap_ok_def hinv_def)
  show ?thesis
  proof (rule ccontr)
    assume "span p s \<inter> span q t \<noteq> {}"
    then obtain a where a: "a \<in> span p s" "a \<in> span q t" by blast
    obtain y where y: "a = baddr y" "y \<in> bytes_of b" using span_offset [OF b(3) a(1) [unfolded b(2)]] .
    obtain z where z: "a = baddr z" "z \<in> bytes_of c" using span_offset [OF c(3) a(2) [unfolded c(2)]] .
    have "y < pool_size" "z < pool_size"
      using bytes_in_pool [OF tiling_valid [OF T] y(2)] bytes_in_pool [OF tiling_valid [OF T] z(2)] b(1) c(1) by auto
    then have "y = z" using y(1) z(1) baddr_inj by metis
    then show False using tiling_unique [OF T _ _ y(2)] z(2) b(1) c(1) ne by blast
  qed
qed

interpretation heap: allocator malloc free heap_put h_mem max_request heap_live
proof unfold_locales
  show "h_mem (heap_put st a v) b = (if b = a then v else h_mem st b)" for st a v b
    by (simp add: heap_put_def upd_mem_def)
qed (fact heap_live_malloc heap_live_free heap_live_write heap_live_apart)+

section \<open>The heap after initialisation\<close>

definition demo_heap :: heap where
  "demo_heap = \<lparr>h_mem = (\<lambda>_. 0), b_count = replicate 18 0, b_size = replicate 18 0, b_addr = 0x200000,
     mem_base = 0, mm_lock = SPINLOCK_UNLOCKED\<rparr>"

lemma demo_heap_raw: "heap_raw demo_heap"
  by (simp add: heap_raw_def demo_heap_def)

lemma heap_live_empty: "heap_ok st fl {} \<Longrightarrow> heap_live st {}"
  unfolding heap_live_def by (intro exI [of _ fl] exI [of _ "{}"]) (auto simp: bij_betw_def)

lemma heap_live_none:
  assumes "heap_live st {}"
  obtains fl where "heap_ok st fl {}"
  using assms unfolding heap_live_def bij_betw_def by auto

lemma heap_init_live: "heap_raw st0 \<Longrightarrow> malloc_init_heap st0 = Inr st \<Longrightarrow> heap_live st {}"
  using malloc_init_heap_ok [of st0] heap_live_empty by auto

text \<open>States that a client reaches after initialisation.\<close>

definition heap_reach :: "heap \<Rightarrow> heap \<Rightarrow> live \<Rightarrow> bool" where
  "heap_reach st0 st L \<longleftrightarrow> (\<exists>st1. malloc_init_heap st0 = Inr st1
     \<and> (client_step malloc free heap_put max_request)\<^sup>*\<^sup>* (st1, {}) (st, L))"

lemma heap_reach_live:
  assumes "heap_raw st0" and "heap_reach st0 st L"
  shows "heap_live st L"
  using assms heap_init_live heap.run_ok unfolding heap_reach_def by blast

text \<open>Live allocations lie in the pool.\<close>

lemma heap_live_pool:
  assumes live: "heap_live st L" and p: "(p, sz) \<in> L" and a: "a \<in> span p sz"
  shows "unat MALLOC_BASE \<le> unat a \<and> unat a < unat MALLOC_END"
proof -
  obtain fl U f where h: "heap_ok st fl U" "bij_betw f L U"
    "\<forall>(p, sz) \<in> L. p = block_ptr (f (p, sz)) \<and> unat sz + 9 \<le> bsize (snd (f (p, sz)))"
    using live unfolding heap_live_def by blast
  define b where "b = f (p, sz)"
  note b = live_block [OF h(2) p h(3), folded b_def]
  obtain y where y: "a = baddr y" "y \<in> bytes_of b" using span_offset [OF b(3) a [unfolded b(2)]] .
  have "valid_block b" using h(1) hinv_valid [of st fl U "{}" "{}"] b(1) by (auto simp: heap_ok_def)
  then have "y < pool_size" using bytes_in_pool y(2) by blast
  then show ?thesis
    using unat_baddr [of y] y(1)
    by (simp add: MALLOC_BASE_def MALLOC_END_def BUDDY_MAX_ORDER_def pool_size_def push_bit_of_1)
qed

text \<open>A heap without live allocations is a single block.\<close>

lemma heap_none_pool:
  assumes "heap_ok st fl {}"
  shows "free_blocks fl = {(0, 17)}"
  using assms coalesced_tiling_single by (simp add: heap_ok_def hinv_def)

lemma pool_bucket:
  assumes "free_blocks fl = {(0, 17)}" and "e < 18"
  shows "bucket_for fl e = 17" and "set (fl 17) = {0}"
proof -
  have mem: "x \<in> set (fl k) \<longleftrightarrow> x = 0 \<and> k = 17" if "k < 18" for x k
    using that assms(1) free_block_iff [of x k fl] by auto
  have "fl k = []" if "k < 17" for k
    using mem [of k "hd (fl k)"] that by (cases "fl k") auto
  moreover have top: "set (fl 17) = {0}" using mem [of 17] by auto
  moreover have ne: "fl 17 \<noteq> []" using top by (metis empty_set insert_not_empty)
  ultimately show "bucket_for fl e = 17" "set (fl 17) = {0}"
    using takeWhile_upt [of e 17 18 "\<lambda>j. fl j = []"] assms(2) by (simp_all add: bucket_for_def)
qed

section \<open>The properties\<close>

text \<open>
  C18: \<open>malloc_init\<close>, on any memory with the bucket array outside the pool, fails only when the
  pool cannot be mapped, and otherwise leaves a heap that satisfies the invariant: one free block
  of 4MB, in the bucket of the highest order, with its postamble, and no used block.
\<close>

theorem malloc_init_establishes:
  assumes "heap_raw st"
  shows "\<exists>st'. malloc_init_heap st = Inr st' \<and> heap_ok st' pool_lists {}
    \<and> malloc_init k st = rbind (malloc_map_pool k) (\<lambda>k'. Inr (k', st'))"
  using assms by (rule malloc_init_ok)

theorem malloc_init_establishes_witness:
  "\<exists>st'. malloc_init_heap demo_heap = Inr st' \<and> heap_ok st' pool_lists {}"
  using malloc_init_establishes [OF demo_heap_raw] by blast

lemma demo_heap_started: "\<exists>st. malloc_init_heap demo_heap = Inr st \<and> heap_ok st pool_lists {}"
  using malloc_init_heap_ok [OF demo_heap_raw] .

text \<open>
  C4: \<open>malloc\<close>, for a request that fits into the pool, panics exactly when no free block of at
  least the needed order exists; otherwise it takes the first block of the smallest such order
  \<open>j\<close>, splits it down to the least order \<open>e\<close> that holds the request with its preamble and
  postamble, gives the right halves back, returns the address behind the preamble, keeps the
  invariant and changes no byte of any block in use.
\<close>

theorem malloc_best_fit:
  assumes "heap_ok st fl U" and "unat sz \<le> max_request"
  shows "\<exists>e < 18. unat sz + 9 \<le> bsize e \<and> (e = 0 \<or> bsize (e - 1) < unat sz + 9) \<and>
    (if \<forall>j. e \<le> j \<and> j < 18 \<longrightarrow> fl j = [] then malloc st sz = Inl (Panic ''out of memory'')
     else \<exists>j st' fl'. e \<le> j \<and> j < 18 \<and> fl j \<noteq> [] \<and> (\<forall>i. e \<le> i \<and> i < j \<longrightarrow> fl i = [])
       \<and> malloc st sz = Inr (baddr (hd (fl j)) + 8, st') \<and> heap_ok st' fl' (insert (hd (fl j), e) U)
       \<and> free_blocks fl' = free_blocks fl - {(hd (fl j), j)} \<union> right_halves (hd (fl j)) e j
       \<and> keeps U st st')"
proof -
  note r = request_size [OF assms(2)]
  have small: "unat (sz + 9) \<le> pool_size" using r by simp
  define e where "e = order_for (unat (sz + 9))"
  note o = next_power2_order_for(2-4) [OF small, folded e_def]
  have e18: "e \<le> 18" using o(1) by simp
  define j where "j = bucket_for fl e"
  note b = bucket_for_props [OF e18, where fl = fl, folded j_def]
  have "if \<forall>j. e \<le> j \<and> j < 18 \<longrightarrow> fl j = [] then malloc st sz = Inl (Panic ''out of memory'')
     else \<exists>j st' fl'. e \<le> j \<and> j < 18 \<and> fl j \<noteq> [] \<and> (\<forall>i. e \<le> i \<and> i < j \<longrightarrow> fl i = [])
       \<and> malloc st sz = Inr (baddr (hd (fl j)) + 8, st') \<and> heap_ok st' fl' (insert (hd (fl j), e) U)
       \<and> free_blocks fl' = free_blocks fl - {(hd (fl j), j)} \<union> right_halves (hd (fl j)) e j \<and> keeps U st st'"
  proof (cases "j = 18")
    case True
    then have "\<forall>j. e \<le> j \<and> j < 18 \<longrightarrow> fl j = []" using b(3) by blast
    then show ?thesis using malloc_fails [OF assms(1) small] True by (simp add: j_def e_def)
  next
    case False
    then have j: "j < 18" "fl j \<noteq> []" using b(2,4) by simp_all
    then have "\<not> (\<forall>j. e \<le> j \<and> j < 18 \<longrightarrow> fl j = [])" using b(1) by blast
    moreover have "\<forall>i. e \<le> i \<and> i < j \<longrightarrow> fl i = []" using b(3) by blast
    ultimately show ?thesis
      using malloc_succeeds [OF assms(1) small e_def j_def j(1) refl] b(1) j by (simp only: if_False) blast
  qed
  moreover have "e < 18" "unat sz + 9 \<le> bsize e" "e = 0 \<or> bsize (e - 1) < unat sz + 9"
    using o r by simp_all
  ultimately show ?thesis by (intro exI [of _ e] conjI)
qed

theorem malloc_best_fit_witness:
  "\<exists>st st' fl'. heap_ok st pool_lists {} \<and> malloc st 100 = Inr (0x600008, st')
     \<and> heap_ok st' fl' {(0, 2)}
     \<and> free_blocks fl' = free_blocks pool_lists - {(0, 17)} \<union> right_halves 0 2 17"
proof -
  obtain st where st: "heap_ok st pool_lists {}" using demo_heap_started by blast
  have sz: "unat (100 :: u32) \<le> max_request" by (simp add: max_request_def)
  obtain e where e: "e < 18" "unat (100 :: u32) + 9 \<le> bsize e" "e = 0 \<or> bsize (e - 1) < unat (100 :: u32) + 9"
    and r: "if \<forall>j. e \<le> j \<and> j < 18 \<longrightarrow> pool_lists j = [] then malloc st 100 = Inl (Panic ''out of memory'')
     else \<exists>j st' fl'. e \<le> j \<and> j < 18 \<and> pool_lists j \<noteq> [] \<and> (\<forall>i. e \<le> i \<and> i < j \<longrightarrow> pool_lists i = [])
       \<and> malloc st 100 = Inr (baddr (hd (pool_lists j)) + 8, st') \<and> heap_ok st' fl' (insert (hd (pool_lists j), e) {})
       \<and> free_blocks fl' = free_blocks pool_lists - {(hd (pool_lists j), j)} \<union> right_halves (hd (pool_lists j)) e j
       \<and> keeps {} st st'"
    using malloc_best_fit [OF st sz] by blast
  have "order_for 109 = e" by (rule order_for_eq) (use e in simp_all)
  moreover have "order_for 109 = 2" by (rule order_for_eq) (simp_all add: bsize_def)
  ultimately have e2: "e = 2" by simp
  have "pool_lists 17 = [0]" "pool_lists j = [] \<longleftrightarrow> j \<noteq> 17" for j by (simp_all add: pool_lists_def)
  then have some: "\<not> (\<forall>j. e \<le> j \<and> j < 18 \<longrightarrow> pool_lists j = [])" using e(1) by (auto intro!: exI [of _ 17])
  obtain j st' fl' where "pool_lists j \<noteq> []" "malloc st 100 = Inr (baddr (hd (pool_lists j)) + 8, st')"
    "heap_ok st' fl' (insert (hd (pool_lists j), e) {})"
    "free_blocks fl' = free_blocks pool_lists - {(hd (pool_lists j), j)} \<union> right_halves (hd (pool_lists j)) e j"
    using r unfolding if_not_P [OF some] by blast
  moreover from this(1) have "j = 17" "hd (pool_lists j) = 0" by (simp_all add: pool_lists_def split: if_splits)
  ultimately show ?thesis using st e2 by (auto simp: baddr_def MALLOC_BASE_def)
qed

text \<open>
  C5: \<open>free\<close> of a block in use always returns; it removes exactly this block from the used ones,
  merges it with its buddy as long as the buddy is free, so that no two free buddies remain, and
  changes no byte of any other block in use.
\<close>

theorem free_coalesces:
  assumes "heap_ok st fl U" and "(x, k) \<in> U"
  shows "\<exists>st' fl'. free st (baddr x + 8) = Inr st' \<and> heap_ok st' fl' (U - {(x, k)})
    \<and> (\<forall>b \<in> free_blocks fl'. snd b < 17 \<longrightarrow> buddy b \<notin> free_blocks fl') \<and> keeps (U - {(x, k)}) st st'"
proof -
  obtain st' fl' where s: "free st (baddr x + 8) = Inr st'" "heap_ok st' fl' (U - {(x, k)})"
    "keeps (U - {(x, k)}) st st'" using free_keeps_inv [OF assms] by blast
  moreover have "\<forall>b \<in> free_blocks fl'. snd b < 17 \<longrightarrow> buddy b \<notin> free_blocks fl'"
    using s(2) by (simp add: heap_ok_def coalesced_def)
  ultimately show ?thesis by blast
qed

theorem free_coalesces_witness:
  "\<exists>st p st' st''. malloc st 100 = Inr (p, st') \<and> free st' p = Inr st''"
proof -
  obtain st where st: "heap_ok st pool_lists {}" using demo_heap_started by blast
  have small: "unat (100 + 9 :: u32) \<le> pool_size" by (simp add: pool_size_def)
  have "order_for (unat (100 + 9 :: u32)) = 2" by (rule order_for_eq) (simp_all add: bsize_def)
  moreover have "bucket_for pool_lists 2 = 17" using pool_bucket(1) [OF pool_lists_blocks] by simp
  ultimately obtain x st' fl' where "malloc st 100 = Inr (baddr x + 8, st')" "heap_ok st' fl' {(x, 2)}"
    using malloc_succeeds [OF st small, of 2 17] by auto
  then show ?thesis using free_coalesces [of st' fl' "{(x, 2)}" x 2] by blast
qed

text \<open>
  C3: In every state that a client reaches from initialisation by allocating, freeing what it
  holds and writing into what it holds, the pieces it holds are pairwise disjoint and lie in
  the pool, and each of them can be freed.
\<close>

theorem heap_pieces_disjoint:
  assumes "heap_raw st0" and "heap_reach st0 st L"
  shows "(\<forall>(p, s) \<in> L. \<forall>(q, t) \<in> L. (p, s) \<noteq> (q, t) \<longrightarrow> span p s \<inter> span q t = {})
    \<and> (\<forall>(p, s) \<in> L. (\<forall>a \<in> span p s. unat MALLOC_BASE \<le> unat a \<and> unat a < unat MALLOC_END)
         \<and> (\<exists>st'. free st p = Inr st'))"
proof -
  note live = heap_reach_live [OF assms]
  show ?thesis
    using heap.apart [OF live] heap_live_pool [OF live] heap.free_never_fails [OF live] by blast
qed

lemma heap_reach_init: "malloc_init_heap st0 = Inr st \<Longrightarrow> heap_reach st0 st {}"
  by (auto simp: heap_reach_def)

lemma heap_reach_step:
  "heap_reach st0 st L \<Longrightarrow> client_step malloc free heap_put max_request (st, L) (st', L') \<Longrightarrow> heap_reach st0 st' L'"
  unfolding heap_reach_def using rtranclp.rtrancl_into_rtrancl by metis

lemma malloc_fresh_pool:
  assumes h: "heap_ok st fl {}" and sz: "unat sz \<le> max_request"
  shows "\<exists>st'. malloc st sz = Inr (0x600008, st')"
proof -
  note r = request_size [OF sz]
  have small: "unat (sz + 9) \<le> pool_size" using r by simp
  define e where "e = order_for (unat (sz + 9))"
  have e: "e < 18" using next_power2_order_for(2) [OF small] by (simp add: e_def)
  note pool = heap_none_pool [OF h]
  note b = pool_bucket [OF pool e]
  have "hd (fl 17) = 0" using b(2) by (metis empty_set hd_in_set insert_not_empty singletonD)
  then obtain st' where "malloc st sz = Inr (baddr 0 + 8, st')"
    using malloc_succeeds [OF h small e_def b(1) [symmetric] _ refl] by auto
  then show ?thesis by (simp add: baddr_def MALLOC_BASE_def)
qed

lemma demo_reach_two:
  "\<exists>st p. heap_reach demo_heap st {(p, 100)}"
proof -
  obtain st where st: "malloc_init_heap demo_heap = Inr st" "heap_ok st pool_lists {}"
    using demo_heap_started by blast
  have sz: "unat (100 :: u32) \<le> max_request" by (simp add: max_request_def)
  obtain st' where "malloc st 100 = Inr (0x600008, st')" using malloc_fresh_pool [OF st(2) sz] by blast
  then have "heap_reach demo_heap st' (insert (0x600008, 100) {})"
    by (intro heap_reach_step [OF heap_reach_init [OF st(1)]] client_alloc sz)
  then show ?thesis by blast
qed

theorem heap_pieces_disjoint_witness:
  "\<exists>st p st'. heap_reach demo_heap st {(p, 100)} \<and> unat MALLOC_BASE \<le> unat p \<and> free st p = Inr st'"
proof -
  obtain st p where r: "heap_reach demo_heap st {(p, 100)}" using demo_reach_two by blast
  have p: "p \<in> span p 100" using span_member [of 0 100 p] by simp
  have "\<forall>(p, s) \<in> {(p, 100)}. (\<forall>a \<in> span p s. unat MALLOC_BASE \<le> unat a \<and> unat a < unat MALLOC_END)
         \<and> (\<exists>st'. free st p = Inr st')"
    using heap_pieces_disjoint [OF demo_heap_raw r] by (rule conjunct2)
  then show ?thesis using r p by auto
qed

text \<open>
  C16: In every reachable state, a step of the client changes a byte of a piece that stays live
  only if the step is a write to this very byte: neither \<open>malloc\<close> nor \<open>free\<close> nor a write to
  another piece touches it.
\<close>

theorem heap_data_preserved:
  assumes "heap_raw st0" and "heap_reach st0 st L"
    and "client_step malloc free heap_put max_request (st, L) (st', L')"
    and "a \<in> spans L" and "a \<in> spans L'"
  shows "h_mem st' a = h_mem st a \<or> (\<exists>v. st' = heap_put st a v)"
  using heap.step_keeps [OF assms(3) heap_reach_live [OF assms(1,2)] assms(4,5)] .

theorem heap_data_preserved_witness:
  "\<exists>st p. heap_reach demo_heap st {(p, 100)}
     \<and> (h_mem (heap_put st p 7) (p + 1) = h_mem st (p + 1) \<or> (\<exists>v. heap_put st p 7 = heap_put st (p + 1) v))"
proof -
  obtain st p where r: "heap_reach demo_heap st {(p, 100)}" using demo_reach_two by blast
  have p: "p \<in> spans {(p, 100)}" "p + 1 \<in> spans {(p, 100)}"
    using span_member [of 0 100 p] span_member [of 1 100 p] by (simp_all add: spans_def)
  show ?thesis
    using r heap_data_preserved [OF demo_heap_raw r client_write [OF p(1)] p(2) p(2)] by blast
qed

text \<open>
  C17: Whatever a client did, once it has freed everything the pool is a single block again: every
  request that fits into the pool succeeds, and is served from the start of the pool.
\<close>

theorem heap_all_freed:
  assumes "heap_raw st0" and "heap_reach st0 st {}" and "unat sz \<le> max_request"
  shows "\<exists>st'. malloc st sz = Inr (0x600008, st')"
proof -
  obtain fl where "heap_ok st fl {}" using heap_live_none [OF heap_reach_live [OF assms(1,2)]] .
  then show ?thesis using assms(3) by (rule malloc_fresh_pool)
qed

theorem heap_all_freed_witness:
  "\<exists>st p st' st''. heap_reach demo_heap st {(p, 100)} \<and> free st p = Inr st'
     \<and> malloc st' 4194295 = Inr (0x600008, st'')"
proof -
  obtain st p where r: "heap_reach demo_heap st {(p, 100)}" using demo_reach_two by blast
  obtain st' where f: "free st p = Inr st'"
    using heap.free_never_fails [OF heap_reach_live [OF demo_heap_raw r]] by blast
  have "heap_reach demo_heap st' ({(p, 100)} - {(p, 100)})"
    by (rule heap_reach_step [OF r client_free]) (simp_all add: f)
  then have "heap_reach demo_heap st' {}" by simp
  then show ?thesis
    using heap_all_freed [OF demo_heap_raw, of st' 4194295] r f by (auto simp: max_request_def)
qed

text \<open>
  C22: The loop of \<open>next_power2\<close> ends exactly for values up to \<open>2 ^ 31\<close>: there 27 rounds are enough
  and the result is the least exponent, at least 5, of a power of two that is large enough; for
  every larger value the shifted bit is lost and no number of rounds suffices.
\<close>

theorem next_power2_ends:
  assumes "27 \<le> fuel"
  shows "if unat v \<le> 2 ^ 31
    then \<exists>N. next_power2 fuel v = Inr (of_nat N) \<and> 5 \<le> N \<and> N \<le> 31 \<and> unat v \<le> 2 ^ N \<and> (N = 5 \<or> 2 ^ (N - 1) < unat v)
    else next_power2 fuel v = Inl OutOfFuel"
proof (cases "unat v \<le> 2 ^ 31")
  case True
  then show ?thesis using next_power2_order [OF True assms] by (simp only: if_True) blast
next
  case False
  then show ?thesis using next_power2_diverges [of v fuel] by simp
qed

theorem next_power2_ends_witness:
  "(\<exists>N. next_power2 64 1000 = Inr (of_nat N) \<and> 1000 \<le> (2 :: nat) ^ N) \<and> next_power2 1000000 0x80000001 = Inl OutOfFuel"
  using next_power2_ends [of 64 1000] next_power2_ends [of 1000000 "0x80000001"] by auto


text \<open>
  C35: The size is not checked. A request between 4MB and 2GB makes \<open>malloc\<close> read past the bucket
  array; above 2GB it loops for ever; and for the 9 largest sizes the addition of the overhead
  wraps around and \<open>malloc\<close> returns a block of 32 bytes.
\<close>

theorem malloc_unchecked_sizes:
  assumes h: "heap_ok st fl U"
  shows "(max_request < unat sz \<and> unat sz + 9 \<le> 2 ^ 31 \<longrightarrow> malloc st sz = Inl OutOfBounds)
    \<and> (2 ^ 31 < unat sz + 9 \<and> unat sz + 9 < 2 ^ 32 \<longrightarrow> (\<forall>fuel. next_power2 fuel (sz + 9) = Inl OutOfFuel))
    \<and> (2 ^ 32 \<le> unat sz + 9 \<and> free_blocks fl \<noteq> {} \<longrightarrow>
        (\<exists>x st' fl'. malloc st sz = Inr (baddr x + 8, st') \<and> heap_ok st' fl' (insert (x, 0) U)))"
proof (intro conjI impI allI)
  have plus: "unat (sz + 9) = (unat sz + 9) mod 2 ^ 32" by (simp add: unat_word_ariths)
  show "malloc st sz = Inl OutOfBounds" if "max_request < unat sz \<and> unat sz + 9 \<le> 2 ^ 31"
    using that plus by (intro malloc_too_large [OF h]) (simp_all add: max_request_def pool_size_def)
  show "next_power2 fuel (sz + 9) = Inl OutOfFuel" if "2 ^ 31 < unat sz + 9 \<and> unat sz + 9 < 2 ^ 32" for fuel
    using that plus by (intro next_power2_diverges) simp
  show "\<exists>x st' fl'. malloc st sz = Inr (baddr x + 8, st') \<and> heap_ok st' fl' (insert (x, 0) U)"
    if w: "2 ^ 32 \<le> unat sz + 9 \<and> free_blocks fl \<noteq> {}"
  proof -
    have "unat sz < 2 ^ 32" using unsigned_less [of sz] by simp
    then have "(unat sz + 9) mod 2 ^ 32 = unat sz + 9 - 2 ^ 32"
      using w by (subst mod_if) simp
    then have small: "unat (sz + 9) < 9" using plus \<open>unat sz < 2 ^ 32\<close> by simp
    then have o: "0 = order_for (unat (sz + 9))" by (intro order_for_eq [symmetric]) (simp_all add: bsize_def)
    obtain k y where "k < 18" "y \<in> set (fl k)" using w by (auto simp: free_blocks_def)
    then have "bucket_for fl 0 < 18"
      using bucket_for_props(2,3) [of 0, where fl = fl] by (cases "bucket_for fl 0 = 18") fastforce+
    then show ?thesis
      using malloc_succeeds [OF h _ o refl _ refl] small by (simp add: pool_size_def) blast
  qed
qed

theorem malloc_unchecked_sizes_witness:
  "\<exists>st x st'. malloc st 0x400000 = Inl OutOfBounds \<and> malloc st 0xFFFFFFFF = Inr (x, st')"
proof -
  obtain st where st: "heap_ok st pool_lists {}" using demo_heap_started by blast
  show ?thesis
    using malloc_unchecked_sizes [OF st, of "0x400000"] malloc_unchecked_sizes [OF st, of "0xFFFFFFFF"]
    by (auto simp: max_request_def pool_lists_blocks)
qed

end
