(* ===== verification/Malloc_Check.thy ===== *)
theory Malloc_Check
  imports Malloc_Init
begin

text \<open>
  The self check \<open>check_buddy_table\<close>: on a heap that satisfies the invariant it walks every bucket
  to its end and finds every postamble in place. Its count of the blocks is a byte, so it calls
  the count of a bucket with 256 or more blocks incorrect.
\<close>

text \<open>What it reports for a bucket.\<close>

definition bucket_report :: "flists \<Rightarrow> nat \<Rightarrow> u32 \<times> nat \<times> u64 list \<times> bool" where
  "bucket_report fl k = (of_nat (length (fl k)), k + 5, [], length (fl k) < 256)"

definition free_bytes :: "flists \<Rightarrow> nat \<Rightarrow> nat \<Rightarrow> nat" where
  "free_bytes fl i n = (\<Sum>k = i..<n. length (fl k) * bsize k)"

lemma bucket_count_word:
  assumes "buckets_ok st fl" and "k < 18"
  shows "b_count st ! k = of_nat (length (fl k))"
  using arg_cong [OF buckets_count [OF assms], of "of_nat :: nat \<Rightarrow> u32"] by simp

lemma byte_counter:
  assumes "n \<le> pool_size"
  shows "(ucast (of_nat n :: u8) :: u32) = of_nat n \<longleftrightarrow> n < 256"
proof -
  have n: "unat (of_nat n :: u32) = n" using assms by (intro unat_of_nat_small) (simp add: pool_size_def)
  have "unat (ucast (of_nat n :: u8) :: u32) = n mod 256"
    by (simp add: unat_ucast_up unat_of_nat)
  then have "(ucast (of_nat n :: u8) :: u32) = of_nat n \<longleftrightarrow> n mod 256 = n"
    using n by (simp add: word_unat_eq_iff)
  then show ?thesis by (metis mod_less mod_less_divisor zero_less_numeral)
qed

lemma check_bucket_report:
  assumes inv: "hinv st fl U {} {}" and k: "k < 18" and fuel: "pool_size < fuel"
  shows "check_bucket fuel st (of_nat k) = Inr (bucket_report fl k)"
proof -
  have ok: "pool_ok st" and bk: "buckets_ok st fl" using inv by (simp_all add: hinv_def)
  have len: "length (fl k) \<le> pool_size" using bucket_length [OF bk k] .
  have visit: "list_for_each_entry fuel (h_mem st) (bucket_ptr st (of_nat k)) = Inr (map baddr (fl k))"
    using list_for_each_entry_ring [OF buckets_ring [OF bk k]] len fuel by (simp add: bucket_ptr_head [OF k])
  have post: "h_mem st (baddr x + ucast (of_nat (bsize k) :: u32) - 1) = of_nat k" if "x \<in> set (fl k)" for x
  proof -
    have "(x, k) \<in> free_blocks fl" using that k by (simp add: free_block_iff)
    then have "pb st (last_byte (x, k)) = of_nat k" using inv by (auto simp: hinv_def)
    then show ?thesis by (simp add: last_byte_addr [OF k] pb_def)
  qed
  have bad: "filter (\<lambda>b. h_mem st (b + ucast (of_nat (bsize k) :: u32) - 1) \<noteq> of_nat k) (map baddr (fl k)) = []"
    using post by (auto simp: filter_empty_conv)
  show ?thesis
    unfolding check_bucket_def bucket_count_eq [OF ok k] bucket_size_eq [OF ok k] visit rbind.simps Let_def bad
    using byte_counter [OF len] u8_index [OF k]
    by (simp add: bucket_report_def bucket_count_word [OF bk k] BUDDY_MIN_ORDER_def)
qed

lemma check_buckets_report:
  assumes inv: "hinv st fl U {} {}" and fuel: "pool_size < fuel" and "i + n = 18"
  shows "check_buckets fuel st n (of_nat i) (of_nat t) =
    Inr (map (bucket_report fl) [i..<18], of_nat (t + free_bytes fl i 18))"
  using assms(3)
proof (induction n arbitrary: i t)
  case 0
  then show ?case by (simp add: free_bytes_def)
next
  case (Suc n)
  have ok: "pool_ok st" and bk: "buckets_ok st fl" using inv by (simp_all add: hinv_def)
  have i: "i < 18" using Suc.prems by simp
  have entry: "of_nat i + 1 = (of_nat (Suc i) :: u8)" by simp
  have tot: "of_nat t + of_nat (length (fl i)) * of_nat (bsize i) = (of_nat (t + length (fl i) * bsize i) :: u32)"
    by simp
  have "check_buckets fuel st (Suc n) (of_nat i) (of_nat t) =
      rbind (check_buckets fuel st n (of_nat (Suc i)) (of_nat (t + length (fl i) * bsize i)))
        (\<lambda>(rs, tot). Inr (bucket_report fl i # rs, tot))"
    by (simp only: check_buckets.simps check_bucket_report [OF inv i fuel] rbind.simps bucket_count_eq [OF ok i]
        bucket_size_eq [OF ok i] bucket_count_word [OF bk i] entry tot)
  also have "\<dots> = Inr (bucket_report fl i # map (bucket_report fl) [Suc i..<18],
      of_nat (t + length (fl i) * bsize i + free_bytes fl (Suc i) 18))"
    using Suc.IH [of "Suc i" "t + length (fl i) * bsize i"] Suc.prems
    by (simp only: rbind.simps prod.case add_Suc_right add_Suc)
  also have "\<dots> = Inr (map (bucket_report fl) [i..<18], of_nat (t + free_bytes fl i 18))"
    using i by (simp add: free_bytes_def sum.atLeast_Suc_lessThan upt_conv_Cons add.assoc)
  finally show ?case .
qed

text \<open>
  On a heap that satisfies the invariant, \<open>check_buddy_table\<close> with fuel for every node of the
  longest bucket ends, reports for every bucket its count and no block without postamble, adds
  the free bytes up and leaves the heap as it is; it reports the count as correct exactly for the
  buckets with fewer than 256 blocks.
\<close>

theorem check_buddy_table_report:
  assumes "heap_ok st fl U" and "pool_size < fuel"
  shows "\<exists>st'. check_buddy_table fuel st =
      Inr (map (\<lambda>k. (of_nat (length (fl k)), k + 5, [], length (fl k) < 256)) [0..<18],
        of_nat (\<Sum>k = 0..<18. length (fl k) * bsize k), st')
    \<and> heap_ok st' fl U \<and> h_mem st' = h_mem st"
proof -
  have fr: "lock_free (mm_lock st)" using assms(1) by (simp add: heap_ok_def)
  obtain l where l: "lock_mm st = Inr (st\<lparr>mm_lock := l\<rparr>)" "lock_free (spin_unlock l)"
    using lock_mm_free [OF fr] .
  have inv: "hinv (st\<lparr>mm_lock := l\<rparr>) fl U {} {}" using assms(1) by (simp add: heap_ok_def)
  have n: "BUDDY_ENTRIES = 18" by (simp add: BUDDY_ENTRIES_def BUDDY_MAX_ORDER_def BUDDY_MIN_ORDER_def)
  have "check_buckets fuel (st\<lparr>mm_lock := l\<rparr>) 18 (of_nat 0) (of_nat 0) =
      Inr (map (bucket_report fl) [0..<18], of_nat (0 + free_bytes fl 0 18))"
    by (rule check_buckets_report [OF inv assms(2)]) simp
  then have run: "check_buckets fuel (st\<lparr>mm_lock := l\<rparr>) 18 0 0 =
      Inr (map (bucket_report fl) [0..<18], of_nat (free_bytes fl 0 18))"
    by (simp del: check_buckets.simps)
  have "check_buddy_table fuel st =
      Inr (map (bucket_report fl) [0..<18], of_nat (free_bytes fl 0 18), unlock_mm (st\<lparr>mm_lock := l\<rparr>))"
    unfolding check_buddy_table_def l(1) rbind.simps n run prod.case ..
  then show ?thesis
    using assms(1) l(2)
    by (simp add: bucket_report_def [abs_def] free_bytes_def heap_ok_def unlock_mm_def)
qed

theorem check_buddy_table_report_witness:
  "\<exists>st st'. check_buddy_table 5000000 st =
      Inr (map (\<lambda>k. (of_nat (length (pool_lists k)), k + 5, [], length (pool_lists k) < 256)) [0..<18],
        of_nat (\<Sum>k = 0..<18. length (pool_lists k) * bsize k), st')
    \<and> heap_ok st' pool_lists {} \<and> h_mem st' = h_mem st"
proof -
  let ?raw = "\<lparr>h_mem = (\<lambda>_. 0), b_count = replicate 18 0, b_size = replicate 18 0, b_addr = 0x200000,
     mem_base = 0, mm_lock = SPINLOCK_UNLOCKED\<rparr>"
  have "heap_raw ?raw" by (simp add: heap_raw_def)
  then obtain st where "heap_ok st pool_lists {}" using malloc_init_heap_ok by blast
  moreover have "pool_size < 5000000" by (simp add: pool_size_def)
  ultimately show ?thesis using check_buddy_table_report [of st pool_lists "{}" 5000000] by blast
qed

end
