(* ===== verification/Layout.thy ===== *)
theory Layout
  imports Prelude
begin

text \<open>
  C object layout on x86-64: scalars, arrays, structures (packed with
  \<^verbatim>\<open>__attribute__ ((packed))\<close>, or with every member at its natural alignment) and unions. The
  theories that read or write structures in memory take the offsets of the members from
  \<open>offset_of\<close>, so that a structure is written down once, as the header has it. The lemmas show
  that the members of a structure lie inside it and do not overlap.
\<close>

datatype ctype =
    Scalar nat
  | Array nat ctype
  | Struct bool "(string \<times> ctype) list"
  | Union "(string \<times> ctype) list"

abbreviation "uint8 \<equiv> Scalar 1"
abbreviation "uint16 \<equiv> Scalar 2"
abbreviation "uint32 \<equiv> Scalar 4"
abbreviation "uint64 \<equiv> Scalar 8"
abbreviation "Packed \<equiv> Struct True"
abbreviation "Aligned \<equiv> Struct False"

definition round_up :: "nat \<Rightarrow> nat \<Rightarrow> nat" where
  "round_up n a = (n + a - 1) div a * a"

fun align_of :: "ctype \<Rightarrow> nat" where
  "align_of (Scalar n) = n"
| "align_of (Array n t) = align_of t"
| "align_of (Struct packed fs) =
     (if packed then 1 else foldr max (map (\<lambda>f. align_of (snd f)) fs) 1)"
| "align_of (Union fs) = foldr max (map (\<lambda>f. align_of (snd f)) fs) 1"

text \<open>
  \<open>member_starts packed pos ts\<close> are the offsets of members with the sizes and alignments \<open>ts\<close>
  from position \<open>pos\<close> on, \<open>members_end\<close> is the position behind the last one.
\<close>

definition member_pos :: "bool \<Rightarrow> nat \<Rightarrow> nat \<Rightarrow> nat" where
  "member_pos packed pos al = (if packed then pos else round_up pos al)"

fun member_starts :: "bool \<Rightarrow> nat \<Rightarrow> (nat \<times> nat) list \<Rightarrow> nat list" where
  "member_starts packed pos [] = []"
| "member_starts packed pos ((sz, al) # ts) =
     member_pos packed pos al # member_starts packed (member_pos packed pos al + sz) ts"

fun members_end :: "bool \<Rightarrow> nat \<Rightarrow> (nat \<times> nat) list \<Rightarrow> nat" where
  "members_end packed pos [] = pos"
| "members_end packed pos ((sz, al) # ts) =
     members_end packed (member_pos packed pos al + sz) ts"

fun sizeof :: "ctype \<Rightarrow> nat" where
  "sizeof (Scalar n) = n"
| "sizeof (Array n t) = n * sizeof t"
| "sizeof (Struct packed fs) =
     round_up (members_end packed 0 (map (\<lambda>f. (sizeof (snd f), align_of (snd f))) fs))
       (align_of (Struct packed fs))"
| "sizeof (Union fs) =
     round_up (foldr max (map (\<lambda>f. sizeof (snd f)) fs) 0) (align_of (Union fs))"

fun member_offsets :: "ctype \<Rightarrow> (string \<times> nat) list" where
  "member_offsets (Struct packed fs) =
     zip (map fst fs)
       (member_starts packed 0 (map (\<lambda>f. (sizeof (snd f), align_of (snd f))) fs))"
| "member_offsets (Union fs) = map (\<lambda>f. (fst f, 0)) fs"
| "member_offsets t = []"

fun members :: "ctype \<Rightarrow> (string \<times> ctype) list" where
  "members (Struct packed fs) = fs"
| "members (Union fs) = fs"
| "members t = []"

text \<open>The offset of the member that a path of names selects, 0 for a name that does not exist.\<close>

fun offset_of :: "ctype \<Rightarrow> string list \<Rightarrow> nat" where
  "offset_of t [] = 0"
| "offset_of t (f # p) =
     (case (map_of (member_offsets t) f, map_of (members t) f) of
        (Some n, Some u) \<Rightarrow> n + offset_of u p
      | _ \<Rightarrow> 0)"

section \<open>Members lie in order and do not overlap\<close>

lemma round_up_ge: "0 < a \<Longrightarrow> n \<le> round_up n a"
proof -
  assume "0 < a"
  have "n + a - 1 = (n + a - 1) div a * a + (n + a - 1) mod a"
    by simp
  moreover have "(n + a - 1) mod a < a"
    using \<open>0 < a\<close> by simp
  ultimately show ?thesis
    unfolding round_up_def by linarith
qed

lemma member_starts_length [simp]: "length (member_starts packed pos ts) = length ts"
  by (induction packed pos ts rule: member_starts.induct) simp_all

definition aligns_pos :: "(nat \<times> nat) list \<Rightarrow> bool" where
  "aligns_pos ts \<longleftrightarrow> list_all (\<lambda>t. 0 < snd t) ts"

lemma aligns_pos_Cons [simp]: "aligns_pos ((sz, al) # ts) \<longleftrightarrow> 0 < al \<and> aligns_pos ts"
  by (simp add: aligns_pos_def)

lemma member_pos_ge: "0 < al \<Longrightarrow> pos \<le> member_pos packed pos al"
  by (simp add: member_pos_def round_up_ge)

lemma members_end_ge: "aligns_pos ts \<Longrightarrow> pos \<le> members_end packed pos ts"
proof (induction packed pos ts rule: members_end.induct)
  case (2 packed pos sz al ts)
  then show ?case
    using member_pos_ge [of al pos packed] by simp
qed simp

lemma member_starts_bounds:
  assumes "aligns_pos ts" and "i < length ts"
  shows "pos \<le> member_starts packed pos ts ! i
    \<and> member_starts packed pos ts ! i + fst (ts ! i) \<le> members_end packed pos ts"
  using assms
proof (induction packed pos ts arbitrary: i rule: member_starts.induct)
  case (1 packed pos)
  then show ?case by simp
next
  case (2 packed pos sz al ts)
  from "2.prems" show ?case
    using members_end_ge [of ts "member_pos packed pos al + sz" packed] member_pos_ge [of al pos packed]
      "2.IH" [of "i - 1"]
    by (cases i) auto
qed

lemma member_starts_disjoint:
  assumes "aligns_pos ts" and "i < j" and "j < length ts"
  shows "member_starts packed pos ts ! i + fst (ts ! i) \<le> member_starts packed pos ts ! j"
  using assms
proof (induction packed pos ts arbitrary: i j rule: member_starts.induct)
  case (1 packed pos)
  then show ?case by simp
next
  case (2 packed pos sz al ts)
  then obtain k where "j = Suc k" "k < length ts" by (cases j) auto
  then show ?case
    using 2 member_starts_bounds [of ts k "member_pos packed pos al + sz" packed]
    by (cases i) auto
qed

end
