(* ===== verification/Vmcs.thy ===== *)
theory Vmcs
  imports Bits
begin

text \<open>
  The virtual-machine control structure as \<^verbatim>\<open>arch/x86_64/include/virt/virt_internal.h\<close> names
  it: the encodings of the fields, \<open>vmread\<close> and \<open>vmwrite\<close>, and the model-specific registers of
  \<^verbatim>\<open>arch/x86_64/include/msr.h\<close> with \<open>rdmsr\<close> and \<open>wrmsr\<close>. A VMCS is a function from
  encodings to values; bits 14:13 of an encoding give the width of the field, and a write to a
  field keeps that many bits. Sequences of writes are lists, read back by \<open>vmwrites_read\<close>; the
  collection \<open>vmcs_fields\<close> evaluates the encodings.
\<close>

named_theorems vmcs_fields \<open>the encodings of the VMCS fields\<close>
named_theorems msr_numbers \<open>the numbers of the model-specific registers\<close>

section \<open>Field encodings\<close>

definition VM_NONE :: u16 where "VM_NONE = 0xFFFF"

text \<open>Exit information 32-bit fields.\<close>

definition VMCS_INSTR_ERROR :: u64 where "VMCS_INSTR_ERROR = 0x4400"
definition VMCS_EXIT_REASON :: u64 where "VMCS_EXIT_REASON = 0x4402"
definition VMCS_EXIT_INT_INFO :: u64 where "VMCS_EXIT_INT_INFO = 0x4404"
definition VMCS_EXIT_INT_CODE :: u64 where "VMCS_EXIT_INT_CODE = 0x4406"
definition VMCS_EXIT_IDT_INFO :: u64 where "VMCS_EXIT_IDT_INFO = 0x4408"
definition VMCS_EXIT_IDT_CODE :: u64 where "VMCS_EXIT_IDT_CODE = 0x440A"
definition VMCS_INSTR_LENGTH :: u64 where "VMCS_INSTR_LENGTH = 0x440C"
definition VMCS_INSTR_INFO :: u64 where "VMCS_INSTR_INFO = 0x440E"

text \<open>Exit information 64-bit fields.\<close>

definition VMCS_PHY_ADDR :: u64 where "VMCS_PHY_ADDR = 0x2400"

text \<open>Exit information natural-width fields.\<close>

definition VMCS_EXIT_QUAL :: u64 where "VMCS_EXIT_QUAL = 0x6400"
definition VMCS_LINEAR_ADDR :: u64 where "VMCS_LINEAR_ADDR = 0x640A"

text \<open>Guest 64-bit fields.\<close>

definition VMCS_GUEST_LP :: u64 where "VMCS_GUEST_LP = 0x2800"
definition VMCS_GUEST_EFER :: u64 where "VMCS_GUEST_EFER = 0x2806"
definition VMCS_GUEST_PAT :: u64 where "VMCS_GUEST_PAT = 0x2804"
definition VMCS_GUEST_PDPTE0 :: u64 where "VMCS_GUEST_PDPTE0 = 0x280A"
definition VMCS_GUEST_PDPTE1 :: u64 where "VMCS_GUEST_PDPTE1 = 0x280C"
definition VMCS_GUEST_PDPTE2 :: u64 where "VMCS_GUEST_PDPTE2 = 0x280E"
definition VMCS_GUEST_PDPTE3 :: u64 where "VMCS_GUEST_PDPTE3 = 0x2810"
definition VMCS_GUEST_DEBUGCTL :: u64 where "VMCS_GUEST_DEBUGCTL = 0x2802"
definition VMCS_GUEST_PERF :: u64 where "VMCS_GUEST_PERF = 0x2808"
definition VMCS_GUEST_BNDCFGS :: u64 where "VMCS_GUEST_BNDCFGS = 0x2812"

text \<open>Guest 32-bit fields.\<close>

definition VMCS_GUEST_CS_LMT :: u64 where "VMCS_GUEST_CS_LMT = 0x4802"
definition VMCS_GUEST_DS_LMT :: u64 where "VMCS_GUEST_DS_LMT = 0x4806"
definition VMCS_GUEST_ES_LMT :: u64 where "VMCS_GUEST_ES_LMT = 0x4800"
definition VMCS_GUEST_SS_LMT :: u64 where "VMCS_GUEST_SS_LMT = 0x4804"
definition VMCS_GUEST_FS_LMT :: u64 where "VMCS_GUEST_FS_LMT = 0x4808"
definition VMCS_GUEST_GS_LMT :: u64 where "VMCS_GUEST_GS_LMT = 0x480A"
definition VMCS_GUEST_LDTR_LMT :: u64 where "VMCS_GUEST_LDTR_LMT = 0x480C"
definition VMCS_GUEST_TR_LMT :: u64 where "VMCS_GUEST_TR_LMT = 0x480E"
definition VMCS_GUEST_GDTR_LMT :: u64 where "VMCS_GUEST_GDTR_LMT = 0x4810"
definition VMCS_GUEST_IDTR_LMT :: u64 where "VMCS_GUEST_IDTR_LMT = 0x4812"
definition VMCS_GUEST_CS_ACC :: u64 where "VMCS_GUEST_CS_ACC = 0x4816"
definition VMCS_GUEST_DS_ACC :: u64 where "VMCS_GUEST_DS_ACC = 0x481A"
definition VMCS_GUEST_ES_ACC :: u64 where "VMCS_GUEST_ES_ACC = 0x4814"
definition VMCS_GUEST_SS_ACC :: u64 where "VMCS_GUEST_SS_ACC = 0x4818"
definition VMCS_GUEST_FS_ACC :: u64 where "VMCS_GUEST_FS_ACC = 0x481C"
definition VMCS_GUEST_GS_ACC :: u64 where "VMCS_GUEST_GS_ACC = 0x481E"
definition VMCS_GUEST_LDTR_ACC :: u64 where "VMCS_GUEST_LDTR_ACC = 0x4820"
definition VMCS_GUEST_TR_ACC :: u64 where "VMCS_GUEST_TR_ACC = 0x4822"
definition VMCS_GUEST_ACTIVE :: u64 where "VMCS_GUEST_ACTIVE = 0x4826"
definition VMCS_GUEST_INT :: u64 where "VMCS_GUEST_INT = 0x4824"
definition VMCS_GUEST_SMBASE :: u64 where "VMCS_GUEST_SMBASE = 0x4828"
definition VMCS_GUEST_SYS_CS :: u64 where "VMCS_GUEST_SYS_CS = 0x482A"
definition VMCS_GUEST_TIMER :: u64 where "VMCS_GUEST_TIMER = 0x482E"

text \<open>Guest 16-bit fields.\<close>

definition VMCS_GUEST_CS_SEL :: u64 where "VMCS_GUEST_CS_SEL = 0x802"
definition VMCS_GUEST_DS_SEL :: u64 where "VMCS_GUEST_DS_SEL = 0x806"
definition VMCS_GUEST_ES_SEL :: u64 where "VMCS_GUEST_ES_SEL = 0x800"
definition VMCS_GUEST_SS_SEL :: u64 where "VMCS_GUEST_SS_SEL = 0x804"
definition VMCS_GUEST_FS_SEL :: u64 where "VMCS_GUEST_FS_SEL = 0x808"
definition VMCS_GUEST_GS_SEL :: u64 where "VMCS_GUEST_GS_SEL = 0x80A"
definition VMCS_GUEST_LDTR_SEL :: u64 where "VMCS_GUEST_LDTR_SEL = 0x80C"
definition VMCS_GUEST_TR_SEL :: u64 where "VMCS_GUEST_TR_SEL = 0x80E"
definition VMCS_GUEST_STATUS :: u64 where "VMCS_GUEST_STATUS = 0x810"
definition VMCS_GUEST_PML :: u64 where "VMCS_GUEST_PML = 0x812"

text \<open>Guest natural-width fields.\<close>

definition VMCS_GUEST_CS_BASE :: u64 where "VMCS_GUEST_CS_BASE = 0x6808"
definition VMCS_GUEST_DS_BASE :: u64 where "VMCS_GUEST_DS_BASE = 0x680C"
definition VMCS_GUEST_ES_BASE :: u64 where "VMCS_GUEST_ES_BASE = 0x6806"
definition VMCS_GUEST_SS_BASE :: u64 where "VMCS_GUEST_SS_BASE = 0x680A"
definition VMCS_GUEST_FS_BASE :: u64 where "VMCS_GUEST_FS_BASE = 0x680E"
definition VMCS_GUEST_GS_BASE :: u64 where "VMCS_GUEST_GS_BASE = 0x6810"
definition VMCS_GUEST_LDTR_BASE :: u64 where "VMCS_GUEST_LDTR_BASE = 0x6812"
definition VMCS_GUEST_TR_BASE :: u64 where "VMCS_GUEST_TR_BASE = 0x6814"
definition VMCS_GUEST_GDTR_BASE :: u64 where "VMCS_GUEST_GDTR_BASE = 0x6816"
definition VMCS_GUEST_IDTR_BASE :: u64 where "VMCS_GUEST_IDTR_BASE = 0x6818"
definition VMCS_GUEST_RFLAGS :: u64 where "VMCS_GUEST_RFLAGS = 0x6820"
definition VMCS_GUEST_CR0 :: u64 where "VMCS_GUEST_CR0 = 0x6800"
definition VMCS_GUEST_CR3 :: u64 where "VMCS_GUEST_CR3 = 0x6802"
definition VMCS_GUEST_CR4 :: u64 where "VMCS_GUEST_CR4 = 0x6804"
definition VMCS_GUEST_DR7 :: u64 where "VMCS_GUEST_DR7 = 0x681A"
definition VMCS_GUEST_DEBUG :: u64 where "VMCS_GUEST_DEBUG = 0x6822"
definition VMCS_GUEST_RIP :: u64 where "VMCS_GUEST_RIP = 0x681E"
definition VMCS_GUEST_RSP :: u64 where "VMCS_GUEST_RSP = 0x681C"
definition VMCS_GUEST_SYS_ESP :: u64 where "VMCS_GUEST_SYS_ESP = 0x6824"
definition VMCS_GUEST_SYS_EIP :: u64 where "VMCS_GUEST_SYS_EIP = 0x6826"

text \<open>Host natural-width fields.\<close>

definition VMCS_HOST_CR0 :: u64 where "VMCS_HOST_CR0 = 0x6C00"
definition VMCS_HOST_CR3 :: u64 where "VMCS_HOST_CR3 = 0x6C02"
definition VMCS_HOST_CR4 :: u64 where "VMCS_HOST_CR4 = 0x6C04"
definition VMCS_HOST_FS_BASE :: u64 where "VMCS_HOST_FS_BASE = 0x6C06"
definition VMCS_HOST_GS_BASE :: u64 where "VMCS_HOST_GS_BASE = 0x6C08"
definition VMCS_HOST_TR_BASE :: u64 where "VMCS_HOST_TR_BASE = 0x6C0A"
definition VMCS_HOST_GDTR_BASE :: u64 where "VMCS_HOST_GDTR_BASE = 0x6C0C"
definition VMCS_HOST_IDTR_BASE :: u64 where "VMCS_HOST_IDTR_BASE = 0x6C0E"
definition VMCS_HOST_RSP :: u64 where "VMCS_HOST_RSP = 0x6C14"
definition VMCS_HOST_RIP :: u64 where "VMCS_HOST_RIP = 0x6C16"

text \<open>Host 64-bit fields.\<close>

definition VMCS_HOST_PAT :: u64 where "VMCS_HOST_PAT = 0x2C00"
definition VMCS_HOST_EFER :: u64 where "VMCS_HOST_EFER = 0x2C02"

text \<open>Host 16-bit fields.\<close>

definition VMCS_HOST_CS_SEL :: u64 where "VMCS_HOST_CS_SEL = 0xC02"
definition VMCS_HOST_DS_SEL :: u64 where "VMCS_HOST_DS_SEL = 0xC06"
definition VMCS_HOST_ES_SEL :: u64 where "VMCS_HOST_ES_SEL = 0xC00"
definition VMCS_HOST_SS_SEL :: u64 where "VMCS_HOST_SS_SEL = 0xC04"
definition VMCS_HOST_FS_SEL :: u64 where "VMCS_HOST_FS_SEL = 0xC08"
definition VMCS_HOST_GS_SEL :: u64 where "VMCS_HOST_GS_SEL = 0xC0A"
definition VMCS_HOST_TR_SEL :: u64 where "VMCS_HOST_TR_SEL = 0xC0C"

text \<open>Control 32-bit fields.\<close>

definition VMCS_CTRL_PIN :: u64 where "VMCS_CTRL_PIN = 0x4000"
definition VMCS_CTRL_PPROC :: u64 where "VMCS_CTRL_PPROC = 0x4002"
definition VMCS_CTRL_SPROC :: u64 where "VMCS_CTRL_SPROC = 0x401E"
definition VMCS_CTRL_EXP_MAP :: u64 where "VMCS_CTRL_EXP_MAP = 0x4004"
definition VMCS_CTRL_EXIT :: u64 where "VMCS_CTRL_EXIT = 0x400C"
definition VMCS_CTRL_EXIT_SCNT :: u64 where "VMCS_CTRL_EXIT_SCNT = 0x400E"
definition VMCS_CTRL_EXIT_LCNT :: u64 where "VMCS_CTRL_EXIT_LCNT = 0x4010"
definition VMCS_CTRL_ENTRY :: u64 where "VMCS_CTRL_ENTRY = 0x4012"
definition VMCS_CTRL_ENTRY_LCNT :: u64 where "VMCS_CTRL_ENTRY_LCNT = 0x4014"
definition VMCS_CTRL_ENTRY_INT :: u64 where "VMCS_CTRL_ENTRY_INT = 0x4016"
definition VMCS_CTRL_CR3_CNT :: u64 where "VMCS_CTRL_CR3_CNT = 0x400A"
definition VMCS_CTRL_PF_MASK :: u64 where "VMCS_CTRL_PF_MASK = 0x4006"
definition VMCS_CTRL_PF_MATCH :: u64 where "VMCS_CTRL_PF_MATCH = 0x4008"

text \<open>Control 64-bit fields.\<close>

definition VMCS_CTRL_IOMAP_A :: u64 where "VMCS_CTRL_IOMAP_A = 0x2000"
definition VMCS_CTRL_IOMAP_B :: u64 where "VMCS_CTRL_IOMAP_B = 0x2002"
definition VMCS_CTRL_EPTP :: u64 where "VMCS_CTRL_EPTP = 0x201A"

text \<open>Control natural-width fields.\<close>

definition VMCS_CTRL_CR0_MASK :: u64 where "VMCS_CTRL_CR0_MASK = 0x6000"
definition VMCS_CTRL_CR4_MASK :: u64 where "VMCS_CTRL_CR4_MASK = 0x6002"
definition VMCS_CTRL_CR0_RD :: u64 where "VMCS_CTRL_CR0_RD = 0x6004"
definition VMCS_CTRL_CR4_RD :: u64 where "VMCS_CTRL_CR4_RD = 0x6006"

section \<open>Model-specific registers\<close>

definition IA32_FEATURE_CONTROL :: u32 where "IA32_FEATURE_CONTROL = 0x3A"
definition IA32_MTRRCAP :: u32 where "IA32_MTRRCAP = 0xFE"
definition IA32_PAT :: u32 where "IA32_PAT = 0x277"
definition IA32_MTRR_DEF_TYPE :: u32 where "IA32_MTRR_DEF_TYPE = 0x2FF"
definition IA32_VMX_BASIC :: u32 where "IA32_VMX_BASIC = 0x480"
definition IA32_VMX_PINBASED_CTLS :: u32 where "IA32_VMX_PINBASED_CTLS = 0x481"
definition IA32_VMX_PROCBASED_CTLS :: u32 where "IA32_VMX_PROCBASED_CTLS = 0x482"
definition IA32_VMX_EXIT_CTLS :: u32 where "IA32_VMX_EXIT_CTLS = 0x483"
definition IA32_VMX_ENTRY_CTLS :: u32 where "IA32_VMX_ENTRY_CTLS = 0x484"
definition IA32_VMX_CR0_FIXED0 :: u32 where "IA32_VMX_CR0_FIXED0 = 0x486"
definition IA32_VMX_CR0_FIXED1 :: u32 where "IA32_VMX_CR0_FIXED1 = 0x487"
definition IA32_VMX_CR4_FIXED0 :: u32 where "IA32_VMX_CR4_FIXED0 = 0x488"
definition IA32_VMX_CR4_FIXED1 :: u32 where "IA32_VMX_CR4_FIXED1 = 0x489"
definition IA32_VMX_PROCBASED_CTLS2 :: u32 where "IA32_VMX_PROCBASED_CTLS2 = 0x48B"
definition IA32_VMX_TRUE_PINBASED_CTLS :: u32 where "IA32_VMX_TRUE_PINBASED_CTLS = 0x48D"
definition IA32_VMX_TRUE_PROCBASED_CTLS :: u32 where "IA32_VMX_TRUE_PROCBASED_CTLS = 0x48E"
definition IA32_VMX_TRUE_EXIT_CTLS :: u32 where "IA32_VMX_TRUE_EXIT_CTLS = 0x48F"
definition IA32_VMX_TRUE_ENTRY_CTLS :: u32 where "IA32_VMX_TRUE_ENTRY_CTLS = 0x490"
definition IA32_EFER :: u32 where "IA32_EFER = 0xC0000080"
definition IA32_FS_BASE :: u32 where "IA32_FS_BASE = 0xC0000100"
definition IA32_GS_BASE :: u32 where "IA32_GS_BASE = 0xC0000101"
definition IA32_MTRR_PHYSMASK :: "u32 \<Rightarrow> u32" where "IA32_MTRR_PHYSMASK n = 0x201 + push_bit 1 n"

lemmas vmcs_field_defs [vmcs_fields] =
  VMCS_INSTR_ERROR_def VMCS_EXIT_REASON_def VMCS_EXIT_INT_INFO_def VMCS_EXIT_INT_CODE_def
  VMCS_EXIT_IDT_INFO_def VMCS_EXIT_IDT_CODE_def VMCS_INSTR_LENGTH_def VMCS_INSTR_INFO_def
  VMCS_PHY_ADDR_def VMCS_EXIT_QUAL_def VMCS_LINEAR_ADDR_def VMCS_GUEST_LP_def
  VMCS_GUEST_EFER_def VMCS_GUEST_PAT_def VMCS_GUEST_PDPTE0_def VMCS_GUEST_PDPTE1_def
  VMCS_GUEST_PDPTE2_def VMCS_GUEST_PDPTE3_def VMCS_GUEST_DEBUGCTL_def VMCS_GUEST_PERF_def
  VMCS_GUEST_BNDCFGS_def VMCS_GUEST_CS_LMT_def VMCS_GUEST_DS_LMT_def VMCS_GUEST_ES_LMT_def
  VMCS_GUEST_SS_LMT_def VMCS_GUEST_FS_LMT_def VMCS_GUEST_GS_LMT_def VMCS_GUEST_LDTR_LMT_def
  VMCS_GUEST_TR_LMT_def VMCS_GUEST_GDTR_LMT_def VMCS_GUEST_IDTR_LMT_def VMCS_GUEST_CS_ACC_def
  VMCS_GUEST_DS_ACC_def VMCS_GUEST_ES_ACC_def VMCS_GUEST_SS_ACC_def VMCS_GUEST_FS_ACC_def
  VMCS_GUEST_GS_ACC_def VMCS_GUEST_LDTR_ACC_def VMCS_GUEST_TR_ACC_def VMCS_GUEST_ACTIVE_def
  VMCS_GUEST_INT_def VMCS_GUEST_SMBASE_def VMCS_GUEST_SYS_CS_def VMCS_GUEST_TIMER_def
  VMCS_GUEST_CS_SEL_def VMCS_GUEST_DS_SEL_def VMCS_GUEST_ES_SEL_def VMCS_GUEST_SS_SEL_def
  VMCS_GUEST_FS_SEL_def VMCS_GUEST_GS_SEL_def VMCS_GUEST_LDTR_SEL_def VMCS_GUEST_TR_SEL_def
  VMCS_GUEST_STATUS_def VMCS_GUEST_PML_def VMCS_GUEST_CS_BASE_def VMCS_GUEST_DS_BASE_def
  VMCS_GUEST_ES_BASE_def VMCS_GUEST_SS_BASE_def VMCS_GUEST_FS_BASE_def VMCS_GUEST_GS_BASE_def
  VMCS_GUEST_LDTR_BASE_def VMCS_GUEST_TR_BASE_def VMCS_GUEST_GDTR_BASE_def
  VMCS_GUEST_IDTR_BASE_def VMCS_GUEST_RFLAGS_def VMCS_GUEST_CR0_def VMCS_GUEST_CR3_def
  VMCS_GUEST_CR4_def VMCS_GUEST_DR7_def VMCS_GUEST_DEBUG_def VMCS_GUEST_RIP_def
  VMCS_GUEST_RSP_def VMCS_GUEST_SYS_ESP_def VMCS_GUEST_SYS_EIP_def VMCS_HOST_CR0_def
  VMCS_HOST_CR3_def VMCS_HOST_CR4_def VMCS_HOST_FS_BASE_def VMCS_HOST_GS_BASE_def
  VMCS_HOST_TR_BASE_def VMCS_HOST_GDTR_BASE_def VMCS_HOST_IDTR_BASE_def VMCS_HOST_RSP_def
  VMCS_HOST_RIP_def VMCS_HOST_PAT_def VMCS_HOST_EFER_def VMCS_HOST_CS_SEL_def
  VMCS_HOST_DS_SEL_def VMCS_HOST_ES_SEL_def VMCS_HOST_SS_SEL_def VMCS_HOST_FS_SEL_def
  VMCS_HOST_GS_SEL_def VMCS_HOST_TR_SEL_def VMCS_CTRL_PIN_def VMCS_CTRL_PPROC_def
  VMCS_CTRL_SPROC_def VMCS_CTRL_EXP_MAP_def VMCS_CTRL_EXIT_def VMCS_CTRL_EXIT_SCNT_def
  VMCS_CTRL_EXIT_LCNT_def VMCS_CTRL_ENTRY_def VMCS_CTRL_ENTRY_LCNT_def VMCS_CTRL_ENTRY_INT_def
  VMCS_CTRL_CR3_CNT_def VMCS_CTRL_PF_MASK_def VMCS_CTRL_PF_MATCH_def VMCS_CTRL_IOMAP_A_def
  VMCS_CTRL_IOMAP_B_def VMCS_CTRL_EPTP_def VMCS_CTRL_CR0_MASK_def VMCS_CTRL_CR4_MASK_def
  VMCS_CTRL_CR0_RD_def VMCS_CTRL_CR4_RD_def

lemmas msr_number_defs [msr_numbers] =
  IA32_FEATURE_CONTROL_def IA32_MTRRCAP_def IA32_PAT_def IA32_MTRR_DEF_TYPE_def
  IA32_VMX_BASIC_def IA32_VMX_PINBASED_CTLS_def IA32_VMX_PROCBASED_CTLS_def
  IA32_VMX_EXIT_CTLS_def IA32_VMX_ENTRY_CTLS_def IA32_VMX_CR0_FIXED0_def IA32_VMX_CR0_FIXED1_def
  IA32_VMX_CR4_FIXED0_def IA32_VMX_CR4_FIXED1_def IA32_VMX_PROCBASED_CTLS2_def
  IA32_VMX_TRUE_PINBASED_CTLS_def IA32_VMX_TRUE_PROCBASED_CTLS_def IA32_VMX_TRUE_EXIT_CTLS_def
  IA32_VMX_TRUE_ENTRY_CTLS_def IA32_EFER_def IA32_FS_BASE_def IA32_GS_BASE_def
  IA32_MTRR_PHYSMASK_def

section \<open>Instructions\<close>

type_synonym vmcs = "u64 \<Rightarrow> u64"
type_synonym msrs = "u32 \<Rightarrow> u64"

text \<open>The width of a field: 16 bits, 64 bits, 32 bits or natural width.\<close>

definition field_width :: "u64 \<Rightarrow> nat" where
  "field_width enc =
     (let w = drop_bit 13 enc AND 3 in if w = 0 then 16 else if w = 2 then 32 else 64)"

definition vmread :: "vmcs \<Rightarrow> u64 \<Rightarrow> u64" where
  "vmread v enc = take_bit (field_width enc) (v enc)"

definition vmwrite :: "vmcs \<Rightarrow> u64 \<Rightarrow> u64 \<Rightarrow> vmcs" where
  "vmwrite v enc val = v(enc := take_bit (field_width enc) val)"

definition vmwrites :: "vmcs \<Rightarrow> (u64 \<times> u64) list \<Rightarrow> vmcs" where
  "vmwrites v ws = foldl (\<lambda>v (enc, val). vmwrite v enc val) v ws"

text \<open>The instructions work on the halves in \<open>edx\<close> and \<open>eax\<close>.\<close>

definition rdmsr :: "msrs \<Rightarrow> u32 \<Rightarrow> u64" where
  "rdmsr m ecx =
     (let edx = ucast (drop_bit 32 (m ecx)) :: u32; eax = ucast (m ecx) :: u32
      in push_bit 32 (ucast edx :: u64) OR ucast eax)"

definition wrmsr :: "msrs \<Rightarrow> u32 \<Rightarrow> u64 \<Rightarrow> msrs" where
  "wrmsr m ecx val =
     (let edx = ucast (drop_bit 32 val) :: u32; eax = ucast val :: u32
      in m(ecx := push_bit 32 (ucast edx) OR ucast eax))"

section \<open>Lemmas\<close>

lemma halves_join: "push_bit 32 (ucast (ucast (drop_bit 32 w) :: u32)) OR ucast (ucast w :: u32) = (w :: u64)"
  by (rule bit_word_eqI) (auto simp: bit_simps)

lemma rdmsr_eq [simp]: "rdmsr m r = m r"
  by (simp add: rdmsr_def halves_join)

lemma wrmsr_eq [simp]: "wrmsr m r v = m(r := v)"
  by (simp add: wrmsr_def halves_join)

lemma vmread_vmwrite:
  "vmread (vmwrite v e x) e' = (if e' = e then take_bit (field_width e) x else vmread v e')"
  by (simp add: vmread_def vmwrite_def)

lemma vmwrites_Nil [simp]: "vmwrites v [] = v"
  by (simp add: vmwrites_def)

lemma vmwrites_Cons [simp]: "vmwrites v ((e, x) # ws) = vmwrites (vmwrite v e x) ws"
  by (simp add: vmwrites_def)

lemma vmwrites_append: "vmwrites v (xs @ ys) = vmwrites (vmwrites v xs) ys"
  by (simp add: vmwrites_def)

lemma vmwrites_apply:
  "vmwrites v ws e = (case map_of (rev ws) e of None \<Rightarrow> v e | Some x \<Rightarrow> take_bit (field_width e) x)"
proof (induction ws rule: rev_induct)
  case Nil
  then show ?case by simp
next
  case (snoc w ws)
  then show ?case
    by (cases w) (simp add: vmwrites_append vmwrite_def)
qed

text \<open>What a field holds after a sequence of writes: the last value written to it.\<close>

lemma vmwrites_read:
  "vmread (vmwrites v ws) e =
     (case map_of (rev ws) e of None \<Rightarrow> vmread v e | Some x \<Rightarrow> take_bit (field_width e) x)"
  by (simp add: vmread_def vmwrites_apply split: option.splits)

end
