(* ===== verification/Gdt.thy ===== *)
theory Gdt
  imports Layout Bits Spinlock Vmcs
begin

text \<open>
  Segment descriptors and the per-processor tables of \<^verbatim>\<open>arch/x86_64/cpu/mmu.c\<close>: the GDT is
  the array \<^verbatim>\<open>_kernel_gdt\<close> of 512 eight-byte entries, a TSS descriptor takes two of them. The
  bit-fields of \<open>seg_desc\<close> and \<open>tss_desc\<close> (\<^verbatim>\<open>arch/x86_64/include/cpu.h\<close>) are positions in the
  64-bit words. \<open>alloc_tss_desc\<close> searches the first two adjacent free entries;
  \<open>get_gdt_tss_base\<close> reads the base address back. \<open>mtrr_config\<close> sets the memory types.
\<close>

section \<open>Descriptors\<close>

definition GDT_ENTRY_NR :: u16 where "GDT_ENTRY_NR = 512"
definition IDT_ENTRY_NR :: u16 where "IDT_ENTRY_NR = 256"
definition GDT_START :: u16 where "GDT_START = 3"
definition FLAGS_CF :: u64 where "FLAGS_CF = 0x1"
definition FLAGS_ZF :: u64 where "FLAGS_ZF = 0x40"

definition tss_t :: ctype where
  "tss_t = Packed
     [(''reserved0'', uint32), (''rsp'', Array 3 uint64), (''reserved1'', uint64),
      (''ist'', Array 7 uint64), (''reserved2'', uint64), (''reserved3'', uint16),
      (''iomap_base'', uint16)]"

text \<open>A bit-field of \<open>n\<close> bits at position \<open>lo\<close> of a word.\<close>

definition get_field :: "nat \<Rightarrow> nat \<Rightarrow> u64 \<Rightarrow> u64" where
  "get_field lo n w = take_bit n (drop_bit lo w)"

definition put_field :: "nat \<Rightarrow> nat \<Rightarrow> u64 \<Rightarrow> u64 \<Rightarrow> u64" where
  "put_field lo n v w = (w AND NOT (push_bit lo (mask n))) OR push_bit lo (take_bit n v)"

text \<open>The bit-fields of \<open>seg_desc\<close>, name, position and width.\<close>

definition seg_desc :: "(string \<times> nat \<times> nat) list" where
  "seg_desc =
     [(''limit0'', 0, 16), (''base0'', 16, 24), (''type'', 40, 4), (''s'', 44, 1), (''dpl'', 45, 2),
      (''p'', 47, 1), (''limit1'', 48, 4), (''avl'', 52, 1), (''l'', 53, 1), (''db'', 54, 1),
      (''g'', 55, 1), (''base1'', 56, 8)]"

text \<open>
  Those of \<open>tss_desc\<close>; its \<open>base1\<close> of 40 bits continues in the second word, whose upper half
  is \<open>reserved0\<close>.
\<close>

definition tss_desc :: "(string \<times> nat \<times> nat) list" where
  "tss_desc =
     [(''limit0'', 0, 16), (''base0'', 16, 24), (''type'', 40, 4), (''zero0'', 44, 1), (''dpl'', 45, 2),
      (''p'', 47, 1), (''limit1'', 48, 4), (''avl'', 52, 1), (''zero1'', 53, 2), (''g'', 55, 1)]"

definition read_field :: "(string \<times> nat \<times> nat) list \<Rightarrow> string \<Rightarrow> u64 \<Rightarrow> u64" where
  "read_field d f w = (case map_of d f of Some (lo, n) \<Rightarrow> get_field lo n w | None \<Rightarrow> 0)"

definition write_field :: "(string \<times> nat \<times> nat) list \<Rightarrow> string \<Rightarrow> u64 \<Rightarrow> u64 \<Rightarrow> u64" where
  "write_field d f v w = (case map_of d f of Some (lo, n) \<Rightarrow> put_field lo n v w | None \<Rightarrow> w)"

definition read_base1 :: "u64 \<Rightarrow> u64 \<Rightarrow> u64" where
  "read_base1 w0 w1 = get_field 56 8 w0 OR push_bit 8 (get_field 0 32 w1)"

definition write_base1 :: "u64 \<Rightarrow> u64 \<times> u64 \<Rightarrow> u64 \<times> u64" where
  "write_base1 v w = (put_field 56 8 v (fst w), put_field 0 32 (drop_bit 8 v) (snd w))"

section \<open>The GDT\<close>

record gdt_state =
  gdt :: "u64 list"
  gdt_lock :: spinlock_t

abbreviation desc_present :: "u64 \<Rightarrow> bool" where
  "desc_present w \<equiv> read_field seg_desc ''p'' w \<noteq> 0"

text \<open>The stores of \<open>alloc_tss_desc\<close> to the two words of the descriptor, in their order.\<close>

definition fill_tss_desc :: "u64 \<Rightarrow> u64 \<times> u64 \<Rightarrow> u64 \<times> u64" where
  "fill_tss_desc tss_p w =
     (let limit = of_nat (sizeof tss_t) - 1 :: u32;
          w = apfst (write_field tss_desc ''limit0'' (ucast (limit AND 0xFFFF))) w;
          w = apfst (write_field tss_desc ''limit1'' (ucast (drop_bit 16 limit AND 0xF))) w;
          w = apfst (write_field tss_desc ''base0'' (tss_p AND 0xFFFFFF)) w;
          w = write_base1 (drop_bit 24 tss_p) w;
          w = apfst (write_field tss_desc ''p'' 1) w;
          w = apfst (write_field tss_desc ''type'' 9) w;
          w = apfst (write_field tss_desc ''zero0'' 0) w;
          w = apfst (write_field tss_desc ''dpl'' 0) w;
          w = apfst (write_field tss_desc ''avl'' 0) w;
          w = apfst (write_field tss_desc ''zero1'' 0) w;
          w = apfst (write_field tss_desc ''g'' 0) w
      in apsnd (put_field 32 32 0) w)"

function alloc_tss_loop :: "gdt_state \<Rightarrow> u64 \<Rightarrow> u16 \<Rightarrow> (u16 \<times> gdt_state) result" where
  "alloc_tss_loop st tss_p i =
     (if i < GDT_ENTRY_NR - 1
      then rbind (tget (gdt st) (ucast i)) (\<lambda>a.
           rbind (if desc_present a then Inr True
                  else rbind (tget (gdt st) (ucast i + 1)) (\<lambda>b. Inr (desc_present b))) (\<lambda>busy.
             if busy then alloc_tss_loop st tss_p (i + 1)
             else rbind (tget (gdt st) (ucast i + 1)) (\<lambda>b.
                  let w = fill_tss_desc tss_p (a, b)
                  in rbind (tset (gdt st) (ucast i) (fst w)) (\<lambda>g.
                     rbind (tset g (ucast i + 1) (write_field seg_desc ''p'' 1 (snd w))) (\<lambda>g.
                     Inr (push_bit 3 i, st\<lparr>gdt := g, gdt_lock := spin_unlock (gdt_lock st)\<rparr>))))))
      else Inl (Panic ''out of GDT entries''))"
  by pat_completeness auto
termination
  by (relation "measure (\<lambda>(st, tss_p, i). unat (GDT_ENTRY_NR - 1) - unat i)")
     (auto intro: count_up_measure)

definition alloc_tss_desc :: "gdt_state \<Rightarrow> u64 \<Rightarrow> (u16 \<times> gdt_state) result" where
  "alloc_tss_desc st tss_p =
     rbind (spin_lock (gdt_lock st)) (\<lambda>l. alloc_tss_loop (st\<lparr>gdt_lock := l\<rparr>) tss_p GDT_START)"

definition get_gdt_tss_base :: "gdt_state \<Rightarrow> u16 \<Rightarrow> u64 result" where
  "get_gdt_tss_base st sel =
     rbind (tget (gdt st) (ucast (drop_bit 3 sel))) (\<lambda>a.
     rbind (tget (gdt st) (ucast (drop_bit 3 sel) + 1)) (\<lambda>b.
       let base = read_base1 a b
       in Inr (push_bit 24 base OR read_field tss_desc ''base0'' a)))"

section \<open>Memory types\<close>

function mtrr_loop :: "msrs \<Rightarrow> u8 \<Rightarrow> u8 \<Rightarrow> msrs" where
  "mtrr_loop m i cnt =
     (if i < cnt then mtrr_loop (wrmsr m (IA32_MTRR_PHYSMASK (ucast i)) 0) (i + 1) cnt else m)"
  by pat_completeness auto
termination
  by (relation "measure (\<lambda>(m, i, cnt). unat cnt - unat i)") (auto intro: count_up_measure)

definition mtrr_config :: "msrs \<Rightarrow> msrs" where
  "mtrr_config m =
     (let m = wrmsr m IA32_MTRR_DEF_TYPE 0x6;
          cnt = ucast (rdmsr m IA32_MTRRCAP AND 0xFF);
          m = mtrr_loop m 0 cnt
      in wrmsr m IA32_MTRR_DEF_TYPE 0x806)"


declare alloc_tss_loop.simps [simp del] mtrr_loop.simps [simp del]

section \<open>Bit-fields\<close>

lemma bit_put_field:
  "bit (put_field lo n v w) k \<longleftrightarrow>
     (if lo \<le> k \<and> k < lo + n then k < 64 \<and> bit v (k - lo) else bit w k)"
  by (auto simp: put_field_def bit_simps dest: bit_imp_le_length)

lemma bit_get_field: "bit (get_field lo n w) k \<longleftrightarrow> k < n \<and> bit w (lo + k)"
  by (auto simp: get_field_def bit_simps ac_simps)

lemma get_put_field: "lo + n \<le> 64 \<Longrightarrow> get_field lo n (put_field lo n v w) = take_bit n v"
  by (rule bit_word_eqI) (auto simp: bit_get_field bit_put_field bit_simps)

lemma get_put_field_other:
  "lo + n \<le> lo' \<or> lo' + n' \<le> lo \<Longrightarrow> get_field lo n (put_field lo' n' v w) = get_field lo n w"
  by (rule bit_word_eqI) (auto simp: bit_get_field bit_put_field)

lemma tss_size: "sizeof tss_t = 104"
  by (simp add: tss_t_def member_pos_def round_up_def)

lemmas desc_fields = read_field_def write_field_def seg_desc_def tss_desc_def

text \<open>The base address that \<open>get_gdt_tss_base\<close> assembles from a filled descriptor.\<close>

lemma fill_tss_desc_base:
  assumes "fill_tss_desc p (a, b) = (w0, w1)"
  shows "push_bit 24 (read_base1 w0 (write_field seg_desc ''p'' 1 w1))
    OR read_field tss_desc ''base0'' w0 = p"
proof -
  have w0: "get_field 56 8 w0 = take_bit 8 (drop_bit 24 p)" "get_field 16 24 w0 = take_bit 24 p"
    and w1: "get_field 0 32 w1 = take_bit 32 (drop_bit 32 p)"
    using assms
    by (auto simp: fill_tss_desc_def Let_def desc_fields write_base1_def get_put_field
        get_put_field_other take_bit_eq_mask mask_eq_exp_minus_1 drop_bit_drop_bit)
  have "get_field 0 32 (write_field seg_desc ''p'' 1 w1) = get_field 0 32 w1"
    by (simp add: desc_fields get_put_field_other)
  then show ?thesis
    by (simp add: read_base1_def w0 w1 desc_fields)
       (rule bit_word_eqI, auto simp: bit_simps)
qed


section \<open>Allocating a descriptor\<close>

definition tss_slot_free :: "u64 list \<Rightarrow> nat \<Rightarrow> bool" where
  "tss_slot_free g j \<longleftrightarrow> \<not> desc_present (g ! j) \<and> \<not> desc_present (g ! Suc j)"

definition gdt_ok :: "gdt_state \<Rightarrow> bool" where
  "gdt_ok st \<longleftrightarrow> length (gdt st) = 512 \<and> lock_free (gdt_lock st)"

text \<open>The outcome of storing a descriptor at the entries \<open>j\<close> and \<open>j + 1\<close>.\<close>

definition with_tss :: "u64 list \<Rightarrow> u64 \<Rightarrow> nat \<Rightarrow> u64 list" where
  "with_tss g p j =
     (let w = fill_tss_desc p (g ! j, g ! Suc j)
      in g[j := fst w, Suc j := write_field seg_desc ''p'' 1 (snd w)])"

lemma alloc_tss_loop_cases:
  assumes len: "length (gdt st) = 512"
  shows "(alloc_tss_loop st p i = Inl (Panic ''out of GDT entries'')
      \<and> (\<forall>j. unat i \<le> j \<and> j < 511 \<longrightarrow> \<not> tss_slot_free (gdt st) j))
    \<or> (\<exists>j. unat i \<le> j \<and> j < 511 \<and> tss_slot_free (gdt st) j
      \<and> (\<forall>k. unat i \<le> k \<and> k < j \<longrightarrow> \<not> tss_slot_free (gdt st) k)
      \<and> alloc_tss_loop st p i = Inr (push_bit 3 (of_nat j),
          st\<lparr>gdt := with_tss (gdt st) p j, gdt_lock := spin_unlock (gdt_lock st)\<rparr>))"
    (is "?none i \<or> ?some i")
proof (induction "511 - unat i" arbitrary: i rule: less_induct)
  case less
  show ?case
  proof (cases "i < GDT_ENTRY_NR - 1")
    case False
    then have "511 \<le> unat i" by (simp add: GDT_ENTRY_NR_def word_le_nat_alt not_less)
    then show ?thesis using False by (auto simp: alloc_tss_loop.simps [of st p i])
  next
    case True
    then have i: "unat i < 511" "unat (i + 1) = Suc (unat i)"
      using unat_Suc_below [OF True] by (simp_all add: GDT_ENTRY_NR_def word_less_nat_alt)
    have ix: "unat (ucast i :: u64) = unat i" by (simp add: unat_ucast_up)
    have ix': "unat (ucast i + 1 :: u64) = Suc (unat i)"
      using i(1) ix unat_add_small [of "ucast i :: u64" 1] by simp
    have step: "alloc_tss_loop st p i =
        (if tss_slot_free (gdt st) (unat i)
         then Inr (push_bit 3 i,
           st\<lparr>gdt := with_tss (gdt st) p (unat i), gdt_lock := spin_unlock (gdt_lock st)\<rparr>)
         else alloc_tss_loop st p (i + 1))"
      using True len i by (subst alloc_tss_loop.simps)
        (simp add: tget_in tset_in ix ix' tss_slot_free_def with_tss_def Let_def)
    show ?thesis
    proof (cases "tss_slot_free (gdt st) (unat i)")
      case True
      then show ?thesis using step i(1) by (intro disjI2 exI [of _ "unat i"]) auto
    next
      case False
      have "?none (i + 1) \<or> ?some (i + 1)"
        by (rule less.hyps) (use i in simp)
      moreover have "unat i \<le> k \<longleftrightarrow> k = unat i \<or> unat (i + 1) \<le> k" for k
        using i(2) by auto
      ultimately show ?thesis
        using False step by auto
    qed
  qed
qed


lemma with_tss_length [simp]: "length (with_tss g p j) = length g"
  by (simp add: with_tss_def Let_def)

lemma with_tss_other: "k \<noteq> j \<Longrightarrow> k \<noteq> Suc j \<Longrightarrow> with_tss g p j ! k = g ! k"
  by (simp add: with_tss_def Let_def)

lemma fill_tss_desc_present:
  "read_field tss_desc ''p'' (fst (fill_tss_desc p w)) = 1"
  "read_field tss_desc ''type'' (fst (fill_tss_desc p w)) = 9"
  "read_field tss_desc ''limit0'' (fst (fill_tss_desc p w)) = 103"
  by (cases w, simp add: fill_tss_desc_def Let_def desc_fields write_base1_def get_put_field
      get_put_field_other tss_size)+

lemma get_base_with_tss:
  assumes "length (gdt st) = 512" and "j < 511" and "gdt st = with_tss g p j"
  shows "get_gdt_tss_base st (push_bit 3 (of_nat j)) = Inr p"
proof -
  obtain w0 w1 where w: "fill_tss_desc p (g ! j, g ! Suc j) = (w0, w1)"
    by fastforce
  have j: "unat (of_nat j :: u16) = j"
    using assms(2) by (intro unat_of_nat_small) simp
  have "drop_bit 3 (push_bit 3 (of_nat j :: u16)) = of_nat j"
    using assms(2) j by (simp add: word_unat_eq_iff unat_shiftr push_bit_eq_mult unat_word_ariths)
  then have ix: "unat (ucast (drop_bit 3 (push_bit 3 (of_nat j :: u16))) :: u64) = j"
    "unat (ucast (drop_bit 3 (push_bit 3 (of_nat j :: u16))) + 1 :: u64) = Suc j"
    using assms(2) j unat_add_small [of "ucast (of_nat j :: u16) :: u64" 1]
    by (simp_all add: unat_ucast_up)
  have len: "length g = 512" using assms(1,3) by simp
  have "gdt st ! j = w0" "gdt st ! Suc j = write_field seg_desc ''p'' 1 w1"
    using assms(2) len by (simp_all add: assms(3) with_tss_def w)
  then show ?thesis
    using assms(1,2) ix fill_tss_desc_base [OF w] by (simp add: get_gdt_tss_base_def tget_in)
qed

lemma with_tss_present:
  assumes "j < 511" and "length g = 512"
  shows "desc_present (with_tss g p j ! j)" "desc_present (with_tss g p j ! Suc j)"
  using assms fill_tss_desc_present(1) [of p "(g ! j, g ! Suc j)"]
  by (simp_all add: with_tss_def Let_def desc_fields get_put_field)

lemma alloc_tss_desc_cases:
  assumes "gdt_ok st"
  obtains (none) "alloc_tss_desc st p = Inl (Panic ''out of GDT entries'')"
      "\<forall>j. 3 \<le> j \<and> j < 511 \<longrightarrow> \<not> tss_slot_free (gdt st) j"
    | (some) j st' where "3 \<le> j" "j < 511" "tss_slot_free (gdt st) j"
      "\<forall>k. 3 \<le> k \<and> k < j \<longrightarrow> \<not> tss_slot_free (gdt st) k"
      "alloc_tss_desc st p = Inr (push_bit 3 (of_nat j), st')"
      "gdt st' = with_tss (gdt st) p j" "gdt_ok st'"
proof -
  have len: "length (gdt st) = 512" and free: "lock_free (gdt_lock st)"
    using assms by (auto simp: gdt_ok_def)
  obtain l where l: "spin_lock (gdt_lock st) = Inr l" "lock_free (spin_unlock l)"
    using free by (auto simp: spin_lock_def spin_unlock_def lock_free_def Let_def)
  have start: "unat GDT_START = 3" by (simp add: GDT_START_def)
  show thesis
    using alloc_tss_loop_cases [of "st\<lparr>gdt_lock := l\<rparr>" p GDT_START] len start l none some
    by (auto simp: alloc_tss_desc_def gdt_ok_def)
qed

lemma alloc_tss_desc_base:
  assumes "gdt_ok st" and "alloc_tss_desc st p = Inr (sel, st')"
  shows "get_gdt_tss_base st' sel = Inr p"
  using assms(1)
proof (cases rule: alloc_tss_desc_cases [where p = p])
  case (some j st'')
  then show ?thesis
    using assms(2) get_base_with_tss [of st'' j "gdt st" p] by (auto simp: gdt_ok_def)
qed (use assms(2) in simp)

text \<open>
  C21: \<open>alloc_tss_desc\<close> takes the first two adjacent free entries of the GDT behind the boot
  entries and returns their selector: the entries become a present TSS descriptor of type 9
  whose limit is that of \<open>tss_t\<close>, \<open>get_gdt_tss_base\<close> of the selector returns the address of the
  TSS, no other entry changes, and the lock is free again. It panics only when the GDT has no two
  adjacent free entries.
\<close>

theorem alloc_tss_desc_roundtrip:
  assumes "gdt_ok st"
  shows "case alloc_tss_desc st p of
      Inl e \<Rightarrow> e = Panic ''out of GDT entries''
        \<and> (\<forall>j. 3 \<le> j \<and> j < 511 \<longrightarrow> \<not> tss_slot_free (gdt st) j)
    | Inr (sel, st') \<Rightarrow>
        (\<exists>j. 3 \<le> j \<and> j < 511 \<and> sel = push_bit 3 (of_nat j) \<and> tss_slot_free (gdt st) j
          \<and> (\<forall>k. 3 \<le> k \<and> k < j \<longrightarrow> \<not> tss_slot_free (gdt st) k)
          \<and> get_gdt_tss_base st' sel = Inr p
          \<and> read_field tss_desc ''type'' (gdt st' ! j) = 9
          \<and> read_field tss_desc ''limit0'' (gdt st' ! j) + 1 = of_nat (sizeof tss_t)
          \<and> desc_present (gdt st' ! j) \<and> desc_present (gdt st' ! Suc j)
          \<and> (\<forall>k. k \<noteq> j \<and> k \<noteq> Suc j \<longrightarrow> gdt st' ! k = gdt st ! k)
          \<and> gdt_ok st')"
  using assms
proof (cases rule: alloc_tss_desc_cases [where p = p])
  case none
  then show ?thesis by simp
next
  case (some j st')
  have len: "length (gdt st) = 512" using assms by (simp add: gdt_ok_def)
  have "read_field tss_desc ''type'' (with_tss (gdt st) p j ! j) = 9"
    "read_field tss_desc ''limit0'' (with_tss (gdt st) p j ! j) + 1 = of_nat (sizeof tss_t)"
    using fill_tss_desc_present(2,3) [of p "(gdt st ! j, gdt st ! Suc j)"] some(2) len
    by (simp_all add: with_tss_def Let_def tss_size)
  then show ?thesis
    using some len alloc_tss_desc_base [OF assms some(5)]
    by (auto simp: with_tss_other with_tss_present intro!: exI [of _ j])
qed

text \<open>The GDT as \<^verbatim>\<open>boot.S\<close> leaves it: null, code and data descriptors.\<close>

definition boot_gdt :: gdt_state where
  "boot_gdt = \<lparr>gdt = [0, 0x20980000000000, 0x920000000000] @ replicate 509 0,
     gdt_lock = SPINLOCK_UNLOCKED\<rparr>"

lemma alloc_tss_desc_roundtrip_witness:
  "case alloc_tss_desc boot_gdt 0xFFFF800012345678 of
     Inl e \<Rightarrow> False
   | Inr (sel, st') \<Rightarrow> sel = 0x18 \<and> get_gdt_tss_base st' sel = Inr 0xFFFF800012345678"
proof -
  have ok: "gdt_ok boot_gdt" by (simp add: gdt_ok_def boot_gdt_def)
  have free: "tss_slot_free (gdt boot_gdt) 3"
    by (simp add: tss_slot_free_def boot_gdt_def desc_fields get_field_def)
  show ?thesis
  proof (cases "alloc_tss_desc boot_gdt 0xFFFF800012345678")
    case (Inl e)
    then show ?thesis
      using alloc_tss_desc_roundtrip [OF ok, of "0xFFFF800012345678"] free by fastforce
  next
    case (Inr r)
    obtain sel st' where r: "r = (sel, st')" by (cases r)
    from alloc_tss_desc_roundtrip [OF ok, of "0xFFFF800012345678"] obtain j where j:
      "3 \<le> j" "sel = push_bit 3 (of_nat j)" "\<forall>k. 3 \<le> k \<and> k < j \<longrightarrow> \<not> tss_slot_free (gdt boot_gdt) k"
      "get_gdt_tss_base st' sel = Inr 0xFFFF800012345678"
      using Inr r by auto
    have "j = 3"
      using j(1,3) free by (metis le_neq_implies_less order_refl)
    then show ?thesis using j(2,4) Inr r by simp
  qed
qed

section \<open>Memory types\<close>

lemma physmask_inj: "IA32_MTRR_PHYSMASK (ucast (i :: u8)) = IA32_MTRR_PHYSMASK (ucast (j :: u8)) \<longleftrightarrow> i = j"
proof
  assume eq: "IA32_MTRR_PHYSMASK (ucast i) = IA32_MTRR_PHYSMASK (ucast j)"
  have n: "unat (IA32_MTRR_PHYSMASK (ucast k)) = 0x201 + 2 * unat k" for k :: u8
  proof -
    have "unat k < 256" using unsigned_less [of k] by simp
    then show ?thesis
      by (simp add: IA32_MTRR_PHYSMASK_def push_bit_eq_mult unat_word_ariths unat_ucast_up)
  qed
  show "i = j" using arg_cong [OF eq, of unat] by (simp only: n) (simp add: word_unat_eq_iff)
qed simp

lemma mtrr_loop_apply:
  "mtrr_loop m i cnt r =
     (if \<exists>k. i \<le> k \<and> k < cnt \<and> r = IA32_MTRR_PHYSMASK (ucast k) then 0 else m r)"
proof (induction m i cnt rule: mtrr_loop.induct)
  case (1 m i cnt)
  show ?case
  proof (cases "i < cnt")
    case True
    have le: "i \<le> k \<longleftrightarrow> k = i \<or> i + 1 \<le> k" for k
      using unat_Suc_below [OF True] by (auto simp: word_le_nat_alt word_unat_eq_iff)
    have ex: "(\<exists>k. i \<le> k \<and> k < cnt \<and> r = IA32_MTRR_PHYSMASK (ucast k)) \<longleftrightarrow>
        r = IA32_MTRR_PHYSMASK (ucast i) \<or> (\<exists>k. i + 1 \<le> k \<and> k < cnt \<and> r = IA32_MTRR_PHYSMASK (ucast k))"
      unfolding le using True by blast
    show ?thesis
      unfolding ex mtrr_loop.simps [of m i] using True 1 [OF True]
      by (auto simp: fun_upd_def)
  next
    case False
    then show ?thesis by (subst mtrr_loop.simps) auto
  qed
qed

text \<open>
  \<open>mtrr_config\<close> disables every variable-range register that the capability register counts
  and leaves write-back as the enabled default type; no register other than these is written.
\<close>

theorem mtrr_config_correct:
  "mtrr_config m r =
     (if r = IA32_MTRR_DEF_TYPE then 0x806
      else if \<exists>k :: u8. k < ucast (m IA32_MTRRCAP) \<and> r = IA32_MTRR_PHYSMASK (ucast k) then 0
      else m r)"
proof -
  have mask_8: "(0xFF :: u64) = mask 8" by (simp add: mask_eq_exp_minus_1)
  have "ucast (w AND 0xFF) = (ucast w :: u8)" for w :: u64
    unfolding mask_8 by (rule bit_word_eqI) (auto simp: bit_simps)
  then show ?thesis
    by (auto simp: mtrr_config_def Let_def mtrr_loop_apply msr_numbers)
qed

end
