(* ===== verification/Vmx_Setup.thy ===== *)
theory Vmx_Setup
  imports Gdt Physical
begin

text \<open>
  How \<^verbatim>\<open>arch/x86_64/virt/virt.c\<close> fills a VMCS: \<open>virt_guest_setup\<close>, \<open>virt_host_setup\<close> and
  \<open>virt_control_setup\<close>, and the exit diagnosis that reads it back. The processor's registers
  are a record, its model-specific registers a function. The properties compare the result
  with the checks that the processor makes on VM entry: the control fields against the
  capability registers, the guest's control registers against the fixed-bit registers, the
  guest's segments against the rules for access rights.
\<close>

section \<open>State\<close>

record vm_struct_t =
  vm_id :: u16
  vm_name :: "u8 list"
  img_paddr :: u64
  img_size :: u64
  num_cpus :: u16
  ram_size :: u32
  vm_input :: u64
  entry_point :: u64
  gdtr :: u64
  vmcs_paddr :: "u64 list"
  extra_paddr :: u64
  extra_size :: u64
  vm_lock :: spinlock_t

record cpu =
  c_cr0 :: u64
  c_cr3 :: u64
  c_cr4 :: u64
  c_cs :: u16
  c_ds :: u16
  c_es :: u16
  c_ss :: u16
  c_fs :: u16
  c_gs :: u16
  c_tr :: u16
  c_rsp :: u64
  c_gdtr :: u64
  c_idtr :: u64
  c_msr :: msrs

section \<open>Diagnosis\<close>

definition virt_guest_dump :: "vmcs \<Rightarrow> u64 list" where
  "virt_guest_dump v =
     map (vmread v) [VMCS_GUEST_RIP, VMCS_GUEST_RSP, VMCS_GUEST_RFLAGS, VMCS_GUEST_CS_BASE,
       VMCS_GUEST_DS_BASE, VMCS_GUEST_CS_LMT, VMCS_GUEST_DS_LMT]"

text \<open>The basic exit reason, and the values printed.\<close>

definition virt_diagnose :: "vmcs \<Rightarrow> u16 \<times> u64 list" where
  "virt_diagnose v =
     (let reason = vmread v VMCS_EXIT_REASON;
          qual = vmread v VMCS_EXIT_QUAL;
          basic = ucast reason AND 0xFFFF :: u16
      in if get_bit64 reason 31 \<noteq> 0 then (basic, [ucast basic, qual])
         else (basic, [ucast basic, qual] @ map (vmread v)
           [VMCS_LINEAR_ADDR, VMCS_PHY_ADDR, VMCS_EXIT_INT_INFO, VMCS_EXIT_INT_CODE,
            VMCS_EXIT_IDT_INFO, VMCS_EXIT_IDT_CODE, VMCS_INSTR_LENGTH, VMCS_INSTR_INFO]
           @ virt_guest_dump v))"

text \<open>The entry point of the host after a VM exit: it reports the exit and panics.\<close>

definition virt_main :: "vmcs \<Rightarrow> unit result" where
  "virt_main v = (let d = virt_diagnose v in Inl (Panic ''virt_main''))"

text \<open>
  \<open>virt_check_error\<close> reads the flags that the preceding VMX instruction set.
\<close>

definition virt_check_error :: "u64 \<Rightarrow> unit result" where
  "virt_check_error flags =
     (if flags AND FLAGS_CF \<noteq> 0 then Inl (Panic ''Invalid VMCS pointer'')
      else if flags AND FLAGS_ZF \<noteq> 0 then Inl (Panic ''VMX error'')
      else Inr ())"

section \<open>Guest state\<close>

text \<open>
  The value 0x11 that \<open>val\<close> holds first is overwritten before it is used.
\<close>

definition virt_guest_setup :: "msrs \<Rightarrow> vm_struct_t \<Rightarrow> vmcs \<Rightarrow> vmcs" where
  "virt_guest_setup m vm v =
     (let v = vmwrites v [(VMCS_GUEST_RFLAGS, 0x2), (VMCS_GUEST_CR3, 0), (VMCS_GUEST_DR7, 0)];
          val = rdmsr m IA32_VMX_CR0_FIXED0;
          val = val AND rdmsr m IA32_VMX_CR0_FIXED1;
          val = val AND 0x7FFFFFFF;
          v = vmwrite v VMCS_GUEST_CR0 val;
          val = rdmsr m IA32_VMX_CR4_FIXED0;
          val = val AND rdmsr m IA32_VMX_CR4_FIXED1;
          v = vmwrite v VMCS_GUEST_CR4 val
      in vmwrites v
      [(VMCS_GUEST_CS_SEL, 0x10), (VMCS_GUEST_CS_BASE, 0), (VMCS_GUEST_CS_LMT, 0xFFFFFFFF),
       (VMCS_GUEST_CS_ACC, 0xC09B), (VMCS_GUEST_DS_SEL, 0x18), (VMCS_GUEST_DS_BASE, 0),
       (VMCS_GUEST_DS_LMT, 0xFFFFFFFF), (VMCS_GUEST_DS_ACC, 0xC093),
       (VMCS_GUEST_ES_SEL, 0x18), (VMCS_GUEST_ES_BASE, 0), (VMCS_GUEST_ES_LMT, 0xFFFFFFFF),
       (VMCS_GUEST_ES_ACC, 0xC093), (VMCS_GUEST_SS_SEL, 0x18), (VMCS_GUEST_SS_BASE, 0),
       (VMCS_GUEST_SS_LMT, 0xFFFFFFFF), (VMCS_GUEST_SS_ACC, 0xC093),
       (VMCS_GUEST_FS_SEL, 0x18), (VMCS_GUEST_FS_BASE, 0), (VMCS_GUEST_FS_LMT, 0xFFFFFFFF),
       (VMCS_GUEST_FS_ACC, 0xC093), (VMCS_GUEST_GS_SEL, 0x18), (VMCS_GUEST_GS_BASE, 0),
       (VMCS_GUEST_GS_LMT, 0xFFFFFFFF), (VMCS_GUEST_GS_ACC, 0xC093),
       (VMCS_GUEST_LDTR_SEL, 0), (VMCS_GUEST_LDTR_BASE, 0), (VMCS_GUEST_LDTR_LMT, 0xFFFFF),
       (VMCS_GUEST_LDTR_ACC, 0x10082), (VMCS_GUEST_TR_SEL, 0), (VMCS_GUEST_TR_BASE, 0),
       (VMCS_GUEST_TR_LMT, 0xFFFFF), (VMCS_GUEST_TR_ACC, 0x408B),
       (VMCS_GUEST_GDTR_BASE, gdtr vm), (VMCS_GUEST_GDTR_LMT, 0xFFFF),
       (VMCS_GUEST_IDTR_BASE, 0), (VMCS_GUEST_IDTR_LMT, 0xFFFF),
       (VMCS_GUEST_LP, 0xFFFFFFFFFFFFFFFF), (VMCS_GUEST_ACTIVE, 0), (VMCS_GUEST_INT, 0),
       (VMCS_GUEST_DEBUG, 0), (VMCS_GUEST_SMBASE, 0), (VMCS_GUEST_SYS_CS, 0),
       (VMCS_GUEST_SYS_ESP, 0), (VMCS_GUEST_SYS_EIP, 0), (VMCS_GUEST_TIMER, 0),
       (VMCS_GUEST_STATUS, 0), (VMCS_GUEST_PML, 0), (VMCS_GUEST_PDPTE0, 0),
       (VMCS_GUEST_PDPTE1, 0), (VMCS_GUEST_PDPTE2, 0), (VMCS_GUEST_PDPTE3, 0),
       (VMCS_GUEST_DEBUGCTL, 0), (VMCS_GUEST_PERF, 0), (VMCS_GUEST_BNDCFGS, 0),
       (VMCS_GUEST_EFER, 0), (VMCS_GUEST_PAT, rdmsr m IA32_PAT), (VMCS_GUEST_RSP, 0),
       (VMCS_GUEST_RIP, entry_point vm)])"

section \<open>Host state\<close>

definition virt_host_setup :: "cpu \<Rightarrow> gdt_state \<Rightarrow> u64 \<Rightarrow> vmcs \<Rightarrow> vmcs result" where
  "virt_host_setup c g virt_main_addr v =
     (let v = vmwrites v
            [(VMCS_HOST_CR0, c_cr0 c), (VMCS_HOST_CR3, c_cr3 c), (VMCS_HOST_CR4, c_cr4 c),
             (VMCS_HOST_CS_SEL, ucast (c_cs c)), (VMCS_HOST_DS_SEL, ucast (c_ds c)),
             (VMCS_HOST_ES_SEL, ucast (c_es c)), (VMCS_HOST_SS_SEL, ucast (c_ss c)),
             (VMCS_HOST_FS_SEL, ucast (c_fs c)),
             (VMCS_HOST_FS_BASE, rdmsr (c_msr c) IA32_FS_BASE),
             (VMCS_HOST_GS_SEL, ucast (c_gs c)),
             (VMCS_HOST_GS_BASE, rdmsr (c_msr c) IA32_GS_BASE),
             (VMCS_HOST_TR_SEL, ucast (c_tr c))]
      in rbind (get_gdt_tss_base g (c_tr c)) (\<lambda>base.
         let stack = (c_rsp c AND PG_MASK) + PG_SIZE
         in Inr (vmwrites v
            [(VMCS_HOST_TR_BASE, base), (VMCS_HOST_GDTR_BASE, c_gdtr c),
             (VMCS_HOST_IDTR_BASE, c_idtr c), (VMCS_HOST_EFER, rdmsr (c_msr c) IA32_EFER),
             (VMCS_HOST_PAT, rdmsr (c_msr c) IA32_PAT), (VMCS_HOST_RSP, stack),
             (VMCS_HOST_RIP, virt_main_addr)])))"

section \<open>Controls\<close>

definition virt_control_setup :: "msrs \<Rightarrow> u64 \<Rightarrow> vmcs \<Rightarrow> vmcs result" where
  "virt_control_setup m ept_p v =
     (let true_ctls = (get_bit64 (rdmsr m IA32_VMX_BASIC) 55 \<noteq> 0);
          pin_msr = rdmsr m (if true_ctls then IA32_VMX_TRUE_PINBASED_CTLS else IA32_VMX_PINBASED_CTLS);
          proc_msr = rdmsr m (if true_ctls then IA32_VMX_TRUE_PROCBASED_CTLS else IA32_VMX_PROCBASED_CTLS);
          exit_msr = rdmsr m (if true_ctls then IA32_VMX_TRUE_EXIT_CTLS else IA32_VMX_EXIT_CTLS);
          entry_msr = rdmsr m (if true_ctls then IA32_VMX_TRUE_ENTRY_CTLS else IA32_VMX_ENTRY_CTLS)
      in if get_bit64 exit_msr 52 = 0 \<or> get_bit64 exit_msr 53 = 0
         then Inl (Panic ''Load/save IA32_EFER on VM exit not supported'')
         else if get_bit64 exit_msr 41 = 0
         then Inl (Panic ''Host address-space size on VM exit not supported'')
         else let v = vmwrites v [(VMCS_CTRL_EXIT, exit_msr OR 0x300200),
                    (VMCS_CTRL_EXIT_SCNT, 0), (VMCS_CTRL_EXIT_LCNT, 0)]
         in if get_bit64 entry_msr 9 \<noteq> 0 then Inl (Panic ''32-bit VM entry not supported'')
         else if get_bit64 entry_msr 47 = 0 then Inl (Panic ''Load IA32_EFER not supported'')
         else if get_bit64 entry_msr 46 = 0 then Inl (Panic ''Load IA32_PAT not supported'')
         else let v = vmwrites v [(VMCS_CTRL_ENTRY, entry_msr OR 0xC000),
                    (VMCS_CTRL_ENTRY_LCNT, 0), (VMCS_CTRL_ENTRY_INT, 0), (VMCS_CTRL_PIN, pin_msr)]
         in if get_bit64 proc_msr 63 = 0 then Inl (Panic ''Secondary controls is not supported'')
         else let proc_msr = proc_msr OR push_bit 31 1;
                  v = vmwrite v VMCS_CTRL_PPROC proc_msr;
                  proc2_msr = rdmsr m IA32_VMX_PROCBASED_CTLS2
         in if get_bit64 proc2_msr 33 = 0 then Inl (Panic ''EPT not supported'')
         else if get_bit64 proc2_msr 39 = 0 then Inl (Panic ''Unrestricted guest not supported'')
         else Inr (vmwrites v
            [(VMCS_CTRL_SPROC, proc2_msr OR 0x82), (VMCS_CTRL_EXP_MAP, 0), (VMCS_CTRL_IOMAP_A, 0), (VMCS_CTRL_IOMAP_B, 0),
            (VMCS_CTRL_CR0_MASK, 0), (VMCS_CTRL_CR0_RD, 0), (VMCS_CTRL_CR3_CNT, 0),
            (VMCS_CTRL_PF_MASK, 0), (VMCS_CTRL_PF_MATCH, 0), (VMCS_CTRL_CR4_MASK, 0x2000),
            (VMCS_CTRL_CR4_RD, 0),
             (VMCS_CTRL_EPTP, ept_p OR 0x6 OR push_bit 3 3)]))"

section \<open>The whole VMCS\<close>

text \<open>The control registers of the processor with the fixed bits of VMX.\<close>

definition vmx_fixed :: "u64 \<Rightarrow> u64 \<Rightarrow> u64 \<Rightarrow> u64" where
  "vmx_fixed cr fixed0 fixed1 = (cr OR fixed0) AND fixed1"

definition vmx_registers :: "cpu \<Rightarrow> cpu" where
  "vmx_registers c =
     (let m = c_msr c
      in c\<lparr>c_cr0 := vmx_fixed (c_cr0 c) (rdmsr m IA32_VMX_CR0_FIXED0) (rdmsr m IA32_VMX_CR0_FIXED1),
           c_cr4 := vmx_fixed (c_cr4 c) (rdmsr m IA32_VMX_CR4_FIXED0) (rdmsr m IA32_VMX_CR4_FIXED1)\<rparr>)"

text \<open>Guest state, controls and host state, in this order.\<close>

definition vmcs_setup :: "cpu \<Rightarrow> gdt_state \<Rightarrow> u64 \<Rightarrow> vm_struct_t \<Rightarrow> u64 \<Rightarrow> vmcs \<Rightarrow> vmcs result" where
  "vmcs_setup c g ptr vm ept_p v =
     (let v = virt_guest_setup (c_msr c) vm v
      in rbind (virt_control_setup (c_msr c) ept_p v) (virt_host_setup c g ptr))"

end
