(* ===== verification/Vmx_Checks.thy ===== *)
theory Vmx_Checks
  imports Vmx_Setup
begin

text \<open>
  The VMCS that \<^verbatim>\<open>virt.c\<close> builds passes the checks of VM entry. The checks are stated as
  executable predicates on the VMCS and the capability registers, after the processor manual
  (VM-execution, VM-exit and VM-entry control fields; guest control registers, segment
  registers, \<open>RIP\<close> and \<open>RFLAGS\<close>; guest non-register state).
\<close>

section \<open>Control fields\<close>

text \<open>
  A capability register holds in its lower half the control bits that must be 1 (allowed-0
  settings) and in its upper half those that may be 1 (allowed-1 settings).
\<close>

definition caps_ok :: "u64 \<Rightarrow> bool" where
  "caps_ok msr \<longleftrightarrow> take_bit 32 msr AND NOT (drop_bit 32 msr) = 0"

definition ctl_ok :: "u64 \<Rightarrow> u64 \<Rightarrow> bool" where
  "ctl_ok msr c \<longleftrightarrow> take_bit 32 msr AND NOT c = 0 \<and> c AND NOT (drop_bit 32 msr) = 0"

text \<open>The capability registers that \<open>virt_control_setup\<close> consults.\<close>

definition ctl_msr :: "msrs \<Rightarrow> u32 \<Rightarrow> u32 \<Rightarrow> u64" where
  "ctl_msr m true_ctl ctl = m (if bit (m IA32_VMX_BASIC) 55 then true_ctl else ctl)"

abbreviation "pin_caps m \<equiv> ctl_msr m IA32_VMX_TRUE_PINBASED_CTLS IA32_VMX_PINBASED_CTLS"
abbreviation "proc_caps m \<equiv> ctl_msr m IA32_VMX_TRUE_PROCBASED_CTLS IA32_VMX_PROCBASED_CTLS"
abbreviation "exit_caps m \<equiv> ctl_msr m IA32_VMX_TRUE_EXIT_CTLS IA32_VMX_EXIT_CTLS"
abbreviation "entry_caps m \<equiv> ctl_msr m IA32_VMX_TRUE_ENTRY_CTLS IA32_VMX_ENTRY_CTLS"
abbreviation "proc2_caps m \<equiv> m IA32_VMX_PROCBASED_CTLS2"

text \<open>The features that the hypervisor needs.\<close>

definition vmx_capable :: "msrs \<Rightarrow> bool" where
  "vmx_capable m \<longleftrightarrow>
     bit (exit_caps m) 52 \<and> bit (exit_caps m) 53 \<and> bit (exit_caps m) 41
     \<and> \<not> bit (entry_caps m) 9 \<and> bit (entry_caps m) 47 \<and> bit (entry_caps m) 46
     \<and> bit (proc_caps m) 63 \<and> bit (proc2_caps m) 33 \<and> bit (proc2_caps m) 39"

lemma get_bit64_iff:
  assumes "unat i < 64"
  shows "get_bit64 w i = 0 \<longleftrightarrow> \<not> bit w (unat i)"
  using assms by (simp add: get_bit64_def word_pos_iff and_push_bit_1)

lemma caps_ok_bit: "caps_ok msr \<Longrightarrow> bit msr k \<Longrightarrow> k < 32 \<Longrightarrow> bit msr (32 + k)"
  unfolding caps_ok_def
  by (drule arg_cong [of _ _ "\<lambda>w. bit w k"]) (auto simp: bit_simps)

text \<open>Requested bits that may be 1 keep a control field valid.\<close>

lemma ctl_ok_or:
  assumes "caps_ok msr" and "\<forall>k. bit b k \<longrightarrow> k < 32 \<and> bit msr (32 + k)"
  shows "ctl_ok msr (take_bit 32 (msr OR b))"
  unfolding ctl_ok_def
proof
  show "take_bit 32 msr AND NOT (take_bit 32 (msr OR b)) = 0"
    by (rule bit_word_eqI) (auto simp: bit_simps)
  show "take_bit 32 (msr OR b) AND NOT (drop_bit 32 msr) = 0"
    by (rule bit_word_eqI) (use assms caps_ok_bit in \<open>auto simp: bit_simps\<close>)
qed

lemma control_request_bits:
  "bit (0x300200 :: u64) k \<longleftrightarrow> k = 9 \<or> k = 20 \<or> k = 21"
  "bit (0xC000 :: u64) k \<longleftrightarrow> k = 14 \<or> k = 15"
  "bit (0x82 :: u64) k \<longleftrightarrow> k = 1 \<or> k = 7"
  "bit (push_bit 31 1 :: u64) k \<longleftrightarrow> k = 31"
proof -
  have exit: "(0x300200 :: u64) = push_bit 9 1 OR push_bit 20 1 OR push_bit 21 1"
    and entry: "(0xC000 :: u64) = push_bit 14 1 OR push_bit 15 1"
    and proc2: "(0x82 :: u64) = push_bit 1 1 OR push_bit 7 1"
    by simp_all
  show "bit (0x300200 :: u64) k \<longleftrightarrow> k = 9 \<or> k = 20 \<or> k = 21"
    unfolding exit bit_or_iff bit_push_bit_iff by (auto simp: bit_1_iff)
  show "bit (0xC000 :: u64) k \<longleftrightarrow> k = 14 \<or> k = 15"
    unfolding entry bit_or_iff bit_push_bit_iff by (auto simp: bit_1_iff)
  show "bit (0x82 :: u64) k \<longleftrightarrow> k = 1 \<or> k = 7"
    unfolding proc2 bit_or_iff bit_push_bit_iff by (auto simp: bit_1_iff)
  show "bit (push_bit 31 1 :: u64) k \<longleftrightarrow> k = 31"
    unfolding bit_push_bit_iff by (auto simp: bit_1_iff)
qed

text \<open>The writes of \<open>virt_control_setup\<close> on a processor that has the features.\<close>

definition control_writes :: "msrs \<Rightarrow> u64 \<Rightarrow> (u64 \<times> u64) list" where
  "control_writes m ept_p =
     [(VMCS_CTRL_EXIT, exit_caps m OR 0x300200), (VMCS_CTRL_EXIT_SCNT, 0), (VMCS_CTRL_EXIT_LCNT, 0),
      (VMCS_CTRL_ENTRY, entry_caps m OR 0xC000), (VMCS_CTRL_ENTRY_LCNT, 0), (VMCS_CTRL_ENTRY_INT, 0),
      (VMCS_CTRL_PIN, pin_caps m), (VMCS_CTRL_PPROC, proc_caps m OR push_bit 31 1),
      (VMCS_CTRL_SPROC, proc2_caps m OR 0x82), (VMCS_CTRL_EXP_MAP, 0), (VMCS_CTRL_IOMAP_A, 0),
      (VMCS_CTRL_IOMAP_B, 0), (VMCS_CTRL_CR0_MASK, 0), (VMCS_CTRL_CR0_RD, 0), (VMCS_CTRL_CR3_CNT, 0),
      (VMCS_CTRL_PF_MASK, 0), (VMCS_CTRL_PF_MATCH, 0), (VMCS_CTRL_CR4_MASK, 0x2000),
      (VMCS_CTRL_CR4_RD, 0), (VMCS_CTRL_EPTP, ept_p OR 0x6 OR push_bit 3 3)]"

lemma ctl_msr_eq: "m (if get_bit64 (m IA32_VMX_BASIC) 55 \<noteq> 0 then a else b) = ctl_msr m a b"
  by (simp add: ctl_msr_def get_bit64_iff)

lemma virt_control_setup_eq:
  "virt_control_setup m ept_p v =
     (if get_bit64 (exit_caps m) 52 = 0 \<or> get_bit64 (exit_caps m) 53 = 0
      then Inl (Panic ''Load/save IA32_EFER on VM exit not supported'')
      else if get_bit64 (exit_caps m) 41 = 0
      then Inl (Panic ''Host address-space size on VM exit not supported'')
      else if get_bit64 (entry_caps m) 9 \<noteq> 0 then Inl (Panic ''32-bit VM entry not supported'')
      else if get_bit64 (entry_caps m) 47 = 0 then Inl (Panic ''Load IA32_EFER not supported'')
      else if get_bit64 (entry_caps m) 46 = 0 then Inl (Panic ''Load IA32_PAT not supported'')
      else if get_bit64 (proc_caps m) 63 = 0 then Inl (Panic ''Secondary controls is not supported'')
      else if get_bit64 (proc2_caps m) 33 = 0 then Inl (Panic ''EPT not supported'')
      else if get_bit64 (proc2_caps m) 39 = 0 then Inl (Panic ''Unrestricted guest not supported'')
      else Inr (vmwrites v (control_writes m ept_p)))"
  unfolding virt_control_setup_def Let_def rdmsr_eq ctl_msr_eq control_writes_def vmwrites_Cons
    vmwrites_Nil
  by (rule refl)

lemma virt_control_setup_Inl:
  "\<not> vmx_capable m \<Longrightarrow> \<exists>msg. virt_control_setup m ept_p v = Inl (Panic msg)"
  by (auto simp: virt_control_setup_eq vmx_capable_def get_bit64_iff)

lemma virt_control_setup_Inr:
  "vmx_capable m \<Longrightarrow> virt_control_setup m ept_p v = Inr (vmwrites v (control_writes m ept_p))"
  by (simp add: virt_control_setup_eq vmx_capable_def get_bit64_iff)

lemma control_fields:
  assumes "v' = vmwrites v (control_writes m ept_p)"
  shows "vmread v' VMCS_CTRL_PIN = take_bit 32 (pin_caps m OR 0)"
    "vmread v' VMCS_CTRL_PPROC = take_bit 32 (proc_caps m OR push_bit 31 1)"
    "vmread v' VMCS_CTRL_SPROC = take_bit 32 (proc2_caps m OR 0x82)"
    "vmread v' VMCS_CTRL_EXIT = take_bit 32 (exit_caps m OR 0x300200)"
    "vmread v' VMCS_CTRL_ENTRY = take_bit 32 (entry_caps m OR 0xC000)"
    "vmread v' VMCS_CTRL_EPTP = ept_p OR 0x1E"
  by (simp_all add: assms vmread_vmwrite control_writes_def vmcs_fields field_width_def or.assoc
      take_bit_word_eq_self)

text \<open>
  Each of the five control fields passes the check of VM entry against its capability register
  (all must-be-1 bits are set, no bit outside the may-be-1 bits is), the requested features are on
  (save/load of \<open>EFER\<close> and 64-bit host on exit, load of \<open>EFER\<close> and \<open>PAT\<close> on entry, secondary
  controls, EPT, unrestricted guest), the guest starts in 32-bit mode, and the EPT pointer is that
  of the tables with write-back type and four levels.
\<close>

definition controls_ok :: "msrs \<Rightarrow> u64 \<Rightarrow> vmcs \<Rightarrow> bool" where
  "controls_ok m ept_p v' \<longleftrightarrow>
     ctl_ok (pin_caps m) (vmread v' VMCS_CTRL_PIN)
     \<and> ctl_ok (proc_caps m) (vmread v' VMCS_CTRL_PPROC)
     \<and> ctl_ok (proc2_caps m) (vmread v' VMCS_CTRL_SPROC)
     \<and> ctl_ok (exit_caps m) (vmread v' VMCS_CTRL_EXIT)
     \<and> ctl_ok (entry_caps m) (vmread v' VMCS_CTRL_ENTRY)
     \<and> list_all (bit (vmread v' VMCS_CTRL_EXIT)) [9, 20, 21]
     \<and> list_all (bit (vmread v' VMCS_CTRL_ENTRY)) [14, 15]
     \<and> \<not> bit (vmread v' VMCS_CTRL_ENTRY) 9
     \<and> bit (vmread v' VMCS_CTRL_PPROC) 31
     \<and> list_all (bit (vmread v' VMCS_CTRL_SPROC)) [1, 7]
     \<and> vmread v' VMCS_CTRL_EPTP = ept_p OR 0x1E"

lemma controls_ok_setup:
  assumes caps: "caps_ok (pin_caps m)" "caps_ok (proc_caps m)" "caps_ok (exit_caps m)"
    "caps_ok (entry_caps m)" "caps_ok (proc2_caps m)"
    and True: "vmx_capable m" and v': "v' = vmwrites v (control_writes m ept_p)"
  shows "controls_ok m ept_p v'"
proof -
  note f = control_fields [OF v']
  have bits: "\<forall>k. bit 0 k \<longrightarrow> k < 32 \<and> bit (pin_caps m) (32 + k)"
    "\<forall>k. bit (push_bit 31 1 :: u64) k \<longrightarrow> k < 32 \<and> bit (proc_caps m) (32 + k)"
    "\<forall>k. bit (0x82 :: u64) k \<longrightarrow> k < 32 \<and> bit (proc2_caps m) (32 + k)"
    "\<forall>k. bit (0x300200 :: u64) k \<longrightarrow> k < 32 \<and> bit (exit_caps m) (32 + k)"
    "\<forall>k. bit (0xC000 :: u64) k \<longrightarrow> k < 32 \<and> bit (entry_caps m) (32 + k)"
    using True unfolding control_request_bits vmx_capable_def by auto
  note req = ctl_ok_or [OF caps(1) bits(1)] ctl_ok_or [OF caps(2) bits(2)]
    ctl_ok_or [OF caps(5) bits(3)] ctl_ok_or [OF caps(3) bits(4)] ctl_ok_or [OF caps(4) bits(5)]
  have on: "list_all (bit (take_bit 32 (exit_caps m OR 0x300200))) [9, 20, 21]"
    "list_all (bit (take_bit 32 (entry_caps m OR 0xC000))) [14, 15]"
    "\<not> bit (take_bit 32 (entry_caps m OR 0xC000)) 9"
    "bit (take_bit 32 (proc_caps m OR push_bit 31 1)) 31"
    "list_all (bit (take_bit 32 (proc2_caps m OR 0x82))) [1, 7]"
    using True unfolding list.pred_inject bit_take_bit_iff bit_or_iff control_request_bits vmx_capable_def
    by auto
  show ?thesis
    unfolding controls_ok_def using req on by (simp add: f)
qed


text \<open>A processor with all features, whose capability registers require the default bits.\<close>

definition demo_msrs :: msrs where
  "demo_msrs r =
     (if r = IA32_VMX_BASIC then 0xDA040000000004
      else if r = IA32_VMX_TRUE_PINBASED_CTLS then 0x7F00000016
      else if r = IA32_VMX_TRUE_PROCBASED_CTLS then 0xFFF9FFFE0401E172
      else if r = IA32_VMX_TRUE_EXIT_CTLS then 0x1FFFFFF00036DFF
      else if r = IA32_VMX_TRUE_ENTRY_CTLS then 0x3FFFF000011FF
      else if r = IA32_VMX_PROCBASED_CTLS2 then 0x1FFCFF00000000
      else if r = IA32_VMX_CR0_FIXED0 then 0x80000021
      else if r = IA32_VMX_CR0_FIXED1 then 0xFFFFFFFF
      else if r = IA32_VMX_CR4_FIXED0 then 0x2000
      else if r = IA32_VMX_CR4_FIXED1 then 0x3767FF
      else 0)"

lemma demo_msrs_capable: "vmx_capable demo_msrs"
  by (simp add: vmx_capable_def ctl_msr_def demo_msrs_def msr_numbers)

lemma demo_msrs_caps_ok:
  "caps_ok (pin_caps demo_msrs)" "caps_ok (proc_caps demo_msrs)" "caps_ok (exit_caps demo_msrs)"
  "caps_ok (entry_caps demo_msrs)" "caps_ok (proc2_caps demo_msrs)"
  by (simp_all add: caps_ok_def ctl_msr_def demo_msrs_def msr_numbers)

section \<open>Guest state\<close>

text \<open>
  Access rights of a segment: bits 3:0 the type, 4 S, 6:5 DPL, 7 P, 11:8 reserved, 14 D/B, 15 G,
  16 unusable, 31:17 reserved.
\<close>

definition acc_type :: "u64 \<Rightarrow> u64" where "acc_type acc = take_bit 4 acc"
definition acc_dpl :: "u64 \<Rightarrow> u64" where "acc_dpl acc = take_bit 2 (drop_bit 5 acc)"

definition granularity_ok :: "u64 \<Rightarrow> u64 \<Rightarrow> bool" where
  "granularity_ok acc limit \<longleftrightarrow>
     (take_bit 12 limit = 0xFFF \<or> \<not> bit acc 15) \<and> (drop_bit 20 limit = 0 \<or> bit acc 15)"

definition acc_common_ok :: "u64 \<Rightarrow> u64 \<Rightarrow> bool" where
  "acc_common_ok acc limit \<longleftrightarrow>
     \<not> bit acc 16 \<and> bit acc 7 \<and> take_bit 4 (drop_bit 8 acc) = 0 \<and> drop_bit 17 acc = 0
     \<and> granularity_ok acc limit"

definition seg_ok :: "u64 \<Rightarrow> u64 \<Rightarrow> u64 \<Rightarrow> bool" where
  "seg_ok base limit acc \<longleftrightarrow> acc_common_ok acc limit \<and> bit acc 4 \<and> bit acc 0 \<and> drop_bit 32 base = 0"

definition guest_segments_ok :: "vmcs \<Rightarrow> bool" where
  "guest_segments_ok v \<longleftrightarrow>
     seg_ok (vmread v VMCS_GUEST_CS_BASE) (vmread v VMCS_GUEST_CS_LMT) (vmread v VMCS_GUEST_CS_ACC)
     \<and> acc_type (vmread v VMCS_GUEST_CS_ACC) \<in> {9, 11, 13, 15}
     \<and> acc_dpl (vmread v VMCS_GUEST_CS_ACC) = acc_dpl (vmread v VMCS_GUEST_SS_ACC)
     \<and> seg_ok (vmread v VMCS_GUEST_SS_BASE) (vmread v VMCS_GUEST_SS_LMT) (vmread v VMCS_GUEST_SS_ACC)
     \<and> acc_type (vmread v VMCS_GUEST_SS_ACC) \<in> {3, 7}
     \<and> acc_dpl (vmread v VMCS_GUEST_SS_ACC) = 0
     \<and> take_bit 2 (vmread v VMCS_GUEST_SS_SEL) = take_bit 2 (vmread v VMCS_GUEST_CS_SEL)
     \<and> seg_ok (vmread v VMCS_GUEST_DS_BASE) (vmread v VMCS_GUEST_DS_LMT) (vmread v VMCS_GUEST_DS_ACC)
     \<and> seg_ok (vmread v VMCS_GUEST_ES_BASE) (vmread v VMCS_GUEST_ES_LMT) (vmread v VMCS_GUEST_ES_ACC)
     \<and> seg_ok (vmread v VMCS_GUEST_FS_BASE) (vmread v VMCS_GUEST_FS_LMT) (vmread v VMCS_GUEST_FS_ACC)
     \<and> seg_ok (vmread v VMCS_GUEST_GS_BASE) (vmread v VMCS_GUEST_GS_LMT) (vmread v VMCS_GUEST_GS_ACC)
     \<and> acc_common_ok (vmread v VMCS_GUEST_TR_ACC) (vmread v VMCS_GUEST_TR_LMT)
     \<and> acc_type (vmread v VMCS_GUEST_TR_ACC) \<in> {3, 11}
     \<and> \<not> bit (vmread v VMCS_GUEST_TR_ACC) 4 \<and> \<not> bit (vmread v VMCS_GUEST_TR_SEL) 2
     \<and> bit (vmread v VMCS_GUEST_LDTR_ACC) 16"

text \<open>
  The control registers with an unrestricted guest: \<open>PE\<close> and \<open>PG\<close> are free, every other bit
  follows the fixed-bit registers.
\<close>

definition guest_control_regs_ok :: "msrs \<Rightarrow> vmcs \<Rightarrow> bool" where
  "guest_control_regs_ok m v \<longleftrightarrow>
     list_all (\<lambda>k. k = 0 \<or> k = 31 \<or> \<not> bit (m IA32_VMX_CR0_FIXED0) k
       \<or> bit (vmread v VMCS_GUEST_CR0) k) [0..<64]
     \<and> vmread v VMCS_GUEST_CR0 AND NOT (m IA32_VMX_CR0_FIXED1) = 0
     \<and> \<not> bit (vmread v VMCS_GUEST_CR0) 31
     \<and> m IA32_VMX_CR4_FIXED0 AND NOT (vmread v VMCS_GUEST_CR4) = 0
     \<and> vmread v VMCS_GUEST_CR4 AND NOT (m IA32_VMX_CR4_FIXED1) = 0"

definition guest_other_ok :: "vmcs \<Rightarrow> bool" where
  "guest_other_ok v \<longleftrightarrow>
     bit (vmread v VMCS_GUEST_RFLAGS) 1
     \<and> vmread v VMCS_GUEST_RFLAGS AND 0xFFFFFFFFFFC08028 = 0
     \<and> drop_bit 32 (vmread v VMCS_GUEST_RIP) = 0
     \<and> drop_bit 32 (vmread v VMCS_GUEST_DR7) = 0
     \<and> drop_bit 16 (vmread v VMCS_GUEST_GDTR_LMT) = 0
     \<and> drop_bit 16 (vmread v VMCS_GUEST_IDTR_LMT) = 0
     \<and> vmread v VMCS_GUEST_EFER = 0
     \<and> vmread v VMCS_GUEST_ACTIVE = 0 \<and> vmread v VMCS_GUEST_INT = 0
     \<and> vmread v VMCS_GUEST_LP = 0xFFFFFFFFFFFFFFFF"

lemma guest_fields:
  assumes "v' = virt_guest_setup m vm v"
  shows
    "vmread v' VMCS_GUEST_CS_BASE = 0"
    "vmread v' VMCS_GUEST_CS_LMT = 0xFFFFFFFF"
    "vmread v' VMCS_GUEST_CS_ACC = 0xC09B"
    "vmread v' VMCS_GUEST_CS_SEL = 0x10"
    "vmread v' VMCS_GUEST_DS_BASE = 0"
    "vmread v' VMCS_GUEST_DS_LMT = 0xFFFFFFFF"
    "vmread v' VMCS_GUEST_DS_ACC = 0xC093"
    "vmread v' VMCS_GUEST_ES_BASE = 0"
    "vmread v' VMCS_GUEST_ES_LMT = 0xFFFFFFFF"
    "vmread v' VMCS_GUEST_ES_ACC = 0xC093"
    "vmread v' VMCS_GUEST_SS_BASE = 0"
    "vmread v' VMCS_GUEST_SS_LMT = 0xFFFFFFFF"
    "vmread v' VMCS_GUEST_SS_ACC = 0xC093"
    "vmread v' VMCS_GUEST_SS_SEL = 0x18"
    "vmread v' VMCS_GUEST_FS_BASE = 0"
    "vmread v' VMCS_GUEST_FS_LMT = 0xFFFFFFFF"
    "vmread v' VMCS_GUEST_FS_ACC = 0xC093"
    "vmread v' VMCS_GUEST_GS_BASE = 0"
    "vmread v' VMCS_GUEST_GS_LMT = 0xFFFFFFFF"
    "vmread v' VMCS_GUEST_GS_ACC = 0xC093"
    "vmread v' VMCS_GUEST_LDTR_ACC = 0x10082"
    "vmread v' VMCS_GUEST_TR_ACC = 0x408B"
    "vmread v' VMCS_GUEST_TR_LMT = 0xFFFFF"
    "vmread v' VMCS_GUEST_TR_SEL = 0"
    "vmread v' VMCS_GUEST_GDTR_BASE = gdtr vm"
    "vmread v' VMCS_GUEST_GDTR_LMT = 0xFFFF"
    "vmread v' VMCS_GUEST_IDTR_LMT = 0xFFFF"
    "vmread v' VMCS_GUEST_RFLAGS = 0x2"
    "vmread v' VMCS_GUEST_DR7 = 0"
    "vmread v' VMCS_GUEST_EFER = 0"
    "vmread v' VMCS_GUEST_ACTIVE = 0"
    "vmread v' VMCS_GUEST_INT = 0"
    "vmread v' VMCS_GUEST_RIP = entry_point vm"
    "vmread v' VMCS_GUEST_LP = 0xFFFFFFFFFFFFFFFF"
    "vmread v' VMCS_GUEST_CR0 = m IA32_VMX_CR0_FIXED0 AND m IA32_VMX_CR0_FIXED1 AND 0x7FFFFFFF"
    "vmread v' VMCS_GUEST_CR4 = m IA32_VMX_CR4_FIXED0 AND m IA32_VMX_CR4_FIXED1"
  by (simp_all add: assms virt_guest_setup_def Let_def vmread_vmwrite vmcs_fields field_width_def
      take_bit_word_eq_self and.assoc)


text \<open>
  The documented relation of the fixed-bit registers: a bit that must be 1 may be 1, and the
  upper half of \<open>CR0\<close> is reserved.
\<close>

definition fixed_bits_ok :: "msrs \<Rightarrow> bool" where
  "fixed_bits_ok m \<longleftrightarrow>
     m IA32_VMX_CR0_FIXED0 AND NOT (m IA32_VMX_CR0_FIXED1) = 0
     \<and> m IA32_VMX_CR4_FIXED0 AND NOT (m IA32_VMX_CR4_FIXED1) = 0
     \<and> drop_bit 32 (m IA32_VMX_CR0_FIXED0) = 0"

lemma subset_bit: "a AND NOT b = 0 \<Longrightarrow> bit (a :: u64) k \<Longrightarrow> bit b k"
  by (drule arg_cong [of _ _ "\<lambda>w. bit w k"]) (auto simp: bit_simps dest: bit_imp_le_length)

lemma low_half_bit: "drop_bit 32 a = 0 \<Longrightarrow> bit (a :: u64) k \<Longrightarrow> k < 32"
  by (drule arg_cong [of _ _ "\<lambda>w. bit w (k - 32)"]) (cases "k < 32", auto simp: bit_simps)

lemma guest_control_regs_setup:
  assumes "fixed_bits_ok m"
  shows "guest_control_regs_ok m (virt_guest_setup m vm v)"
proof -
  let ?f0 = "m IA32_VMX_CR0_FIXED0" and ?f1 = "m IA32_VMX_CR0_FIXED1"
  have mask: "(0x7FFFFFFF :: u64) = mask 31" by (simp add: mask_eq_exp_minus_1)
  have "bit (?f0 AND ?f1 AND 0x7FFFFFFF) k" if "bit ?f0 k" "k \<noteq> 31" for k
    unfolding mask using assms that subset_bit [of ?f0 ?f1 k] low_half_bit [of ?f0 k]
    by (auto simp: fixed_bits_ok_def bit_simps)
  moreover have "?f0 AND ?f1 AND 0x7FFFFFFF AND NOT ?f1 = 0" "\<not> bit (?f0 AND ?f1 AND 0x7FFFFFFF) 31"
    unfolding mask by (auto intro: bit_word_eqI simp: bit_simps)
  moreover have "m IA32_VMX_CR4_FIXED0 AND NOT (m IA32_VMX_CR4_FIXED0 AND m IA32_VMX_CR4_FIXED1) = 0"
    using assms by (intro bit_word_eqI) (auto simp: fixed_bits_ok_def bit_simps dest: subset_bit)
  moreover have "m IA32_VMX_CR4_FIXED0 AND m IA32_VMX_CR4_FIXED1 AND NOT (m IA32_VMX_CR4_FIXED1) = 0"
    by (intro bit_word_eqI) (auto simp: bit_simps)
  ultimately show ?thesis
    unfolding guest_control_regs_ok_def guest_fields [OF refl]
    by (auto simp only: list_all_iff and.assoc)
qed

text \<open>
  The guest state that \<open>virt_guest_setup\<close> writes passes the checks of VM entry for an unrestricted
  guest, whatever the VMCS held before.
\<close>

lemma guest_setup_ok:
  assumes "fixed_bits_ok m" and "drop_bit 32 (entry_point vm) = 0"
  shows "guest_segments_ok (virt_guest_setup m vm v)
    \<and> guest_control_regs_ok m (virt_guest_setup m vm v)
    \<and> guest_other_ok (virt_guest_setup m vm v)"
proof (intro conjI)
  show "guest_segments_ok (virt_guest_setup m vm v)"
    unfolding guest_segments_ok_def guest_fields [OF refl]
    by (simp add: seg_ok_def acc_common_ok_def acc_type_def acc_dpl_def granularity_ok_def)
  show "guest_control_regs_ok m (virt_guest_setup m vm v)"
    using assms(1) by (rule guest_control_regs_setup)
  show "guest_other_ok (virt_guest_setup m vm v)"
    unfolding guest_other_ok_def guest_fields [OF refl] using assms(2) by simp
qed

definition demo_vm :: vm_struct_t where
  "demo_vm = \<lparr>vm_id = 0, vm_name = replicate 32 0, img_paddr = 0x8000000, img_size = 0x600000,
     num_cpus = 0, ram_size = 1024, vm_input = 0, entry_point = 0x100000, gdtr = 0x9000,
     vmcs_paddr = replicate 16 0, extra_paddr = 0xA000000, extra_size = 0x800000,
     vm_lock = SPINLOCK_UNLOCKED\<rparr>"

section \<open>Host state\<close>

text \<open>The top of the page of the stack pointer.\<close>

lemma stack_top:
  fixes rsp :: u64
  assumes "unat rsp < 2 ^ 64 - 4096"
  shows "unat ((rsp AND PG_MASK) + PG_SIZE) = 4096 * (unat rsp div 4096) + 4096"
proof -
  have "PG_MASK = NOT (mask 12)" by (simp add: PG_MASK_def PG_SIZE_def mask_eq_exp_minus_1)
  then have low: "unat (rsp AND PG_MASK) = 4096 * (unat rsp div 4096)"
    using unat_and_not_mask [of rsp 12] by (simp add: minus_mod_eq_mult_div)
  have "unat (rsp AND PG_MASK) + unat PG_SIZE < 2 ^ LENGTH(64)"
    using assms low page_split [of "unat rsp"] by (simp add: PG_SIZE_def)
  then show ?thesis by (subst unat_add_small) (simp_all add: low PG_SIZE_def)
qed

lemma take_bit_ucast16: "take_bit 16 (ucast (w :: u16) :: u64) = ucast w"
  by (rule bit_word_eqI) (auto simp: bit_simps dest: bit_imp_le_length)

text \<open>
  What the processor loads on a VM exit: the state it had when it set up the VMCS (control
  registers, segment selectors, \<open>FS\<close> and \<open>GS\<close> base, descriptor tables, \<open>EFER\<close> and \<open>PAT\<close>), the TSS at
  \<open>tss\<close>, a stack that starts afresh at the top of the page of the stack pointer, and execution in
  \<open>main\<close>.
\<close>

definition host_resumes :: "cpu \<Rightarrow> u64 \<Rightarrow> u64 \<Rightarrow> vmcs \<Rightarrow> bool" where
  "host_resumes c tss main v \<longleftrightarrow>
     map (vmread v) [VMCS_HOST_CR0, VMCS_HOST_CR3, VMCS_HOST_CR4] = [c_cr0 c, c_cr3 c, c_cr4 c]
     \<and> map (vmread v) [VMCS_HOST_CS_SEL, VMCS_HOST_DS_SEL, VMCS_HOST_ES_SEL, VMCS_HOST_SS_SEL,
         VMCS_HOST_FS_SEL, VMCS_HOST_GS_SEL, VMCS_HOST_TR_SEL]
       = map ucast [c_cs c, c_ds c, c_es c, c_ss c, c_fs c, c_gs c, c_tr c]
     \<and> map (vmread v) [VMCS_HOST_FS_BASE, VMCS_HOST_GS_BASE, VMCS_HOST_TR_BASE, VMCS_HOST_GDTR_BASE, VMCS_HOST_IDTR_BASE]
       = [c_msr c IA32_FS_BASE, c_msr c IA32_GS_BASE, tss, c_gdtr c, c_idtr c]
     \<and> map (vmread v) [VMCS_HOST_EFER, VMCS_HOST_PAT] = [c_msr c IA32_EFER, c_msr c IA32_PAT]
     \<and> vmread v VMCS_HOST_RIP = main
     \<and> unat (vmread v VMCS_HOST_RSP) = 4096 * (unat (c_rsp c) div 4096) + 4096"

text \<open>The checks of VM entry on the host's control registers.\<close>

definition host_control_regs_ok :: "msrs \<Rightarrow> vmcs \<Rightarrow> bool" where
  "host_control_regs_ok m v \<longleftrightarrow>
     m IA32_VMX_CR0_FIXED0 AND NOT (vmread v VMCS_HOST_CR0) = 0
     \<and> vmread v VMCS_HOST_CR0 AND NOT (m IA32_VMX_CR0_FIXED1) = 0
     \<and> m IA32_VMX_CR4_FIXED0 AND NOT (vmread v VMCS_HOST_CR4) = 0
     \<and> vmread v VMCS_HOST_CR4 AND NOT (m IA32_VMX_CR4_FIXED1) = 0"

definition host_writes :: "cpu \<Rightarrow> u64 \<Rightarrow> u64 \<Rightarrow> (u64 \<times> u64) list" where
  "host_writes c base ptr =
     [(VMCS_HOST_CR0, c_cr0 c), (VMCS_HOST_CR3, c_cr3 c), (VMCS_HOST_CR4, c_cr4 c),
      (VMCS_HOST_CS_SEL, ucast (c_cs c)), (VMCS_HOST_DS_SEL, ucast (c_ds c)),
      (VMCS_HOST_ES_SEL, ucast (c_es c)), (VMCS_HOST_SS_SEL, ucast (c_ss c)),
      (VMCS_HOST_FS_SEL, ucast (c_fs c)), (VMCS_HOST_FS_BASE, c_msr c IA32_FS_BASE),
      (VMCS_HOST_GS_SEL, ucast (c_gs c)), (VMCS_HOST_GS_BASE, c_msr c IA32_GS_BASE),
      (VMCS_HOST_TR_SEL, ucast (c_tr c)), (VMCS_HOST_TR_BASE, base), (VMCS_HOST_GDTR_BASE, c_gdtr c),
      (VMCS_HOST_IDTR_BASE, c_idtr c), (VMCS_HOST_EFER, c_msr c IA32_EFER),
      (VMCS_HOST_PAT, c_msr c IA32_PAT), (VMCS_HOST_RSP, (c_rsp c AND PG_MASK) + PG_SIZE),
      (VMCS_HOST_RIP, ptr)]"

lemma virt_host_setup_writes:
  "get_gdt_tss_base g (c_tr c) = Inr base \<Longrightarrow> virt_host_setup c g ptr v = Inr (vmwrites v (host_writes c base ptr))"
  by (simp add: virt_host_setup_def host_writes_def Let_def rdmsr_eq vmwrites_Cons)

lemma host_writes_fields:
  assumes "v' = vmwrites v (host_writes c tss main)" and "unat (c_rsp c) < 2 ^ 64 - 4096"
  shows "host_resumes c tss main v'"
  unfolding host_resumes_def using stack_top [OF assms(2)]
  by (simp add: assms(1) host_writes_def vmread_vmwrite vmcs_fields field_width_def take_bit_word_eq_self
      take_bit_ucast16)

lemma vmx_fixed_ok:
  assumes "f0 AND NOT f1 = (0 :: u64)"
  shows "f0 AND NOT (vmx_fixed cr f0 f1) = 0" "vmx_fixed cr f0 f1 AND NOT f1 = 0"
  using subset_bit [OF assms]
  by (auto intro!: bit_word_eqI simp: vmx_fixed_def bit_simps)

section \<open>The areas of the VMCS\<close>

text \<open>
  Bits 11:10 of an encoding are the area of the field: 0 for controls, 1 for read-only data, 2 for
  guest state, 3 for host state. A part of the setup writes only its own area.
\<close>

definition vmcs_area :: "u64 \<Rightarrow> u64" where
  "vmcs_area e = take_bit 2 (drop_bit 10 e)"

lemma vmread_other_area:
  assumes "list_all (\<lambda>(e, x). vmcs_area e = b) ws" and "vmcs_area e \<noteq> b"
  shows "vmread (vmwrites v ws) e = vmread v e"
proof -
  have "map_of (rev ws) e = None"
    using assms by (auto simp: map_of_eq_None_iff list_all_iff)
  then show ?thesis by (simp add: vmwrites_read)
qed

lemma control_writes_area: "list_all (\<lambda>(e, x). vmcs_area e = 0) (control_writes m p)"
  by (simp add: control_writes_def vmcs_area_def vmcs_fields take_bit_eq_mod)

lemma host_writes_area: "list_all (\<lambda>(e, x). vmcs_area e = 3) (host_writes c base ptr)"
  by (simp add: host_writes_def vmcs_area_def vmcs_fields take_bit_eq_mod)

lemmas area_evals = vmcs_area_def vmcs_fields take_bit_eq_mod

text \<open>The predicates on the guest state only read the guest's area.\<close>

lemma guest_preds_cong:
  assumes "\<And>e. vmcs_area e = 2 \<Longrightarrow> vmread v' e = vmread v e"
  shows "guest_segments_ok v' = guest_segments_ok v"
    and "guest_control_regs_ok m v' = guest_control_regs_ok m v"
    and "guest_other_ok v' = guest_other_ok v"
    and "vmread v' VMCS_GUEST_RIP = vmread v VMCS_GUEST_RIP"
    and "vmread v' VMCS_GUEST_GDTR_BASE = vmread v VMCS_GUEST_GDTR_BASE"
  unfolding guest_segments_ok_def guest_control_regs_ok_def guest_other_ok_def
  by (simp_all add: assms area_evals)

lemma controls_ok_cong:
  assumes "\<And>e. vmcs_area e = 0 \<Longrightarrow> vmread v' e = vmread v e"
  shows "controls_ok m p v' = controls_ok m p v"
  unfolding controls_ok_def by (simp add: assms area_evals)

section \<open>The whole VMCS\<close>

text \<open>
  C20: The VMCS that a processor launches. With the capability registers of the processor as
  documented, the setup of guest state, controls and host state in this order succeeds exactly on
  processors that have the needed features and panics on all others. When it succeeds, the result
  passes the checks of VM entry together: every control field against its capability register with
  the requested features on and the EPT pointer of the tables; the guest's segments, control
  registers with paging off and the remaining guest state, with the guest starting at the entry
  point and with the GDT of its VM; and the host's control registers against the fixed bits. On a VM
  exit the host resumes in \<open>virt_main\<close> with the state of the processor, the TSS that
  \<open>alloc_tss_desc\<close> registered for its task register and a fresh stack page.
\<close>

theorem vmcs_setup_entry_checks:
  assumes caps: "caps_ok (pin_caps (c_msr c))" "caps_ok (proc_caps (c_msr c))" "caps_ok (exit_caps (c_msr c))"
    "caps_ok (entry_caps (c_msr c))" "caps_ok (proc2_caps (c_msr c))" "fixed_bits_ok (c_msr c)"
    and entry: "drop_bit 32 (entry_point vm) = 0"
    and tss: "gdt_ok g" "alloc_tss_desc g tss = Inr (c_tr c, g')" and sp: "unat (c_rsp c) < 2 ^ 64 - 4096"
  shows "case vmcs_setup (vmx_registers c) g' main vm ept_p v of
      Inl e \<Rightarrow> \<not> vmx_capable (c_msr c) \<and> (\<exists>msg. e = Panic msg)
    | Inr v' \<Rightarrow> vmx_capable (c_msr c) \<and> controls_ok (c_msr c) ept_p v'
        \<and> guest_segments_ok v' \<and> guest_control_regs_ok (c_msr c) v' \<and> guest_other_ok v'
        \<and> vmread v' VMCS_GUEST_RIP = entry_point vm \<and> vmread v' VMCS_GUEST_GDTR_BASE = gdtr vm
        \<and> host_control_regs_ok (c_msr c) v' \<and> host_resumes (vmx_registers c) tss main v'"
proof (cases "vmx_capable (c_msr c)")
  case False
  have "c_msr (vmx_registers c) = c_msr c" by (simp add: vmx_registers_def Let_def)
  then show ?thesis
    using virt_control_setup_Inl [OF False, of ept_p "virt_guest_setup (c_msr c) vm v"] False
    by (auto simp: vmcs_setup_def)
next
  case True
  let ?m = "c_msr c" and ?c = "vmx_registers c"
  define v1 v2 v3 where "v1 = virt_guest_setup ?m vm v" and "v2 = vmwrites v1 (control_writes ?m ept_p)"
    and "v3 = vmwrites v2 (host_writes ?c tss main)"
  have c: "c_msr ?c = ?m" "c_tr ?c = c_tr c" "c_rsp ?c = c_rsp c"
    by (simp_all add: vmx_registers_def Let_def)
  have res: "vmcs_setup ?c g' main vm ept_p v = Inr v3"
    using virt_host_setup_writes [of g' ?c tss main v2] alloc_tss_desc_base [OF tss]
    by (simp add: vmcs_setup_def c virt_control_setup_Inr [OF True] v1_def v2_def v3_def)
  have ctl: "vmread v3 e = vmread v2 e" if "vmcs_area e = 0" for e
    unfolding v3_def using host_writes_area by (rule vmread_other_area) (simp add: that)
  have "vmread v3 e = vmread v2 e" "vmread v2 e = vmread v1 e" if "vmcs_area e = 2" for e
    unfolding v3_def v2_def
    by (rule vmread_other_area [OF host_writes_area], simp add: that)
       (rule vmread_other_area [OF control_writes_area], simp add: that)
  then have gst: "vmread v3 e = vmread v1 e" if "vmcs_area e = 2" for e
    using that by simp
  have "controls_ok ?m ept_p v3"
    using controls_ok_setup [OF caps(1-5) True v2_def] controls_ok_cong [OF ctl] by simp
  moreover have "guest_segments_ok v3 \<and> guest_control_regs_ok ?m v3 \<and> guest_other_ok v3
      \<and> vmread v3 VMCS_GUEST_RIP = entry_point vm \<and> vmread v3 VMCS_GUEST_GDTR_BASE = gdtr vm"
    using guest_setup_ok [OF caps(6) entry, of v] guest_fields [OF v1_def]
    by (simp add: guest_preds_cong [OF gst] v1_def)
  moreover have host: "host_resumes ?c tss main v3"
    using host_writes_fields [OF v3_def] sp c by simp
  moreover have "host_control_regs_ok ?m v3"
    using host caps(6) unfolding host_control_regs_ok_def host_resumes_def
    by (simp add: vmx_registers_def Let_def rdmsr_eq vmx_fixed_ok fixed_bits_ok_def)
  ultimately show ?thesis
    using res True by simp
qed

definition demo_cpu :: cpu where
  "demo_cpu = \<lparr>c_cr0 = 0x80000031, c_cr3 = 0x1000, c_cr4 = 0x2020, c_cs = 8, c_ds = 16, c_es = 16,
     c_ss = 16, c_fs = 0, c_gs = 16, c_tr = 0x18, c_rsp = 0x7F8, c_gdtr = 0x200000,
     c_idtr = 0x201000, c_msr = demo_msrs\<rparr>"

lemma boot_tss:
  "\<exists>g'. alloc_tss_desc boot_gdt 0xFFFF800012345678 = Inr (0x18, g')"
proof -
  have ok: "gdt_ok boot_gdt" by (simp add: gdt_ok_def boot_gdt_def)
  have free: "tss_slot_free (gdt boot_gdt) 3"
    by (simp add: tss_slot_free_def boot_gdt_def desc_fields get_field_def)
  show ?thesis
    using ok
  proof (cases rule: alloc_tss_desc_cases [where p = "0xFFFF800012345678"])
    case none
    then show ?thesis using free by fastforce
  next
    case (some j st')
    then have "j = 3" using free by (metis le_neq_implies_less order_refl)
    then show ?thesis using some by simp
  qed
qed

theorem vmcs_setup_entry_checks_witness:
  "\<exists>g' v'. alloc_tss_desc boot_gdt 0xFFFF800012345678 = Inr (0x18, g')
     \<and> vmcs_setup (vmx_registers demo_cpu) g' 0x2000AB demo_vm 0x5000 (\<lambda>_. 0) = Inr v'
     \<and> controls_ok demo_msrs 0x5000 v' \<and> guest_segments_ok v'
     \<and> vmread v' VMCS_GUEST_RIP = 0x100000
     \<and> host_resumes (vmx_registers demo_cpu) 0xFFFF800012345678 0x2000AB v'"
proof -
  have "gdt_ok boot_gdt" by (simp add: gdt_ok_def boot_gdt_def)
  moreover obtain g' where "alloc_tss_desc boot_gdt 0xFFFF800012345678 = Inr (0x18, g')"
    using boot_tss by blast
  moreover have "c_tr demo_cpu = 0x18" "c_rsp demo_cpu = 0x7F8" "c_msr demo_cpu = demo_msrs"
    by (simp_all add: demo_cpu_def)
  moreover have "fixed_bits_ok demo_msrs" by (simp add: fixed_bits_ok_def demo_msrs_def msr_numbers)
  moreover have "entry_point demo_vm = 0x100000" by (simp add: demo_vm_def)
  ultimately show ?thesis
    using vmcs_setup_entry_checks [of demo_cpu demo_vm boot_gdt "0xFFFF800012345678" g' "0x5000" "0x2000AB" "\<lambda>_. 0"]
      demo_msrs_caps_ok demo_msrs_capable
    by (auto split: sum.splits)
qed

end
