(* ===== verification/Linux.thy ===== *)
theory Linux
  imports Layout
begin

text \<open>
  The boot protocol structures of \<^verbatim>\<open>arch/x86_64/include/virt/linux.h\<close>: the setup header of a
  Linux image and the zero page (\<open>boot_params\<close>) that the hypervisor fills in for its guest. The
  layouts are the packed structures of the header; the lemmas of this theory check them
  against the offsets that the header's comments document, which are those of the boot protocol.
\<close>

section \<open>Constants\<close>

definition LINUX_HEADER_OFFSET :: u64 where "LINUX_HEADER_OFFSET = 0x1F1"
definition LINUX_HEADER_MAGIC :: u32 where "LINUX_HEADER_MAGIC = 0x53726448"
definition LINUX_ENTRY_POINT :: u64 where "LINUX_ENTRY_POINT = 0x100000"
definition LINUX_SECTOR_SZ :: u64 where "LINUX_SECTOR_SZ = 512"
definition LINUX_CMD_LINE :: string where "LINUX_CMD_LINE = ''auto''"
definition EDDMAXNR :: nat where "EDDMAXNR = 6"
definition E820_MAX_ENTRIES_ZEROPAGE :: nat where "E820_MAX_ENTRIES_ZEROPAGE = 128"
definition EDD_MBR_SIG_MAX :: nat where "EDD_MBR_SIG_MAX = 16"
definition E820_RAM :: u32 where "E820_RAM = 1"

section \<open>Structures\<close>

definition setup_header :: ctype where
  "setup_header = Packed
     [(''setup_sects'', uint8), (''root_flags'', uint16), (''syssize'', uint32),
      (''ram_size'', uint16), (''vid_mode'', uint16), (''root_dev'', uint16),
      (''boot_flag'', uint16), (''jump'', uint16), (''header'', uint32),
      (''version'', uint16), (''realmode_swtch'', uint32), (''start_sys_seg'', uint16),
      (''kernel_version'', uint16), (''type_of_loader'', uint8), (''loadflags'', uint8),
      (''setup_move_size'', uint16), (''code32_start'', uint32), (''ramdisk_image'', uint32),
      (''ramdisk_size'', uint32), (''bootsect_kludge'', uint32), (''heap_end_ptr'', uint16),
      (''ext_loader_ver'', uint8), (''ext_loader_type'', uint8), (''cmd_line_ptr'', uint32),
      (''initrd_addr_max'', uint32), (''kernel_alignment'', uint32),
      (''relocatable_kernel'', uint8), (''min_alignment'', uint8), (''xloadflags'', uint16),
      (''cmdline_size'', uint32), (''hardware_subarch'', uint32),
      (''hardware_subarch_data'', uint64), (''payload_offset'', uint32),
      (''payload_length'', uint32), (''setup_data'', uint64), (''pref_address'', uint64),
      (''init_size'', uint32), (''handover_offset'', uint32)]"

definition screen_info :: ctype where
  "screen_info = Packed
     [(''orig_x'', uint8), (''orig_y'', uint8), (''ext_mem_k'', uint16),
      (''orig_video_page'', uint16), (''orig_video_mode'', uint8),
      (''orig_video_cols'', uint8), (''flags'', uint8), (''unused2'', uint8),
      (''orig_video_ega_bx'', uint16), (''unused3'', uint16), (''orig_video_lines'', uint8),
      (''orig_video_isVGA'', uint8), (''orig_video_points'', uint16), (''lfb_width'', uint16),
      (''lfb_height'', uint16), (''lfb_depth'', uint16), (''lfb_base'', uint32),
      (''lfb_size'', uint32), (''cl_magic'', uint16), (''cl_offset'', uint16),
      (''lfb_linelength'', uint16), (''red_size'', uint8), (''red_pos'', uint8),
      (''green_size'', uint8), (''green_pos'', uint8), (''blue_size'', uint8),
      (''blue_pos'', uint8), (''rsvd_size'', uint8), (''rsvd_pos'', uint8),
      (''vesapm_seg'', uint16), (''vesapm_off'', uint16), (''pages'', uint16),
      (''vesa_attributes'', uint16), (''capabilities'', uint32), (''ext_lfb_base'', uint32),
      (''_reserved'', Array 2 uint8)]"

definition apm_bios_info :: ctype where
  "apm_bios_info = Packed
     [(''version'', uint16), (''cseg'', uint16), (''offset'', uint32), (''cseg_16'', uint16),
      (''dseg'', uint16), (''flags'', uint16), (''cseg_len'', uint16),
      (''cseg_16_len'', uint16), (''dseg_len'', uint16)]"

definition ist_info :: ctype where
  "ist_info = Packed
     [(''signature'', uint32), (''command'', uint32), (''event'', uint32),
      (''perf_level'', uint32)]"

definition sys_desc_table :: ctype where
  "sys_desc_table = Packed
     [(''length'', uint16), (''table'', Array 14 uint8)]"

definition olpc_ofw_header :: ctype where
  "olpc_ofw_header = Packed
     [(''ofw_magic'', uint32), (''ofw_version'', uint32), (''cif_handler'', uint32),
      (''irq_desc_table'', uint32)]"

definition edid_info :: ctype where
  "edid_info = Packed
     [(''dummy'', Array 128 uint8)]"

definition efi_info :: ctype where
  "efi_info = Packed
     [(''efi_loader_signature'', uint32), (''efi_systab'', uint32),
      (''efi_memdesc_size'', uint32), (''efi_memdesc_version'', uint32),
      (''efi_memmap'', uint32), (''efi_memmap_size'', uint32), (''efi_systab_hi'', uint32),
      (''efi_memmap_hi'', uint32)]"

definition boot_e820_entry :: ctype where
  "boot_e820_entry = Packed
     [(''addr'', uint64), (''size'', uint64), (''type'', uint32)]"

text \<open>The two anonymous unions of \<open>edd_device_params\<close>.\<close>

definition edd_interface_path :: ctype where
  "edd_interface_path = Union
     [
      (''isa'', Packed [(''base_address'', uint16), (''reserved1'', uint16), (''reserved2'', uint32)]),
      (''pci'', Packed [(''bus'', uint8), (''slot'', uint8), (''function'', uint8), (''channel'', uint8), (''reserved'', uint32)]),
      (''ibnd'', Packed [(''reserved'', uint64)]),
      (''xprs'', Packed [(''reserved'', uint64)]),
      (''htpt'', Packed [(''reserved'', uint64)]),
      (''unknown'', Packed [(''reserved'', uint64)])]"

definition edd_device_path :: ctype where
  "edd_device_path = Union
     [
      (''ata'', Packed [(''device'', uint8), (''reserved1'', uint8), (''reserved2'', uint16), (''reserved3'', uint32), (''reserved4'', uint64)]),
      (''atapi'', Packed [(''device'', uint8), (''lun'', uint8), (''reserved1'', uint8), (''reserved2'', uint8), (''reserved3'', uint32), (''reserved4'', uint64)]),
      (''scsi'', Packed [(''id'', uint16), (''lun'', uint64), (''reserved1'', uint16), (''reserved2'', uint32)]),
      (''usb'', Packed [(''serial_number'', uint64), (''reserved'', uint64)]),
      (''i1394'', Packed [(''eui'', uint64), (''reserved'', uint64)]),
      (''fibre'', Packed [(''wwid'', uint64), (''lun'', uint64)]),
      (''i2o'', Packed [(''identity_tag'', uint64), (''reserved'', uint64)]),
      (''raid'', Packed [(''array_number'', uint32), (''reserved1'', uint32), (''reserved2'', uint64)]),
      (''sata'', Packed [(''device'', uint8), (''reserved1'', uint8), (''reserved2'', uint16), (''reserved3'', uint32), (''reserved4'', uint64)]),
      (''unknown'', Packed [(''reserved1'', uint64), (''reserved2'', uint64)])]"

definition edd_device_params :: ctype where
  "edd_device_params = Packed
     [(''length'', uint16), (''info_flags'', uint16), (''num_default_cylinders'', uint32),
      (''num_default_heads'', uint32), (''sectors_per_track'', uint32),
      (''number_of_sectors'', uint64), (''bytes_per_sector'', uint16), (''dpte_ptr'', uint32),
      (''key'', uint16), (''device_path_info_length'', uint8), (''reserved2'', uint8),
      (''reserved3'', uint16), (''host_bus_type'', Array 4 uint8),
      (''interface_type'', Array 8 uint8), (''interface_path'', edd_interface_path),
      (''device_path'', edd_device_path), (''reserved4'', uint8), (''checksum'', uint8)]"

definition edd_info :: ctype where
  "edd_info = Packed
     [(''device'', uint8), (''version'', uint8), (''interface_support'', uint16),
      (''legacy_max_cylinder'', uint16), (''legacy_max_head'', uint8),
      (''legacy_sectors_per_track'', uint8), (''params'', edd_device_params)]"

definition boot_params :: ctype where
  "boot_params = Packed
     [(''screen_info'', screen_info), (''apm_bios_info'', apm_bios_info),
      (''_pad2'', Array 4 uint8), (''tboot_addr'', uint64), (''ist_info'', ist_info),
      (''acpi_rsdp_addr'', uint64), (''_pad3'', Array 8 uint8),
      (''hd0_info'', Array 16 uint8), (''hd1_info'', Array 16 uint8),
      (''sys_desc_table'', sys_desc_table), (''olpc_ofw_header'', olpc_ofw_header),
      (''ext_ramdisk_image'', uint32), (''ext_ramdisk_size'', uint32),
      (''ext_cmd_line_ptr'', uint32), (''_pad4'', Array 116 uint8),
      (''edid_info'', edid_info), (''efi_info'', efi_info), (''alt_mem_k'', uint32),
      (''scratch'', uint32), (''e820_entries'', uint8), (''eddbuf_entries'', uint8),
      (''edd_mbr_sig_buf_entries'', uint8), (''kbd_status'', uint8), (''secure_boot'', uint8),
      (''_pad5'', Array 2 uint8), (''sentinel'', uint8), (''_pad6'', Array 1 uint8),
      (''hdr'', setup_header), (''_pad7'', Array (0x290 - 0x1f1 - sizeof setup_header) uint8),
      (''edd_mbr_sig_buffer'', Array EDD_MBR_SIG_MAX uint32),
      (''e820_table'', Array E820_MAX_ENTRIES_ZEROPAGE boot_e820_entry),
      (''_pad8'', Array 48 uint8), (''eddbuf'', Array EDDMAXNR edd_info),
      (''_pad9'', Array 276 uint8)]"

section \<open>The documented offsets\<close>

text \<open>The offsets that the comments of the header give for the members.\<close>

definition boot_params_documented :: "(string \<times> nat) list" where
  "boot_params_documented =
     [(''screen_info'', 0x000), (''apm_bios_info'', 0x040), (''_pad2'', 0x054),
      (''tboot_addr'', 0x058), (''ist_info'', 0x060), (''acpi_rsdp_addr'', 0x070),
      (''_pad3'', 0x078), (''hd0_info'', 0x080), (''hd1_info'', 0x090),
      (''sys_desc_table'', 0x0a0), (''olpc_ofw_header'', 0x0b0),
      (''ext_ramdisk_image'', 0x0c0), (''ext_ramdisk_size'', 0x0c4),
      (''ext_cmd_line_ptr'', 0x0c8), (''_pad4'', 0x0cc), (''edid_info'', 0x140),
      (''efi_info'', 0x1c0), (''alt_mem_k'', 0x1e0), (''scratch'', 0x1e4),
      (''e820_entries'', 0x1e8), (''eddbuf_entries'', 0x1e9),
      (''edd_mbr_sig_buf_entries'', 0x1ea), (''kbd_status'', 0x1eb), (''secure_boot'', 0x1ec),
      (''_pad5'', 0x1ed), (''sentinel'', 0x1ef), (''_pad6'', 0x1f0), (''hdr'', 0x1f1),
      (''edd_mbr_sig_buffer'', 0x290), (''e820_table'', 0x2d0), (''_pad8'', 0xcd0),
      (''eddbuf'', 0xd00), (''_pad9'', 0xeec)]"

definition screen_info_documented :: "(string \<times> nat) list" where
  "screen_info_documented =
     [(''orig_x'', 0x00), (''orig_y'', 0x01), (''ext_mem_k'', 0x02),
      (''orig_video_page'', 0x04), (''orig_video_mode'', 0x06), (''orig_video_cols'', 0x07),
      (''flags'', 0x08), (''unused2'', 0x09), (''orig_video_ega_bx'', 0x0a),
      (''unused3'', 0x0c), (''orig_video_lines'', 0x0e), (''orig_video_isVGA'', 0x0f),
      (''orig_video_points'', 0x10), (''lfb_width'', 0x12), (''lfb_height'', 0x14),
      (''lfb_depth'', 0x16), (''lfb_base'', 0x18), (''lfb_size'', 0x1c),
      (''cl_magic'', 0x20), (''lfb_linelength'', 0x24), (''red_size'', 0x26),
      (''red_pos'', 0x27), (''green_size'', 0x28), (''green_pos'', 0x29),
      (''blue_size'', 0x2a), (''blue_pos'', 0x2b), (''rsvd_size'', 0x2c),
      (''rsvd_pos'', 0x2d), (''vesapm_seg'', 0x2e), (''vesapm_off'', 0x30), (''pages'', 0x32),
      (''vesa_attributes'', 0x34), (''capabilities'', 0x36), (''ext_lfb_base'', 0x3a),
      (''_reserved'', 0x3e)]"

lemmas linux_layouts = setup_header_def screen_info_def apm_bios_info_def ist_info_def
  sys_desc_table_def olpc_ofw_header_def edid_info_def efi_info_def boot_e820_entry_def
  edd_interface_path_def edd_device_path_def edd_device_params_def edd_info_def boot_params_def
  EDDMAXNR_def E820_MAX_ENTRIES_ZEROPAGE_def EDD_MBR_SIG_MAX_def

lemma align_Packed [simp]: "align_of (Packed fs) = 1"
  by simp

lemma round_up_1 [simp]: "round_up n (Suc 0) = n" "round_up n 1 = n"
  by (simp_all add: round_up_def)

lemma align_edd_paths [simp]: "align_of edd_interface_path = 1" "align_of edd_device_path = 1"
  by (simp_all add: edd_interface_path_def edd_device_path_def)

lemma sizeof_linux_structs:
  "sizeof setup_header = 119" "sizeof screen_info = 64" "sizeof apm_bios_info = 20"
  "sizeof ist_info = 16" "sizeof sys_desc_table = 16" "sizeof olpc_ofw_header = 16"
  "sizeof edid_info = 128" "sizeof efi_info = 32" "sizeof boot_e820_entry = 20"
  "sizeof edd_interface_path = 8" "sizeof edd_device_path = 16"
  by (simp_all add: linux_layouts member_pos_def)

lemma sizeof_edd_device_params: "sizeof edd_device_params = 74"
  by (simp add: edd_device_params_def sizeof_linux_structs member_pos_def)

lemma sizeof_edd_info: "sizeof edd_info = 82"
  by (simp add: edd_info_def sizeof_edd_device_params member_pos_def)

lemmas sizeof_linux = sizeof_linux_structs sizeof_edd_device_params sizeof_edd_info

lemma boot_params_offsets:
  "member_offsets boot_params =
     [(''screen_info'', 0x000), (''apm_bios_info'', 0x040), (''_pad2'', 0x054),
      (''tboot_addr'', 0x058), (''ist_info'', 0x060), (''acpi_rsdp_addr'', 0x070),
      (''_pad3'', 0x078), (''hd0_info'', 0x080), (''hd1_info'', 0x090),
      (''sys_desc_table'', 0x0a0), (''olpc_ofw_header'', 0x0b0),
      (''ext_ramdisk_image'', 0x0c0), (''ext_ramdisk_size'', 0x0c4),
      (''ext_cmd_line_ptr'', 0x0c8), (''_pad4'', 0x0cc), (''edid_info'', 0x140),
      (''efi_info'', 0x1c0), (''alt_mem_k'', 0x1e0), (''scratch'', 0x1e4),
      (''e820_entries'', 0x1e8), (''eddbuf_entries'', 0x1e9),
      (''edd_mbr_sig_buf_entries'', 0x1ea), (''kbd_status'', 0x1eb), (''secure_boot'', 0x1ec),
      (''_pad5'', 0x1ed), (''sentinel'', 0x1ef), (''_pad6'', 0x1f0), (''hdr'', 0x1f1),
      (''_pad7'', 0x268), (''edd_mbr_sig_buffer'', 0x290), (''e820_table'', 0x2d0), (''_pad8'', 0xcd0),
      (''eddbuf'', 0xd00), (''_pad9'', 0xeec)]"
  by (simp add: boot_params_def sizeof_linux EDDMAXNR_def E820_MAX_ENTRIES_ZEROPAGE_def
      EDD_MBR_SIG_MAX_def member_pos_def)

lemma offset_of_member:
  "offset_of t [f] = (case map_of (member_offsets t) f of
     Some n \<Rightarrow> if map_of (members t) f = None then 0 else n | None \<Rightarrow> 0)"
  by (auto split: option.splits)

text \<open>The documented members are members, at the documented offsets.\<close>

lemma boot_params_documented_offsets:
  "list_all (\<lambda>(f, n). map_of (member_offsets boot_params) f = Some n) boot_params_documented"
  by (simp add: boot_params_offsets boot_params_documented_def)

lemma screen_info_documented_offsets:
  "list_all (\<lambda>(f, n). map_of (member_offsets screen_info) f = Some n) screen_info_documented"
  by (simp add: screen_info_documented_def screen_info_def member_pos_def)

lemma sizeof_boot_params: "sizeof boot_params = 4096"
  by (simp add: boot_params_def sizeof_linux EDDMAXNR_def E820_MAX_ENTRIES_ZEROPAGE_def
      EDD_MBR_SIG_MAX_def member_pos_def)

end
