(* ===== verification/Strings.thy ===== *)
theory Strings
  imports Memory
begin

text \<open>
  The string functions of \<^verbatim>\<open>utils/string.c\<close>, over byte memory. \<open>cstr m p n\<close> is the string that
  starts at \<open>p\<close>, cut off after \<open>n\<close> bytes: \<open>strlen\<close> is its length and \<open>strncmp\<close> compares two of them.
\<close>

section \<open>Operations\<close>

text \<open>\<open>strlen\<close> runs to the terminator; it gets fuel for the bytes it may look at.\<close>

fun strlen_loop :: "nat \<Rightarrow> mem \<Rightarrow> u64 \<Rightarrow> u64 \<Rightarrow> u64 result" where
  "strlen_loop 0 m str len = Inl OutOfFuel"
| "strlen_loop (Suc fuel) m str len =
     (if m (str + len) \<noteq> 0 then strlen_loop fuel m str (len + 1) else Inr len)"

definition strlen :: "nat \<Rightarrow> mem \<Rightarrow> u64 \<Rightarrow> u64 result" where
  "strlen fuel m str = strlen_loop fuel m str 0"

fun strncmp_loop :: "mem \<Rightarrow> u64 \<Rightarrow> u64 \<Rightarrow> nat \<Rightarrow> u8 \<Rightarrow> u8 \<Rightarrow> int" where
  "strncmp_loop m s1 s2 0 c1 c2 = uint c1 - uint c2"
| "strncmp_loop m s1 s2 (Suc n) c1 c2 =
     (let c1 = m s1; c2 = m s2
      in if c1 = 0 \<or> c1 \<noteq> c2 then uint c1 - uint c2
         else strncmp_loop m (s1 + 1) (s2 + 1) n c1 c2)"

definition strncmp :: "mem \<Rightarrow> u64 \<Rightarrow> u64 \<Rightarrow> u64 \<Rightarrow> int" where
  "strncmp m s1 s2 n = strncmp_loop m s1 s2 (unat n) 0 0"

section \<open>Strings in memory\<close>

fun cstr :: "mem \<Rightarrow> u64 \<Rightarrow> nat \<Rightarrow> u8 list" where
  "cstr m p 0 = []"
| "cstr m p (Suc n) = (if m p = 0 then [] else m p # cstr m (p + 1) n)"

text \<open>The order of \<open>strncmp\<close>: by the first byte that differs, the end of the string counting as 0.\<close>

fun str_diff :: "u8 list \<Rightarrow> u8 list \<Rightarrow> int" where
  "str_diff [] [] = 0"
| "str_diff (a # as) [] = uint a"
| "str_diff [] (b # bs) = - uint b"
| "str_diff (a # as) (b # bs) = (if a = b then str_diff as bs else uint a - uint b)"

lemma strncmp_loop_diff:
  "strncmp_loop m s1 s2 n c c = str_diff (cstr m s1 n) (cstr m s2 n)"
proof (induction n arbitrary: s1 s2 c)
  case (Suc n)
  show ?case
    using Suc.IH [of "s1 + 1" "s2 + 1" "m s1"] by (auto simp: Let_def)
qed simp

lemma str_diff_zero: "0 \<notin> set as \<Longrightarrow> 0 \<notin> set bs \<Longrightarrow> str_diff as bs = 0 \<longleftrightarrow> as = bs"
  by (induction as bs rule: str_diff.induct) (auto simp: uint_0_iff word_uint_eq_iff [symmetric])

lemma cstr_nonzero: "0 \<notin> set (cstr m p n)"
  by (induction n arbitrary: p) auto

lemma cstr_length: "length (cstr m p n) \<le> n"
  by (induction n arbitrary: p) auto

lemma strlen_loop_length:
  assumes "length (cstr m (str + len) fuel) < fuel"
  shows "strlen_loop fuel m str len = Inr (len + of_nat (length (cstr m (str + len) fuel)))"
  using assms
proof (induction fuel arbitrary: len)
  case (Suc fuel)
  show ?case
    using Suc.IH [of "len + 1"] Suc.prems by (simp add: add.assoc split: if_splits)
qed simp

text \<open>
  \<open>strncmp\<close> returns the difference of the first bytes in which the two strings, cut off after
  \<open>n\<close> bytes, differ, and so 0 exactly when they are equal.
\<close>

theorem strncmp_compares:
  "strncmp m s1 s2 n = str_diff (cstr m s1 (unat n)) (cstr m s2 (unat n))
    \<and> (strncmp m s1 s2 n = 0 \<longleftrightarrow> cstr m s1 (unat n) = cstr m s2 (unat n))"
  using strncmp_loop_diff [of m s1 s2 "unat n" 0] str_diff_zero cstr_nonzero
  by (simp add: strncmp_def)

lemma strlen_length:
  assumes "length (cstr m str fuel) < fuel"
  shows "strlen fuel m str = Inr (of_nat (length (cstr m str fuel)))"
  using strlen_loop_length [of m str 0 fuel] assms by (simp add: strlen_def)

end
