(* ===== verification/Screen.thy ===== *)
theory Screen
  imports Spinlock Memory "HOL-Library.Char_ord"
begin

text \<open>
  The console of \<^verbatim>\<open>utils/screen.c\<close>: \<open>_putchar\<close> on the text frame buffer, \<open>vprintf\<close> as the sequence
  of characters it hands to \<open>putc\<close>, and \<open>printf\<close>. C strings are lists of characters without their
  terminator; an argument of the variadic call is a word or a string pointer, where \<open>None\<close> is
  \<open>NULL\<close>. Reading an argument that is missing or of the other kind is \<open>OutOfBounds\<close>, as is a format
  that ends inside a directive: the code then runs past the terminator.
\<close>

section \<open>Characters on the screen\<close>

definition COLUMNS :: nat where "COLUMNS = 80"
definition LINES :: nat where "LINES = 24"
definition ATTRIBUTE :: u8 where "ATTRIBUTE = 7"

record screen =
  s_mem :: mem
  frameBuf :: u64
  xpos :: u16
  ypos :: u16
  scr_lock :: spinlock_t

definition newline :: "screen \<Rightarrow> screen" where
  "newline s =
     (let s = s\<lparr>xpos := 0, ypos := ypos s + 1\<rparr>
      in if unat (ypos s) \<ge> LINES then s\<lparr>ypos := 0\<rparr> else s)"

definition putchar :: "screen \<Rightarrow> char \<Rightarrow> screen" where
  "putchar s c =
     (if c = CHR 0x0A \<or> c = CHR 0x0D then newline s
      else let p = frameBuf s + of_nat ((unat (xpos s) + unat (ypos s) * COLUMNS) * 2);
               m = (s_mem s)(p := of_char c);
               m = m(p + 1 := ATTRIBUTE);
               s = s\<lparr>s_mem := m, xpos := xpos s + 1\<rparr>
           in if unat (xpos s) \<ge> COLUMNS then newline s else s)"

section \<open>Numbers\<close>

definition base10_u32_divisors :: "u32 list" where
  "base10_u32_divisors = [1000000000, 100000000, 10000000, 1000000, 100000, 10000, 1000, 100, 10, 1]"

definition digit_char :: "u32 \<Rightarrow> char" where
  "digit_char q = char_of (48 + unat q)"

definition hex_char :: "bool \<Rightarrow> u32 \<Rightarrow> char" where
  "hex_char upper q = (if q > 9 then char_of ((if upper then 65 else 97) + unat q - 10) else char_of (48 + unat q))"

text \<open>The macro \<open>HANDLE_OPTIONS\<close>: the new \<open>print_padding\<close> and \<open>print_digits\<close>, and what it prints.\<close>

definition HANDLE_OPTIONS ::
    "u32 \<Rightarrow> u32 \<Rightarrow> u32 \<Rightarrow> u32 \<Rightarrow> u32 \<Rightarrow> u32 \<Rightarrow> char \<Rightarrow> bool \<times> bool \<Rightarrow> (bool \<times> bool) \<times> string" where
  "HANDLE_OPTIONS q max_w end_i i width precision padding f =
     (let (print_padding, print_digits) = f;
          print_digits = (print_digits \<or> q \<noteq> 0 \<or> i = end_i);
          print_padding = (print_padding \<or> (q = 0 \<and> \<not> print_digits \<and> i \<ge> max_w - width));
          print_digits = (print_digits \<or> (q = 0 \<and> \<not> print_digits \<and> i \<ge> max_w - precision))
      in ((print_padding, print_digits),
          if q = 0 \<and> print_padding \<and> \<not> print_digits then [padding] else []))"

fun dec_loop :: "u32 list \<Rightarrow> u32 \<Rightarrow> u32 \<Rightarrow> u32 \<Rightarrow> u32 \<Rightarrow> char \<Rightarrow> bool \<times> bool \<Rightarrow> string" where
  "dec_loop [] x i width precision padding f = []"
| "dec_loop (d # divisors) x i width precision padding f =
     (let q = x div d;
          x = x mod d;
          (f, out) = HANDLE_OPTIONS q 10 9 i width precision padding f
      in out @ (if snd f then [digit_char q] else [])
         @ dec_loop divisors x (i + 1) width precision padding f)"

definition print_u32 :: "u32 \<Rightarrow> u32 \<Rightarrow> u32 \<Rightarrow> char \<Rightarrow> string" where
  "print_u32 x width precision padding =
     dec_loop base10_u32_divisors x 0 width precision padding (False, False)"

definition print_i32 :: "u32 \<Rightarrow> u32 \<Rightarrow> u32 \<Rightarrow> char \<Rightarrow> string" where
  "print_i32 x width precision padding =
     (if sint x < 0 then CHR ''-'' # print_u32 (- x) width precision padding
      else print_u32 x width precision padding)"

text \<open>The loop of the hexadecimal output, with \<open>n\<close> rounds left of \<open>w\<close>.\<close>

fun hex_loop :: "nat \<Rightarrow> u32 \<Rightarrow> bool \<Rightarrow> u64 \<Rightarrow> u32 \<Rightarrow> u32 \<Rightarrow> u32 \<Rightarrow> char \<Rightarrow> bool \<times> bool \<Rightarrow> string" where
  "hex_loop 0 w upper x i width precision padding f = []"
| "hex_loop (Suc n) w upper x i width precision padding f =
     (let li = ucast (drop_bit (unat (push_bit 2 ((w - 1) - i))) x AND 0x0F);
          (f, out) = HANDLE_OPTIONS li w (w - 1) i width precision padding f
      in out @ (if snd f then [hex_char upper li] else [])
         @ hex_loop n w upper x (i + 1) width precision padding f)"

definition print_hex :: "nat \<Rightarrow> bool \<Rightarrow> u64 \<Rightarrow> u32 \<Rightarrow> u32 \<Rightarrow> char \<Rightarrow> string" where
  "print_hex w upper x width precision padding =
     hex_loop w (of_nat w) upper x 0 width precision padding (False, False)"

section \<open>Formats\<close>

datatype va = VInt u64 | VStr "string option"

fun va_int :: "va list \<Rightarrow> (u64 \<times> va list) result" where
  "va_int (VInt x # args) = Inr (x, args)"
| "va_int args = Inl OutOfBounds"

fun va_str :: "va list \<Rightarrow> (string option \<times> va list) result" where
  "va_str (VStr s # args) = Inr (s, args)"
| "va_str args = Inl OutOfBounds"

text \<open>The variables of a directive.\<close>

record opts =
  o_precision :: u32
  o_width :: u32
  o_mode :: bool
  o_upper :: bool
  o_padding :: char
  o_ells :: u32

definition opts_init :: opts where
  "opts_init = \<lparr>o_precision = 0, o_width = 0, o_mode = False, o_upper = True, o_padding = CHR '' '', o_ells = 0\<rparr>"

definition char_digit :: "char \<Rightarrow> u32" where
  "char_digit c = of_nat (of_char c - 48)"

definition is_digit :: "char \<Rightarrow> bool" where
  "is_digit c \<longleftrightarrow> CHR ''0'' \<le> c \<and> c \<le> CHR ''9''"

definition directive_option :: "char \<Rightarrow> opts \<Rightarrow> opts" where
  "directive_option c o' =
     (if c = CHR ''l'' then o'\<lparr>o_ells := o_ells o' + 1\<rparr>
      else if c = CHR ''.'' then o'\<lparr>o_mode := True\<rparr>
      else if is_digit c then
        (if o_mode o' then o'\<lparr>o_precision := o_precision o' * 10 + char_digit c\<rparr>
         else if o_width o' = 0 \<and> c = CHR ''0'' then o'\<lparr>o_padding := CHR ''0''\<rparr>
         else o'\<lparr>o_width := o_width o' * 10 + char_digit c\<rparr>)
      else o')"

text \<open>
  The conversions; \<open>None\<close> when the character does not end the directive. An \<open>ells\<close> of 2 selects
  64 bits for hexadecimal output.
\<close>

definition convert :: "char \<Rightarrow> opts \<Rightarrow> va list \<Rightarrow> (string \<times> va list) result option" where
  "convert c o' args =
     (if c = CHR ''x'' \<or> c = CHR ''X'' then
        Some (rbind (va_int args) (\<lambda>(v, args).
          let upper = (o_upper o' \<and> c \<noteq> CHR ''x'');
              w = (if o_ells o' = 2 then 16 else 8);
              x = (if o_ells o' = 2 then v else ucast (ucast v :: u32))
          in Inr (print_hex w upper x (o_width o') (o_precision o') (o_padding o'), args)))
      else if c = CHR ''u'' then
        Some (rbind (va_int args) (\<lambda>(v, args).
          Inr (print_u32 (ucast v) (o_width o') (o_precision o') (o_padding o'), args)))
      else if c = CHR ''d'' then
        Some (rbind (va_int args) (\<lambda>(v, args).
          Inr (print_i32 (ucast v) (o_width o') (o_precision o') (o_padding o'), args)))
      else if c = CHR ''s'' then
        Some (rbind (va_str args) (\<lambda>(s, args).
          Inr (case s of None \<Rightarrow> ''(null)''
                 | Some s \<Rightarrow> (if o_precision o' > 0 then take (unat (o_precision o')) s else s), args)))
      else if c = CHR ''%'' then Some (Inr (''%'', args))
      else None)"

fun directive :: "string \<Rightarrow> opts \<Rightarrow> va list \<Rightarrow> (string \<times> va list \<times> string) result" where
  "directive [] o' args = Inl OutOfBounds"
| "directive (c # fmt) o' args =
     (case convert c o' args of
        Some r \<Rightarrow> rbind r (\<lambda>(out, args). Inr (out, args, fmt))
      | None \<Rightarrow> directive fmt (directive_option c o') args)"

lemma directive_shorter: "directive fmt o' args = Inr (out, args', fmt') \<Longrightarrow> length fmt' < length fmt"
  by (induction fmt o' args rule: directive.induct) (fastforce simp: rbind_Inr_iff split: option.splits)+

function vprintf :: "string \<Rightarrow> va list \<Rightarrow> (string \<times> va list) result" where
  "vprintf [] args = Inr ([], args)"
| "vprintf (c # fmt) args =
     (if c = CHR ''%''
      then rbind (directive fmt opts_init args) (\<lambda>(out, args, fmt).
           rbind (vprintf fmt args) (\<lambda>(rest, args). Inr (out @ rest, args)))
      else rbind (vprintf fmt args) (\<lambda>(rest, args). Inr (c # rest, args)))"
  by pat_completeness auto
termination
  by (relation "measure (\<lambda>(fmt, args). length fmt)") (auto dest!: directive_shorter)

definition printf :: "screen \<Rightarrow> string \<Rightarrow> va list \<Rightarrow> screen result" where
  "printf s fmt args =
     rbind (spin_lock (scr_lock s)) (\<lambda>l.
     rbind (vprintf fmt args) (\<lambda>(out, args).
       let s = foldl putchar (s\<lparr>scr_lock := l\<rparr>) out
       in Inr (s\<lparr>scr_lock := spin_unlock (scr_lock s)\<rparr>)))"

end
