(* ===== verification/Screen_Correct.thy ===== *)
theory Screen_Correct
  imports Screen
begin

text \<open>
  Correctness of the console: numbers are printed in decimal and hexadecimal with the requested
  field width and precision, and characters only ever reach the frame buffer.
\<close>

section \<open>Digits\<close>

text \<open>The digits of a number without leading zeros, and with a fixed number of digits.\<close>

fun digits :: "nat \<Rightarrow> nat \<Rightarrow> nat list" where
  "digits b n = (if b < 2 \<or> n < b then [n] else digits b (n div b) @ [n mod b])"

fun fdigits :: "nat \<Rightarrow> nat \<Rightarrow> nat \<Rightarrow> nat list" where
  "fdigits b 0 n = []"
| "fdigits b (Suc w) n = (n div b ^ w) # fdigits b w (n mod b ^ w)"

declare digits.simps [simp del]

lemma digits_nonempty [simp]: "digits b n \<noteq> []"
  by (subst digits.simps) simp

lemma digits_hd: "2 \<le> b \<Longrightarrow> hd (digits b n) \<noteq> 0 \<or> digits b n = [0]"
proof (induction b n rule: digits.induct)
  case (1 b n)
  show ?case
  proof (cases "n < b")
    case True
    then show ?thesis by (subst (1 2) digits.simps) auto
  next
    case False
    then have ih: "hd (digits b (n div b)) \<noteq> 0 \<or> digits b (n div b) = [0]" using 1 by simp
    have "digits b (n div b) \<noteq> [0]"
    proof
      assume z: "digits b (n div b) = [0]"
      have "n div b < b" using z "1.prems" by (subst (asm) digits.simps) (auto split: if_splits)
      then have "digits b (n div b) = [n div b]" by (subst digits.simps) simp
      then have "n div b = 0" using z by simp
      then show False using False 1(2) by (simp add: div_eq_0_iff)
    qed
    then show ?thesis using ih False 1(2) by (subst (1 2) digits.simps) (simp add: hd_append)
  qed
qed

lemma fdigits_snoc:
  "0 < b \<Longrightarrow> n < b ^ Suc w \<Longrightarrow> fdigits b (Suc w) n = fdigits b w (n div b) @ [n mod b]"
proof (induction w arbitrary: n)
  case 0
  then show ?case by simp
next
  case (Suc w)
  have d: "n div b ^ Suc w = n div b div b ^ w" by (simp add: div_mult2_eq)
  have m: "(n mod b ^ Suc w) div b = n div b mod b ^ w" "n mod b ^ Suc w mod b = n mod b"
    using Suc.prems(1) by (simp_all add: mod_mult2_eq)
  have "fdigits b (Suc (Suc w)) n = (n div b ^ Suc w) # fdigits b (Suc w) (n mod b ^ Suc w)" by simp
  also have "\<dots> = (n div b div b ^ w) # fdigits b w (n div b mod b ^ w) @ [n mod b]"
    using Suc.IH [OF Suc.prems(1), of "n mod b ^ Suc w"] Suc.prems(1) by (simp only: d m) simp
  finally show ?case by simp
qed

lemma length_fdigits [simp]: "length (fdigits b w n) = w"
  by (induction w arbitrary: n) auto

lemma fdigits_digits:
  "2 \<le> b \<Longrightarrow> n < b ^ w \<Longrightarrow> 0 < w \<Longrightarrow> fdigits b w n = replicate (w - length (digits b n)) 0 @ digits b n
     \<and> length (digits b n) \<le> w"
proof (induction w arbitrary: n)
  case (Suc w)
  have b: "0 < b" using Suc.prems by simp
  show ?case
  proof (cases "n < b")
    case True
    then have d: "digits b n = [n]" by (subst digits.simps) simp
    have "fdigits b w 0 = replicate w 0" for w by (induction w) auto
    then show ?thesis using True d fdigits_snoc [OF b Suc.prems(2)] by simp
  next
    case False
    have w: "0 < w" using Suc.prems False by (cases w) auto
    have lt: "n div b < b ^ w" using Suc.prems b by (simp add: less_mult_imp_div_less mult.commute)
    have d: "digits b n = digits b (n div b) @ [n mod b]" using False Suc.prems by (subst digits.simps) simp
    show ?thesis
      using Suc.IH [OF Suc.prems(1) lt w] by (simp only: fdigits_snoc [OF b Suc.prems(2)] d) simp
  qed
qed simp

section \<open>Options\<close>

text \<open>The loops of decimal and hexadecimal output with the digits already computed.\<close>

fun opt_loop :: "(u32 \<Rightarrow> char) \<Rightarrow> u32 \<Rightarrow> u32 list \<Rightarrow> u32 \<Rightarrow> u32 \<Rightarrow> u32 \<Rightarrow> char \<Rightarrow> bool \<times> bool \<Rightarrow> string" where
  "opt_loop ch w [] i width precision padding f = []"
| "opt_loop ch w (q # qs) i width precision padding f =
     (let (f, out) = HANDLE_OPTIONS q w (w - 1) i width precision padding f
      in out @ (if snd f then [ch q] else []) @ opt_loop ch w qs (i + 1) width precision padding f)"

lemma opt_loop_digits: "opt_loop ch w qs i width precision padding (pp, True) = map ch qs"
  by (induction qs arbitrary: i) (simp_all add: HANDLE_OPTIONS_def Let_def)

definition leading :: "u32 list \<Rightarrow> nat" where
  "leading qs = length (takeWhile (\<lambda>q. q = 0) (butlast qs))"

lemma opt_loop_padding:
  assumes "length qs = w - i" and "i < w" and "w \<le> 16" and "wd \<le> w" and "pr \<le> w" and "i \<le> w - pr"
    and "pp \<longrightarrow> w - wd \<le> i"
  defines "e \<equiv> min (i + leading qs) (w - pr)"
  shows "opt_loop ch (of_nat w) qs (of_nat i) (of_nat wd) (of_nat pr) padding (pp, False)
    = replicate (e - max i (w - wd)) padding @ map ch (drop (e - i) qs)"
  using assms(1,2,6,7) unfolding e_def
proof (induction qs arbitrary: i pp)
  case Nil
  then show ?case by simp
next
  case (Cons q qs)
  have small: "unat (of_nat n :: u32) = n" if "n \<le> 16" for n
    using that by (intro unat_of_nat_small) simp
  have ge: "(of_nat w - of_nat n \<le> (of_nat i :: u32)) \<longleftrightarrow> w - n \<le> i" if "n \<le> w" for n
  proof -
    have "(of_nat w - of_nat n :: u32) = of_nat (w - n)" using that by (simp add: of_nat_diff)
    then show ?thesis using small [of "w - n"] small [of i] assms(3) Cons.prems(2) by (simp add: word_le_nat_alt)
  qed
  have last: "(of_nat i :: u32) = of_nat w - 1 \<longleftrightarrow> i = w - 1"
  proof -
    have "(of_nat w - 1 :: u32) = of_nat (w - 1)" using Cons.prems(2) by (simp add: of_nat_diff)
    then show ?thesis
      using small [of "w - 1"] small [of i] assms(3) Cons.prems(2) by (simp add: word_unat_eq_iff del: of_nat_diff)
  qed
  show ?case
  proof (cases "q \<noteq> 0 \<or> i = w - 1")
    case True
    have "leading (q # qs) = 0"
      using True Cons.prems(1,2) by (cases qs) (auto simp: leading_def)
    then show ?thesis
      using True Cons.prems last by (auto simp: HANDLE_OPTIONS_def Let_def opt_loop_digits)
  next
    case False
    then have q: "q = 0" "i < w - 1" using Cons.prems(2) by auto
    then have "qs \<noteq> []" using Cons.prems(1) by auto
    then have lead: "leading (q # qs) = Suc (leading qs)" using q by (simp add: leading_def)
    show ?thesis
    proof (cases "w - pr \<le> i")
      case True
      then show ?thesis
        using q last ge [OF assms(4)] ge [OF assms(5)] Cons.prems(3)
        by (simp add: HANDLE_OPTIONS_def Let_def opt_loop_digits)
    next
      case False
      have ih: "opt_loop ch (of_nat w) qs (of_nat (Suc i)) (of_nat wd) (of_nat pr) padding (w - wd \<le> i, False)
          = replicate (min (Suc i + leading qs) (w - pr) - max (Suc i) (w - wd)) padding
            @ map ch (drop (min (Suc i + leading qs) (w - pr) - Suc i) qs)"
        by (rule Cons.IH) (use Cons.prems q False in auto)
      have flag: "(pp \<or> w - wd \<le> i) = (w - wd \<le> i)" using Cons.prems(4) by auto
      have step: "opt_loop ch (of_nat w) (q # qs) (of_nat i) (of_nat wd) (of_nat pr) padding (pp, False)
          = (if w - wd \<le> i then [padding] else [])
            @ opt_loop ch (of_nat w) qs (of_nat (Suc i)) (of_nat wd) (of_nat pr) padding (w - wd \<le> i, False)"
        using q False last ge [OF assms(4)] ge [OF assms(5)] flag
        by (simp add: HANDLE_OPTIONS_def Let_def add.commute)
      define e where "e = min (Suc i + leading qs) (w - pr)"
      have e: "Suc i \<le> e" using False by (simp add: e_def)
      have "replicate (e - max i (w - wd)) padding
          = (if w - wd \<le> i then [padding] else []) @ replicate (e - max (Suc i) (w - wd)) padding"
        using e by (auto simp: max_def Suc_diff_Suc [symmetric] simp del: Suc_diff_Suc)
      moreover have "drop (e - i) (q # qs) = drop (e - Suc i) qs"
        using e by (simp add: Suc_diff_le drop_Cons' )
      ultimately show ?thesis
        unfolding step ih lead by (simp add: e_def)
    qed
  qed
qed

lemma leading_replicate:
  assumes "ds \<noteq> []" and "hd ds \<noteq> 0 \<or> ds = [0]" and "\<forall>d \<in> set ds. d < 2 ^ 32"
  shows "leading (map of_nat (replicate m 0 @ ds)) = m"
proof -
  have "takeWhile (\<lambda>q. q = 0) (map (of_nat :: nat \<Rightarrow> u32) (butlast ds)) = []"
  proof (cases "butlast ds")
    case (Cons d r)
    then have d: "d = hd ds" "d \<in> set ds" using in_set_butlastD [of d ds] by (cases ds; auto split: if_splits)+
    then have "d \<noteq> 0" using assms(2) Cons by auto
    moreover have "unat (of_nat d :: u32) = d" using assms(3) d(2) by (intro unat_of_nat_small) simp
    ultimately have "(of_nat d :: u32) \<noteq> 0" by auto
    then show ?thesis using Cons by simp
  qed simp
  then show ?thesis
    using assms(1) by (simp add: leading_def butlast_append map_butlast [symmetric] takeWhile_append)
qed

lemma digits_less: "2 \<le> b \<Longrightarrow> d \<in> set (digits b n) \<Longrightarrow> d < b"
proof (induction b n rule: digits.induct)
  case (1 b n)
  show ?case
    using 1 by (subst (asm) (2) digits.simps) (auto split: if_splits)
qed

lemma opt_loop_number:
  assumes "2 \<le> b" and "b \<le> 16" and "n < b ^ w" and "0 < w" and "w \<le> 16" and "wd \<le> w" and "pr \<le> w"
  shows "opt_loop ch (of_nat w) (map of_nat (fdigits b w n)) 0 (of_nat wd) (of_nat pr) padding (False, False)
    = replicate (wd - max pr (length (digits b n))) padding @ replicate (pr - length (digits b n)) (ch 0)
      @ map (\<lambda>d. ch (of_nat d)) (digits b n)"
proof -
  define ds where "ds = digits b n"
  define m where "m = w - length ds"
  have f: "fdigits b w n = replicate m 0 @ ds" "length ds \<le> w"
    using fdigits_digits [OF assms(1,3,4)] by (simp_all add: ds_def m_def)
  have "\<forall>d \<in> set ds. d < 2 ^ 32" using digits_less [OF assms(1)] assms(2) by (fastforce simp: ds_def)
  then have lead: "leading (map of_nat (fdigits b w n)) = m"
    unfolding f(1) using digits_hd [OF assms(1), of n] by (intro leading_replicate) (simp_all add: ds_def)
  define e where "e = min (0 + m) (w - pr)"
  have "opt_loop ch (of_nat w) (map of_nat (fdigits b w n)) (of_nat 0) (of_nat wd) (of_nat pr) padding (False, False)
      = replicate (e - max 0 (w - wd)) padding @ map ch (drop (e - 0) (map of_nat (fdigits b w n)))"
    unfolding e_def lead [symmetric] by (rule opt_loop_padding) (use assms in simp_all)
  moreover have "drop e (map of_nat (fdigits b w n)) = replicate (m - e) (0 :: u32) @ map of_nat ds"
    unfolding f(1) by (simp add: drop_map e_def)
  moreover have "m - e = pr - length ds" "e - (w - wd) = wd - max pr (length ds)"
    using f(2) assms(6,7) by (auto simp: e_def m_def)
  ultimately show ?thesis by (simp add: ds_def comp_def)
qed

section \<open>Decimal and hexadecimal\<close>

lemma unat_pow10: "n \<le> 9 \<Longrightarrow> unat (of_nat (10 ^ n) :: u32) = 10 ^ n"
proof (rule unat_of_nat_small)
  assume "n \<le> 9"
  then have "(10 :: nat) ^ n \<le> 10 ^ 9" by (intro power_increasing) auto
  then show "(10 :: nat) ^ n < 2 ^ LENGTH(32)" by simp
qed

lemma dec_loop_digits:
  assumes "n \<le> 10"
  shows "dec_loop (map (\<lambda>k. of_nat (10 ^ k)) (rev [0..<n])) x i width precision padding f
    = opt_loop digit_char 10 (map of_nat (fdigits 10 n (unat x))) i width precision padding f"
  using assms
proof (induction n arbitrary: x i f)
  case (Suc n)
  have u: "unat (of_nat (10 ^ n) :: u32) = 10 ^ n" using Suc.prems by (intro unat_pow10) simp
  have r: "unat (x mod of_nat (10 ^ n)) = unat x mod 10 ^ n"
    and d: "unat (x div of_nat (10 ^ n)) = unat x div 10 ^ n"
    by (simp_all only: unat_div_distrib unat_mod_distrib u)
  have q: "x div of_nat (10 ^ n) = of_nat (unat x div 10 ^ n)"
    unfolding d [symmetric] by simp
  have ih: "dec_loop (map (\<lambda>k. of_nat (10 ^ k)) (rev [0..<n])) (x mod of_nat (10 ^ n)) (i + 1) width precision padding g
      = opt_loop digit_char 10 (map of_nat (fdigits 10 n (unat x mod 10 ^ n))) (i + 1) width precision padding g" for g
    using Suc.IH [of "x mod of_nat (10 ^ n)" "i + 1" g] Suc.prems r by simp
  have "rev [0..<Suc n] = n # rev [0..<n]" by simp
  then show ?case
    by (simp only: list.map dec_loop.simps opt_loop.simps fdigits.simps q ih Let_def) (simp add: case_prod_beta)
qed simp

lemma divisors_powers: "base10_u32_divisors = map (\<lambda>k. of_nat (10 ^ k)) (rev [0..<10])"
  by (simp add: base10_u32_divisors_def upt_rec)

lemma char_zero: "char_of (48 :: nat) = CHR ''0''"
  by code_simp

lemma print_u32_digits:
  assumes "unat width \<le> 10" and "unat precision \<le> 10"
  shows "print_u32 x width precision padding =
    replicate (unat width - max (unat precision) (length (digits 10 (unat x)))) padding
    @ replicate (unat precision - length (digits 10 (unat x))) (CHR ''0'')
    @ map (\<lambda>d. char_of (48 + d)) (digits 10 (unat x))"
proof -
  have "unat x < 2 ^ 32" using unsigned_less [of x] by simp
  then have x: "unat x < 10 ^ 10" by simp
  have "print_u32 x width precision padding
      = opt_loop digit_char (of_nat 10) (map of_nat (fdigits 10 10 (unat x))) 0
          (of_nat (unat width)) (of_nat (unat precision)) padding (False, False)"
    unfolding print_u32_def divisors_powers by (subst dec_loop_digits) simp_all
  also have "\<dots> = replicate (unat width - max (unat precision) (length (digits 10 (unat x)))) padding
      @ replicate (unat precision - length (digits 10 (unat x))) (digit_char 0)
      @ map (\<lambda>d. digit_char (of_nat d)) (digits 10 (unat x))"
    by (rule opt_loop_number) (use assms x in simp_all)
  also have "map (\<lambda>d. digit_char (of_nat d)) (digits 10 (unat x)) = map (\<lambda>d. char_of (48 + d)) (digits 10 (unat x))"
  proof (rule map_cong [OF refl])
    fix d assume "d \<in> set (digits 10 (unat x))"
    then have "d < 10" using digits_less by force
    then show "digit_char (of_nat d) = char_of (48 + d)" by (simp add: digit_char_def unat_of_nat_small)
  qed
  finally show ?thesis by (simp add: digit_char_def char_zero)
qed

lemma hex_loop_digits:
  assumes "n \<le> w" and "w \<le> 16"
  shows "hex_loop n (of_nat w) upper x (of_nat (w - n)) width precision padding f
    = opt_loop (hex_char upper) (of_nat w) (map of_nat (fdigits 16 n (unat x mod 16 ^ n)))
        (of_nat (w - n)) width precision padding f"
  using assms(1)
proof (induction n arbitrary: f)
  case (Suc n)
  have sub: "(of_nat w - 1) - of_nat (w - Suc n) = (of_nat n :: u32)"
    using Suc.prems by (simp add: of_nat_diff)
  have "unat (push_bit 2 (of_nat n) :: u32) = 4 * n"
  proof -
    have "(push_bit 2 (of_nat n) :: u32) = of_nat (4 * n)" by (simp add: push_bit_eq_mult)
    then show ?thesis using Suc.prems assms(2) by (simp only:) (intro unat_of_nat_small, simp)
  qed
  then have shift: "drop_bit (unat (push_bit 2 ((of_nat w - 1) - of_nat (w - Suc n)) :: u32)) x AND 0x0F
      = drop_bit (4 * n) x AND mask 4"
    by (simp add: sub mask_eq_exp_minus_1)
  have nib: "unat (drop_bit (4 * n) x AND mask 4) = unat x div 16 ^ n mod 16"
    by (simp add: unat_and_mask unat_shiftr power_mult)
  have li: "(ucast (drop_bit (unat (push_bit 2 ((of_nat w - 1) - of_nat (w - Suc n)) :: u32)) x AND 0x0F) :: u32)
      = of_nat (unat x mod 16 ^ Suc n div 16 ^ n)"
  proof -
    have "unat x mod 16 ^ Suc n div 16 ^ n = unat x div 16 ^ n mod 16"
      by (simp add: mod_mult2_eq power_Suc2 del: power_Suc)
    then show ?thesis unfolding shift
      by (simp add: nib [symmetric])
  qed
  have i: "of_nat (w - Suc n) + 1 = (of_nat (w - n) :: u32)"
    using Suc.prems by (simp add: of_nat_diff)
  have tail: "unat x mod 16 ^ Suc n mod 16 ^ n = unat x mod 16 ^ n"
    by (simp add: mod_mod_cancel)
  show ?case
    by (simp only: list.map hex_loop.simps opt_loop.simps fdigits.simps li i tail Suc.IH [OF Suc_leD [OF Suc.prems]] Let_def)
qed simp

definition hex_digit :: "bool \<Rightarrow> nat \<Rightarrow> char" where
  "hex_digit upper d = char_of (if d < 10 then 48 + d else (if upper then 55 else 87) + d)"

lemma print_hex_digits:
  assumes w: "0 < w" "w \<le> 16" and x: "unat x < 16 ^ w" and "unat width \<le> w" and "unat precision \<le> w"
  shows "print_hex w upper x width precision padding =
    replicate (unat width - max (unat precision) (length (digits 16 (unat x)))) padding
    @ replicate (unat precision - length (digits 16 (unat x))) (CHR ''0'')
    @ map (hex_digit upper) (digits 16 (unat x))"
proof -
  have "print_hex w upper x width precision padding
      = opt_loop (hex_char upper) (of_nat w) (map of_nat (fdigits 16 w (unat x))) 0
          (of_nat (unat width)) (of_nat (unat precision)) padding (False, False)"
    using hex_loop_digits [OF le_refl w(2), of upper x width precision padding "(False, False)"] x
    by (simp add: print_hex_def)
  also have "\<dots> = replicate (unat width - max (unat precision) (length (digits 16 (unat x)))) padding
      @ replicate (unat precision - length (digits 16 (unat x))) (hex_char upper 0)
      @ map (\<lambda>d. hex_char upper (of_nat d)) (digits 16 (unat x))"
    by (rule opt_loop_number) (use assms in simp_all)
  also have "map (\<lambda>d. hex_char upper (of_nat d)) (digits 16 (unat x)) = map (hex_digit upper) (digits 16 (unat x))"
  proof (rule map_cong [OF refl])
    fix d assume "d \<in> set (digits 16 (unat x))"
    then have d: "d < 16" using digits_less by force
    then have "unat (of_nat d :: u32) = d" by (intro unat_of_nat_small) simp
    then show "hex_char upper (of_nat d) = hex_digit upper d"
      by (auto simp: hex_char_def hex_digit_def word_less_nat_alt)
  qed
  finally show ?thesis by (simp add: hex_char_def char_zero)
qed

text \<open>
  C23: With a field width and a precision that do not exceed the number of digits of the type,
  \<open>%u\<close> prints the decimal digits of its argument and \<open>%X\<close> and \<open>%x\<close> the hexadecimal ones, of 32
  or 64 bits, without leading zeros, filled up with zeros to the precision and with the padding
  character to the width.
\<close>

theorem printf_numbers:
  "(unat width \<le> 10 \<and> unat precision \<le> 10 \<longrightarrow>
      print_u32 x width precision padding =
        replicate (unat width - max (unat precision) (length (digits 10 (unat x)))) padding
        @ replicate (unat precision - length (digits 10 (unat x))) (CHR ''0'')
        @ map (\<lambda>d. char_of (48 + d)) (digits 10 (unat x)))
   \<and> (w = 8 \<and> unat y < 2 ^ 32 \<or> w = 16 \<longrightarrow> unat width \<le> w \<and> unat precision \<le> w \<longrightarrow>
      print_hex w upper y width precision padding =
        replicate (unat width - max (unat precision) (length (digits 16 (unat y)))) padding
        @ replicate (unat precision - length (digits 16 (unat y))) (CHR ''0'')
        @ map (hex_digit upper) (digits 16 (unat y)))"
proof (intro conjI impI)
  show "print_u32 x width precision padding =
        replicate (unat width - max (unat precision) (length (digits 10 (unat x)))) padding
        @ replicate (unat precision - length (digits 10 (unat x))) (CHR ''0'')
        @ map (\<lambda>d. char_of (48 + d)) (digits 10 (unat x))"
    if "unat width \<le> 10 \<and> unat precision \<le> 10"
    using that by (intro print_u32_digits) simp_all
  show "print_hex w upper y width precision padding =
        replicate (unat width - max (unat precision) (length (digits 16 (unat y)))) padding
        @ replicate (unat precision - length (digits 16 (unat y))) (CHR ''0'')
        @ map (hex_digit upper) (digits 16 (unat y))"
    if "w = 8 \<and> unat y < 2 ^ 32 \<or> w = 16" "unat width \<le> w \<and> unat precision \<le> w"
    using that unat_u64_less [of y] by (intro print_hex_digits) auto
qed

theorem printf_numbers_witness:
  "print_u32 1234 6 0 CHR '' '' = ''  1234'' \<and> print_hex 16 True 0xBEEF 0 0 CHR '' '' = ''BEEF''"
  using printf_numbers [of 6 0 1234 "CHR '' ''" 8 0 True] printf_numbers [of 0 0 0 "CHR '' ''" 16 "0xBEEF" True]
  by (simp add: digits.simps hex_digit_def) code_simp

section \<open>The frame buffer\<close>

definition screen_ok :: "screen \<Rightarrow> bool" where
  "screen_ok s \<longleftrightarrow> unat (xpos s) < COLUMNS \<and> unat (ypos s) < LINES"

definition buffer_bytes :: nat where "buffer_bytes = COLUMNS * LINES * 2"

lemma bytes_at_member: "i < n \<Longrightarrow> a + of_nat i \<in> bytes_at a n"
  by (simp add: bytes_at_def)

lemma newline_ok:
  assumes "screen_ok s"
  shows "screen_ok (newline s)" and "s_mem (newline s) = s_mem s" and "frameBuf (newline s) = frameBuf s"
    and "scr_lock (newline s) = scr_lock s"
proof -
  have "unat (ypos s + 1) = Suc (unat (ypos s))"
    using assms by (subst unat_add_small) (simp_all add: screen_ok_def LINES_def)
  then show "screen_ok (newline s)"
    using assms by (auto simp: newline_def screen_ok_def Let_def LINES_def COLUMNS_def)
qed (simp_all add: newline_def Let_def)

lemma putchar_ok:
  assumes ok: "screen_ok s"
  shows "screen_ok (putchar s c)"
    and "a \<notin> bytes_at (frameBuf s) buffer_bytes \<Longrightarrow> s_mem (putchar s c) a = s_mem s a"
    and "frameBuf (putchar s c) = frameBuf s" and "scr_lock (putchar s c) = scr_lock s"
proof -
  let ?k = "(unat (xpos s) + unat (ypos s) * COLUMNS) * 2"
  let ?p = "frameBuf s + of_nat ?k"
  define s1 where "s1 = s\<lparr>s_mem := (s_mem s)(?p := of_char c, ?p + 1 := ATTRIBUTE), xpos := xpos s + 1\<rparr>"
  have k: "?k + 1 < buffer_bytes"
    using ok by (simp add: screen_ok_def buffer_bytes_def COLUMNS_def LINES_def)
  have x: "unat (xpos s + 1) = Suc (unat (xpos s))"
    using ok by (subst unat_add_small) (simp_all add: screen_ok_def COLUMNS_def)
  have "?p \<in> bytes_at (frameBuf s) buffer_bytes" using k by (intro bytes_at_member) simp
  moreover have "frameBuf s + of_nat (?k + 1) \<in> bytes_at (frameBuf s) buffer_bytes"
    using k by (rule bytes_at_member)
  then have "?p + 1 \<in> bytes_at (frameBuf s) buffer_bytes" by (simp add: add_ac)
  ultimately have a: "a \<noteq> ?p \<and> a \<noteq> ?p + 1" if "a \<notin> bytes_at (frameBuf s) buffer_bytes" using that by auto
  have put: "putchar s c = (if c = CHR 0x0A \<or> c = CHR 0x0D then newline s
      else if unat (xpos s1) \<ge> COLUMNS then newline s1 else s1)"
    by (simp add: putchar_def s1_def Let_def)
  have s1: "ypos s1 = ypos s" "frameBuf s1 = frameBuf s" "scr_lock s1 = scr_lock s"
    "unat (xpos s1) = Suc (unat (xpos s))"
    using x by (simp_all add: s1_def)
  have m1: "s_mem s1 a = s_mem s a" if "a \<notin> bytes_at (frameBuf s) buffer_bytes"
    using a [OF that] by (simp add: s1_def)
  have n1: "screen_ok (newline s1)" if "unat (xpos s1) \<ge> COLUMNS"
    using newline_ok(1) [of "s1\<lparr>xpos := 0\<rparr>"] ok s1 by (simp add: newline_def Let_def screen_ok_def COLUMNS_def)
  have n2: "s_mem (newline s1) = s_mem s1" "frameBuf (newline s1) = frameBuf s1" "scr_lock (newline s1) = scr_lock s1"
    by (simp_all add: newline_def Let_def)
  show "screen_ok (putchar s c)" using put newline_ok [OF ok] n1 s1 ok by (auto simp: screen_ok_def)
  show "s_mem (putchar s c) a = s_mem s a" if "a \<notin> bytes_at (frameBuf s) buffer_bytes"
    using put newline_ok [OF ok] n2 m1 [OF that] by auto
  show "frameBuf (putchar s c) = frameBuf s" "scr_lock (putchar s c) = scr_lock s"
    using put newline_ok [OF ok] n2 s1 by auto
qed

text \<open>
  C24: \<open>printf\<close> with a free console lock and a format that does not end inside a directive and
  finds its arguments prints the output of \<open>vprintf\<close>: the cursor stays on the screen of 80 columns
  and 24 lines, no byte outside the frame buffer changes, and the lock is free again.
\<close>

theorem printf_stays_on_screen:
  assumes ok: "screen_ok s" and "lock_free (scr_lock s)" and "vprintf fmt args = Inr (out, args')"
  shows "\<exists>s'. printf s fmt args = Inr s' \<and> screen_ok s' \<and> frameBuf s' = frameBuf s \<and> lock_free (scr_lock s')
    \<and> (\<forall>a. a \<notin> bytes_at (frameBuf s) buffer_bytes \<longrightarrow> s_mem s' a = s_mem s a)"
proof -
  have fold: "screen_ok (foldl putchar t out) \<and> frameBuf (foldl putchar t out) = frameBuf t
      \<and> scr_lock (foldl putchar t out) = scr_lock t
      \<and> (\<forall>a. a \<notin> bytes_at (frameBuf t) buffer_bytes \<longrightarrow> s_mem (foldl putchar t out) a = s_mem t a)"
    if "screen_ok t" for t
    using that
  proof (induction out arbitrary: t)
    case (Cons c out)
    have "screen_ok (putchar t c)" "frameBuf (putchar t c) = frameBuf t" "scr_lock (putchar t c) = scr_lock t"
      using putchar_ok [OF Cons.prems] by simp_all
    then show ?case
      using Cons.IH [of "putchar t c"] putchar_ok(2) [OF Cons.prems] by simp
  qed simp
  obtain l where l: "spin_lock (scr_lock s) = Inr l" "lock_free (spin_unlock l)"
    using assms(2) by (auto simp: spin_lock_def spin_unlock_def lock_free_def Let_def)
  have "screen_ok (s\<lparr>scr_lock := l\<rparr>)" using ok by (simp add: screen_ok_def)
  note f = fold [OF this]
  show ?thesis
    using f l by (simp add: printf_def assms(3) Let_def screen_ok_def)
qed

theorem printf_stays_on_screen_witness:
  "\<exists>s'. printf \<lparr>s_mem = (\<lambda>_. 0), frameBuf = 0xB8000, xpos = 79, ypos = 23, scr_lock = SPINLOCK_UNLOCKED\<rparr>
      ''%% ok'' [] = Inr s' \<and> screen_ok s'"
proof -
  let ?s = "\<lparr>s_mem = (\<lambda>_. 0), frameBuf = 0xB8000, xpos = 79, ypos = 23, scr_lock = SPINLOCK_UNLOCKED\<rparr>"
  have "screen_ok ?s" by (simp add: screen_ok_def COLUMNS_def LINES_def)
  moreover have "vprintf ''%% ok'' [] = Inr (''% ok'', [])" by (simp add: convert_def)
  ultimately show ?thesis using printf_stays_on_screen [of ?s "''%% ok''" "[]"] by auto
qed

end
