(* ===== verification/Mtrr_Barrier.thy ===== *)
theory Mtrr_Barrier
  imports Prelude
begin

text \<open>
  The rendezvous around \<open>mtrr_config\<close>, which \<open>kernel_main\<close> (\<^verbatim>\<open>boot/init.c\<close>) and \<open>ap_main\<close>
  (\<^verbatim>\<open>smp/smp.c\<close>) run on every CPU: each CPU increments \<open>mtrr_sync\<close>, waits until it equals the
  number of CPUs, reconfigures its memory types, decrements \<open>mtrr_sync\<close> and waits until it is 0.
  The updates of the counter happen under \<open>mtrr_lock\<close> and are atomic steps; the reads of the
  waiting loops are not protected and are steps of their own.
\<close>

datatype sync_pc = Arrive | WaitAll | Config | Leave | WaitNone | Passed

record sync_sys =
  mtrr_sync :: u8
  sync_pc_of :: "nat \<Rightarrow> sync_pc"

definition sync_init :: sync_sys where
  "sync_init = \<lparr>mtrr_sync = 0, sync_pc_of = (\<lambda>_. Arrive)\<rparr>"

text \<open>\<open>g_cpus\<close> is a 16-bit counter; the comparison is on promoted integers.\<close>

inductive sync_step :: "u16 \<Rightarrow> sync_sys \<Rightarrow> sync_sys \<Rightarrow> bool" for g_cpus where
  arrive: "i < unat g_cpus \<Longrightarrow> sync_pc_of s i = Arrive \<Longrightarrow>
    sync_step g_cpus s (s\<lparr>mtrr_sync := mtrr_sync s + 1, sync_pc_of := (sync_pc_of s)(i := WaitAll)\<rparr>)"
| all_here: "i < unat g_cpus \<Longrightarrow> sync_pc_of s i = WaitAll \<Longrightarrow> unat (mtrr_sync s) = unat g_cpus \<Longrightarrow>
    sync_step g_cpus s (s\<lparr>sync_pc_of := (sync_pc_of s)(i := Config)\<rparr>)"
| configured: "i < unat g_cpus \<Longrightarrow> sync_pc_of s i = Config \<Longrightarrow>
    sync_step g_cpus s (s\<lparr>sync_pc_of := (sync_pc_of s)(i := Leave)\<rparr>)"
| leave: "i < unat g_cpus \<Longrightarrow> sync_pc_of s i = Leave \<Longrightarrow>
    sync_step g_cpus s (s\<lparr>mtrr_sync := mtrr_sync s - 1, sync_pc_of := (sync_pc_of s)(i := WaitNone)\<rparr>)"
| none_left: "i < unat g_cpus \<Longrightarrow> sync_pc_of s i = WaitNone \<Longrightarrow> mtrr_sync s = 0 \<Longrightarrow>
    sync_step g_cpus s (s\<lparr>sync_pc_of := (sync_pc_of s)(i := Passed)\<rparr>)"

section \<open>Invariant\<close>

text \<open>The counter is the number of CPUs that have arrived and not yet left.\<close>

definition inside :: "sync_pc \<Rightarrow> bool" where
  "inside p \<longleftrightarrow> p = WaitAll \<or> p = Config \<or> p = Leave"

definition inside_cpus :: "u16 \<Rightarrow> sync_sys \<Rightarrow> nat set" where
  "inside_cpus n s = {i. i < unat n \<and> inside (sync_pc_of s i)}"

definition started :: "sync_pc \<Rightarrow> bool" where
  "started p \<longleftrightarrow> p = Config \<or> p = Leave \<or> p = WaitNone \<or> p = Passed"

definition sync_inv :: "u16 \<Rightarrow> sync_sys \<Rightarrow> bool" where
  "sync_inv n s \<longleftrightarrow> unat (mtrr_sync s) = card (inside_cpus n s)
     \<and> ((\<exists>i < unat n. started (sync_pc_of s i)) \<longrightarrow> (\<forall>i < unat n. sync_pc_of s i \<noteq> Arrive))"

lemma inside_finite [simp]: "finite (inside_cpus n s)"
  by (rule finite_subset [of _ "{..< unat n}"]) (auto simp: inside_cpus_def)

lemma inside_le: "card (inside_cpus n s) \<le> unat n"
  using card_mono [of "{..< unat n}" "inside_cpus n s"] by (auto simp: inside_cpus_def)

lemma inside_all:
  assumes "card (inside_cpus n s) = unat n" and "i < unat n"
  shows "inside (sync_pc_of s i)"
proof -
  have "inside_cpus n s = {..< unat n}"
    using assms(1) by (intro card_subset_eq) (auto simp: inside_cpus_def)
  then show ?thesis using assms(2) by (auto simp: inside_cpus_def)
qed

lemma inside_step:
  "i < unat n \<Longrightarrow> inside_cpus n (s\<lparr>mtrr_sync := v, sync_pc_of := (sync_pc_of s)(i := p)\<rparr>)
     = (if inside p then insert i (inside_cpus n s) else inside_cpus n s - {i})"
  "i < unat n \<Longrightarrow> inside_cpus n (s\<lparr>sync_pc_of := (sync_pc_of s)(i := p)\<rparr>)
     = (if inside p then insert i (inside_cpus n s) else inside_cpus n s - {i})"
  by (auto simp: inside_cpus_def)

lemma sync_step_inv:
  assumes step: "sync_step n s s'" and inv: "sync_inv n s" and n: "unat n < 256"
  shows "sync_inv n s'"
  using step
proof cases
  case (arrive i)
  have "i \<notin> inside_cpus n s" using arrive by (simp add: inside_cpus_def inside_def)
  then have card: "card (insert i (inside_cpus n s)) = Suc (card (inside_cpus n s))" by simp
  moreover have "card (insert i (inside_cpus n s)) \<le> unat n"
    using inside_le [of n s'] arrive by (simp add: inside_step inside_def)
  ultimately have "unat (mtrr_sync s + 1) = Suc (unat (mtrr_sync s))"
    using inv n by (subst unat_add_small) (simp_all add: sync_inv_def)
  then show ?thesis
    using arrive inv card by (auto simp: sync_inv_def inside_step inside_def started_def)
next
  case (all_here i)
  then have "\<forall>j < unat n. inside (sync_pc_of s j)" using inv inside_all [of n s] by (simp add: sync_inv_def)
  moreover have "i \<in> inside_cpus n s" using all_here by (simp add: inside_cpus_def inside_def)
  ultimately show ?thesis
    using all_here inv by (auto simp: sync_inv_def inside_step inside_def insert_absorb)
next
  case (configured i)
  moreover have "i \<in> inside_cpus n s" using configured by (simp add: inside_cpus_def inside_def)
  ultimately show ?thesis
    using inv by (auto simp: sync_inv_def inside_step inside_def insert_absorb started_def)
next
  case (leave i)
  have i: "i \<in> inside_cpus n s" using leave by (simp add: inside_cpus_def inside_def)
  then have pos: "0 < card (inside_cpus n s)" by (auto simp: card_gt_0_iff)
  then have "1 \<le> mtrr_sync s" using inv by (simp add: sync_inv_def word_le_nat_alt)
  then have "unat (mtrr_sync s - 1) = unat (mtrr_sync s) - 1" by (simp add: unat_sub_le)
  then show ?thesis
    using leave inv i by (auto simp: sync_inv_def inside_step inside_def started_def)
next
  case (none_left i)
  moreover have "i \<notin> inside_cpus n s" using none_left by (simp add: inside_cpus_def inside_def)
  ultimately show ?thesis
    using inv by (auto simp: sync_inv_def inside_step inside_def started_def)
qed

lemma sync_reach_inv:
  assumes "(sync_step n)\<^sup>*\<^sup>* sync_init s" and "unat n < 256"
  shows "sync_inv n s"
  using assms
proof (induction rule: rtranclp_induct)
  case base
  show ?case by (simp add: sync_inv_def sync_init_def inside_cpus_def inside_def started_def)
next
  case (step s s')
  then show ?case using sync_step_inv by blast
qed

section \<open>The properties\<close>

text \<open>
  C19: With fewer than 256 CPUs, a CPU runs \<open>mtrr_config\<close> only after every CPU has arrived at the
  rendezvous, whatever the interleaving, and the counter never wraps: it is the number of CPUs
  inside.
\<close>

theorem mtrr_rendezvous:
  assumes "(sync_step n)\<^sup>*\<^sup>* sync_init s" and "unat n < 256" and "i < unat n" and "sync_pc_of s i = Config"
  shows "(\<forall>j < unat n. sync_pc_of s j \<noteq> Arrive) \<and> unat (mtrr_sync s) = card (inside_cpus n s)"
  using sync_reach_inv [OF assms(1,2)] assms(3,4) by (auto simp: sync_inv_def started_def)

lemma all_arrive:
  assumes "k \<le> unat n" and "unat n < 256"
  shows "(sync_step n)\<^sup>*\<^sup>* sync_init \<lparr>mtrr_sync = of_nat k, sync_pc_of = (\<lambda>i. if i < k then WaitAll else Arrive)\<rparr>"
  using assms
proof (induction k)
  case 0
  then show ?case by (simp add: sync_init_def)
next
  case (Suc k)
  let ?s = "\<lparr>mtrr_sync = of_nat k, sync_pc_of = (\<lambda>i. if i < k then WaitAll else Arrive)\<rparr>"
  have "sync_step n ?s (?s\<lparr>mtrr_sync := mtrr_sync ?s + 1, sync_pc_of := (sync_pc_of ?s)(k := WaitAll)\<rparr>)"
    using Suc.prems by (intro arrive) simp_all
  moreover have "(sync_pc_of ?s)(k := WaitAll) = (\<lambda>i. if i < Suc k then WaitAll else Arrive)"
    by (auto simp: fun_eq_iff)
  ultimately have "sync_step n ?s \<lparr>mtrr_sync = of_nat (Suc k), sync_pc_of = (\<lambda>i. if i < Suc k then WaitAll else Arrive)\<rparr>"
    by (simp add: add.commute)
  then show ?case using Suc by (meson Suc_leD rtranclp.rtrancl_into_rtrancl)
qed

text \<open>The state after every CPU has arrived and CPU 0 alone has gone through to its second wait.\<close>

definition one_left :: "u16 \<Rightarrow> sync_sys" where
  "one_left n = \<lparr>mtrr_sync = of_nat (unat n) - 1,
     sync_pc_of = (\<lambda>i. if i < unat n then WaitAll else Arrive)(0 := WaitNone)\<rparr>"

lemma one_left_reached:
  assumes "0 < unat n" and "unat n < 256"
  shows "(sync_step n)\<^sup>*\<^sup>* sync_init (one_left n)"
proof -
  define pc where "pc = (\<lambda>i. if i < unat n then WaitAll else Arrive)"
  let ?s0 = "\<lparr>mtrr_sync = of_nat (unat n), sync_pc_of = pc\<rparr>"
  have u: "unat (of_nat (unat n) :: u8) = unat n" using assms(2) by (intro unat_of_nat_small) simp
  have "(sync_step n)\<^sup>*\<^sup>* sync_init ?s0" using all_arrive [of "unat n" n] assms by (simp add: pc_def)
  also have "sync_step n ?s0 (?s0\<lparr>sync_pc_of := (sync_pc_of ?s0)(0 := Config)\<rparr>)"
    using assms u by (intro all_here) (simp_all add: pc_def)
  also have "sync_step n \<dots> (?s0\<lparr>sync_pc_of := pc(0 := Leave)\<rparr>)"
    using configured [of 0 n "?s0\<lparr>sync_pc_of := pc(0 := Config)\<rparr>"] assms by simp
  also have "sync_step n \<dots> (one_left n)"
    using leave [of 0 n "?s0\<lparr>sync_pc_of := pc(0 := Leave)\<rparr>"] assms by (simp add: one_left_def pc_def)
  finally show ?thesis .
qed

text \<open>
  C38: The rendezvous can deadlock: with two or more CPUs, when one CPU decrements the counter
  before the others have read its full value, no CPU can take a step any more and none has
  passed.
\<close>

theorem mtrr_rendezvous_deadlocks:
  assumes "2 \<le> unat n" and "unat n < 256"
  shows "\<exists>s. (sync_step n)\<^sup>*\<^sup>* sync_init s \<and> (\<forall>s'. \<not> sync_step n s s') \<and> (\<forall>i < unat n. sync_pc_of s i \<noteq> Passed)"
proof -
  have u: "unat (of_nat (unat n) :: u8) = unat n" using assms(2) by (intro unat_of_nat_small) simp
  have "(1 :: u8) \<le> of_nat (unat n)" using assms u by (simp add: word_le_nat_alt)
  then have "unat (of_nat (unat n) - 1 :: u8) = unat n - 1" using u by (simp add: unat_sub_le)
  then have c: "unat (mtrr_sync (one_left n)) = unat n - 1" by (simp add: one_left_def)
  have pc: "sync_pc_of (one_left n) i = (if i = 0 then WaitNone else WaitAll)" if "i < unat n" for i
    using that by (simp add: one_left_def)
  have "\<not> sync_step n (one_left n) s'" for s'
    using pc c assms by (auto elim!: sync_step.cases split: if_splits)
  moreover have "\<forall>i < unat n. sync_pc_of (one_left n) i \<noteq> Passed" using pc by simp
  ultimately show ?thesis using one_left_reached assms by (intro exI [of _ "one_left n"]) simp
qed

theorem mtrr_rendezvous_witness:
  "\<exists>s. (sync_step 2)\<^sup>*\<^sup>* sync_init s \<and> sync_pc_of s 0 = Config \<and> sync_pc_of s 1 \<noteq> Arrive"
proof -
  let ?s = "\<lparr>mtrr_sync = 2, sync_pc_of = (\<lambda>i. if i < 2 then WaitAll else Arrive)\<rparr>"
  have "(sync_step 2)\<^sup>*\<^sup>* sync_init ?s" using all_arrive [of 2 2] by simp
  also have step: "sync_step 2 ?s (?s\<lparr>sync_pc_of := (sync_pc_of ?s)(0 := Config)\<rparr>)"
    by (intro all_here) simp_all
  finally have r: "(sync_step 2)\<^sup>*\<^sup>* sync_init (?s\<lparr>sync_pc_of := (sync_pc_of ?s)(0 := Config)\<rparr>)" .
  show ?thesis using mtrr_rendezvous [OF r, of 0] r by (intro exI conjI) auto
qed

theorem mtrr_rendezvous_deadlocks_witness:
  "\<exists>s. (sync_step 2)\<^sup>*\<^sup>* sync_init s \<and> (\<forall>s'. \<not> sync_step 2 s s')"
  using mtrr_rendezvous_deadlocks [of 2] by auto

end
