(* ===== verification/Virtual_Access.thy ===== *)
theory Virtual_Access
  imports Paging
begin

text \<open>
  Access to objects at virtual addresses: the code that parses tables and fills in structures in
  mapped pages reads and writes bytes that the processor's page walk resolves one by one, so an
  object may cross a page boundary. \<open>vbytes k a bs\<close> says that the bytes \<open>bs\<close> can be read from
  address \<open>a\<close> on; the encodings \<open>le n v\<close> are the little-endian bytes of a word.
\<close>

definition rd8 :: "kernel \<Rightarrow> u64 \<Rightarrow> u8 result" where
  "rd8 k a = rbind (mmu_walk (pmem k) (cr3 k) a) (\<lambda>pa. Inr (pmem k pa))"

definition wr8 :: "kernel \<Rightarrow> u64 \<Rightarrow> u8 \<Rightarrow> kernel result" where
  "wr8 k a v = rbind (mmu_walk (pmem k) (cr3 k) a) (\<lambda>pa. Inr (k\<lparr>pmem := (pmem k)(pa := v)\<rparr>))"

fun rd_bytes :: "kernel \<Rightarrow> u64 \<Rightarrow> nat \<Rightarrow> u64 result" where
  "rd_bytes k a 0 = Inr 0"
| "rd_bytes k a (Suc n) =
     rbind (rd8 k a) (\<lambda>b. rbind (rd_bytes k (a + 1) n) (\<lambda>r. Inr (ucast b OR push_bit 8 r)))"

fun wr_bytes :: "kernel \<Rightarrow> u64 \<Rightarrow> nat \<Rightarrow> u64 \<Rightarrow> kernel result" where
  "wr_bytes k a 0 v = Inr k"
| "wr_bytes k a (Suc n) v = rbind (wr8 k a (ucast v)) (\<lambda>k. wr_bytes k (a + 1) n (drop_bit 8 v))"

definition rd16 :: "kernel \<Rightarrow> u64 \<Rightarrow> u16 result" where
  "rd16 k a = rbind (rd_bytes k a 2) (\<lambda>v. Inr (ucast v))"

definition rd32 :: "kernel \<Rightarrow> u64 \<Rightarrow> u32 result" where
  "rd32 k a = rbind (rd_bytes k a 4) (\<lambda>v. Inr (ucast v))"

definition rd64 :: "kernel \<Rightarrow> u64 \<Rightarrow> u64 result" where
  "rd64 k a = rd_bytes k a 8"

definition wr16 :: "kernel \<Rightarrow> u64 \<Rightarrow> u16 \<Rightarrow> kernel result" where
  "wr16 k a v = wr_bytes k a 2 (ucast v)"

definition wr32 :: "kernel \<Rightarrow> u64 \<Rightarrow> u32 \<Rightarrow> kernel result" where
  "wr32 k a v = wr_bytes k a 4 (ucast v)"

definition wr64 :: "kernel \<Rightarrow> u64 \<Rightarrow> u64 \<Rightarrow> kernel result" where
  "wr64 k a v = wr_bytes k a 8 v"

text \<open>\<open>memset\<close> and \<open>memcpy\<close> on virtual addresses.\<close>

fun vmemset :: "kernel \<Rightarrow> u64 \<Rightarrow> u8 \<Rightarrow> nat \<Rightarrow> kernel result" where
  "vmemset k dst c 0 = Inr k"
| "vmemset k dst c (Suc n) = rbind (wr8 k dst c) (\<lambda>k. vmemset k (dst + 1) c n)"

fun vmemcpy :: "kernel \<Rightarrow> u64 \<Rightarrow> u64 \<Rightarrow> nat \<Rightarrow> kernel result" where
  "vmemcpy k dst src 0 = Inr k"
| "vmemcpy k dst src (Suc n) =
     rbind (rd8 k src) (\<lambda>b. rbind (wr8 k dst b) (\<lambda>k. vmemcpy k (dst + 1) (src + 1) n))"

section \<open>Reading\<close>

fun vbytes :: "kernel \<Rightarrow> u64 \<Rightarrow> u8 list \<Rightarrow> bool" where
  "vbytes k a [] \<longleftrightarrow> True"
| "vbytes k a (b # bs) \<longleftrightarrow> rd8 k a = Inr b \<and> vbytes k (a + 1) bs"

fun le :: "nat \<Rightarrow> u64 \<Rightarrow> u8 list" where
  "le 0 v = []"
| "le (Suc n) v = ucast v # le n (drop_bit 8 v)"

lemma unat_add_of_nat: "unat (a :: u64) + n < 2 ^ 64 \<Longrightarrow> unat (a + of_nat n) = unat a + n"
  by (subst unat_add_small) (simp_all add: unat_of_nat_small)

lemma length_le [simp]: "length (le n v) = n"
  by (induction n arbitrary: v) auto

lemma vbytes_append: "vbytes k a (xs @ ys) \<longleftrightarrow> vbytes k a xs \<and> vbytes k (a + of_nat (length xs)) ys"
  by (induction xs arbitrary: a) (auto simp: add.assoc)

lemma rd_bytes_le: "vbytes k a (le n v) \<Longrightarrow> rd_bytes k a n = Inr (take_bit (8 * n) v)"
  by (induction n arbitrary: a v) (auto simp: ucast_or_push)

abbreviation le16 :: "u16 \<Rightarrow> u8 list" where "le16 v \<equiv> le 2 (ucast v)"
abbreviation le32 :: "u32 \<Rightarrow> u8 list" where "le32 v \<equiv> le 4 (ucast v)"
abbreviation le64 :: "u64 \<Rightarrow> u8 list" where "le64 v \<equiv> le 8 v"

lemma ucast_take_same:
  "ucast (take_bit 16 (ucast (v :: u16) :: u64)) = v"
  "ucast (take_bit 32 (ucast (w :: u32) :: u64)) = w"
  by (auto intro!: bit_word_eqI simp: bit_simps)

lemma rd16_le: "vbytes k a (le16 v) \<Longrightarrow> rd16 k a = Inr v"
  by (simp only: rd16_def rd_bytes_le rbind.simps) (simp add: ucast_take_same)

lemma rd32_le: "vbytes k a (le32 v) \<Longrightarrow> rd32 k a = Inr v"
  by (simp only: rd32_def rd_bytes_le rbind.simps) (simp add: ucast_take_same)

lemma rd64_le: "vbytes k a (le64 v) \<Longrightarrow> rd64 k a = Inr v"
  by (simp only: rd64_def rd_bytes_le) (simp add: take_bit_word_eq_self)

section \<open>A small machine\<close>

text \<open>
  The first GB mapped onto itself by one large page, with given bytes somewhere above the tables;
  concrete inputs are tried on it.
\<close>

definition ident_mem :: "u64 \<Rightarrow> u8 list \<Rightarrow> mem" where
  "ident_mem base bs a =
     (if unat base \<le> unat a \<and> unat a < unat base + length bs then bs ! (unat a - unat base)
      else store64 (store64 (\<lambda>_. 0) 0x1000 0x2003) 0x2000 0x83 a)"

definition ident_kernel :: "u64 \<Rightarrow> u8 list \<Rightarrow> kernel" where
  "ident_kernel base bs = \<lparr>k_phys = small_phys [NOT 0, NOT 0], pmem = ident_mem base bs, cr3 = 0x1000,
     pg_lock = SPINLOCK_UNLOCKED, invlpg_log = []\<rparr>"

lemma ident_low: "0x3000 \<le> unat base \<Longrightarrow> unat a \<le> 0x2000 \<Longrightarrow>
   load64 (ident_mem base bs) a = load64 (store64 (store64 (\<lambda>_. 0) 0x1000 0x2003) 0x2000 0x83) a"
  unfolding load64_def by (rule load_bytes_cong) (auto simp: ident_mem_def bytes_at_unat)

lemma ident_tables:
  assumes "0x3000 \<le> unat base"
  shows "load64 (ident_mem base bs) 0x1000 = 0x2003" and "load64 (ident_mem base bs) 0x2000 = 0x83"
  using assms by (simp_all add: ident_low load64_store64_aligned)

lemma ident_walk:
  assumes "0x3000 \<le> unat base" and "unat a < 2 ^ 30"
  shows "mmu_walk (ident_mem base bs) 0x1000 a = Inr a"
proof -
  have i: "walk_index 3 a = 0" "walk_index 2 a = 0"
    using assms(2) by (simp_all add: walk_index_def word_unat_eq_iff unat_and_mask unat_drop_bit_eq drop_bit_eq_div unat_div)
  have low: "a AND mask 30 = a"
    using assms(2) by (simp add: word_unat_eq_iff unat_and_mask)
  have c: "0x1000 AND ADDR_MASK = 0x1000" "0x2003 AND ADDR_MASK = 0x2000" "0x83 AND ADDR_MASK AND x = 0" for x
    by (simp_all add: ADDR_MASK_def mask_eq_exp_minus_1 flip: and.assoc)
  have e: "entry_present 0x2003" "\<not> entry_large 0x2003" "entry_present 0x83" "entry_large 0x83"
    by (simp_all add: entry_present_def entry_large_def)
  have "walk_from (ident_mem base bs) 0x2000 (Suc 1) a = Inr a"
    unfolding walk_from.simps(2) using ident_tables(2) [OF assms(1), of bs] i(2)
    by (simp add: e c low slot_def numeral_2_eq_2)
  then have "walk_from (ident_mem base bs) 0x1000 (Suc (Suc 1)) a = Inr a"
    using ident_tables(1) [OF assms(1), of bs] i(1)
    by (subst walk_from.simps(2)) (simp add: e c slot_def numeral_3_eq_3 numeral_2_eq_2 del: walk_from.simps)
  then show ?thesis by (simp add: mmu_walk_def c numeral_3_eq_3 del: walk_from.simps)
qed

lemma ident_rd8:
  assumes "0x3000 \<le> unat base" and "unat base \<le> unat a" and "unat a < unat base + length bs"
    and "unat base + length bs \<le> 2 ^ 30"
  shows "rd8 (ident_kernel base bs) a = Inr (bs ! (unat a - unat base))"
  using assms by (simp add: rd8_def ident_kernel_def ident_walk ident_mem_def)

lemma ident_vbytes:
  assumes "0x3000 \<le> unat base" and "unat base + length bs \<le> 2 ^ 30"
  shows "vbytes (ident_kernel base bs) base bs"
proof -
  have "vbytes (ident_kernel base (xs @ ys)) (base + of_nat (length xs)) ys"
    if "unat base + length (xs @ ys) \<le> 2 ^ 30" for xs ys
    using that
  proof (induction ys arbitrary: xs)
    case (Cons y ys)
    have "unat (base + of_nat (length xs)) = unat base + length xs"
      using Cons.prems by (subst unat_add_small) (simp_all add: unat_of_nat_small)
    then have "rd8 (ident_kernel base (xs @ y # ys)) (base + of_nat (length xs)) = Inr y"
      using Cons.prems assms(1) by (subst ident_rd8) simp_all
    then show ?case using Cons.IH [of "xs @ [y]"] Cons.prems by (simp add: ac_simps)
  qed simp
  from this [of "[]" bs] show ?thesis using assms by simp
qed

end
