(* ===== verification/Acpi.thy ===== *)
theory Acpi
  imports Virtual_Access Layout
begin

text \<open>
  The ACPI tables, \<^verbatim>\<open>kernel/acpi.c\<close>: finding and checking the root pointer, walking the root
  tables, and the multiple APIC description table, from which the kernel learns its processors,
  its I/O APIC and the interrupt overrides. Every function of the file except \<open>acpi_sec_init\<close>,
  which starts the processors. The state holds the static variables of the file and those of
  \<^verbatim>\<open>interrupt/apic.c\<close> that it sets or reads. Loops over records of a table whose lengths the table
  itself gives may not end; they have fuel.
\<close>

section \<open>Tables\<close>

definition acpi_header_t :: ctype where
  "acpi_header_t = Packed
     [(''signature'', uint32), (''length'', uint32), (''revision'', uint8), (''checksum'', uint8),
      (''oem'', Array 6 uint8), (''table_id'', Array 8 uint8), (''oem_revision'', uint32),
      (''creator_id'', uint32), (''creator_revision'', uint32)]"

definition acpi_madt_t :: ctype where
  "acpi_madt_t = Packed [(''header'', acpi_header_t), (''lapic_addr'', uint32), (''flags'', uint32)]"

definition acpi_dmar_t :: ctype where
  "acpi_dmar_t = Packed
     [(''header'', acpi_header_t), (''addr_width'', uint8), (''flags'', uint8), (''reserved'', Array 10 uint8)]"

definition dmar_header_t :: ctype where
  "dmar_header_t = Packed [(''type'', uint16), (''length'', uint16)]"

definition dmar_drhd_t :: ctype where
  "dmar_drhd_t = Packed
     [(''header'', dmar_header_t), (''flags'', uint8), (''reserved'', uint8), (''segment'', uint16),
      (''base_addr'', uint64)]"

definition DMAR_TYPE_DRHD :: u16 where "DMAR_TYPE_DRHD = 0"

definition apic_header_t :: ctype where
  "apic_header_t = Packed [(''type'', uint8), (''length'', uint8)]"

definition APIC_TYPE_LAPIC :: u8 where "APIC_TYPE_LAPIC = 0"
definition APIC_TYPE_IOAPIC :: u8 where "APIC_TYPE_IOAPIC = 1"
definition APIC_TYPE_INTERRUPT_OVERRIDE :: u8 where "APIC_TYPE_INTERRUPT_OVERRIDE = 2"

definition apic_lapic_t :: ctype where
  "apic_lapic_t = Packed
     [(''header'', apic_header_t), (''processor_id'', uint8), (''apic_id'', uint8), (''flags'', uint32)]"

definition apic_ioapic_t :: ctype where
  "apic_ioapic_t = Packed
     [(''header'', apic_header_t), (''id'', uint8), (''reserved'', uint8), (''address'', uint32),
      (''gsi_base'', uint32)]"

definition apic_interruptoverride_t :: ctype where
  "apic_interruptoverride_t = Packed
     [(''header'', apic_header_t), (''bus'', uint8), (''irq'', uint8), (''gsi'', uint32), (''flags'', uint16)]"

definition MAX_IRQ_OVERRIDES :: nat where "MAX_IRQ_OVERRIDES = 32"
definition MAX_CPUS :: nat where "MAX_CPUS = 16"

text \<open>The address of a member of a structure at an address.\<close>

definition field :: "u64 \<Rightarrow> ctype \<Rightarrow> string list \<Rightarrow> u64" where
  "field a t path = a + of_nat (offset_of t path)"

section \<open>State\<close>

record irq_entry =
  ie_irq :: u8
  ie_flags :: u16
  ie_gsi :: u32

record platform =
  g_cpus :: u16
  irq_map :: "irq_entry list"
  num_overrides :: u8
  num_ioapic :: u16
  lapic_ids :: "u8 list"
  lapic_addr :: u64
  ioapic_addr :: u64
  gsi_base :: u32
  num_gsi :: u32
  tsc_freq :: u32
  lapic_phys_ids :: "u8 list"

definition platform_init :: platform where
  "platform_init =
     \<lparr>g_cpus = 1, irq_map = replicate MAX_IRQ_OVERRIDES \<lparr>ie_irq = 0, ie_flags = 0, ie_gsi = 0\<rparr>,
      num_overrides = 0, num_ioapic = 0, lapic_ids = replicate MAX_CPUS 0, lapic_addr = 0xFEE00000,
      ioapic_addr = 0xFEC00000, gsi_base = 0, num_gsi = 0, tsc_freq = 0,
      lapic_phys_ids = replicate MAX_CPUS 0\<rparr>"

definition lapic_get_phys_id :: "platform \<Rightarrow> u32 \<Rightarrow> u8 result" where
  "lapic_get_phys_id st cpu = tget (lapic_phys_ids st) (ucast cpu)"

section \<open>The multiple APIC description table\<close>

text \<open>\<open>pcpu\<close> is the identifier of the processor that runs the code.\<close>

definition acpi_add_cpu :: "kernel \<Rightarrow> u16 \<Rightarrow> platform \<Rightarrow> u64 \<Rightarrow> (bool \<times> platform) result" where
  "acpi_add_cpu k pcpu st info =
     rbind (rd32 k (field info apic_lapic_t [''flags''])) (\<lambda>flags.
       if flags AND 1 = 0 then Inr (True, st)
       else rbind (rd8 k (field info apic_lapic_t [''apic_id''])) (\<lambda>apic_id.
            rbind (lapic_get_phys_id st (ucast pcpu)) (\<lambda>bsp.
              if apic_id = bsp then Inr (False, st)
              else rbind (tset (lapic_ids st) (ucast (g_cpus st)) apic_id) (\<lambda>ids.
                   let st = st\<lparr>lapic_ids := ids, g_cpus := g_cpus st + 1\<rparr>
                   in if unat (g_cpus st) > MAX_CPUS then Inl (Panic ''Exceeds supported max CPUs'')
                      else Inr (True, st)))))"

definition parse_ioapic :: "kernel \<Rightarrow> platform \<Rightarrow> u64 \<Rightarrow> platform result" where
  "parse_ioapic k st s =
     rbind (rd32 k (field s apic_ioapic_t [''address''])) (\<lambda>address.
     rbind (rd32 k (field s apic_ioapic_t [''gsi_base''])) (\<lambda>base.
       let st = st\<lparr>ioapic_addr := ucast address, gsi_base := base, num_ioapic := num_ioapic st + 1\<rparr>
       in if num_ioapic st > 1 then Inl (Panic ''Multiple IOAPIC not supported'') else Inr st))"

definition parse_override :: "kernel \<Rightarrow> platform \<Rightarrow> u64 \<Rightarrow> platform result" where
  "parse_override k st s =
     rbind (rd8 k (field s apic_interruptoverride_t [''bus''])) (\<lambda>bus.
       if bus \<noteq> 0 then Inl (Panic ''Only bus 0 is supported'')
       else rbind (rd8 k (field s apic_interruptoverride_t [''irq''])) (\<lambda>irq.
            rbind (rd32 k (field s apic_interruptoverride_t [''gsi''])) (\<lambda>gsi.
            rbind (rd16 k (field s apic_interruptoverride_t [''flags''])) (\<lambda>flags.
            rbind (tset (irq_map st) (ucast (num_overrides st))
                     \<lparr>ie_irq = irq, ie_flags = flags, ie_gsi = gsi\<rparr>) (\<lambda>m.
              let st = st\<lparr>irq_map := m, num_overrides := num_overrides st + 1\<rparr>
              in if unat (num_overrides st) > MAX_IRQ_OVERRIDES then Inl (Panic ''Exceeds supported max overrides'')
                 else Inr st)))))"

definition parse_entry :: "kernel \<Rightarrow> u16 \<Rightarrow> platform \<Rightarrow> u8 \<Rightarrow> u64 \<Rightarrow> platform result" where
  "parse_entry k pcpu st type p =
     (if type = APIC_TYPE_LAPIC then rbind (acpi_add_cpu k pcpu st p) (\<lambda>(b, st). Inr st)
      else if type = APIC_TYPE_IOAPIC then parse_ioapic k st p
      else if type = APIC_TYPE_INTERRUPT_OVERRIDE then parse_override k st p
      else Inr st)"

fun parse_apic_loop :: "nat \<Rightarrow> kernel \<Rightarrow> u16 \<Rightarrow> platform \<Rightarrow> u64 \<Rightarrow> u64 \<Rightarrow> platform result" where
  "parse_apic_loop 0 k pcpu st p end' = Inl OutOfFuel"
| "parse_apic_loop (Suc fuel) k pcpu st p end' =
     (if p < end'
      then rbind (rd8 k (field p apic_header_t [''type''])) (\<lambda>type.
           rbind (rd8 k (field p apic_header_t [''length''])) (\<lambda>len.
           rbind (parse_entry k pcpu st type p) (\<lambda>st.
             parse_apic_loop fuel k pcpu st (p + ucast len) end')))
      else Inr st)"

definition acpi_parse_apic :: "nat \<Rightarrow> kernel \<Rightarrow> u16 \<Rightarrow> platform \<Rightarrow> u64 \<Rightarrow> platform result" where
  "acpi_parse_apic fuel k pcpu st madt =
     rbind (rd32 k (field madt acpi_madt_t [''lapic_addr''])) (\<lambda>addr.
       let st = st\<lparr>lapic_addr := ucast addr\<rparr>;
           p = madt + of_nat (sizeof acpi_madt_t)
       in rbind (rd32 k (field madt acpi_madt_t [''header'', ''length''])) (\<lambda>len.
            parse_apic_loop fuel k pcpu st p (madt + ucast len)))"

section \<open>The DMA remapping table\<close>

text \<open>The types of the structures that are reported as unsupported.\<close>

fun parse_dmar_loop :: "nat \<Rightarrow> kernel \<Rightarrow> u64 \<Rightarrow> u64 \<Rightarrow> u16 list result" where
  "parse_dmar_loop 0 k p end' = Inl OutOfFuel"
| "parse_dmar_loop (Suc fuel) k p end' =
     (if p < end'
      then rbind (rd16 k (field p dmar_header_t [''type''])) (\<lambda>type.
           rbind (rd16 k (field p dmar_header_t [''length''])) (\<lambda>len.
           rbind (parse_dmar_loop fuel k (p + ucast len) end') (\<lambda>r.
             Inr (if type = DMAR_TYPE_DRHD then r else type # r))))
      else Inr [])"

definition acpi_parse_dmar :: "nat \<Rightarrow> kernel \<Rightarrow> u64 \<Rightarrow> u16 list result" where
  "acpi_parse_dmar fuel k dmar =
     (let p = dmar + of_nat (sizeof acpi_dmar_t)
      in rbind (rd32 k (field dmar acpi_dmar_t [''header'', ''length''])) (\<lambda>len.
           parse_dmar_loop fuel k p (dmar + ucast len)))"

section \<open>Root tables\<close>

definition acpi_parse_dt :: "nat \<Rightarrow> kernel \<Rightarrow> u16 \<Rightarrow> platform \<Rightarrow> u64 \<Rightarrow> platform result" where
  "acpi_parse_dt fuel k pcpu st header =
     rbind (rd32 k (field header acpi_header_t [''signature''])) (\<lambda>sig.
       if sig = 0x43495041 then acpi_parse_apic fuel k pcpu st header
       else if sig = 0x52414D44 then rbind (acpi_parse_dmar fuel k header) (\<lambda>_. Inr st)
       else Inr st)"

text \<open>One table: map two pages, parse, unmap.\<close>

definition parse_table :: "nat \<Rightarrow> kernel \<Rightarrow> u16 \<Rightarrow> platform \<Rightarrow> u64 \<Rightarrow> u64 \<Rightarrow> (kernel \<times> platform) result" where
  "parse_table fuel k pcpu st address page_start =
     rbind (vm_map_pages k page_start 2 (PGT_P OR PGT_XD)) (\<lambda>(va2, k).
     rbind (acpi_parse_dt fuel k pcpu st (va2 + address - page_start)) (\<lambda>st.
     rbind (vm_unmap_pages k va2 2) (\<lambda>(_, k). Inr (k, st))))"

fun rsdt_loop :: "nat \<Rightarrow> kernel \<Rightarrow> u16 \<Rightarrow> platform \<Rightarrow> u64 \<Rightarrow> u64 \<Rightarrow> (kernel \<times> platform) result" where
  "rsdt_loop 0 k pcpu st sdt end' = Inl OutOfFuel"
| "rsdt_loop (Suc fuel) k pcpu st sdt end' =
     (if sdt < end'
      then rbind (rd32 k sdt) (\<lambda>a.
             let address = ucast a :: u64;
                 page_start = ucast (address AND PGT_MASK) :: u32
             in rbind (parse_table fuel k pcpu st address (ucast page_start)) (\<lambda>(k, st).
                  rsdt_loop fuel k pcpu st (sdt + 4) end'))
      else Inr (k, st))"

definition acpi_parse_rsdt :: "nat \<Rightarrow> kernel \<Rightarrow> u16 \<Rightarrow> platform \<Rightarrow> u32 \<Rightarrow> (kernel \<times> platform) result" where
  "acpi_parse_rsdt fuel k pcpu st rsdt =
     (let page_start = ucast (ucast rsdt AND PGT_MASK) :: u32
      in rbind (vm_map_pages k (ucast page_start) 2 (PGT_P OR PGT_XD)) (\<lambda>(va, k).
           let rsdt_p = va + ucast rsdt - ucast page_start;
               sdt = rsdt_p + of_nat (sizeof acpi_header_t)
           in rbind (rd32 k (field rsdt_p acpi_header_t [''length''])) (\<lambda>len.
                let end' = rsdt_p + ucast len
                in if end' > va + 2 * PG_SIZE then Inl (Panic ''RSDT is too large'')
                   else rbind (rsdt_loop fuel k pcpu st sdt end') (\<lambda>(k, st).
                        rbind (vm_unmap_pages k va 2) (\<lambda>(_, k). Inr (k, st))))))"

fun xsdt_loop :: "nat \<Rightarrow> kernel \<Rightarrow> u16 \<Rightarrow> platform \<Rightarrow> u64 \<Rightarrow> u64 \<Rightarrow> (kernel \<times> platform) result" where
  "xsdt_loop 0 k pcpu st sdt end' = Inl OutOfFuel"
| "xsdt_loop (Suc fuel) k pcpu st sdt end' =
     (if sdt < end'
      then rbind (rd64 k sdt) (\<lambda>address.
             let page_start = push_bit PG_BITS (drop_bit PG_BITS address)
             in rbind (parse_table fuel k pcpu st address page_start) (\<lambda>(k, st).
                  xsdt_loop fuel k pcpu st (sdt + 8) end'))
      else Inr (k, st))"

definition acpi_parse_xsdt :: "nat \<Rightarrow> kernel \<Rightarrow> u16 \<Rightarrow> platform \<Rightarrow> u64 \<Rightarrow> (kernel \<times> platform) result" where
  "acpi_parse_xsdt fuel k pcpu st xsdt =
     (let page_start = xsdt AND PGT_MASK
      in rbind (vm_map_pages k page_start 2 (PGT_P OR PGT_XD)) (\<lambda>(va, k).
           let xsdt_p = va + xsdt - page_start;
               sdt = xsdt_p + of_nat (sizeof acpi_header_t)
           in rbind (rd32 k (field xsdt_p acpi_header_t [''length''])) (\<lambda>len.
                let end' = xsdt_p + ucast len
                in if end' > va + 2 * PG_SIZE then Inl (Panic ''XSDT is too large'')
                   else rbind (xsdt_loop fuel k pcpu st sdt end') (\<lambda>(k, st).
                        rbind (vm_unmap_pages k va 2) (\<lambda>(_, k). Inr (k, st))))))"

section \<open>The root pointer\<close>

text \<open>The byte sum of \<open>n\<close> bytes from \<open>p\<close>.\<close>

fun sum_bytes :: "kernel \<Rightarrow> u64 \<Rightarrow> nat \<Rightarrow> u8 \<Rightarrow> u8 result" where
  "sum_bytes k p 0 s = Inr s"
| "sum_bytes k p (Suc n) s = rbind (rd8 k p) (\<lambda>b. sum_bytes k (p + 1) n (s + b))"

definition acpi_parse_rsdp :: "nat \<Rightarrow> kernel \<Rightarrow> u16 \<Rightarrow> platform \<Rightarrow> u64 \<Rightarrow> (bool \<times> kernel \<times> platform) result" where
  "acpi_parse_rsdp fuel k pcpu st p =
     rbind (sum_bytes k p 20 0) (\<lambda>sum.
       if sum \<noteq> 0 then Inl (Panic ''V1 checksum failed'')
       else rbind (rd8 k (p + 15)) (\<lambda>revision.
         if revision = 0 then
           rbind (rd32 k (p + 16)) (\<lambda>rsdt_addr.
           rbind (acpi_parse_rsdt fuel k pcpu st rsdt_addr) (\<lambda>(k, st). Inr (True, k, st)))
         else if revision = 2 then
           rbind (sum_bytes k (p + 20) 14 sum) (\<lambda>sum.
             if sum \<noteq> 0 then Inl (Panic ''V2 checksum failed'')
             else rbind (rd32 k (p + 16)) (\<lambda>rsdt_addr.
                  rbind (rd64 k (p + 24)) (\<lambda>xsdt_addr.
                  rbind (if xsdt_addr \<noteq> 0 then acpi_parse_xsdt fuel k pcpu st xsdt_addr
                         else acpi_parse_rsdt fuel k pcpu st rsdt_addr) (\<lambda>(k, st). Inr (True, k, st)))))
         else Inl (Panic ''Unsupported ACPI version'')))"

definition RSDP_SIGNATURE :: u64 where "RSDP_SIGNATURE = 0x2052545020445352"

lemma search_measure:
  fixes p :: u64
  assumes "p < 0xFFFFF"
  shows "0x100010 - unat (p + 16) < 0x100010 - unat p"
proof -
  have p: "unat p < 0xFFFFF" using assms by (simp add: word_less_nat_alt)
  then have "unat (p + 16) = unat p + 16" by (subst unat_add_small) simp_all
  then show ?thesis using p by simp
qed

text \<open>The search in the BIOS area; it stops at the end or when a root pointer has been parsed.\<close>

function search_rsdp :: "nat \<Rightarrow> kernel \<Rightarrow> u16 \<Rightarrow> platform \<Rightarrow> u64 \<Rightarrow> (u64 \<times> kernel \<times> platform) result" where
  "search_rsdp fuel k pcpu st p =
     (if p < 0xFFFFF
      then rbind (rd64 k p) (\<lambda>signature.
             if signature = RSDP_SIGNATURE
             then rbind (acpi_parse_rsdp fuel k pcpu st p) (\<lambda>(ok, k, st).
                    if ok then Inr (p, k, st) else search_rsdp fuel k pcpu st (p + 16))
             else search_rsdp fuel k pcpu st (p + 16))
      else Inr (p, k, st))"
  by pat_completeness auto
termination
  by (relation "measure (\<lambda>(fuel, k, pcpu, st, p). 0x100010 - unat p)") (auto intro: search_measure)

declare search_rsdp.simps [simp del]

definition SMP_BOOT_ADDR :: u64 where "SMP_BOOT_ADDR = 0x70000"

text \<open>\<open>ap_boot\<close> are the linker's addresses \<open>ap_boot_start\<close> and \<open>ap_boot_end\<close>.\<close>

definition acpi_init :: "nat \<Rightarrow> u64 \<times> u64 \<Rightarrow> kernel \<Rightarrow> u16 \<Rightarrow> platform \<Rightarrow> u64 \<Rightarrow> (kernel \<times> platform) result" where
  "acpi_init fuel ap_boot k pcpu st rsdp =
     rbind (if rsdp \<noteq> 0
            then rbind (rd64 k rsdp) (\<lambda>signature.
                   if signature = RSDP_SIGNATURE then acpi_parse_rsdp fuel k pcpu st rsdp
                   else Inr (False, k, st))
            else Inr (False, k, st)) (\<lambda>(found, k, st).
     rbind (if found then Inr (k, st)
            else rbind (search_rsdp fuel k pcpu st 0xE0000) (\<lambda>(p, k, st).
                   if p \<ge> 0xFFFFF then Inl (Panic ''Can't find RSDP'') else Inr (k, st))) (\<lambda>(k, st).
       if g_cpus st > 1
       then rbind (vmemcpy k SMP_BOOT_ADDR (fst ap_boot) (unat (snd ap_boot - fst ap_boot))) (\<lambda>k. Inr (k, st))
       else Inr (k, st)))"

section \<open>Interrupt numbers\<close>

function irq_loop :: "platform \<Rightarrow> u8 \<Rightarrow> u8 \<Rightarrow> (u32 \<times> u16) result" where
  "irq_loop st irq i =
     (if i < num_overrides st
      then rbind (tget (irq_map st) (ucast i)) (\<lambda>e.
             if ie_irq e = irq then Inr (ie_gsi e, ie_flags e) else irq_loop st irq (i + 1))
      else Inr (ucast irq, 0))"
  by pat_completeness auto
termination
  by (relation "measure (\<lambda>(st, irq, i). unat (num_overrides st) - unat i)") (auto intro: count_up_measure)

declare irq_loop.simps [simp del]

text \<open>The result and what is stored through \<open>flags\<close>.\<close>

definition acpi_irq_to_gsi :: "platform \<Rightarrow> u8 \<Rightarrow> (u32 \<times> u16) result" where
  "acpi_irq_to_gsi st irq = irq_loop st irq 0"

end
