(* ===== verification/Acpi_Correct.thy ===== *)
theory Acpi_Correct
  imports Acpi
begin

text \<open>
  Correctness of the MADT parser: on a table that encodes a list of entries it records exactly
  the usable processors, the I/O APIC and the interrupt overrides, in the order of the table.
\<close>

section \<open>Entries and their encoding\<close>

datatype madt_entry =
    CpuEntry u8 u8 u32
  | IoApicEntry u8 u32 u32
  | OverrideEntry u8 u8 u32 u16
  | OtherEntry u8 "u8 list"

fun encode_entry :: "madt_entry \<Rightarrow> u8 list" where
  "encode_entry (CpuEntry pid apic flags) = [0, 8, pid, apic] @ le32 flags"
| "encode_entry (IoApicEntry i address base) = [1, 12, i, 0] @ le32 address @ le32 base"
| "encode_entry (OverrideEntry bus irq gsi flags) = [2, 10, bus, irq] @ le32 gsi @ le16 flags"
| "encode_entry (OtherEntry t body) = [t, of_nat (2 + length body)] @ body"

fun entry_ok :: "madt_entry \<Rightarrow> bool" where
  "entry_ok (OtherEntry t body) \<longleftrightarrow> t > 2 \<and> length body < 254"
| "entry_ok (OverrideEntry bus irq gsi flags) \<longleftrightarrow> bus = 0"
| "entry_ok _ \<longleftrightarrow> True"

definition encode_entries :: "madt_entry list \<Rightarrow> u8 list" where
  "encode_entries es = concat (map encode_entry es)"

text \<open>A whole table: signature, length, the other 28 bytes of the header, two words, the entries.\<close>

definition encode_madt :: "u32 \<Rightarrow> u8 list \<Rightarrow> u32 \<Rightarrow> u32 \<Rightarrow> madt_entry list \<Rightarrow> u8 list" where
  "encode_madt sig rest laddr flags es =
     le32 sig @ le32 (of_nat (44 + length (encode_entries es))) @ rest @ le32 laddr @ le32 flags
     @ encode_entries es"

text \<open>What a table says: enabled processors other than the running one, I/O APICs, overrides.\<close>

fun cpus_of :: "u8 \<Rightarrow> madt_entry list \<Rightarrow> u8 list" where
  "cpus_of bsp [] = []"
| "cpus_of bsp (CpuEntry pid apic flags # es) =
     (if flags AND 1 \<noteq> 0 \<and> apic \<noteq> bsp then apic # cpus_of bsp es else cpus_of bsp es)"
| "cpus_of bsp (e # es) = cpus_of bsp es"

fun ioapics_of :: "madt_entry list \<Rightarrow> (u32 \<times> u32) list" where
  "ioapics_of [] = []"
| "ioapics_of (IoApicEntry i address base # es) = (address, base) # ioapics_of es"
| "ioapics_of (e # es) = ioapics_of es"

fun overrides_of :: "madt_entry list \<Rightarrow> irq_entry list" where
  "overrides_of [] = []"
| "overrides_of (OverrideEntry bus irq gsi flags # es) =
     \<lparr>ie_irq = irq, ie_flags = flags, ie_gsi = gsi\<rparr> # overrides_of es"
| "overrides_of (e # es) = overrides_of es"

section \<open>Offsets\<close>

lemma acpi_offsets:
  "offset_of apic_header_t [''type''] = 0" "offset_of apic_header_t [''length''] = 1"
  "offset_of apic_lapic_t [''flags''] = 4" "offset_of apic_lapic_t [''apic_id''] = 3"
  "offset_of apic_ioapic_t [''address''] = 4" "offset_of apic_ioapic_t [''gsi_base''] = 8"
  "offset_of apic_interruptoverride_t [''bus''] = 2" "offset_of apic_interruptoverride_t [''irq''] = 3"
  "offset_of apic_interruptoverride_t [''gsi''] = 4" "offset_of apic_interruptoverride_t [''flags''] = 8"
  "offset_of acpi_madt_t [''lapic_addr''] = 36" "offset_of acpi_madt_t [''header'', ''length''] = 4"
  by code_simp+

lemma sizeof_madt [simp]: "sizeof acpi_madt_t = 44"
  by code_simp

lemma acpi_fields [simp]:
  "field a apic_header_t [''type''] = a" "field a apic_header_t [''length''] = a + 1"
  "field a apic_lapic_t [''flags''] = a + 4" "field a apic_lapic_t [''apic_id''] = a + 3"
  "field a apic_ioapic_t [''address''] = a + 4" "field a apic_ioapic_t [''gsi_base''] = a + 8"
  "field a apic_interruptoverride_t [''bus''] = a + 2" "field a apic_interruptoverride_t [''irq''] = a + 3"
  "field a apic_interruptoverride_t [''gsi''] = a + 4" "field a apic_interruptoverride_t [''flags''] = a + 8"
  "field a acpi_madt_t [''lapic_addr''] = a + 36" "field a acpi_madt_t [''header'', ''length''] = a + 4"
  by (simp_all add: field_def acpi_offsets del: offset_of.simps)

section \<open>One entry\<close>

text \<open>The state after the entries of a table, from any state with room for them.\<close>

definition place :: "nat \<Rightarrow> 'a list \<Rightarrow> 'a list \<Rightarrow> 'a list" where
  "place n cs xs = take n xs @ cs @ drop (n + length cs) xs"

definition record_entries :: "u8 \<Rightarrow> madt_entry list \<Rightarrow> platform \<Rightarrow> platform" where
  "record_entries bsp es st = st\<lparr>
     g_cpus := g_cpus st + of_nat (length (cpus_of bsp es)),
     lapic_ids := place (unat (g_cpus st)) (cpus_of bsp es) (lapic_ids st),
     num_overrides := num_overrides st + of_nat (length (overrides_of es)),
     irq_map := place (unat (num_overrides st)) (overrides_of es) (irq_map st),
     num_ioapic := num_ioapic st + of_nat (length (ioapics_of es)),
     ioapic_addr := (if ioapics_of es = [] then ioapic_addr st else ucast (fst (last (ioapics_of es)))),
     gsi_base := (if ioapics_of es = [] then gsi_base st else snd (last (ioapics_of es)))\<rparr>"

definition room_for :: "u8 \<Rightarrow> madt_entry list \<Rightarrow> platform \<Rightarrow> bool" where
  "room_for bsp es st \<longleftrightarrow> length (lapic_ids st) = 16 \<and> unat (g_cpus st) + length (cpus_of bsp es) \<le> 16
     \<and> length (irq_map st) = 32 \<and> unat (num_overrides st) + length (overrides_of es) \<le> 32
     \<and> unat (num_ioapic st) + length (ioapics_of es) \<le> 1"

lemma place_Cons: "n < length xs \<Longrightarrow> place n (c # cs) xs = place (Suc n) cs (xs[n := c])"
  by (simp add: place_def take_Suc_conv_app_nth drop_update_cancel)

lemma place_Nil [simp]: "place n [] xs = xs"
  by (simp add: place_def)

lemma record_entries_Nil [simp]: "record_entries bsp [] st = st"
  by (simp add: record_entries_def)

text \<open>Reading the fields of an entry.\<close>

lemma rd8_at: "vbytes k p (xs @ b # ys) \<Longrightarrow> rd8 k (p + of_nat (length xs)) = Inr b"
  by (simp add: vbytes_append)

lemma rd32_at: "vbytes k p (xs @ le32 v @ ys) \<Longrightarrow> rd32 k (p + of_nat (length xs)) = Inr v"
  by (simp add: vbytes_append rd32_le)

lemma rd16_at: "vbytes k p (xs @ le16 v @ ys) \<Longrightarrow> rd16 k (p + of_nat (length xs)) = Inr v"
  by (simp add: vbytes_append rd16_le)

definition bsp_is :: "u16 \<Rightarrow> u8 \<Rightarrow> platform \<Rightarrow> bool" where
  "bsp_is pcpu bsp st \<longleftrightarrow> lapic_get_phys_id st (ucast pcpu) = Inr bsp"

lemma unat_Suc_word: "unat (w :: 'a::len word) + 1 < 2 ^ LENGTH('a) \<Longrightarrow> unat (w + 1) = Suc (unat w)"
  by (subst unat_add_small) simp_all

lemma parse_cpu:
  assumes v: "vbytes k p (encode_entry (CpuEntry pid apic flags))" and bsp: "bsp_is pcpu bsp st"
    and room: "room_for bsp [CpuEntry pid apic flags] st"
  shows "acpi_add_cpu k pcpu st p =
    Inr (flags AND 1 \<noteq> 0 \<longrightarrow> apic \<noteq> bsp, record_entries bsp [CpuEntry pid apic flags] st)"
proof -
  have f: "rd32 k (p + 4) = Inr flags" using v rd32_at [of k p "[0, 8, pid, apic]" flags "[]"] by simp
  have a: "rd8 k (p + 3) = Inr apic" using v rd8_at [of k p "[0, 8, pid]" apic "le32 flags"] by simp
  have i: "unat (ucast (g_cpus st) :: u64) = unat (g_cpus st)" by (simp add: unat_ucast_up)
  show ?thesis
  proof (cases "flags AND 1 \<noteq> 0 \<and> apic \<noteq> bsp")
    case True
    then have n: "unat (g_cpus st) < 16" "length (lapic_ids st) = 16" using room by (simp_all add: room_for_def)
    then have "unat (g_cpus st + 1) = Suc (unat (g_cpus st))" by (intro unat_Suc_word) simp
    then show ?thesis
      using True f a bsp n i
      by (simp add: acpi_add_cpu_def bsp_is_def tset_in Let_def MAX_CPUS_def record_entries_def place_Cons)
  next
    case False
    then show ?thesis
      using f a bsp by (auto simp: acpi_add_cpu_def bsp_is_def record_entries_def)
  qed
qed

lemma parse_ioapic_entry:
  assumes v: "vbytes k p (encode_entry (IoApicEntry i address base))"
    and room: "room_for bsp [IoApicEntry i address base] st"
  shows "parse_ioapic k st p = Inr (record_entries bsp [IoApicEntry i address base] st)"
proof -
  have a: "rd32 k (p + 4) = Inr address" using v rd32_at [of k p "[1, 12, i, 0]" address "le32 base"] by simp
  have g: "rd32 k (p + 8) = Inr base"
    using v rd32_at [of k p "[1, 12, i, 0] @ le32 address" base "[]"] by simp
  have "unat (num_ioapic st) = 0" using room by (simp add: room_for_def)
  then have "num_ioapic st = 0" by (simp add: unat_eq_0)
  then show ?thesis using a g by (simp add: parse_ioapic_def Let_def record_entries_def)
qed

lemma parse_override_entry:
  assumes v: "vbytes k p (encode_entry (OverrideEntry 0 irq gsi flags))"
    and room: "room_for bsp [OverrideEntry 0 irq gsi flags] st"
  shows "parse_override k st p = Inr (record_entries bsp [OverrideEntry 0 irq gsi flags] st)"
proof -
  have b: "rd8 k (p + 2) = Inr 0" using v rd8_at [of k p "[2, 10]" 0 "irq # le32 gsi @ le16 flags"] by simp
  have i: "rd8 k (p + 3) = Inr irq" using v rd8_at [of k p "[2, 10, 0]" irq "le32 gsi @ le16 flags"] by simp
  have g: "rd32 k (p + 4) = Inr gsi" using v rd32_at [of k p "[2, 10, 0, irq]" gsi "le16 flags"] by simp
  have f: "rd16 k (p + 8) = Inr flags"
    using v rd16_at [of k p "[2, 10, 0, irq] @ le32 gsi" flags "[]"] by simp
  have n: "unat (num_overrides st) < 32" "length (irq_map st) = 32" using room by (simp_all add: room_for_def)
  then have "unat (num_overrides st + 1) = Suc (unat (num_overrides st))" by (intro unat_Suc_word) simp
  then show ?thesis
    using b i g f n
    by (simp add: parse_override_def tset_in unat_ucast_up Let_def MAX_IRQ_OVERRIDES_def record_entries_def place_Cons)
qed

text \<open>The type and the length of an entry.\<close>

definition entry_type :: "madt_entry \<Rightarrow> u8" where
  "entry_type e = hd (encode_entry e)"

lemma entry_header:
  assumes "vbytes k p (encode_entry e)" and "entry_ok e"
  shows "rd8 k p = Inr (entry_type e)" and "rd8 k (p + 1) = Inr (of_nat (length (encode_entry e)))"
    and "length (encode_entry e) < 256" and "2 \<le> length (encode_entry e)"
  using assms by (cases e; simp add: entry_type_def)+

lemma parse_entry_correct:
  assumes v: "vbytes k p (encode_entry e)" and ok: "entry_ok e" and bsp: "bsp_is pcpu bsp st"
    and room: "room_for bsp [e] st"
  shows "parse_entry k pcpu st (entry_type e) p = Inr (record_entries bsp [e] st)"
proof (cases e)
  case (CpuEntry pid apic flags)
  then show ?thesis
    using parse_cpu [of k p pid apic flags pcpu bsp st] assms by (simp add: parse_entry_def entry_type_def APIC_TYPE_LAPIC_def)
next
  case (IoApicEntry i address base)
  then show ?thesis
    using parse_ioapic_entry [of k p i address base bsp st] assms
    by (simp add: parse_entry_def entry_type_def APIC_TYPE_LAPIC_def APIC_TYPE_IOAPIC_def)
next
  case (OverrideEntry bus irq gsi flags)
  then show ?thesis
    using parse_override_entry [of k p irq gsi flags bsp st] assms
    by (simp add: parse_entry_def entry_type_def APIC_TYPE_LAPIC_def APIC_TYPE_IOAPIC_def APIC_TYPE_INTERRUPT_OVERRIDE_def)
next
  case (OtherEntry t body)
  then have "t \<noteq> 0" "t \<noteq> 1" "t \<noteq> 2" using ok by auto
  then show ?thesis
    using OtherEntry by (simp add: parse_entry_def entry_type_def APIC_TYPE_LAPIC_def APIC_TYPE_IOAPIC_def
        APIC_TYPE_INTERRUPT_OVERRIDE_def record_entries_def)
qed

section \<open>All entries\<close>

lemma record_entries_Cons:
  assumes "room_for bsp (e # es) st"
  shows "record_entries bsp es (record_entries bsp [e] st) = record_entries bsp (e # es) st"
    and "room_for bsp es (record_entries bsp [e] st)" and "room_for bsp [e] st"
proof -
  have c: "unat (g_cpus st + 1) = Suc (unat (g_cpus st))" if "unat (g_cpus st) < 16"
    using that by (intro unat_Suc_word) simp
  have o: "unat (num_overrides st + 1) = Suc (unat (num_overrides st))" if "unat (num_overrides st) < 32"
    using that by (intro unat_Suc_word) simp
  have i: "unat (num_ioapic st + 1) = Suc (unat (num_ioapic st))" if "unat (num_ioapic st) < 1"
    using that by (intro unat_Suc_word) simp
  show "record_entries bsp es (record_entries bsp [e] st) = record_entries bsp (e # es) st"
    using assms c o by (cases e) (auto simp: record_entries_def room_for_def place_Cons add.assoc)
  show "room_for bsp es (record_entries bsp [e] st)" "room_for bsp [e] st"
    using assms c o i by (cases e; auto simp: record_entries_def room_for_def place_Cons)+
qed

lemma bsp_record: "bsp_is pcpu bsp (record_entries bsp' es st) = bsp_is pcpu bsp st"
  by (simp add: bsp_is_def lapic_get_phys_id_def record_entries_def)

lemma parse_apic_loop_correct:
  assumes "vbytes k p (encode_entries es)" and "\<forall>e \<in> set es. entry_ok e" and "bsp_is pcpu bsp st"
    and "room_for bsp es st" and "unat p + length (encode_entries es) < 2 ^ 64" and "length es < fuel"
  shows "parse_apic_loop fuel k pcpu st p (p + of_nat (length (encode_entries es)))
    = Inr (record_entries bsp es st)"
  using assms
proof (induction es arbitrary: p st fuel)
  case Nil
  then show ?case by (cases fuel) (simp_all add: encode_entries_def)
next
  case (Cons e es)
  obtain f where f: "fuel = Suc f" using Cons.prems(6) by (cases fuel) auto
  let ?n = "length (encode_entry e)"
  have split: "encode_entries (e # es) = encode_entry e @ encode_entries es" by (simp add: encode_entries_def)
  have ve: "vbytes k p (encode_entry e)" and vr: "vbytes k (p + of_nat ?n) (encode_entries es)"
    using Cons.prems(1) by (simp_all add: split vbytes_append)
  have ok: "entry_ok e" using Cons.prems(2) by simp
  note h = entry_header [OF ve ok]
  note r = record_entries_Cons [OF Cons.prems(4)]
  have n: "unat (p + of_nat ?n) = unat p + ?n"
    using h(3) Cons.prems(5) by (subst unat_add_small) (simp_all add: split unat_of_nat_small)
  have len: "ucast (of_nat ?n :: u8) = (of_nat ?n :: u64)"
    using h(3) by (intro word_unat_eq_iff [THEN iffD2]) (simp add: unat_ucast_up unat_of_nat_small)
  have end': "p + of_nat (length (encode_entries (e # es)))
      = (p + of_nat ?n) + of_nat (length (encode_entries es))" by (simp add: split)
  have "unat (p + of_nat (length (encode_entries (e # es)))) = unat p + length (encode_entries (e # es))"
    using Cons.prems(5) by (subst unat_add_small) (simp_all add: unat_of_nat_small)
  then have less: "p < p + of_nat (length (encode_entries (e # es)))"
    using h(4) by (simp only: word_less_nat_alt split length_append)
  have "parse_apic_loop fuel k pcpu st p (p + of_nat (length (encode_entries (e # es))))
      = parse_apic_loop f k pcpu (record_entries bsp [e] st) (p + of_nat ?n)
          ((p + of_nat ?n) + of_nat (length (encode_entries es)))"
    using less h(1,2) parse_entry_correct [OF ve ok Cons.prems(3) r(3)]
    by (simp add: f len end')
  also have "\<dots> = Inr (record_entries bsp es (record_entries bsp [e] st))"
    using Cons.prems vr r(2) n by (intro Cons.IH) (simp_all add: bsp_record f split)
  finally show ?case by (simp only: r(1))
qed

lemma acpi_parse_apic_entries:
  assumes v: "vbytes k madt (encode_madt sig rest laddr flags es)" and rest: "length rest = 28"
    and ok: "\<forall>e \<in> set es. entry_ok e" and bsp: "bsp_is pcpu bsp st" and room: "room_for bsp es st"
    and fit: "44 + length (encode_entries es) < 2 ^ 32" "unat madt + 44 + length (encode_entries es) < 2 ^ 64"
    and fuel: "length es < fuel"
  shows "acpi_parse_apic fuel k pcpu st madt = Inr (record_entries bsp es (st\<lparr>lapic_addr := ucast laddr\<rparr>))"
proof -
  let ?n = "length (encode_entries es)"
  let ?hdr = "le32 sig @ le32 (of_nat (44 + ?n)) @ rest @ le32 laddr @ le32 flags"
  have l: "rd32 k (madt + 36) = Inr laddr"
    using v rd32_at [of k madt "le32 sig @ le32 (of_nat (44 + ?n)) @ rest" laddr "le32 flags @ encode_entries es"] rest
    by (simp add: encode_madt_def)
  have len: "rd32 k (madt + 4) = Inr (of_nat (44 + ?n))"
    using v rd32_at [of k madt "le32 sig" "of_nat (44 + ?n)" "rest @ le32 laddr @ le32 flags @ encode_entries es"]
    by (simp add: encode_madt_def)
  have body: "vbytes k (madt + 44) (encode_entries es)"
  proof -
    have "vbytes k madt (?hdr @ encode_entries es)" using v by (simp add: encode_madt_def)
    then have "vbytes k (madt + of_nat (length ?hdr)) (encode_entries es)" by (simp only: vbytes_append)
    then show ?thesis using rest by simp
  qed
  have u: "(ucast (of_nat (44 + ?n) :: u32) :: u64) = of_nat (44 + ?n)"
    using fit by (intro word_unat_eq_iff [THEN iffD2]) (simp add: unat_ucast_up unat_of_nat_small del: of_nat_add)
  have e: "madt + ucast (of_nat (44 + ?n) :: u32) = madt + 44 + of_nat ?n" unfolding u by simp
  have p: "unat (madt + 44) = unat madt + 44" using fit by (subst unat_add_small) simp_all
  have b: "bsp_is pcpu bsp (st\<lparr>lapic_addr := ucast laddr\<rparr>)"
    using bsp by (simp add: bsp_is_def lapic_get_phys_id_def)
  have r: "room_for bsp es (st\<lparr>lapic_addr := ucast laddr\<rparr>)" using room by (simp add: room_for_def)
  have "acpi_parse_apic fuel k pcpu st madt =
      parse_apic_loop fuel k pcpu (st\<lparr>lapic_addr := ucast laddr\<rparr>) (madt + 44) (madt + 44 + of_nat ?n)"
    unfolding acpi_parse_apic_def by (simp only: acpi_fields l len rbind.simps Let_def sizeof_madt e) simp
  also have "\<dots> = Inr (record_entries bsp es (st\<lparr>lapic_addr := ucast laddr\<rparr>))"
    by (rule parse_apic_loop_correct [OF body ok b r _ fuel]) (use fit p in simp)
  finally show ?thesis .
qed

section \<open>Interrupt numbers\<close>

lemma irq_loop_find:
  assumes "length (irq_map st) = 32" and "unat (num_overrides st) \<le> 32" and "i \<le> unat (num_overrides st)"
  shows "irq_loop st irq (of_nat i) = Inr (case find (\<lambda>e. ie_irq e = irq)
      (drop i (take (unat (num_overrides st)) (irq_map st))) of
      None \<Rightarrow> (ucast irq, 0) | Some e \<Rightarrow> (ie_gsi e, ie_flags e))"
  using assms(3)
proof (induction "unat (num_overrides st) - i" arbitrary: i)
  case 0
  then have i: "i = unat (num_overrides st)" by simp
  then have "\<not> (of_nat i :: u8) < num_overrides st" by simp
  then show ?case using i by (subst irq_loop.simps) simp
next
  case (Suc d)
  have i: "i < unat (num_overrides st)" using Suc.hyps(2) by simp
  have u: "unat (of_nat i :: u8) = i" using i assms(2) by (intro unat_of_nat_small) simp
  have less: "(of_nat i :: u8) < num_overrides st" using i u by (simp add: word_less_nat_alt)
  let ?xs = "take (unat (num_overrides st)) (irq_map st)"
  have x: "drop i ?xs = irq_map st ! i # drop (Suc i) ?xs"
    using i assms by (subst Cons_nth_drop_Suc [symmetric]) simp_all
  have "tget (irq_map st) (ucast (of_nat i :: u8)) = Inr (irq_map st ! i)"
    using i assms u by (subst tget_in) (simp_all add: unat_ucast_up)
  then have step: "irq_loop st irq (of_nat i) =
      (if ie_irq (irq_map st ! i) = irq then Inr (ie_gsi (irq_map st ! i), ie_flags (irq_map st ! i))
       else irq_loop st irq (of_nat (Suc i)))"
    using less by (subst irq_loop.simps) (simp add: add.commute)
  have "irq_loop st irq (of_nat (Suc i)) = Inr (case find (\<lambda>e. ie_irq e = irq) (drop (Suc i) ?xs) of
      None \<Rightarrow> (ucast irq, 0) | Some e \<Rightarrow> (ie_gsi e, ie_flags e))"
    using Suc.hyps i by (intro Suc.hyps(1)) simp_all
  then show ?case using step x by simp
qed

lemma acpi_irq_to_gsi_find:
  assumes "length (irq_map st) = 32" and "unat (num_overrides st) \<le> 32"
  shows "acpi_irq_to_gsi st irq = Inr (case find (\<lambda>e. ie_irq e = irq)
      (take (unat (num_overrides st)) (irq_map st)) of
      None \<Rightarrow> (ucast irq, 0) | Some e \<Rightarrow> (ie_gsi e, ie_flags e))"
  using irq_loop_find [OF assms, of 0 irq] by (simp add: acpi_irq_to_gsi_def)

section \<open>The properties\<close>

text \<open>
  C34: On a MADT that encodes a list of entries with at most 15 usable processors, one I/O APIC and
  32 overrides, and from any state that counts one processor and no I/O APIC and override yet,
  \<open>acpi_parse_apic\<close> ends and records exactly what the table says: the processors that are enabled
  and whose APIC id is not the one that the state records for the running CPU, in the order of
  the table behind slot 0, the I/O APIC address and base, and the overrides, by which
  \<open>acpi_irq_to_gsi\<close> then translates interrupt numbers, leaving all others unchanged. In the state
  at boot, where \<open>lapic_init\<close> has not recorded an id, that id is 0 for every CPU: only a boot
  processor whose APIC id is 0 is left out.
\<close>

theorem acpi_parse_apic_correct:
  assumes "vbytes k madt (encode_madt sig rest laddr flags es)" and "length rest = 28"
    and "\<forall>e \<in> set es. entry_ok e" and "44 + length (encode_entries es) < 2 ^ 32"
    and "unat madt + 44 + length (encode_entries es) < 2 ^ 64" and "length es < fuel"
    and "lapic_get_phys_id st0 (ucast pcpu) = Inr bsp"
    and "length (cpus_of bsp es) \<le> 15" and "length (ioapics_of es) \<le> 1" and "length (overrides_of es) \<le> 32"
    and "length (lapic_ids st0) = 16" and "length (irq_map st0) = 32"
    and "g_cpus st0 = 1" and "num_ioapic st0 = 0" and "num_overrides st0 = 0"
  shows "(\<exists>st. acpi_parse_apic fuel k pcpu st0 madt = Inr st
    \<and> unat (g_cpus st) = 1 + length (cpus_of bsp es)
    \<and> lapic_ids st = hd (lapic_ids st0) # cpus_of bsp es @ drop (1 + length (cpus_of bsp es)) (lapic_ids st0)
    \<and> lapic_phys_ids st = lapic_phys_ids st0
    \<and> lapic_addr st = ucast laddr
    \<and> (ioapics_of es = [] \<longrightarrow> ioapic_addr st = ioapic_addr st0 \<and> gsi_base st = gsi_base st0)
    \<and> (\<forall>a g. ioapics_of es = [(a, g)] \<longrightarrow> ioapic_addr st = ucast a \<and> gsi_base st = g)
    \<and> (\<forall>irq. acpi_irq_to_gsi st irq = Inr (case find (\<lambda>e. ie_irq e = irq) (overrides_of es) of
          None \<Rightarrow> (ucast irq, 0) | Some e \<Rightarrow> (ie_gsi e, ie_flags e))))
    \<and> (st0 = platform_init \<longrightarrow> bsp = 0)"
proof -
  have bsp: "bsp_is pcpu bsp st0" using assms(7) by (simp add: bsp_is_def)
  have room: "room_for bsp es st0"
    using assms(8-15) by (simp add: room_for_def)
  let ?st = "record_entries bsp es (st0\<lparr>lapic_addr := ucast laddr\<rparr>)"
  have run: "acpi_parse_apic fuel k pcpu st0 madt = Inr ?st"
    using acpi_parse_apic_entries [OF assms(1-3) bsp room assms(4-6)] .
  have c: "unat (1 + of_nat (length (cpus_of bsp es)) :: u16) = 1 + length (cpus_of bsp es)"
    using assms(8) by (subst unat_add_small) (simp_all add: unat_of_nat_small)
  have o: "unat (of_nat (length (overrides_of es)) :: u8) = length (overrides_of es)"
    using assms(10) by (intro unat_of_nat_small) simp
  have "take 1 (lapic_ids st0) = [hd (lapic_ids st0)]" using assms(11) by (cases "lapic_ids st0") auto
  then have ids: "lapic_ids ?st = hd (lapic_ids st0) # cpus_of bsp es @ drop (1 + length (cpus_of bsp es)) (lapic_ids st0)"
    by (simp add: record_entries_def assms place_def)
  have len: "length (irq_map ?st) = 32" and n: "unat (num_overrides ?st) = length (overrides_of es)"
    and pre: "take (length (overrides_of es)) (irq_map ?st) = overrides_of es"
    using assms(10,12,15) o by (simp_all add: record_entries_def place_def)
  have irq: "acpi_irq_to_gsi ?st irq = Inr (case find (\<lambda>e. ie_irq e = irq) (overrides_of es) of
          None \<Rightarrow> (ucast irq, 0) | Some e \<Rightarrow> (ie_gsi e, ie_flags e))" for irq
    using acpi_irq_to_gsi_find [OF len, of irq] n pre assms(10) by simp
  have "st0 = platform_init \<longrightarrow> bsp = 0"
    using assms(7) by (auto simp: lapic_get_phys_id_def platform_init_def tget_def split: if_splits)
  then show ?thesis
    using run ids c irq by (intro conjI exI [of _ ?st]) (simp_all add: record_entries_def assms(13))
qed

definition demo_entries :: "madt_entry list" where
  "demo_entries = [CpuEntry 0 0 1, CpuEntry 1 2 1, CpuEntry 2 4 0, IoApicEntry 2 0xFEC00000 0, OtherEntry 4 [0, 0, 0, 1],
     OverrideEntry 0 0 2 0, OverrideEntry 0 9 9 13]"

definition demo_madt :: "u8 list" where
  "demo_madt = encode_madt 0x43495041 (replicate 28 0) 0xFEE00000 1 demo_entries"

lemma length_demo_entries: "length (encode_entries demo_entries) = 62"
  by (simp add: demo_entries_def encode_entries_def)

lemma demo_lists: "cpus_of 0 demo_entries = [2]" "cpus_of 2 demo_entries = [0]" "ioapics_of demo_entries = [(0xFEC00000, 0)]"
  "overrides_of demo_entries = [\<lparr>ie_irq = 0, ie_flags = 0, ie_gsi = 2\<rparr>, \<lparr>ie_irq = 9, ie_flags = 13, ie_gsi = 9\<rparr>]"
  by (simp_all add: demo_entries_def)

lemma demo_vbytes: "vbytes (ident_kernel 0x3000 demo_madt) 0x3000 demo_madt"
  by (rule ident_vbytes) (simp_all add: demo_madt_def encode_madt_def length_demo_entries)

lemma demo_vbytes': "vbytes (ident_kernel 0x3000 demo_madt) 0x3000
  (encode_madt 0x43495041 (replicate 28 0) 0xFEE00000 1 demo_entries)"
  using demo_vbytes by (simp only: demo_madt_def)

theorem acpi_parse_apic_correct_witness:
  "(\<exists>st. acpi_parse_apic 8 (ident_kernel 0x3000 demo_madt) 0 platform_init 0x3000 = Inr st
    \<and> unat (g_cpus st) = 2 \<and> lapic_ids st = 0 # 2 # replicate 14 0 \<and> ioapic_addr st = 0xFEC00000
    \<and> acpi_irq_to_gsi st 0 = Inr (2, 0) \<and> acpi_irq_to_gsi st 9 = Inr (9, 13) \<and> acpi_irq_to_gsi st 4 = Inr (4, 0))
   \<and> (\<exists>st. acpi_parse_apic 8 (ident_kernel 0x3000 demo_madt) 0
        (platform_init\<lparr>lapic_phys_ids := 2 # replicate 15 0\<rparr>) 0x3000 = Inr st
    \<and> unat (g_cpus st) = 2 \<and> lapic_ids st = 0 # 0 # replicate 14 0)"
proof -
  have ok: "\<forall>e \<in> set demo_entries. entry_ok e" by (simp add: demo_entries_def)
  have fuel: "length demo_entries < 8" by (simp add: demo_entries_def)
  have bsp: "lapic_get_phys_id platform_init (ucast (0 :: u16)) = Inr 0"
    "lapic_get_phys_id (platform_init\<lparr>lapic_phys_ids := 2 # replicate 15 0\<rparr>) (ucast (0 :: u16)) = Inr 2"
    by (simp_all add: lapic_get_phys_id_def platform_init_def tget_def MAX_CPUS_def)
  note sizes = length_demo_entries demo_lists platform_init_def MAX_CPUS_def MAX_IRQ_OVERRIDES_def
  show ?thesis
    using acpi_parse_apic_correct [OF demo_vbytes' _ ok _ _ fuel bsp(1)]
      acpi_parse_apic_correct [OF demo_vbytes' _ ok _ _ fuel bsp(2)]
    by (auto simp: sizes)
qed

text \<open>
  C36: Malformed tables are not rejected: an entry of length 0 makes \<open>acpi_parse_apic\<close> loop for ever,
  and the entry of a 17th processor is stored behind the array of processor identifiers before the
  number is checked.
\<close>

theorem acpi_parse_apic_unchecked:
  "(p < end' \<and> rd8 k p = Inr t \<and> t > 2 \<and> rd8 k (p + 1) = Inr 0 \<longrightarrow>
      parse_apic_loop fuel k pcpu st p end' = Inl OutOfFuel)
   \<and> (vbytes k p (encode_entry (CpuEntry pid apic flags)) \<and> flags AND 1 \<noteq> 0 \<and> bsp_is pcpu bsp st \<and> apic \<noteq> bsp
       \<and> length (lapic_ids st) = 16 \<and> g_cpus st = 16 \<longrightarrow> acpi_add_cpu k pcpu st p = Inl OutOfBounds)"
proof (intro conjI impI)
  assume h: "p < end' \<and> rd8 k p = Inr t \<and> t > 2 \<and> rd8 k (p + 1) = Inr 0"
  then have "t \<noteq> 0" "t \<noteq> 1" "t \<noteq> 2" by auto
  then have "parse_entry k pcpu st t p = Inr st"
    by (simp add: parse_entry_def APIC_TYPE_LAPIC_def APIC_TYPE_IOAPIC_def APIC_TYPE_INTERRUPT_OVERRIDE_def)
  then show "parse_apic_loop fuel k pcpu st p end' = Inl OutOfFuel"
    using h by (induction fuel) auto
next
  assume h: "vbytes k p (encode_entry (CpuEntry pid apic flags)) \<and> flags AND 1 \<noteq> 0 \<and> bsp_is pcpu bsp st \<and> apic \<noteq> bsp
       \<and> length (lapic_ids st) = 16 \<and> g_cpus st = 16"
  then have "rd32 k (p + 4) = Inr flags" "rd8 k (p + 3) = Inr apic"
    using rd32_at [of k p "[0, 8, pid, apic]" flags "[]"] rd8_at [of k p "[0, 8, pid]" apic "le32 flags"] by simp_all
  then show "acpi_add_cpu k pcpu st p = Inl OutOfBounds"
    using h by (simp add: acpi_add_cpu_def bsp_is_def tset_def)
qed

theorem acpi_parse_apic_unchecked_witness:
  "parse_apic_loop 100 (ident_kernel 0x3000 [4, 0]) 0 platform_init 0x3000 0x3002 = Inl OutOfFuel
   \<and> acpi_add_cpu (ident_kernel 0x3000 (encode_entry (CpuEntry 1 2 1))) 0 (platform_init\<lparr>g_cpus := 16\<rparr>) 0x3000
       = Inl OutOfBounds"
proof -
  have v: "vbytes (ident_kernel 0x3000 [4, 0]) 0x3000 [4, 0]" by (rule ident_vbytes) simp_all
  have w: "vbytes (ident_kernel 0x3000 (encode_entry (CpuEntry 1 2 1))) 0x3000 (encode_entry (CpuEntry 1 2 1))"
    by (rule ident_vbytes) simp_all
  have b: "bsp_is 0 0 (platform_init\<lparr>g_cpus := 16\<rparr>)"
    by (simp add: bsp_is_def lapic_get_phys_id_def platform_init_def tget_def MAX_CPUS_def)
  show ?thesis
    using acpi_parse_apic_unchecked [of "0x3000" "0x3002" "ident_kernel 0x3000 [4, 0]" 4 100 0 platform_init
        1 2 1 0]
      acpi_parse_apic_unchecked [of "0x3000" "0x3002" "ident_kernel 0x3000 (encode_entry (CpuEntry 1 2 1))" 4 100 0
        "platform_init\<lparr>g_cpus := 16\<rparr>" 1 2 1 0] v w b
    by (simp add: platform_init_def MAX_CPUS_def)
qed

end
