(* ===== verification/Apic.thy ===== *)
theory Apic
  imports Acpi
begin

text \<open>
  The interrupt controllers, \<^verbatim>\<open>interrupt/apic.c\<close> with \<^verbatim>\<open>include/apic.h\<close> and \<^verbatim>\<open>include/io.h\<close>: every
  function of the file. Registers are accessed at virtual addresses; the page walk gives a physical
  address, which belongs to the local APIC, to the I/O APIC or to memory. Of the devices the model
  has what the code relies on: the local APIC is an array of registers with a log of the writes, the
  I/O APIC an index register that selects the register behind its window (its version and
  arbitration registers are read-only), and an I/O port is a log of the bytes written.
\<close>

section \<open>Registers\<close>

definition PIT_CHANNEL0 :: u16 where "PIT_CHANNEL0 = 0x40"
definition PIT_CMD :: u16 where "PIT_CMD = 0x43"
definition PIC1 :: u16 where "PIC1 = 0x20"
definition PIC2 :: u16 where "PIC2 = 0xA0"
definition PIC1_COMMAND :: u16 where "PIC1_COMMAND = PIC1"
definition PIC1_DATA :: u16 where "PIC1_DATA = PIC1 + 1"
definition PIC2_COMMAND :: u16 where "PIC2_COMMAND = PIC2"
definition PIC2_DATA :: u16 where "PIC2_DATA = PIC2 + 1"

definition PGT_PWT :: u64 where "PGT_PWT = 0x8"

definition LAPIC_ID :: u16 where "LAPIC_ID = 0x20"
definition LAPIC_TPR :: u16 where "LAPIC_TPR = 0x80"
definition LAPIC_EOI :: u16 where "LAPIC_EOI = 0xB0"
definition LAPIC_SPIV :: u16 where "LAPIC_SPIV = 0xF0"
definition LAPIC_ICR :: u16 where "LAPIC_ICR = 0x300"
definition LAPIC_ICRH :: u16 where "LAPIC_ICRH = 0x310"
definition LAPIC_LVTT :: u16 where "LAPIC_LVTT = 0x320"
definition LAPIC_LVTPC :: u16 where "LAPIC_LVTPC = 0x340"
definition LAPIC_LVT0 :: u16 where "LAPIC_LVT0 = 0x350"
definition LAPIC_LVT1 :: u16 where "LAPIC_LVT1 = 0x360"
definition LAPIC_LVTE :: u16 where "LAPIC_LVTE = 0x370"
definition LAPIC_ID_OFFSET :: nat where "LAPIC_ID_OFFSET = 24"
definition LAPIC_ICR_TM_LEVEL :: u32 where "LAPIC_ICR_TM_LEVEL = 0x8000"
definition LAPIC_ICR_LEVELASSERT :: u32 where "LAPIC_ICR_LEVELASSERT = 0x4000"
definition LAPIC_ICR_DM_INIT :: u32 where "LAPIC_ICR_DM_INIT = 0x500"
definition LAPIC_ICR_DM_SIPI :: u32 where "LAPIC_ICR_DM_SIPI = 0x600"
definition IOAPIC_REGSEL :: u8 where "IOAPIC_REGSEL = 0"
definition IOAPIC_WIN :: u8 where "IOAPIC_WIN = 0x10"
definition IOAPIC_VER :: u8 where "IOAPIC_VER = 1"
definition IOAPIC_ARB :: u8 where "IOAPIC_ARB = 2"
definition IOAPIC_REDTBL :: "u32 \<Rightarrow> u32" where "IOAPIC_REDTBL n = 0x10 + 2 * n"

definition PIT_IRQ :: u8 where "PIT_IRQ = 0"

section \<open>Devices\<close>

record devices =
  lapic_base :: u64
  lapic_regs :: "u64 \<Rightarrow> u32"
  lapic_log :: "(u64 \<times> u32) list"
  ioapic_base :: u64
  ioregsel :: u8
  ioapic_regs :: "u8 \<Rightarrow> u32"
  port_log :: "(u16 \<times> u8) list"
  cpuid_leaf :: "u32 \<Rightarrow> u32 \<Rightarrow> u32 \<times> u32 \<times> u32 \<times> u32"
  rflags_if :: bool

definition ioapic_dev_write :: "devices \<Rightarrow> u64 \<Rightarrow> u32 \<Rightarrow> devices" where
  "ioapic_dev_write d off data =
     (if off = 0 then d\<lparr>ioregsel := ucast data\<rparr>
      else if off = 0x10 \<and> ioregsel d \<noteq> IOAPIC_VER \<and> ioregsel d \<noteq> IOAPIC_ARB
      then d\<lparr>ioapic_regs := (ioapic_regs d)(ioregsel d := data)\<rparr>
      else d)"

definition ioapic_dev_read :: "devices \<Rightarrow> u64 \<Rightarrow> u32" where
  "ioapic_dev_read d off =
     (if off = 0 then ucast (ioregsel d) else if off = 0x10 then ioapic_regs d (ioregsel d) else 0)"

definition lapic_dev_write :: "devices \<Rightarrow> u64 \<Rightarrow> u32 \<Rightarrow> devices" where
  "lapic_dev_write d off data =
     d\<lparr>lapic_regs := (lapic_regs d)(off := data), lapic_log := lapic_log d @ [(off, data)]\<rparr>"

record machine =
  m_kernel :: kernel
  m_plat :: platform
  m_dev :: devices

section \<open>Access\<close>

definition outb :: "'a machine_scheme \<Rightarrow> u16 \<Rightarrow> u8 \<Rightarrow> 'a machine_scheme" where
  "outb m port val = m\<lparr>m_dev := (m_dev m)\<lparr>port_log := port_log (m_dev m) @ [(port, val)]\<rparr>\<rparr>"

text \<open>The page of a physical address decides who answers.\<close>

definition mmio_write32 :: "'a machine_scheme \<Rightarrow> u64 \<Rightarrow> u32 \<Rightarrow> 'a machine_scheme result" where
  "mmio_write32 m addr data =
     rbind (mmu_walk (pmem (m_kernel m)) (cr3 (m_kernel m)) addr) (\<lambda>pa.
       let page = pa AND NOT (mask 12); off = pa AND mask 12
       in if page = ioapic_base (m_dev m) then Inr (m\<lparr>m_dev := ioapic_dev_write (m_dev m) off data\<rparr>)
          else if page = lapic_base (m_dev m) then Inr (m\<lparr>m_dev := lapic_dev_write (m_dev m) off data\<rparr>)
          else rbind (wr32 (m_kernel m) addr data) (\<lambda>k. Inr (m\<lparr>m_kernel := k\<rparr>)))"

definition mmio_read32 :: "'a machine_scheme \<Rightarrow> u64 \<Rightarrow> u32 result" where
  "mmio_read32 m addr =
     rbind (mmu_walk (pmem (m_kernel m)) (cr3 (m_kernel m)) addr) (\<lambda>pa.
       let page = pa AND NOT (mask 12); off = pa AND mask 12
       in if page = ioapic_base (m_dev m) then Inr (ioapic_dev_read (m_dev m) off)
          else if page = lapic_base (m_dev m) then Inr (lapic_regs (m_dev m) off)
          else rd32 (m_kernel m) addr)"

definition lapic_write32 :: "'a machine_scheme \<Rightarrow> u16 \<Rightarrow> u32 \<Rightarrow> 'a machine_scheme result" where
  "lapic_write32 m offset data = mmio_write32 m (lapic_addr (m_plat m) + ucast offset) data"

definition lapic_read32 :: "'a machine_scheme \<Rightarrow> u16 \<Rightarrow> u32 result" where
  "lapic_read32 m offset = mmio_read32 m (lapic_addr (m_plat m) + ucast offset)"

definition ioapic_write32_raw :: "'a machine_scheme \<Rightarrow> u8 \<Rightarrow> u32 \<Rightarrow> 'a machine_scheme result" where
  "ioapic_write32_raw m offset data = mmio_write32 m (ioapic_addr (m_plat m) + ucast offset) data"

definition ioapic_read32_raw :: "'a machine_scheme \<Rightarrow> u8 \<Rightarrow> u32 result" where
  "ioapic_read32_raw m offset = mmio_read32 m (ioapic_addr (m_plat m) + ucast offset)"

definition ioapic_write32 :: "'a machine_scheme \<Rightarrow> u8 \<Rightarrow> u32 \<Rightarrow> 'a machine_scheme result" where
  "ioapic_write32 m reg data =
     rbind (ioapic_write32_raw m IOAPIC_REGSEL (ucast reg)) (\<lambda>m. ioapic_write32_raw m IOAPIC_WIN data)"

text \<open>Reading selects the register first, so it changes the state.\<close>

definition ioapic_read32 :: "'a machine_scheme \<Rightarrow> u8 \<Rightarrow> (u32 \<times> 'a machine_scheme) result" where
  "ioapic_read32 m reg =
     rbind (ioapic_write32_raw m IOAPIC_REGSEL (ucast reg)) (\<lambda>m.
     rbind (ioapic_read32_raw m IOAPIC_WIN) (\<lambda>v. Inr (v, m)))"

definition ioapic_write64 :: "'a machine_scheme \<Rightarrow> u8 \<Rightarrow> u64 \<Rightarrow> 'a machine_scheme result" where
  "ioapic_write64 m reg data =
     rbind (ioapic_write32_raw m IOAPIC_REGSEL (ucast reg)) (\<lambda>m.
     rbind (ioapic_write32_raw m IOAPIC_WIN 0x10000) (\<lambda>m.
     rbind (ioapic_write32_raw m IOAPIC_REGSEL (ucast reg + 1)) (\<lambda>m.
     rbind (ioapic_write32_raw m IOAPIC_WIN (ucast (drop_bit 32 data))) (\<lambda>m.
     rbind (ioapic_write32_raw m IOAPIC_REGSEL (ucast reg)) (\<lambda>m.
     ioapic_write32_raw m IOAPIC_WIN (ucast (data AND 0xFFFFFFFF)))))))"

definition ioapic_map_gsi :: "'a machine_scheme \<Rightarrow> u32 \<Rightarrow> u8 \<Rightarrow> u64 \<Rightarrow> 'a machine_scheme result" where
  "ioapic_map_gsi m gsi vector flags =
     (let base = gsi_base (m_plat m)
      in if gsi < base \<or> gsi \<ge> base + num_gsi (m_plat m) then Inl (Panic ''Unsupported GSI number'')
         else ioapic_write64 m (ucast (IOAPIC_REDTBL (gsi - base))) (flags OR ucast vector))"

definition lapic_get_phys_id_raw :: "'a machine_scheme \<Rightarrow> u8 result" where
  "lapic_get_phys_id_raw m =
     rbind (lapic_read32 m LAPIC_ID) (\<lambda>v. Inr (ucast (drop_bit LAPIC_ID_OFFSET v AND 0xF)))"

definition lapic_eoi :: "'a machine_scheme \<Rightarrow> 'a machine_scheme result" where
  "lapic_eoi m = lapic_write32 m LAPIC_EOI 0"

definition interrupt_disable_save :: "'a machine_scheme \<Rightarrow> bool \<times> 'a machine_scheme" where
  "interrupt_disable_save m = (rflags_if (m_dev m), m\<lparr>m_dev := (m_dev m)\<lparr>rflags_if := False\<rparr>\<rparr>)"

definition interrupt_enable_restore :: "'a machine_scheme \<Rightarrow> bool \<Rightarrow> 'a machine_scheme" where
  "interrupt_enable_restore m flag = m\<lparr>m_dev := (m_dev m)\<lparr>rflags_if := flag\<rparr>\<rparr>"

definition lapic_send_ipi :: "'a machine_scheme \<Rightarrow> u32 \<Rightarrow> u32 \<Rightarrow> 'a machine_scheme result" where
  "lapic_send_ipi m dest vector =
     (let (flag, m) = interrupt_disable_save m
      in rbind (lapic_write32 m LAPIC_ICRH (push_bit LAPIC_ID_OFFSET dest)) (\<lambda>m.
         rbind (lapic_write32 m LAPIC_ICR vector) (\<lambda>m.
           Inr (interrupt_enable_restore m flag))))"

section \<open>Initialisation\<close>

abbreviation upd_plat :: "(platform \<Rightarrow> platform) \<Rightarrow> 'a machine_scheme \<Rightarrow> 'a machine_scheme" where
  "upd_plat f m \<equiv> m\<lparr>m_plat := f (m_plat m)\<rparr>"

definition DEVICE_FLAGS :: u64 where
  "DEVICE_FLAGS = PGT_P OR PGT_RW OR PGT_PCD OR PGT_PWT OR PGT_XD"

definition map_device :: "'a machine_scheme \<Rightarrow> u64 \<Rightarrow> 'a machine_scheme result" where
  "map_device m addr =
     rbind (vm_map_page_unrestricted (m_kernel m) addr DEVICE_FLAGS addr) (\<lambda>k. Inr (m\<lparr>m_kernel := k\<rparr>))"

definition lapic_timer_freq :: "'a machine_scheme \<Rightarrow> 'a machine_scheme result" where
  "lapic_timer_freq m =
     (let (eax, ebx, ecx, edx) = cpuid_leaf (m_dev m) 0x15 0
      in if ecx = 0 \<or> ebx = 0 then Inl (Panic ''No TSC frequency info'')
         else if eax = 0 then Inl DivideError
         else Inr (upd_plat (\<lambda>p. p\<lparr>tsc_freq := (ecx * ebx) div eax\<rparr>) m))"

fun lapic_writes :: "'a machine_scheme \<Rightarrow> (u16 \<times> u32) list \<Rightarrow> 'a machine_scheme result" where
  "lapic_writes m [] = Inr m"
| "lapic_writes m ((r, v) # ws) = rbind (lapic_write32 m r v) (\<lambda>m. lapic_writes m ws)"

text \<open>\<open>pcpu\<close> is the identifier of the running processor.\<close>

definition lapic_init :: "'a machine_scheme \<Rightarrow> u16 \<Rightarrow> 'a machine_scheme result" where
  "lapic_init m pcpu =
     (let cpu = ucast pcpu :: u32
      in rbind (if cpu = 0 then rbind (map_device m (lapic_addr (m_plat m))) lapic_timer_freq else Inr m) (\<lambda>m.
         rbind (lapic_writes m
           [(LAPIC_TPR, 0x00), (LAPIC_LVTT, 0x10000), (LAPIC_LVTPC, 0x10000), (LAPIC_LVT0, 0x08700),
            (LAPIC_LVT1, 0x00400), (LAPIC_LVTE, 0x10000), (LAPIC_SPIV, 0x0010F)]) (\<lambda>m.
         rbind (lapic_get_phys_id_raw m) (\<lambda>i.
         rbind (tset (lapic_phys_ids (m_plat m)) (ucast cpu) i) (\<lambda>ids.
           Inr (upd_plat (\<lambda>p. p\<lparr>lapic_phys_ids := ids\<rparr>) m))))))"

function mask_gsis :: "'a machine_scheme \<Rightarrow> u32 \<Rightarrow> u32 \<Rightarrow> 'a machine_scheme result" where
  "mask_gsis m i n =
     (if i < n
      then rbind (ioapic_write64 m (ucast (IOAPIC_REDTBL i)) 0x10000) (\<lambda>m. mask_gsis m (i + 1) n)
      else Inr m)"
  by pat_completeness auto
termination
  by (relation "measure (\<lambda>(m, i, n). unat n - unat i)") (auto intro: count_up_measure)

declare mask_gsis.simps [simp del]

definition pit_entry :: "u16 \<Rightarrow> u64" where
  "pit_entry flags =
     (let entry = 0xFF00000000000000;
          entry = (if flags AND 0x2 \<noteq> 0 then entry OR 0x2000 else entry)
      in if flags AND 0x8 \<noteq> 0 then entry OR 0x8000 else entry)"

definition ioapic_init :: "'a machine_scheme \<Rightarrow> 'a machine_scheme result" where
  "ioapic_init m =
     (let m = outb m PIC1_DATA 0xFF;
          m = outb m PIC2_DATA 0xFF
      in rbind (map_device m (ioapic_addr (m_plat m))) (\<lambda>m.
         rbind (ioapic_read32 m IOAPIC_VER) (\<lambda>(ver, m).
           let m = upd_plat (\<lambda>p. p\<lparr>num_gsi := (drop_bit 16 ver AND 0xFF) + 1\<rparr>) m
           in rbind (mask_gsis m 0 (num_gsi (m_plat m))) (\<lambda>m.
              rbind (acpi_irq_to_gsi (m_plat m) PIT_IRQ) (\<lambda>(gsi, flags).
                ioapic_map_gsi m gsi 0x20 (pit_entry flags))))))"

end
