(* ===== verification/Interrupt.thy ===== *)
theory Interrupt
  imports Apic Gdt Screen
begin

text \<open>
  Interrupt set-up and the handlers, \<^verbatim>\<open>interrupt/interrupt.c\<close> with \<^verbatim>\<open>include/interrupt.h\<close> and the
  gate descriptors of \<^verbatim>\<open>include/cpu.h\<close>: every function of the file. A gate is two 64-bit words,
  its bit-fields are positions in them. The handlers are called from \<^verbatim>\<open>isr.S\<close> with the number of the
  vector; \<open>exp_handler\<close> ends in an endless loop, and its value here is the state it stays in.
\<close>

definition INTERRUPT_GATE_TYPE :: u8 where "INTERRUPT_GATE_TYPE = 0xE"
definition PIC1_BASE_IRQ :: u8 where "PIC1_BASE_IRQ = 0x20"
definition PIC2_BASE_IRQ :: u8 where "PIC2_BASE_IRQ = 0x28"
definition PIT_FREQ :: u32 where "PIT_FREQ = 1193182"
definition HZ :: u32 where "HZ = 100"
definition EXCEPTION_PG_FAULT :: u64 where "EXCEPTION_PG_FAULT = 14"

section \<open>Gates\<close>

definition idt_entry_lo :: "(string \<times> nat \<times> nat) list" where
  "idt_entry_lo =
     [(''offset0'', 0, 16), (''selector'', 16, 16), (''ist'', 32, 3), (''zero0'', 35, 5), (''type'', 40, 4),
      (''zero1'', 44, 1), (''dpl'', 45, 2), (''p'', 47, 1), (''offset1'', 48, 16)]"

definition idt_entry_hi :: "(string \<times> nat \<times> nat) list" where
  "idt_entry_hi = [(''offset2'', 0, 32), (''reserved'', 32, 32)]"

type_synonym gate = "u64 \<times> u64"

definition idt_desc :: ctype where
  "idt_desc = Packed [(''limit'', uint16), (''base'', uint64)]"

text \<open>The stores to one entry, in their order.\<close>

definition fill_gate :: "u8 \<Rightarrow> u64 \<Rightarrow> gate \<Rightarrow> gate" where
  "fill_gate type handler w =
     (let base = handler;
          w = apfst (write_field idt_entry_lo ''offset0'' (ucast (ucast base :: u16))) w;
          w = apfst (write_field idt_entry_lo ''selector'' 0x8) w;
          w = apfst (write_field idt_entry_lo ''ist'' 0) w;
          w = apfst (write_field idt_entry_lo ''zero0'' 0) w;
          w = apfst (write_field idt_entry_lo ''type'' (ucast type)) w;
          w = apfst (write_field idt_entry_lo ''zero1'' 0) w;
          w = apfst (write_field idt_entry_lo ''dpl'' 0) w;
          w = apfst (write_field idt_entry_lo ''p'' 1) w;
          w = apfst (write_field idt_entry_lo ''offset1'' (ucast (ucast (drop_bit 16 base) :: u16))) w;
          w = apsnd (write_field idt_entry_hi ''offset2'' (ucast (ucast (drop_bit 32 base) :: u32))) w
      in apsnd (write_field idt_entry_hi ''reserved'' 0) w)"

definition idt_set_entry :: "u16 \<Rightarrow> u8 \<Rightarrow> u64 \<Rightarrow> gate list \<Rightarrow> gate list result" where
  "idt_set_entry index type handler idt =
     rbind (tget idt (ucast index)) (\<lambda>w. tset idt (ucast index) (fill_gate type handler w))"

function idt_loop :: "u64 list \<Rightarrow> gate list \<Rightarrow> u16 \<Rightarrow> gate list result" where
  "idt_loop int_table idt i =
     (if i < IDT_ENTRY_NR
      then rbind (tget int_table (ucast i)) (\<lambda>h.
           rbind (idt_set_entry i INTERRUPT_GATE_TYPE h idt) (\<lambda>idt. idt_loop int_table idt (i + 1)))
      else Inr idt)"
  by pat_completeness auto
termination
  by (relation "measure (\<lambda>(t, idt, i). unat IDT_ENTRY_NR - unat i)") (auto intro: count_up_measure)

declare idt_loop.simps [simp del]

text \<open>\<open>int_table\<close> are the entry points in \<^verbatim>\<open>isr.S\<close>, \<open>idt_base\<close> is the address of \<^verbatim>\<open>_kernel_idt\<close>.\<close>

record imachine = machine +
  m_screen :: screen
  m_idt :: "gate list"
  m_idtr :: "u16 \<times> u64"
  int_table :: "u64 list"
  idt_base :: u64

definition idt_init :: "'a imachine_scheme \<Rightarrow> 'a imachine_scheme result" where
  "idt_init m =
     rbind (idt_loop (int_table m) (m_idt m) 0) (\<lambda>idt.
       Inr (m\<lparr>m_idt := idt, m_idtr := (IDT_ENTRY_NR * 16 - 1, idt_base m)\<rparr>))"

section \<open>Handlers\<close>

record hw_regs_t =
  r15 :: u64 r14 :: u64 r13 :: u64 r12 :: u64 r11 :: u64 r10 :: u64 r9 :: u64 r8 :: u64
  rdi :: u64 rsi :: u64 rbp :: u64 rdx :: u64 rcx :: u64 rbx :: u64 rax :: u64
  error_code :: u64
  rip :: u64 cs :: u64 rflags :: u64 rsp :: u64 ss :: u64

definition iprintf :: "'a imachine_scheme \<Rightarrow> string \<Rightarrow> va list \<Rightarrow> 'a imachine_scheme result" where
  "iprintf m fmt args = rbind (printf (m_screen m) fmt args) (\<lambda>s. Inr (m\<lparr>m_screen := s\<rparr>))"

text \<open>The control registers are those of the processor at the time of the exception.\<close>

definition exp_handler :: "'a imachine_scheme \<Rightarrow> u64 \<times> u64 \<times> u64 \<times> u64 \<times> u64 \<Rightarrow> u64 \<Rightarrow> hw_regs_t \<Rightarrow> 'a imachine_scheme result" where
  "exp_handler m crs irq regs =
     (let (cr0, cr2, cr3, cr4, cr8) = crs
      in rbind (iprintf m (''Exception %llu (error code %X):'' @ [CHR 0x0A]) [VInt irq, VInt (error_code regs)]) (\<lambda>m.
         rbind (iprintf m (''CR0=%llX, CR2=%llX, CR3=%llX, CR4=%llX, CR8=%llX'' @ [CHR 0x0A])
                  [VInt cr0, VInt cr2, VInt cr3, VInt cr4, VInt cr8]) (\<lambda>m.
         rbind (iprintf m (''RIP=%llX, CS=%llX, RFLAGS=%llX, RSP=%llX, SS=%llX'' @ [CHR 0x0A])
                  [VInt (rip regs), VInt (cs regs), VInt (rflags regs), VInt (rsp regs), VInt (ss regs)]) (\<lambda>m.
         rbind (iprintf m (''RAX=%llX, RBX=%llX, RCX=%llX, RDX=%llX, RBP=%llX, RSI=%llX, RDI=%llX'' @ [CHR 0x0A])
                  [VInt (rax regs), VInt (rbx regs), VInt (rcx regs), VInt (rdx regs), VInt (rbp regs),
                   VInt (rsi regs), VInt (rdi regs)]) (\<lambda>m.
         rbind (iprintf m (''R8=%llX, R9=%llX, R10=%llX, R11=%llX, R12=%llX, R13=%llX, R14=%llX, R15=%llX'' @ [CHR 0x0A])
                  [VInt (r8 regs), VInt (r9 regs), VInt (r10 regs), VInt (r11 regs), VInt (r12 regs),
                   VInt (r13 regs), VInt (r14 regs), VInt (r15 regs)]) (\<lambda>m.
           if irq = EXCEPTION_PG_FAULT
           then rbind (vm_check_mapping (m_kernel m) cr2) (\<lambda>(es, k). Inr (m\<lparr>m_kernel := k\<rparr>))
           else Inr m))))))"

definition isr_handler :: "'a imachine_scheme \<Rightarrow> u64 \<Rightarrow> 'a imachine_scheme result" where
  "isr_handler m irq = rbind (iprintf m (''interrupt %u'' @ [CHR 0x0A]) [VInt irq]) lapic_eoi"

section \<open>The timer and the 8259 controllers\<close>

definition pit_init :: "'a machine_scheme \<Rightarrow> 'a machine_scheme" where
  "pit_init m =
     (let m = outb m PIT_CMD 0x34;
          m = outb m PIT_CHANNEL0 (ucast ((PIT_FREQ div HZ) AND 0xFF))
      in outb m PIT_CHANNEL0 (ucast (drop_bit 8 (PIT_FREQ div HZ))))"

definition pic_init :: "'a machine_scheme \<Rightarrow> 'a machine_scheme" where
  "pic_init m =
     (let m = outb m PIC1_COMMAND 0x11;
          m = outb m PIC1_DATA PIC1_BASE_IRQ;
          m = outb m PIC1_DATA 0x04;
          m = outb m PIC1_DATA 0x0D;
          m = outb m PIC2_COMMAND 0x11;
          m = outb m PIC2_DATA PIC2_BASE_IRQ;
          m = outb m PIC2_DATA 0x02
      in outb m PIC2_DATA 0x09)"

definition interrupt_init :: "'a imachine_scheme \<Rightarrow> 'a imachine_scheme result" where
  "interrupt_init m = rbind (idt_init m) (\<lambda>m. Inr (pit_init (pic_init m)))"

section \<open>The interrupt table\<close>

text \<open>What the processor reads from a gate: handler, code selector, type, privilege, present.\<close>

record gate_view =
  gv_handler :: u64
  gv_selector :: u64
  gv_type :: u64
  gv_dpl :: u64
  gv_present :: bool
  gv_system :: bool
  gv_ist :: u64

definition gate_of :: "gate \<Rightarrow> gate_view" where
  "gate_of w = \<lparr>gv_handler = get_field 0 16 (fst w) OR push_bit 16 (get_field 48 16 (fst w))
       OR push_bit 32 (get_field 0 32 (snd w)),
     gv_selector = get_field 16 16 (fst w), gv_type = get_field 40 4 (fst w), gv_dpl = get_field 45 2 (fst w),
     gv_present = bit (fst w) 47, gv_system = (\<not> bit (fst w) 44), gv_ist = get_field 32 3 (fst w)\<rparr>"

lemma gate_fields [simp]:
  "write_field idt_entry_lo ''offset0'' = put_field 0 16" "write_field idt_entry_lo ''selector'' = put_field 16 16"
  "write_field idt_entry_lo ''ist'' = put_field 32 3" "write_field idt_entry_lo ''zero0'' = put_field 35 5"
  "write_field idt_entry_lo ''type'' = put_field 40 4" "write_field idt_entry_lo ''zero1'' = put_field 44 1"
  "write_field idt_entry_lo ''dpl'' = put_field 45 2" "write_field idt_entry_lo ''p'' = put_field 47 1"
  "write_field idt_entry_lo ''offset1'' = put_field 48 16" "write_field idt_entry_hi ''offset2'' = put_field 0 32"
  "write_field idt_entry_hi ''reserved'' = put_field 32 32"
  by (rule ext, simp add: write_field_def idt_entry_lo_def idt_entry_hi_def)+

lemma fill_gate_view:
  "gate_of (fill_gate 0xE h w) = \<lparr>gv_handler = h, gv_selector = 8, gv_type = 0xE, gv_dpl = 0, gv_present = True,
     gv_system = True, gv_ist = 0\<rparr>"
proof -
  let ?w = "fill_gate 0xE h w"
  have "get_field 0 16 (fst ?w) OR push_bit 16 (get_field 48 16 (fst ?w)) OR push_bit 32 (get_field 0 32 (snd ?w)) = h"
    by (rule bit_word_eqI) (auto simp: fill_gate_def Let_def bit_put_field bit_get_field bit_simps not_less)
  moreover have "get_field 16 16 (fst ?w) = 8" "get_field 40 4 (fst ?w) = 0xE" "get_field 45 2 (fst ?w) = 0"
    "get_field 32 3 (fst ?w) = 0"
    by (simp_all add: fill_gate_def Let_def get_put_field_other get_put_field)
  moreover have "bit (fst ?w) 47" "\<not> bit (fst ?w) 44"
    by (simp_all add: fill_gate_def Let_def bit_put_field)
  ultimately show ?thesis by (simp add: gate_of_def)
qed

lemma idt_loop_fills:
  assumes "length t = 256" and "length idt = 256" and "i \<le> 256"
  shows "\<exists>idt'. idt_loop t idt (of_nat i) = Inr idt' \<and> length idt' = 256
    \<and> (\<forall>j < 256. idt' ! j = (if i \<le> j then fill_gate INTERRUPT_GATE_TYPE (t ! j) (idt ! j) else idt ! j))"
  using assms(2,3)
proof (induction "256 - i" arbitrary: i idt)
  case 0
  then have "idt_loop t idt (of_nat i) = Inr idt" by (subst idt_loop.simps) (simp add: IDT_ENTRY_NR_def)
  then show ?case using 0 by auto
next
  case (Suc k)
  have i: "i < 256" using Suc.hyps(2) by simp
  have u: "unat (ucast (of_nat i :: u16) :: u64) = i" using i by (simp add: unat_ucast_up unat_of_nat_small)
  have less: "(of_nat i :: u16) < IDT_ENTRY_NR" using i by (simp add: IDT_ENTRY_NR_def word_less_nat_alt unat_of_nat_small)
  let ?idt = "idt[i := fill_gate INTERRUPT_GATE_TYPE (t ! i) (idt ! i)]"
  have step: "idt_loop t idt (of_nat i) = idt_loop t ?idt (of_nat (Suc i))"
    using less i u assms(1) Suc.prems(1)
    by (subst idt_loop.simps) (simp add: tget_in tset_in idt_set_entry_def add.commute)
  have k: "k = 256 - Suc i" using Suc.hyps(2) by simp
  obtain idt' where "idt_loop t ?idt (of_nat (Suc i)) = Inr idt'" "length idt' = 256"
    "\<forall>j < 256. idt' ! j = (if Suc i \<le> j then fill_gate INTERRUPT_GATE_TYPE (t ! j) (?idt ! j) else ?idt ! j)"
    using Suc.hyps(1) [OF k, of ?idt] Suc.prems i by (auto simp del: of_nat_Suc)
  then show ?case using step i Suc.prems(1) by (intro exI [of _ idt']) (auto simp: nth_list_update le_eq_less_or_eq)
qed

text \<open>
  C14: \<open>interrupt_init\<close> makes every one of the 256 vectors an interrupt gate to its entry point in
  \<^verbatim>\<open>isr.S\<close>: the processor reads from gate \<open>i\<close> exactly the address \<open>int_table[i]\<close>, in the kernel code
  segment, for privilege level 0, present and without a separate stack; the limit of the IDTR covers
  the table, the two 8259 controllers are remapped to vectors 0x20 and 0x28, and the timer counts
  11931 ticks, which is 100 Hz to within 0.01 percent.
\<close>

theorem interrupt_init_gates:
  assumes "length (int_table m) = 256" and "length (m_idt m) = 256"
  shows "\<exists>m'. interrupt_init m = Inr m'
    \<and> (\<forall>i < 256. gate_of (m_idt m' ! i) = \<lparr>gv_handler = int_table m ! i, gv_selector = 8, gv_type = 0xE, gv_dpl = 0,
          gv_present = True, gv_system = True, gv_ist = 0\<rparr>)
    \<and> length (m_idt m') = 256 \<and> m_idtr m' = (4095, idt_base m)
    \<and> port_log (m_dev m') = port_log (m_dev m)
        @ [(0x20, 0x11), (0x21, 0x20), (0x21, 4), (0x21, 0xD), (0xA0, 0x11), (0xA1, 0x28), (0xA1, 2), (0xA1, 9)]
        @ [(0x43, 0x34), (0x40, 0x9B), (0x40, 0x2E)]
    \<and> m_kernel m' = m_kernel m \<and> m_plat m' = m_plat m"
proof -
  obtain idt' where i: "idt_loop (int_table m) (m_idt m) 0 = Inr idt'" "length idt' = 256"
    "\<forall>j < 256. idt' ! j = fill_gate INTERRUPT_GATE_TYPE (int_table m ! j) (m_idt m ! j)"
    using idt_loop_fills [OF assms, of 0] by auto
  let ?m = "m\<lparr>m_idt := idt', m_idtr := (IDT_ENTRY_NR * 16 - 1, idt_base m)\<rparr>"
  have run: "interrupt_init m = Inr (pit_init (pic_init ?m))" by (simp add: interrupt_init_def idt_init_def i(1))
  have "m_idt (pit_init (pic_init ?m)) = idt'" "m_idtr (pit_init (pic_init ?m)) = (4095, idt_base m)"
    "m_kernel (pit_init (pic_init ?m)) = m_kernel m" "m_plat (pit_init (pic_init ?m)) = m_plat m"
    by (simp_all add: pit_init_def pic_init_def outb_def IDT_ENTRY_NR_def)
  moreover have "port_log (m_dev (pit_init (pic_init ?m))) = port_log (m_dev m)
        @ [(0x20, 0x11), (0x21, 0x20), (0x21, 4), (0x21, 0xD), (0xA0, 0x11), (0xA1, 0x28), (0xA1, 2), (0xA1, 9)]
        @ [(0x43, 0x34), (0x40, 0x9B), (0x40, 0x2E)]"
    by (simp add: pit_init_def pic_init_def outb_def PIC1_COMMAND_def PIC1_DATA_def PIC2_COMMAND_def PIC2_DATA_def
        PIC1_def PIC2_def PIC1_BASE_IRQ_def PIC2_BASE_IRQ_def PIT_CMD_def PIT_CHANNEL0_def PIT_FREQ_def HZ_def Let_def)
  ultimately show ?thesis
    using run i fill_gate_view by (intro exI [of _ "pit_init (pic_init ?m)"]) (simp add: INTERRUPT_GATE_TYPE_def)
qed

theorem interrupt_init_gates_witness:
  "\<exists>m'. interrupt_init \<lparr>m_kernel = ident_kernel 0x3000 [], m_plat = platform_init,
     m_dev = \<lparr>lapic_base = 0xFEE00000, lapic_regs = \<lambda>_. 0, lapic_log = [], ioapic_base = 0xFEC00000, ioregsel = 0,
       ioapic_regs = \<lambda>_. 0, port_log = [], cpuid_leaf = \<lambda>_ _. (0, 0, 0, 0), rflags_if = False\<rparr>,
     m_screen = \<lparr>s_mem = \<lambda>_. 0, frameBuf = 0xB8000, xpos = 0, ypos = 0, scr_lock = SPINLOCK_UNLOCKED\<rparr>,
     m_idt = replicate 256 (0, 0), m_idtr = (0, 0), int_table = map (\<lambda>i. 0xFFFFFFFFC0200000 + 16 * of_nat i) [0 ..< 256],
     idt_base = 0xFFFFFFFFC0100000\<rparr> = Inr m'
   \<and> gv_handler (gate_of (m_idt m' ! 14)) = 0xFFFFFFFFC02000E0 \<and> m_idtr m' = (4095, 0xFFFFFFFFC0100000)"
  using interrupt_init_gates [of "\<lparr>m_kernel = ident_kernel 0x3000 [], m_plat = platform_init,
     m_dev = \<lparr>lapic_base = 0xFEE00000, lapic_regs = \<lambda>_. 0, lapic_log = [], ioapic_base = 0xFEC00000, ioregsel = 0,
       ioapic_regs = \<lambda>_. 0, port_log = [], cpuid_leaf = \<lambda>_ _. (0, 0, 0, 0), rflags_if = False\<rparr>,
     m_screen = \<lparr>s_mem = \<lambda>_. 0, frameBuf = 0xB8000, xpos = 0, ypos = 0, scr_lock = SPINLOCK_UNLOCKED\<rparr>,
     m_idt = replicate 256 (0, 0), m_idtr = (0, 0), int_table = map (\<lambda>i. 0xFFFFFFFFC0200000 + 16 * of_nat i) [0 ..< 256],
     idt_base = 0xFFFFFFFFC0100000\<rparr>"]
  by (auto simp del: upt_rec_numeral)

end
