(* ===== verification/Percpu.thy ===== *)
theory Percpu
  imports Interrupt
begin

text \<open>
  Processors: per-CPU data (\<^verbatim>\<open>cpu/percpu.c\<close>, \<^verbatim>\<open>include/percpu.h\<close>), starting the other processors
  (\<^verbatim>\<open>smp/smp.c\<close> and \<open>acpi_sec_init\<close> of \<^verbatim>\<open>kernel/acpi.c\<close>) and the IOMMU probe (\<^verbatim>\<open>virt/iommu.c\<close>). The
  per-CPU data lives in pages that the FS base of a processor points to; the offsets of the variables,
  the size of the area and the addresses of the start-up code come from the linker. What another
  processor does while this one polls is an argument: the number of polls before it reports.
\<close>

section \<open>State\<close>

record linker =
  percpu_pages_plus_one :: u64
  off_pcpu_id :: u64
  off_cpu_tss :: u64
  ap_boot_start :: u64
  ap_boot_end :: u64
  status_code :: u64
  ap_stack_ptr :: u64
  kernel_stack :: u64
  virt_main_addr :: u64

record pmachine = imachine +
  m_gdt :: gdt_state
  m_msr :: msrs
  m_fs :: u16
  m_ds :: u16
  m_tr :: u16
  percpu_virt :: "u64 list"
  pcpu_counter :: u16

section \<open>Per-CPU variables\<close>

definition percpu_write16 :: "'a pmachine_scheme \<Rightarrow> u64 \<Rightarrow> u16 \<Rightarrow> 'a pmachine_scheme result" where
  "percpu_write16 m off val =
     rbind (wr16 (m_kernel m) (rdmsr (m_msr m) IA32_FS_BASE + off) val) (\<lambda>k. Inr (m\<lparr>m_kernel := k\<rparr>))"

definition percpu_read16 :: "'a pmachine_scheme \<Rightarrow> u64 \<Rightarrow> u16 result" where
  "percpu_read16 m off = rd16 (m_kernel m) (rdmsr (m_msr m) IA32_FS_BASE + off)"

definition get_pcpu_id :: "linker \<Rightarrow> 'a pmachine_scheme \<Rightarrow> u16 result" where
  "get_pcpu_id ln m = percpu_read16 m (off_pcpu_id ln)"

definition percpu_pointer :: "'a pmachine_scheme \<Rightarrow> u16 \<Rightarrow> u64 \<Rightarrow> u64 result" where
  "percpu_pointer m cpu off = rbind (tget (percpu_virt m) (ucast cpu)) (\<lambda>a. Inr (a + off))"

text \<open>The initialisation function of \<open>pcpu_id\<close>, the only one there is.\<close>

definition pcpu_id_ctor :: "linker \<Rightarrow> 'a pmachine_scheme \<Rightarrow> 'a pmachine_scheme result" where
  "pcpu_id_ctor ln m =
     rbind (percpu_write16 m (off_pcpu_id ln) (pcpu_counter m)) (\<lambda>m.
       Inr (m\<lparr>pcpu_counter := pcpu_counter m + 1\<rparr>))"

function free_gdt_entry :: "u64 list \<Rightarrow> u16 \<Rightarrow> u16 result" where
  "free_gdt_entry t i =
     (if i < GDT_ENTRY_NR
      then rbind (tget t (ucast i)) (\<lambda>d. if desc_present d then free_gdt_entry t (i + 1) else Inr i)
      else Inr i)"
  by pat_completeness auto
termination
  by (relation "measure (\<lambda>(t, i). unat GDT_ENTRY_NR - unat i)") (auto intro: count_up_measure)

declare free_gdt_entry.simps [simp del]

definition percpu_desc :: "u64 \<Rightarrow> u64 \<Rightarrow> u64" where
  "percpu_desc limit w =
     (let w = write_field seg_desc ''limit0'' (limit AND 0xFFFF) w;
          w = write_field seg_desc ''limit1'' (drop_bit 16 limit AND 0xF) w;
          w = write_field seg_desc ''s'' 1 w;
          w = write_field seg_desc ''type'' 2 w;
          w = write_field seg_desc ''dpl'' 0 w;
          w = write_field seg_desc ''p'' 1 w;
          w = write_field seg_desc ''avl'' 0 w;
          w = write_field seg_desc ''l'' 0 w;
          w = write_field seg_desc ''db'' 1 w
      in write_field seg_desc ''g'' 0 w)"

definition percpu_area :: "'a pmachine_scheme \<Rightarrow> u64 \<Rightarrow> (u64 \<times> 'a pmachine_scheme) result" where
  "percpu_area m pages =
     rbind (alloc_phys_frames (k_phys (m_kernel m)) pages) (\<lambda>(start_frame, p).
       if start_frame = 0 then Inl (Panic ''out of physical memory'')
       else rbind (vm_map_pages ((m_kernel m)\<lparr>k_phys := p\<rparr>) start_frame pages (PGT_P OR PGT_RW OR PGT_XD)) (\<lambda>(va, k).
              if va = 0 then Inl (Panic ''out of virtual addresses'') else Inr (va, m\<lparr>m_kernel := k\<rparr>)))"

definition percpu_init :: "linker \<Rightarrow> 'a pmachine_scheme \<Rightarrow> 'a pmachine_scheme result" where
  "percpu_init ln m =
     (let pages = percpu_pages_plus_one ln
      in if pages = 1 then Inr (m\<lparr>m_fs := m_ds m\<rparr>)
         else let pages = pages - 1;
                  limit = pages * PG_SIZE - 1
              in rbind (free_gdt_entry (gdt (m_gdt m)) GDT_START) (\<lambda>i.
                   if i = GDT_ENTRY_NR then Inl (Panic ''out of GDT entries'')
                   else rbind (percpu_area m pages) (\<lambda>(start_virt, m).
                        rbind (tset (percpu_virt m) (ucast (pcpu_counter m)) start_virt) (\<lambda>pv.
                        rbind (tget (gdt (m_gdt m)) (ucast i)) (\<lambda>w.
                        rbind (tset (gdt (m_gdt m)) (ucast i) (percpu_desc limit w)) (\<lambda>g.
                          pcpu_id_ctor ln (m\<lparr>percpu_virt := pv, m_gdt := (m_gdt m)\<lparr>gdt := g\<rparr>,
                            m_fs := push_bit 3 i, m_msr := wrmsr (m_msr m) IA32_FS_BASE start_virt\<rparr>)))))))"

section \<open>Starting processors\<close>

definition LOOPS_TO_WAIT :: u64 where "LOOPS_TO_WAIT = 100000000"

definition BOOT_STATUS :: "linker \<Rightarrow> u64" where
  "BOOT_STATUS ln = SMP_BOOT_ADDR + status_code ln - ap_boot_start ln"

definition BOOT_STACK :: "linker \<Rightarrow> u64" where
  "BOOT_STACK ln = SMP_BOOT_ADDR + ap_stack_ptr ln - ap_boot_start ln"

text \<open>
  The polling loop: \<open>answer\<close> is the number of polls that still read 0, \<open>None\<close> if the processor
  never reports. The value is \<open>cnt\<close> behind the loop.
\<close>

function wait_status :: "u64 option \<Rightarrow> u64 \<Rightarrow> u64" where
  "wait_status answer cnt =
     (if answer = Some cnt then cnt
      else if cnt < LOOPS_TO_WAIT then wait_status answer (cnt + 1)
      else cnt + 1)"
  by pat_completeness auto
termination
  by (relation "measure (\<lambda>(answer, cnt). unat LOOPS_TO_WAIT - unat cnt)") (auto intro: count_up_measure)

declare wait_status.simps [simp del]

definition smp_boot_cpu ::
    "linker \<Rightarrow> (u8 \<Rightarrow> u64 option) \<Rightarrow> 'a machine_scheme \<Rightarrow> u8 \<Rightarrow> (bool \<times> 'a machine_scheme) result" where
  "smp_boot_cpu ln answer m lapic =
     rbind (alloc_phys_frame (k_phys (m_kernel m))) (\<lambda>(stack, p).
       if stack = 0 then Inl (Panic ''running out of memory'')
       else rbind (vm_map_page ((m_kernel m)\<lparr>k_phys := p\<rparr>) stack (PGT_P OR PGT_RW OR PGT_XD)) (\<lambda>(va, k).
         if va = 0 then Inl (Panic ''running out of va mapping'')
         else rbind (wr64 k (BOOT_STATUS ln) 0) (\<lambda>k.
              rbind (wr64 k (BOOT_STACK ln) (va + PG_SIZE)) (\<lambda>k.
              rbind (lapic_send_ipi (m\<lparr>m_kernel := k\<rparr>) (ucast lapic)
                       (LAPIC_ICR_TM_LEVEL OR LAPIC_ICR_LEVELASSERT OR LAPIC_ICR_DM_INIT)) (\<lambda>m.
              rbind (lapic_send_ipi m (ucast lapic)
                       (LAPIC_ICR_DM_SIPI OR (ucast (drop_bit 12 SMP_BOOT_ADDR) AND 0xFF))) (\<lambda>m.
                Inr (wait_status (answer lapic) 0 < LOOPS_TO_WAIT, m)))))))"

text \<open>The number of processors that fail to start.\<close>

function sec_loop ::
    "linker \<Rightarrow> (u8 \<Rightarrow> u64 option) \<Rightarrow> u16 \<Rightarrow> 'a imachine_scheme \<Rightarrow> u16 \<Rightarrow> u16 \<Rightarrow> (u16 \<times> 'a imachine_scheme) result" where
  "sec_loop ln answer cpus m i count =
     (if i < cpus
      then rbind (tget (lapic_ids (m_plat m)) (ucast i)) (\<lambda>lapic.
           rbind (smp_boot_cpu ln answer m lapic) (\<lambda>(ok, m).
             if ok then sec_loop ln answer cpus m (i + 1) count
             else rbind (iprintf m (''%s: Failed to boot cpu %u'' @ [CHR 0x0A])
                    [VStr (Some ''acpi_sec_init''), VInt (ucast lapic)]) (\<lambda>m.
                  sec_loop ln answer cpus m (i + 1) (count + 1))))
      else Inr (count, m))"
  by pat_completeness auto
termination
  by (relation "measure (\<lambda>(ln, answer, cpus, m, i, count). unat cpus - unat i)") (auto intro: count_up_measure)

declare sec_loop.simps [simp del]

definition acpi_sec_init :: "linker \<Rightarrow> (u8 \<Rightarrow> u64 option) \<Rightarrow> 'a imachine_scheme \<Rightarrow> 'a imachine_scheme result" where
  "acpi_sec_init ln answer m =
     rbind (sec_loop ln answer (g_cpus (m_plat m)) m 1 0) (\<lambda>(count, m).
       Inr (upd_plat (\<lambda>p. p\<lparr>g_cpus := g_cpus p - count\<rparr>) m))"

text \<open>The TSS of a processor: its stack, a descriptor and the task register.\<close>

definition setup_tss :: "linker \<Rightarrow> 'a pmachine_scheme \<Rightarrow> u64 \<Rightarrow> 'a pmachine_scheme result" where
  "setup_tss ln m stack =
     rbind (get_pcpu_id ln m) (\<lambda>cpu.
     rbind (percpu_pointer m cpu (off_cpu_tss ln)) (\<lambda>tss_ptr.
     rbind (wr64 (m_kernel m) (field tss_ptr tss_t [''rsp'']) stack) (\<lambda>k.
     rbind (alloc_tss_desc (m_gdt m) tss_ptr) (\<lambda>(selector, g).
       Inr (m\<lparr>m_kernel := k, m_gdt := g, m_tr := selector\<rparr>)))))"

text \<open>The start of another processor, up to the rendezvous; \<open>sp\<close> is its stack pointer.\<close>

definition ap_main_start :: "linker \<Rightarrow> 'a pmachine_scheme \<Rightarrow> u64 \<Rightarrow> 'a pmachine_scheme result" where
  "ap_main_start ln m sp =
     rbind (percpu_init ln m) (\<lambda>m.
     rbind (wr64 (m_kernel m) (BOOT_STATUS ln) 1) (\<lambda>k.
     rbind (get_pcpu_id ln (m\<lparr>m_kernel := k\<rparr>)) (\<lambda>cpu.
     rbind (lapic_init (m\<lparr>m_kernel := k\<rparr>) cpu) (\<lambda>m.
       setup_tss ln m ((sp AND PG_MASK) + PG_SIZE)))))"

section \<open>The IOMMU\<close>

definition IOMMU_VERSION :: u16 where "IOMMU_VERSION = 0x0"
definition IOMMU_CAP :: u16 where "IOMMU_CAP = 0x8"
definition IOMMU_EXT_CAP :: u16 where "IOMMU_EXT_CAP = 0x10"

definition iommu_read32 :: "kernel \<Rightarrow> u64 \<Rightarrow> u16 \<Rightarrow> u32 result" where
  "iommu_read32 k reg_base reg = rd32 k (reg_base + ucast reg)"

definition iommu_read64 :: "kernel \<Rightarrow> u64 \<Rightarrow> u16 \<Rightarrow> u64 result" where
  "iommu_read64 k reg_base reg = rd64 k (reg_base + ucast reg)"

definition iommu_init :: "'a imachine_scheme \<Rightarrow> u64 \<Rightarrow> (u64 \<times> 'a imachine_scheme) result" where
  "iommu_init m base =
     rbind (vm_map_page (m_kernel m) base DEVICE_FLAGS) (\<lambda>(reg_base, k).
       if reg_base = 0 then Inl (Panic ''vm_map_page failed for IOMMU base'')
       else rbind (iommu_read32 k reg_base IOMMU_VERSION) (\<lambda>ver.
            rbind (iommu_read64 k reg_base IOMMU_CAP) (\<lambda>cap.
            rbind (iommu_read64 k reg_base IOMMU_EXT_CAP) (\<lambda>ext.
            rbind (iprintf (m\<lparr>m_kernel := k\<rparr>) (''ver %X, cap %llX, ext cap %llX'' @ [CHR 0x0A])
                     [VInt (ucast ver), VInt cap, VInt ext]) (\<lambda>m. Inr (reg_base, m))))))"

end
