(* ===== verification/Multiboot.thy ===== *)
theory Multiboot
  imports Acpi Strings
begin

text \<open>
  The boot information: the tags of \<^verbatim>\<open>include/multiboot2.h\<close> as C layouts, and the part of
  \<open>kernel_main\<close> (\<^verbatim>\<open>boot/init.c\<close>) that walks them: the memory map becomes the free frames, the
  frame buffer and the ACPI root pointer are found, the kernel image and the modules are taken out
  of the free frames. The information is read through the page tables of the boot code. The loops
  advance by sizes that the structure itself gives, so they have fuel.
\<close>

section \<open>Tags\<close>

definition MULTIBOOT2_BOOTLOADER_MAGIC :: u64 where "MULTIBOOT2_BOOTLOADER_MAGIC = 0x36d76289"
definition MULTIBOOT_TAG_TYPE_END :: u32 where "MULTIBOOT_TAG_TYPE_END = 0"
definition MULTIBOOT_TAG_TYPE_CMDLINE :: u32 where "MULTIBOOT_TAG_TYPE_CMDLINE = 1"
definition MULTIBOOT_TAG_TYPE_BOOT_LOADER_NAME :: u32 where "MULTIBOOT_TAG_TYPE_BOOT_LOADER_NAME = 2"
definition MULTIBOOT_TAG_TYPE_MODULE :: u32 where "MULTIBOOT_TAG_TYPE_MODULE = 3"
definition MULTIBOOT_TAG_TYPE_BASIC_MEMINFO :: u32 where "MULTIBOOT_TAG_TYPE_BASIC_MEMINFO = 4"
definition MULTIBOOT_TAG_TYPE_BOOTDEV :: u32 where "MULTIBOOT_TAG_TYPE_BOOTDEV = 5"
definition MULTIBOOT_TAG_TYPE_MMAP :: u32 where "MULTIBOOT_TAG_TYPE_MMAP = 6"
definition MULTIBOOT_TAG_TYPE_VBE :: u32 where "MULTIBOOT_TAG_TYPE_VBE = 7"
definition MULTIBOOT_TAG_TYPE_FRAMEBUFFER :: u32 where "MULTIBOOT_TAG_TYPE_FRAMEBUFFER = 8"
definition MULTIBOOT_TAG_TYPE_ELF_SECTIONS :: u32 where "MULTIBOOT_TAG_TYPE_ELF_SECTIONS = 9"
definition MULTIBOOT_TAG_TYPE_APM :: u32 where "MULTIBOOT_TAG_TYPE_APM = 10"
definition MULTIBOOT_TAG_TYPE_EFI32 :: u32 where "MULTIBOOT_TAG_TYPE_EFI32 = 11"
definition MULTIBOOT_TAG_TYPE_EFI64 :: u32 where "MULTIBOOT_TAG_TYPE_EFI64 = 12"
definition MULTIBOOT_TAG_TYPE_SMBIOS :: u32 where "MULTIBOOT_TAG_TYPE_SMBIOS = 13"
definition MULTIBOOT_TAG_TYPE_ACPI_OLD :: u32 where "MULTIBOOT_TAG_TYPE_ACPI_OLD = 14"
definition MULTIBOOT_TAG_TYPE_ACPI_NEW :: u32 where "MULTIBOOT_TAG_TYPE_ACPI_NEW = 15"
definition MULTIBOOT_TAG_TYPE_NETWORK :: u32 where "MULTIBOOT_TAG_TYPE_NETWORK = 16"
definition MULTIBOOT_TAG_TYPE_EFI_MMAP :: u32 where "MULTIBOOT_TAG_TYPE_EFI_MMAP = 17"
definition MULTIBOOT_TAG_TYPE_EFI_BS :: u32 where "MULTIBOOT_TAG_TYPE_EFI_BS = 18"
definition MULTIBOOT_TAG_TYPE_EFI32_IH :: u32 where "MULTIBOOT_TAG_TYPE_EFI32_IH = 19"
definition MULTIBOOT_TAG_TYPE_EFI64_IH :: u32 where "MULTIBOOT_TAG_TYPE_EFI64_IH = 20"
definition MULTIBOOT_TAG_TYPE_LOAD_BASE_ADDR :: u32 where "MULTIBOOT_TAG_TYPE_LOAD_BASE_ADDR = 21"
definition MULTIBOOT_MEMORY_AVAILABLE :: u32 where "MULTIBOOT_MEMORY_AVAILABLE = 1"
definition MULTIBOOT_MEMORY_RESERVED :: u32 where "MULTIBOOT_MEMORY_RESERVED = 2"
definition MULTIBOOT_MEMORY_ACPI_RECLAIMABLE :: u32 where "MULTIBOOT_MEMORY_ACPI_RECLAIMABLE = 3"
definition MULTIBOOT_MEMORY_NVS :: u32 where "MULTIBOOT_MEMORY_NVS = 4"
definition MULTIBOOT_MEMORY_BADRAM :: u32 where "MULTIBOOT_MEMORY_BADRAM = 5"

definition multiboot_color :: ctype where
  "multiboot_color = Aligned
     [(''red'', uint8), (''green'', uint8), (''blue'', uint8)]"

definition multiboot_mmap_entry :: ctype where
  "multiboot_mmap_entry = Aligned
     [(''addr'', uint64), (''len'', uint64), (''type'', uint32), (''zero'', uint32)]"

definition multiboot_tag :: ctype where
  "multiboot_tag = Aligned
     [(''type'', uint32), (''size'', uint32)]"

definition multiboot_tag_string :: ctype where
  "multiboot_tag_string = Aligned
     [(''type'', uint32), (''size'', uint32), (''string'', Array 0 uint8)]"

definition multiboot_tag_module :: ctype where
  "multiboot_tag_module = Aligned
     [(''type'', uint32), (''size'', uint32), (''mod_start'', uint32), (''mod_end'', uint32),
      (''cmdline'', Array 0 uint8)]"

definition multiboot_tag_basic_meminfo :: ctype where
  "multiboot_tag_basic_meminfo = Aligned
     [(''type'', uint32), (''size'', uint32), (''mem_lower'', uint32), (''mem_upper'', uint32)]"

definition multiboot_tag_bootdev :: ctype where
  "multiboot_tag_bootdev = Aligned
     [(''type'', uint32), (''size'', uint32), (''biosdev'', uint32), (''slice'', uint32),
      (''part'', uint32)]"

definition multiboot_tag_mmap :: ctype where
  "multiboot_tag_mmap = Aligned
     [(''type'', uint32), (''size'', uint32), (''entry_size'', uint32),
      (''entry_version'', uint32), (''entries'', Array 0 multiboot_mmap_entry)]"

definition multiboot_vbe_info_block :: ctype where
  "multiboot_vbe_info_block = Aligned
     [(''external_specification'', Array 512 uint8)]"

definition multiboot_vbe_mode_info_block :: ctype where
  "multiboot_vbe_mode_info_block = Aligned
     [(''external_specification'', Array 256 uint8)]"

definition multiboot_tag_vbe :: ctype where
  "multiboot_tag_vbe = Aligned
     [(''type'', uint32), (''size'', uint32), (''vbe_mode'', uint16),
      (''vbe_interface_seg'', uint16), (''vbe_interface_off'', uint16),
      (''vbe_interface_len'', uint16), (''vbe_control_info'', multiboot_vbe_info_block),
      (''vbe_mode_info'', multiboot_vbe_mode_info_block)]"

definition multiboot_tag_framebuffer_common :: ctype where
  "multiboot_tag_framebuffer_common = Aligned
     [(''type'', uint32), (''size'', uint32), (''framebuffer_addr'', uint64),
      (''framebuffer_pitch'', uint32), (''framebuffer_width'', uint32),
      (''framebuffer_height'', uint32), (''framebuffer_bpp'', uint8),
      (''framebuffer_type'', uint8), (''reserved'', uint16)]"

definition multiboot_tag_framebuffer :: ctype where
  "multiboot_tag_framebuffer = Aligned
     [(''common'', multiboot_tag_framebuffer_common),
      (''u'', Union
        [(''palette'', Aligned
           [(''framebuffer_palette_num_colors'', uint16), (''framebuffer_palette'', Array 0 multiboot_color)]),
         (''rgb'', Aligned
           [(''framebuffer_red_field_position'', uint8), (''framebuffer_red_mask_size'', uint8),
            (''framebuffer_green_field_position'', uint8), (''framebuffer_green_mask_size'', uint8),
            (''framebuffer_blue_field_position'', uint8), (''framebuffer_blue_mask_size'', uint8)])])]"

definition multiboot_tag_elf_sections :: ctype where
  "multiboot_tag_elf_sections = Aligned
     [(''type'', uint32), (''size'', uint32), (''num'', uint32), (''entsize'', uint32),
      (''shndx'', uint32), (''sections'', Array 0 uint8)]"

definition multiboot_tag_apm :: ctype where
  "multiboot_tag_apm = Aligned
     [(''type'', uint32), (''size'', uint32), (''version'', uint16), (''cseg'', uint16),
      (''offset'', uint32), (''cseg_16'', uint16), (''dseg'', uint16), (''flags'', uint16),
      (''cseg_len'', uint16), (''cseg_16_len'', uint16), (''dseg_len'', uint16)]"

definition multiboot_tag_efi32 :: ctype where
  "multiboot_tag_efi32 = Aligned
     [(''type'', uint32), (''size'', uint32), (''pointer'', uint32)]"

definition multiboot_tag_efi64 :: ctype where
  "multiboot_tag_efi64 = Aligned
     [(''type'', uint32), (''size'', uint32), (''pointer'', uint64)]"

definition multiboot_tag_smbios :: ctype where
  "multiboot_tag_smbios = Aligned
     [(''type'', uint32), (''size'', uint32), (''major'', uint8), (''minor'', uint8),
      (''reserved'', Array 6 uint8), (''tables'', Array 0 uint8)]"

definition multiboot_tag_old_acpi :: ctype where
  "multiboot_tag_old_acpi = Aligned
     [(''type'', uint32), (''size'', uint32), (''rsdp'', Array 0 uint8)]"

definition multiboot_tag_new_acpi :: ctype where
  "multiboot_tag_new_acpi = Aligned
     [(''type'', uint32), (''size'', uint32), (''rsdp'', Array 0 uint8)]"

definition multiboot_tag_network :: ctype where
  "multiboot_tag_network = Aligned
     [(''type'', uint32), (''size'', uint32), (''dhcpack'', Array 0 uint8)]"

definition multiboot_tag_efi_mmap :: ctype where
  "multiboot_tag_efi_mmap = Aligned
     [(''type'', uint32), (''size'', uint32), (''descr_size'', uint32), (''descr_vers'', uint32),
      (''efi_mmap'', Array 0 uint8)]"

definition multiboot_tag_efi32_ih :: ctype where
  "multiboot_tag_efi32_ih = Aligned
     [(''type'', uint32), (''size'', uint32), (''pointer'', uint32)]"

definition multiboot_tag_efi64_ih :: ctype where
  "multiboot_tag_efi64_ih = Aligned
     [(''type'', uint32), (''size'', uint32), (''pointer'', uint64)]"

definition multiboot_tag_load_base_addr :: ctype where
  "multiboot_tag_load_base_addr = Aligned
     [(''type'', uint32), (''size'', uint32), (''load_base_addr'', uint32)]"

section \<open>State\<close>

text \<open>
  The members of \<open>boot_info_t\<close> that this part of the code sets, the address of the frame buffer, and
  the local variables \<open>rsdp\<close> and \<open>mem_limit\<close>.
\<close>

record boot =
  b_kernel :: kernel
  b_frameBuf :: u64
  b_rsdp :: u64
  b_mem_limit :: u64
  config_paddr :: u64
  config_size :: u32
  num_mod :: u16

text \<open>The linker's symbols: the start of the image and the sizes of its parts in pages.\<close>

record image =
  boot_start :: u64
  boot_pages :: u64
  kernel_code_pages :: u64
  kernel_ro_pages :: u64
  kernel_rw_pages :: u64

abbreviation upd_phys :: "kernel \<Rightarrow> phys \<Rightarrow> kernel" where
  "upd_phys k p \<equiv> k\<lparr>k_phys := p\<rparr>"

definition next_tag :: "u64 \<Rightarrow> u32 \<Rightarrow> u64" where
  "next_tag tag sz = tag + ucast ((sz + 7) AND NOT 7)"

section \<open>The memory map\<close>

fun mmap_loop :: "nat \<Rightarrow> boot \<Rightarrow> u64 \<Rightarrow> u64 \<Rightarrow> boot result" where
  "mmap_loop 0 b tag mmap = Inl OutOfFuel"
| "mmap_loop (Suc fuel) b tag mmap =
     rbind (rd32 (b_kernel b) (field tag multiboot_tag [''size''])) (\<lambda>sz.
       if mmap < tag + ucast sz
       then rbind (rd32 (b_kernel b) (field mmap multiboot_mmap_entry [''type''])) (\<lambda>type.
            rbind (if type = MULTIBOOT_MEMORY_AVAILABLE
                   then rbind (rd64 (b_kernel b) (field mmap multiboot_mmap_entry [''addr''])) (\<lambda>addr.
                        rbind (rd64 (b_kernel b) (field mmap multiboot_mmap_entry [''len''])) (\<lambda>len.
                        rbind (physical_free_range (k_phys (b_kernel b)) addr len) (\<lambda>p.
                          let mem_end = addr + len;
                              b = b\<lparr>b_kernel := upd_phys (b_kernel b) p\<rparr>
                          in Inr (if mem_end > b_mem_limit b then b\<lparr>b_mem_limit := mem_end\<rparr> else b))))
                   else Inr b) (\<lambda>b.
            rbind (rd32 (b_kernel b) (field tag multiboot_tag_mmap [''entry_size''])) (\<lambda>entry_size.
              mmap_loop fuel b tag (mmap + ucast entry_size))))
       else Inr b)"

definition parse_tag :: "nat \<Rightarrow> boot \<Rightarrow> u64 \<Rightarrow> u32 \<Rightarrow> boot result" where
  "parse_tag fuel b tag type =
     (if type = MULTIBOOT_TAG_TYPE_MMAP
      then mmap_loop fuel b tag (field tag multiboot_tag_mmap [''entries''])
      else if type = MULTIBOOT_TAG_TYPE_FRAMEBUFFER
      then rbind (rd64 (b_kernel b) (field tag multiboot_tag_framebuffer [''common'', ''framebuffer_addr''])) (\<lambda>a.
             Inr (b\<lparr>b_frameBuf := a\<rparr>))
      else if type = MULTIBOOT_TAG_TYPE_ACPI_OLD
      then Inr (b\<lparr>b_rsdp := field tag multiboot_tag_old_acpi [''rsdp'']\<rparr>)
      else if type = MULTIBOOT_TAG_TYPE_ACPI_NEW
      then Inr (b\<lparr>b_rsdp := field tag multiboot_tag_new_acpi [''rsdp'']\<rparr>)
      else Inr b)"

fun tags_loop :: "nat \<Rightarrow> boot \<Rightarrow> u64 \<Rightarrow> boot result" where
  "tags_loop 0 b tag = Inl OutOfFuel"
| "tags_loop (Suc fuel) b tag =
     rbind (rd32 (b_kernel b) (field tag multiboot_tag [''type''])) (\<lambda>type.
       if type \<noteq> MULTIBOOT_TAG_TYPE_END
       then rbind (parse_tag fuel b tag type) (\<lambda>b.
            rbind (rd32 (b_kernel b) (field tag multiboot_tag [''size''])) (\<lambda>sz.
              tags_loop fuel b (next_tag tag sz)))
       else Inr b)"

section \<open>Memory that is not free\<close>

definition take_range :: "boot \<Rightarrow> u64 \<Rightarrow> u64 \<Rightarrow> boot result" where
  "take_range b start len =
     rbind (physical_take_range (k_phys (b_kernel b)) start len) (\<lambda>p. Inr (b\<lparr>b_kernel := upd_phys (b_kernel b) p\<rparr>))"

definition take_image :: "image \<Rightarrow> boot \<Rightarrow> boot result" where
  "take_image im b =
     rbind (physical_set_limit (k_phys (b_kernel b)) (b_mem_limit b)) (\<lambda>p.
     rbind (take_range (b\<lparr>b_kernel := upd_phys (b_kernel b) p\<rparr>) 0 PG_SIZE) (\<lambda>b.
       take_range b (boot_start im)
         ((boot_pages im + kernel_code_pages im + kernel_ro_pages im + kernel_rw_pages im) * PG_SIZE)))"

text \<open>
  \<open>strncmp\<close> of a string in memory with a literal of the program, given with its terminator.
\<close>

fun strncmp_lit :: "kernel \<Rightarrow> u64 \<Rightarrow> u8 list \<Rightarrow> nat \<Rightarrow> u8 \<Rightarrow> u8 \<Rightarrow> int result" where
  "strncmp_lit k s1 s2 0 c1 c2 = Inr (uint c1 - uint c2)"
| "strncmp_lit k s1 [] (Suc n) c1 c2 = Inl OutOfBounds"
| "strncmp_lit k s1 (c2 # s2) (Suc n) c1 c2' =
     rbind (rd8 k s1) (\<lambda>c1.
       if c1 = 0 \<or> c1 \<noteq> c2 then Inr (uint c1 - uint c2) else strncmp_lit k (s1 + 1) s2 n c1 c2)"

definition CONFIG :: "u8 list" where "CONFIG = [0x63, 0x6F, 0x6E, 0x66, 0x69, 0x67, 0]"

definition take_module :: "boot \<Rightarrow> u64 \<Rightarrow> boot result" where
  "take_module b tag =
     rbind (rd32 (b_kernel b) (field tag multiboot_tag_module [''mod_start''])) (\<lambda>mod_start.
     rbind (rd32 (b_kernel b) (field tag multiboot_tag_module [''mod_end''])) (\<lambda>mod_end.
     rbind (strncmp_lit (b_kernel b) (field tag multiboot_tag_module [''cmdline'']) CONFIG 7 0 0) (\<lambda>c.
       let b = (if c = 0
                then b\<lparr>config_paddr := ucast mod_start, config_size := mod_end - mod_start\<rparr>
                else b\<lparr>num_mod := num_mod b + 1\<rparr>)
       in take_range b (ucast mod_start) (ucast (mod_end - mod_start)))))"

fun modules_loop :: "nat \<Rightarrow> boot \<Rightarrow> u64 \<Rightarrow> boot result" where
  "modules_loop 0 b tag = Inl OutOfFuel"
| "modules_loop (Suc fuel) b tag =
     rbind (rd32 (b_kernel b) (field tag multiboot_tag [''type''])) (\<lambda>type.
       if type \<noteq> MULTIBOOT_TAG_TYPE_END
       then rbind (if type = MULTIBOOT_TAG_TYPE_MODULE then take_module b tag else Inr b) (\<lambda>b.
            rbind (rd32 (b_kernel b) (field tag multiboot_tag [''size''])) (\<lambda>sz.
              modules_loop fuel b (next_tag tag sz)))
       else Inr b)"

section \<open>The first part of the boot\<close>

text \<open>\<open>None\<close> when \<open>kernel_main\<close> returns because of a wrong magic number or a structure that is too big.\<close>

definition boot_memory :: "nat \<Rightarrow> image \<Rightarrow> boot \<Rightarrow> u64 \<Rightarrow> u64 \<Rightarrow> boot option result" where
  "boot_memory fuel im b magic mbi =
     (if magic \<noteq> MULTIBOOT2_BOOTLOADER_MAGIC then Inr None
      else rbind (rd32 (b_kernel b) mbi) (\<lambda>total.
        if ucast total > PG_SIZE then Inr None
        else rbind (tags_loop fuel b (mbi + 8)) (\<lambda>b.
             rbind (take_image im b) (\<lambda>b.
             rbind (modules_loop fuel b (mbi + 8)) (\<lambda>b.
               if config_size b = 0 then Inl (Panic ''Missing config module'')
               else Inr (Some b))))))"

end
