(* ===== verification/Boot_Config.thy ===== *)
theory Boot_Config
  imports Multiboot Malloc
begin

text \<open>
  The configuration of the virtual machines, \<^verbatim>\<open>kernel/boot_info.c\<close>, and the loop of \<open>kernel_main\<close>
  that looks up the addresses of the modules by name. The arrays of \<open>boot_info_t\<close> are pieces of the
  heap, their elements are stored in the heap's memory.
\<close>

definition BOOT_STRING_MAX :: u64 where "BOOT_STRING_MAX = 32"

text \<open>The pointer members of \<open>boot_info_t\<close>; the others are in the record of the boot.\<close>

record boot_arrays =
  mod_str :: u64
  mod_paddr :: u64
  mod_size :: u64
  bi_num_cpus :: u64
  bi_ram_size :: u64

fun put_bytes :: "mem \<Rightarrow> u64 \<Rightarrow> u8 list \<Rightarrow> mem" where
  "put_bytes m a [] = m"
| "put_bytes m a (b # bs) = put_bytes (m(a := b)) (a + 1) bs"

definition LINUX :: "u8 list" where "LINUX = [0x6C, 0x69, 0x6E, 0x75, 0x78, 0]"
definition INITRD :: "u8 list" where "INITRD = [0x69, 0x6E, 0x69, 0x74, 0x72, 0x64, 0]"

definition malloc_checked :: "heap \<Rightarrow> u32 \<Rightarrow> string \<Rightarrow> (u64 \<times> heap) result" where
  "malloc_checked h sz msg = rbind (malloc h sz) (\<lambda>(p, h). if p = 0 then Inl (Panic msg) else Inr (p, h))"

definition config_pages :: "u32 \<Rightarrow> u8" where
  "config_pages sz =
     (let len = ucast sz :: u64
      in if len mod PG_SIZE = 0 then ucast (drop_bit PG_BITS len) else ucast (drop_bit PG_BITS len + 1))"

definition alloc_arrays :: "heap \<Rightarrow> u16 \<Rightarrow> (boot_arrays \<times> heap) result" where
  "alloc_arrays h n =
     rbind (malloc_checked h (8 * ucast n) ''Failed malloc for mod_str'') (\<lambda>(str, h).
     rbind (malloc_checked h (8 * ucast n) ''Failed malloc for mod_paddr'') (\<lambda>(paddr, h).
     rbind (malloc_checked h (8 * ucast n) ''Failed malloc for mod_size'') (\<lambda>(sz, h).
     rbind (malloc_checked h (2 * ucast n) ''Failed malloc for num_cpus'') (\<lambda>(cpus, h).
     rbind (malloc_checked h (4 * ucast n) ''Failed malloc for ram_size'') (\<lambda>(ram, h).
       Inr (\<lparr>mod_str = str, mod_paddr = paddr, mod_size = sz, bi_num_cpus = cpus, bi_ram_size = ram\<rparr>, h))))))"

text \<open>The fixed configuration: one VM with one CPU and 2MB, and its ramdisk.\<close>

definition fill_arrays :: "heap \<Rightarrow> boot_arrays \<Rightarrow> heap result" where
  "fill_arrays h a =
     rbind (malloc h (ucast BOOT_STRING_MAX)) (\<lambda>(s0, h).
       let h = upd_mem h (\<lambda>m. store64 m (mod_str a) s0);
           h = upd_mem h (\<lambda>m. put_bytes m (load64 m (mod_str a)) LINUX);
           h = upd_mem h (\<lambda>m. store16 m (bi_num_cpus a) 1);
           h = upd_mem h (\<lambda>m. store32 m (bi_ram_size a) 2)
       in rbind (malloc h (ucast BOOT_STRING_MAX)) (\<lambda>(s1, h).
            let h = upd_mem h (\<lambda>m. store64 m (mod_str a + 8) s1)
            in Inr (upd_mem h (\<lambda>m. put_bytes m (load64 m (mod_str a + 8)) INITRD))))"

definition parse_boot_info :: "boot \<Rightarrow> heap \<Rightarrow> (boot_arrays \<times> boot \<times> heap) result" where
  "parse_boot_info b h =
     (if config_paddr b AND NOT PG_MASK \<noteq> 0 then Inl (Panic ''Config module not aligned to 4KB'')
      else let pages = ucast (config_pages (config_size b)) :: u64
           in rbind (vm_map_pages (b_kernel b) (config_paddr b) pages (PGT_P OR PGT_XD)) (\<lambda>(addr, k).
                if addr = 0 then Inl (Panic ''Failed to map config module'')
                else if num_mod b = 0 then Inl (Panic ''Missing VM images'')
                else rbind (alloc_arrays h (num_mod b)) (\<lambda>(a, h).
                     rbind (fill_arrays h a) (\<lambda>h.
                     rbind (vm_unmap_pages k addr pages) (\<lambda>(_, k). Inr (a, b\<lparr>b_kernel := k\<rparr>, h))))))"

section \<open>The addresses of the modules\<close>

text \<open>\<open>strncmp\<close> of a string in the heap with one in the boot information.\<close>

fun strncmp_boot :: "heap \<Rightarrow> kernel \<Rightarrow> u64 \<Rightarrow> u64 \<Rightarrow> nat \<Rightarrow> u8 \<Rightarrow> u8 \<Rightarrow> int result" where
  "strncmp_boot h k s1 s2 0 c1 c2 = Inr (uint c1 - uint c2)"
| "strncmp_boot h k s1 s2 (Suc n) c1 c2 =
     (let c1 = h_mem h s1
      in rbind (rd8 k s2) (\<lambda>c2.
           if c1 = 0 \<or> c1 \<noteq> c2 then Inr (uint c1 - uint c2) else strncmp_boot h k (s1 + 1) (s2 + 1) n c1 c2))"

function match_loop :: "boot \<Rightarrow> boot_arrays \<Rightarrow> heap \<Rightarrow> u64 \<Rightarrow> u16 \<Rightarrow> heap result" where
  "match_loop b a h tag i =
     (if i < num_mod b
      then let k = b_kernel b
           in rbind (strncmp_boot h k (load64 (h_mem h) (mod_str a + 8 * ucast i))
                (field tag multiboot_tag_module [''cmdline'']) (unat BOOT_STRING_MAX) 0 0) (\<lambda>c.
              rbind (if c = 0
                then rbind (rd32 k (field tag multiboot_tag_module [''mod_start''])) (\<lambda>mod_start.
                     rbind (rd32 k (field tag multiboot_tag_module [''mod_end''])) (\<lambda>mod_end.
                       let h = upd_mem h (\<lambda>m. store64 m (mod_paddr a + 8 * ucast i) (ucast mod_start))
                       in Inr (upd_mem h (\<lambda>m. store64 m (mod_size a + 8 * ucast i) (ucast (mod_end - mod_start))))))
                else Inr h) (\<lambda>h. match_loop b a h tag (i + 1)))
      else Inr h)"
  by pat_completeness auto
termination
  by (relation "measure (\<lambda>(b, a, h, tag, i). unat (num_mod b) - unat i)") (auto intro: count_up_measure)

declare match_loop.simps [simp del]

fun match_modules :: "nat \<Rightarrow> boot \<Rightarrow> boot_arrays \<Rightarrow> heap \<Rightarrow> u64 \<Rightarrow> heap result" where
  "match_modules 0 b a h tag = Inl OutOfFuel"
| "match_modules (Suc fuel) b a h tag =
     rbind (rd32 (b_kernel b) (field tag multiboot_tag [''type''])) (\<lambda>type.
       if type \<noteq> MULTIBOOT_TAG_TYPE_END
       then rbind (if type = MULTIBOOT_TAG_TYPE_MODULE then match_loop b a h tag 0 else Inr h) (\<lambda>h.
            rbind (rd32 (b_kernel b) (field tag multiboot_tag [''size''])) (\<lambda>sz.
              match_modules fuel b a h (next_tag tag sz)))
       else Inr h)"

end
