(* ===== verification/Guest_Memory.thy ===== *)
theory Guest_Memory
  imports Acpi Linux Vmx_Setup
begin

text \<open>
  The memory of the guest, \<^verbatim>\<open>arch/x86_64/virt/mem.c\<close>: every function of the file. Linux gets a zero
  page with its boot parameters, its kernel and ramdisk relocated to 2MB boundaries, and a memory map
  of what is free; the extended page tables then translate the guest's physical addresses. The
  functions run on the kernel state with its page tables; the loop over the free ranges has fuel, and
  its value also holds the ranges it prints, which are the entries of the table.
\<close>

section \<open>Constants\<close>

definition EPT_RD :: u64 where "EPT_RD = 0x1"
definition EPT_WR :: u64 where "EPT_WR = 0x2"
definition EPT_EX :: u64 where "EPT_EX = 0x4"
definition EPT_TP :: "u64 \<Rightarrow> u64" where "EPT_TP x = push_bit 3 x"
definition EPT_PG :: u64 where "EPT_PG = 0x80"
definition EPT_TYPE_UC :: u64 where "EPT_TYPE_UC = 0"
definition EPT_TYPE_WB :: u64 where "EPT_TYPE_WB = 6"

section \<open>The memory map for Linux\<close>

text \<open>Storing an entry of the table in the zero page.\<close>

definition e820_put :: "kernel \<Rightarrow> u64 \<Rightarrow> u8 \<Rightarrow> u64 \<Rightarrow> u64 \<Rightarrow> kernel result" where
  "e820_put k zero_page mmap_num addr sz =
     (let e = field zero_page boot_params [''e820_table''] + of_nat (sizeof boot_e820_entry) * ucast mmap_num
      in rbind (wr64 k (field e boot_e820_entry [''addr'']) addr) (\<lambda>k.
         rbind (wr64 k (field e boot_e820_entry [''size'']) sz) (\<lambda>k.
         wr32 k (field e boot_e820_entry [''type'']) E820_RAM)))"

text \<open>What becomes of a free range: skipped with a new position, or an entry.\<close>

datatype range_use = Skip u64 u64 | Entry u64 u64

definition range_use_of :: "u64 \<Rightarrow> u64 \<Rightarrow> u64 \<Rightarrow> u64 \<Rightarrow> range_use result" where
  "range_use_of kernel_end start_paddr mmap_start mmap_size =
     (if mmap_start \<ge> kernel_end
      then rbind (ceiling64 mmap_start LARGE_PG_SIZE) (\<lambda>start.
             let tmp = start - mmap_start
             in if tmp \<ge> mmap_size then Inr (Skip start 0)
                else let mmap_size = mmap_size - tmp;
                         tmp = mmap_size AND LARGE_PG_MASK
                     in if tmp < LARGE_PG_SIZE then Inr (Skip start mmap_size)
                        else Inr (Entry start tmp))
      else if mmap_start \<ge> LINUX_ENTRY_POINT \<and> mmap_start < kernel_end then Inr (Skip mmap_start mmap_size)
      else if start_paddr = 0 then Inr (Entry (mmap_start - push_bit PG_BITS 2) (mmap_size + push_bit PG_BITS 2))
      else Inr (Entry mmap_start mmap_size))"

fun e820_loop ::
    "nat \<Rightarrow> kernel \<Rightarrow> u64 \<Rightarrow> u64 \<times> u64 \<times> u64 \<times> u64 \<Rightarrow> u64 \<Rightarrow> u64 \<Rightarrow> u8 \<Rightarrow> bool \<Rightarrow> ((u64 \<times> u64) list \<times> kernel) result" where
  "e820_loop 0 k zero_page env mmap_start mmap_size mmap_num merge_ramdisk = Inl OutOfFuel"
| "e820_loop (Suc fuel) k zero_page (rd_image, rd_size, ramdisk_end, kernel_end) mmap_start mmap_size mmap_num merge_ramdisk =
     (let start_paddr = mmap_start + mmap_size
      in rbind (physical_next_free_range (k_phys k) start_paddr mmap_start) (\<lambda>(mmap_start, mmap_size).
         rbind (if mmap_start \<ge> ramdisk_end \<and> merge_ramdisk
                then rbind (ceiling64 rd_size LARGE_PG_SIZE) (\<lambda>sz.
                     rbind (e820_put k zero_page mmap_num rd_image sz) (\<lambda>k.
                       Inr ([(rd_image, sz)], k, mmap_num + 1, False)))
                else Inr ([], k, mmap_num, merge_ramdisk)) (\<lambda>(out, k, mmap_num, merge_ramdisk).
           if mmap_size = 0 then Inr (out, k)
           else rbind (range_use_of kernel_end start_paddr mmap_start mmap_size) (\<lambda>u. case u of
                  Skip s n \<Rightarrow>
                    rbind (e820_loop fuel k zero_page (rd_image, rd_size, ramdisk_end, kernel_end) s n mmap_num merge_ramdisk)
                      (\<lambda>(out', k). Inr (out @ out', k))
                | Entry s n \<Rightarrow>
                    rbind (e820_put k zero_page mmap_num s n) (\<lambda>k.
                    rbind (physical_take_range (k_phys k) s n) (\<lambda>p.
                    rbind (e820_loop fuel (k\<lparr>k_phys := p\<rparr>) zero_page (rd_image, rd_size, ramdisk_end, kernel_end) s n
                             (mmap_num + 1) merge_ramdisk)
                      (\<lambda>(out', k). Inr (out @ (s, n) # out', k))))))))"

definition virt_setup_e820 :: "nat \<Rightarrow> kernel \<Rightarrow> u64 \<Rightarrow> u64 \<Rightarrow> ((u64 \<times> u64) list \<times> kernel) result" where
  "virt_setup_e820 fuel k zero_page kernel_size =
     rbind (rd32 k (field zero_page boot_params [''hdr'', ''ramdisk_image''])) (\<lambda>rd_image.
     rbind (rd32 k (field zero_page boot_params [''hdr'', ''ramdisk_size''])) (\<lambda>sz.
       let ramdisk_end = ucast (rd_image + sz);
           kernel_end = LINUX_ENTRY_POINT + kernel_size
       in e820_loop fuel k zero_page (ucast rd_image, ucast sz, ramdisk_end, kernel_end) 0 0 0 True))"

section \<open>Allocating and mapping\<close>

text \<open>The pattern of allocating, mapping and checking both.\<close>

definition alloc_frame :: "kernel \<Rightarrow> string \<Rightarrow> (u64 \<times> kernel) result" where
  "alloc_frame k msg =
     rbind (alloc_phys_frame (k_phys k)) (\<lambda>(f, p).
       if f = 0 then Inl (Panic msg) else Inr (f, k\<lparr>k_phys := p\<rparr>))"

definition map_frame :: "kernel \<Rightarrow> u64 \<Rightarrow> u64 \<Rightarrow> string \<Rightarrow> (u64 \<times> kernel) result" where
  "map_frame k frame flags msg =
     rbind (vm_map_page k frame flags) (\<lambda>(va, k). if va = 0 then Inl (Panic msg) else Inr (va, k))"

definition map_large :: "kernel \<Rightarrow> u64 \<Rightarrow> u8 \<Rightarrow> u64 \<Rightarrow> string \<Rightarrow> (u64 \<times> kernel) result" where
  "map_large k frame num flags msg =
     rbind (vm_map_large_pages k frame (ucast num) flags) (\<lambda>(va, k). if va = 0 then Inl (Panic msg) else Inr (va, k))"

definition alloc_large :: "kernel \<Rightarrow> u8 \<Rightarrow> string \<Rightarrow> (u64 \<times> kernel) result" where
  "alloc_large k num msg =
     rbind (alloc_phys_frames_aligned (k_phys k) (push_bit (LARGE_PG_BITS - PG_BITS) (ucast num)) LARGE_PG_SIZE) (\<lambda>(f, p).
       if f = 0 then Inl (Panic msg) else Inr (f, k\<lparr>k_phys := p\<rparr>))"

section \<open>Loading Linux\<close>

fun wr_list :: "kernel \<Rightarrow> u64 \<Rightarrow> u8 list \<Rightarrow> kernel result" where
  "wr_list k a [] = Inr k"
| "wr_list k a (b # bs) = rbind (wr8 k a b) (\<lambda>k. wr_list k (a + 1) bs)"

definition c_string :: "string \<Rightarrow> u8 list" where
  "c_string s = map of_char s @ [0]"

text \<open>The zero page with the setup header of the image: its frame and its address.\<close>

definition setup_zero_page :: "kernel \<Rightarrow> vm_struct_t \<Rightarrow> (u64 \<times> u64 \<times> kernel) result" where
  "setup_zero_page k vm =
     rbind (alloc_phys_frame_lowmem (k_phys k)) (\<lambda>(zero_frame, p).
       if zero_frame = 0 then Inl (Panic ''page allocation for zero_frame failed'')
       else rbind (map_frame (k\<lparr>k_phys := p\<rparr>) zero_frame (PGT_P OR PGT_RW) ''page mapping for zero_frame failed'') (\<lambda>(zero_virt, k).
            rbind (vmemset k zero_virt 0 (unat PG_SIZE)) (\<lambda>k.
              if img_paddr vm AND NOT PG_MASK \<noteq> 0 then Inl (Panic ''Image address not aligned to 4KB'')
              else rbind (map_frame k (img_paddr vm) (PGT_P OR PGT_RW) ''page mapping for header failed'') (\<lambda>(linux_virt, k).
                   let setup = linux_virt + LINUX_HEADER_OFFSET
                   in rbind (rd32 k (field setup setup_header [''header''])) (\<lambda>magic.
                      if magic \<noteq> LINUX_HEADER_MAGIC then Inl (Panic ''Image magic number does not match'')
                      else rbind (vmemcpy k (field zero_virt boot_params [''hdr'']) setup (sizeof setup_header)) (\<lambda>k.
                           rbind (vm_unmap_page k linux_virt) (\<lambda>(_, k). Inr (zero_frame, zero_virt, k))))))))"

text \<open>Both relocations: the frames from, how many large pages there and for the copy.\<close>

definition relocate :: "kernel \<Rightarrow> u64 \<Rightarrow> u64 \<Rightarrow> bool \<Rightarrow> string \<times> string \<times> string \<Rightarrow> (u64 \<times> u64 \<times> u8 \<times> kernel) result" where
  "relocate k start_paddr sz check msgs =
     (let frame = start_paddr AND LARGE_PG_MASK
      in rbind (ceiling64 (start_paddr - frame + sz) LARGE_PG_SIZE) (\<lambda>c.
           let src_pages = ucast (drop_bit LARGE_PG_BITS c) :: u8
           in rbind (map_large k frame src_pages (PGT_P OR PDT_PS) (fst msgs)) (\<lambda>(src_base, k).
                let src_vaddr = src_base + (start_paddr - frame)
                in rbind (ceiling64 sz LARGE_PG_SIZE) (\<lambda>d.
                     let dst_pages = ucast (drop_bit LARGE_PG_BITS d) :: u8
                     in rbind (alloc_large k dst_pages (fst (snd msgs))) (\<lambda>(new_frames, k).
                        rbind (map_large k new_frames dst_pages (PGT_P OR PGT_RW OR PDT_PS) (snd (snd msgs))) (\<lambda>(dst_vaddr, k).
                        rbind (if check then rbind (vm_check_mapping k dst_vaddr) (\<lambda>(_, k). Inr k) else Inr k) (\<lambda>k.
                        rbind (vmemcpy k dst_vaddr src_vaddr (unat sz)) (\<lambda>k.
                        rbind (vm_unmap_large_pages k (src_vaddr - (start_paddr - frame)) (ucast src_pages)) (\<lambda>(_, k).
                          Inr (new_frames, dst_vaddr, dst_pages, k))))))))))"

definition free_old :: "kernel \<Rightarrow> u64 \<Rightarrow> u64 \<Rightarrow> kernel result" where
  "free_old k start len = rbind (physical_free_range (k_phys k) start len) (\<lambda>p. Inr (k\<lparr>k_phys := p\<rparr>))"

definition relocate_kernel :: "kernel \<Rightarrow> vm_struct_t \<Rightarrow> u64 \<Rightarrow> (u64 \<times> vm_struct_t \<times> kernel) result" where
  "relocate_kernel k vm zero_virt =
     rbind (rd8 k (field zero_virt boot_params [''hdr'', ''setup_sects''])) (\<lambda>sects.
       let setup_size = (ucast sects + 1) * LINUX_SECTOR_SZ;
           start_paddr = img_paddr vm + setup_size;
           kernel_size = img_size vm - setup_size
       in rbind (relocate k start_paddr kernel_size True
            (''page mapping for src kernel failed'', ''page allocation for dst kernel failed'',
             ''page mapping for dst kernel failed'')) (\<lambda>(new_frames, dst_vaddr, dst_pages, k).
          rbind (free_old k (img_paddr vm) (img_size vm)) (\<lambda>k.
          rbind (vm_unmap_large_pages k dst_vaddr (ucast dst_pages)) (\<lambda>(_, k).
            Inr (kernel_size, vm\<lparr>img_paddr := new_frames, img_size := kernel_size\<rparr>, k)))))"

definition setup_cmdline :: "kernel \<Rightarrow> vm_struct_t \<Rightarrow> u64 \<Rightarrow> (vm_struct_t \<times> kernel) result" where
  "setup_cmdline k vm zero_virt =
     rbind (alloc_phys_frame_lowmem (k_phys k)) (\<lambda>(cmd_frame, p).
     rbind (vm_map_page (k\<lparr>k_phys := p\<rparr>) cmd_frame (PGT_P OR PGT_RW)) (\<lambda>(gdt_virt, k).
     rbind (wr64 k gdt_virt 0) (\<lambda>k.
     rbind (wr64 k (gdt_virt + 8) 0) (\<lambda>k.
     rbind (wr64 k (gdt_virt + 16) 0xCF9A000000FFFF) (\<lambda>k.
     rbind (wr64 k (gdt_virt + 24) 0xCF92000000FFFF) (\<lambda>k.
     rbind (wr_list k (gdt_virt + drop_bit 1 PG_SIZE) (c_string LINUX_CMD_LINE)) (\<lambda>k.
     rbind (vm_unmap_page k gdt_virt) (\<lambda>(_, k).
     rbind (wr32 k (field zero_virt boot_params [''hdr'', ''cmd_line_ptr'']) (ucast (cmd_frame + drop_bit 1 PG_SIZE))) (\<lambda>k.
     rbind (wr8 k (field zero_virt boot_params [''hdr'', ''type_of_loader'']) 0xFF) (\<lambda>k.
     rbind (rd8 k (field zero_virt boot_params [''hdr'', ''loadflags''])) (\<lambda>f.
     rbind (wr8 k (field zero_virt boot_params [''hdr'', ''loadflags'']) (f AND NOT 0xE0)) (\<lambda>k.
     rbind (wr32 k (field zero_virt boot_params [''hdr'', ''code32_start'']) (ucast (entry_point vm))) (\<lambda>k.
       Inr (vm\<lparr>gdtr := cmd_frame\<rparr>, k))))))))))))))"

definition relocate_ramdisk :: "kernel \<Rightarrow> vm_struct_t \<Rightarrow> u64 \<Rightarrow> (vm_struct_t \<times> kernel) result" where
  "relocate_ramdisk k vm zero_virt =
     rbind (relocate k (extra_paddr vm) (extra_size vm) False
       (''page mapping for src ramdisk failed'', ''page allocation for dst ramdisk failed'',
        ''page mapping for dst ramdisk failed'')) (\<lambda>(new_frames, _, _, k).
     rbind (free_old k (extra_paddr vm) (extra_size vm)) (\<lambda>k.
       let vm = vm\<lparr>extra_paddr := new_frames\<rparr>
       in rbind (wr32 k (field zero_virt boot_params [''hdr'', ''ramdisk_image'']) (ucast (extra_paddr vm))) (\<lambda>k.
          rbind (wr32 k (field zero_virt boot_params [''hdr'', ''ramdisk_size'']) (ucast (extra_size vm))) (\<lambda>k.
            Inr (vm, k)))))"

definition virt_setup_linux :: "nat \<Rightarrow> kernel \<Rightarrow> vm_struct_t \<Rightarrow> (vm_struct_t \<times> kernel) result" where
  "virt_setup_linux fuel k vm =
     rbind (setup_zero_page k vm) (\<lambda>(zero_frame, zero_virt, k).
     rbind (relocate_kernel k vm zero_virt) (\<lambda>(kernel_size, vm, k).
     rbind (setup_cmdline k vm zero_virt) (\<lambda>(vm, k).
     rbind (relocate_ramdisk k vm zero_virt) (\<lambda>(vm, k).
     rbind (virt_setup_e820 fuel k zero_virt kernel_size) (\<lambda>(_, k).
     rbind (vm_unmap_page k zero_virt) (\<lambda>(_, k).
       Inr (vm\<lparr>vm_input := zero_frame\<rparr>, k)))))))"

section \<open>The extended page tables\<close>

definition pt_ept_entry :: "u16 \<Rightarrow> u64 \<Rightarrow> u64" where
  "pt_ept_entry k frame_offset =
     (if k = 0xB8 then frame_offset OR EPT_RD OR EPT_WR OR EPT_TP EPT_TYPE_UC
      else if ucast k < PG_TABLE_ENTRIES div 2
      then frame_offset OR EPT_RD OR EPT_WR OR EPT_EX OR EPT_TP EPT_TYPE_WB
      else (frame_offset + 0x100000000) OR EPT_RD OR EPT_WR OR EPT_EX OR EPT_TP EPT_TYPE_WB)"

text \<open>A new table: its frame, its link in slot \<open>j\<close> of the table at \<open>tab\<close>, its mapping.\<close>

definition new_table :: "kernel \<Rightarrow> u64 \<Rightarrow> u64 \<Rightarrow> string \<times> string \<Rightarrow> (u64 \<times> kernel) result" where
  "new_table st tab j msgs =
     rbind (alloc_frame st (fst msgs)) (\<lambda>(frame, st).
     rbind (vstore64 st (slot tab j) (frame OR EPT_RD OR EPT_WR OR EPT_EX)) (\<lambda>st.
       map_frame st frame (PGT_P OR PGT_RW) (snd msgs)))"

text \<open>The test program at 1MB.\<close>

definition write_test :: "kernel \<Rightarrow> u64 \<Rightarrow> kernel result" where
  "write_test st frame_offset =
     rbind (vm_map_page st (frame_offset + 0x100000000) (PGT_P OR PGT_RW)) (\<lambda>(test_addr, st).
     rbind (wr16 st test_addr 0x05C7) (\<lambda>st.
     rbind (wr16 st (test_addr + 2) 0x8000) (\<lambda>st.
     rbind (wr16 st (test_addr + 4) 0x000B) (\<lambda>st.
     rbind (wr16 st (test_addr + 6) 0x2F4F) (\<lambda>st.
     rbind (wr16 st (test_addr + 8) 0x2F4B) (\<lambda>st.
     rbind (wr16 st (test_addr + 10) 0xF4F4) (\<lambda>st.
     rbind (vm_unmap_page st test_addr) (\<lambda>(_, st). Inr st))))))))"

function fill_pt :: "kernel \<Rightarrow> u64 \<Rightarrow> u64 \<Rightarrow> u16 \<Rightarrow> kernel result" where
  "fill_pt st pt_virt frame_offset k =
     (if k < 512
      then let frame_offset = frame_offset + PG_SIZE
           in rbind (vstore64 st (slot pt_virt (ucast k)) (pt_ept_entry k frame_offset)) (\<lambda>st.
              rbind (if ucast k = PG_TABLE_ENTRIES div 2 then write_test st frame_offset else Inr st) (\<lambda>st.
                fill_pt st pt_virt frame_offset (k + 1)))
      else Inr st)"
  by pat_completeness auto
termination
  by (relation "measure (\<lambda>(st, pt_virt, frame_offset, k). unat (512 :: u16) - unat k)")
     (auto intro: count_up_measure [of _ "512 :: u16", simplified])

declare fill_pt.simps [simp del]

text \<open>The first 2MB: a page table of its own.\<close>

definition first_pdt_entry :: "kernel \<Rightarrow> u64 \<Rightarrow> u64 \<Rightarrow> kernel result" where
  "first_pdt_entry st pdt_virt frame_offset =
     rbind (new_table st pdt_virt 0 (''Failed to allocate a PT frame'', ''Failed to map PT'')) (\<lambda>(pt_virt, st).
     rbind (fill_pt st pt_virt (frame_offset - PG_SIZE) 0) (\<lambda>st.
     rbind (vm_unmap_page st pt_virt) (\<lambda>(_, st). Inr st)))"

definition large_ept_entry :: "u64 \<Rightarrow> u64" where
  "large_ept_entry phy = phy OR EPT_RD OR EPT_WR OR EPT_EX OR EPT_PG OR EPT_TP EPT_TYPE_WB"

text \<open>
  One entry of a page directory; \<open>kernel_phy\<close> and \<open>ramdisk_phy\<close> advance while the images last.
\<close>

definition pdt_ept_step ::
    "kernel \<Rightarrow> vm_struct_t \<Rightarrow> u64 \<Rightarrow> u32 \<Rightarrow> u32 \<Rightarrow> u64 \<times> u64 \<Rightarrow> ((u64 \<times> u64) \<times> kernel) result" where
  "pdt_ept_step st vm pdt_virt i j phys =
     (let (kernel_phy, ramdisk_phy) = phys;
          frame_offset = PG_SIZE * PG_TABLE_ENTRIES * PG_TABLE_ENTRIES * ucast i + PG_SIZE * PG_TABLE_ENTRIES * ucast j
      in if i = 0 \<and> j = 0 then rbind (first_pdt_entry st pdt_virt frame_offset) (\<lambda>st. Inr (phys, st))
         else if kernel_phy < img_size vm + img_paddr vm
         then rbind (vstore64 st (slot pdt_virt (ucast j)) (large_ept_entry kernel_phy)) (\<lambda>st.
                Inr ((kernel_phy + LARGE_PG_SIZE, ramdisk_phy), st))
         else if ramdisk_phy < extra_size vm + extra_paddr vm
         then rbind (vstore64 st (slot pdt_virt (ucast j)) (large_ept_entry ramdisk_phy)) (\<lambda>st.
                Inr ((kernel_phy, ramdisk_phy + LARGE_PG_SIZE), st))
         else rbind (vstore64 st (slot pdt_virt (ucast j)) (large_ept_entry (frame_offset + 0x100000000))) (\<lambda>st.
                Inr (phys, st)))"

function fill_pdt ::
    "kernel \<Rightarrow> vm_struct_t \<Rightarrow> u64 \<Rightarrow> u32 \<Rightarrow> u32 \<Rightarrow> u64 \<times> u64 \<Rightarrow> u32 \<Rightarrow> u32 \<Rightarrow> ((u64 \<times> u64) \<times> u32 \<times> kernel) result" where
  "fill_pdt st vm pdt_virt i j phys count bound =
     (if j < 512
      then rbind (pdt_ept_step st vm pdt_virt i j phys) (\<lambda>(phys, st).
             let count = count + 512
             in if count \<ge> bound then Inr (phys, count, st)
                else fill_pdt st vm pdt_virt i (j + 1) phys count bound)
      else Inr (phys, count, st))"
  by pat_completeness auto
termination
  by (relation "measure (\<lambda>(st, vm, pdt_virt, i, j, phys, count, bound). unat (512 :: u32) - unat j)")
     (auto intro: count_up_measure [of _ "512 :: u32", simplified])

function fill_pdpt ::
    "kernel \<Rightarrow> vm_struct_t \<Rightarrow> u64 \<Rightarrow> u32 \<Rightarrow> u32 \<Rightarrow> u64 \<times> u64 \<Rightarrow> u32 \<Rightarrow> u32 \<Rightarrow> kernel result" where
  "fill_pdpt st vm pdpt_virt i pdpt_entries phys count bound =
     (if i < pdpt_entries
      then rbind (new_table st pdpt_virt (ucast i) (''Failed to allocate a PDT frame'', ''Failed to map PDT'')) (\<lambda>(pdt_virt, st).
           rbind (fill_pdt st vm pdt_virt i 0 phys count bound) (\<lambda>(phys, count, st).
           rbind (vm_unmap_page st pdt_virt) (\<lambda>(_, st).
             fill_pdpt st vm pdpt_virt (i + 1) pdpt_entries phys count bound)))
      else Inr st)"
  by pat_completeness auto
termination
  by (relation "measure (\<lambda>(st, vm, pdpt_virt, i, pdpt_entries, phys, count, bound). unat pdpt_entries - unat i)")
     (auto intro: count_up_measure)

declare fill_pdt.simps [simp del] fill_pdpt.simps [simp del]

text \<open>The loop over all directories for \<open>ram\<close> MB of guest memory.\<close>

definition fill_tables :: "u32 \<Rightarrow> kernel \<Rightarrow> vm_struct_t \<Rightarrow> u64 \<Rightarrow> u64 \<times> u64 \<Rightarrow> kernel result" where
  "fill_tables ram st vm pdpt_virt phys =
     (let pdt_entries = drop_bit 1 ram;
          pdpt_entries = ucast (drop_bit PG_TABLE_BITS (ucast pdt_entries + (PG_TABLE_ENTRIES - 1))) :: u32;
          bound = ucast (ucast pdt_entries * PG_TABLE_ENTRIES) :: u32
      in fill_pdpt st vm pdpt_virt 0 pdpt_entries phys 0 bound)"

text \<open>The two upper tables.\<close>

definition ept_top :: "kernel \<Rightarrow> (u64 \<times> u64 \<times> u64 \<times> kernel) result" where
  "ept_top st =
     rbind (alloc_frame st ''Failed to allocate a PML4T frame'') (\<lambda>(pml4t_phy, st).
     rbind (map_frame st pml4t_phy (PGT_P OR PGT_RW) ''Failed to map PML4T'') (\<lambda>(pml4t_virt, st).
     rbind (alloc_frame st ''Failed to allocate a PDPT frame'') (\<lambda>(pdpt_phy, st).
     rbind (map_frame st pdpt_phy (PGT_P OR PGT_RW) ''Failed to map PDPT'') (\<lambda>(pdpt_virt, st).
     rbind (vmemset st pml4t_virt 0 (unat PG_SIZE)) (\<lambda>st.
     rbind (vmemset st pdpt_virt 0 (unat PG_SIZE)) (\<lambda>st.
     rbind (vstore64 st (slot pml4t_virt 0) (pdpt_phy OR EPT_RD OR EPT_WR OR EPT_EX)) (\<lambda>st.
       Inr (pml4t_phy, pml4t_virt, pdpt_virt, st))))))))"

definition virt_pg_table_setup :: "nat \<Rightarrow> kernel \<Rightarrow> vm_struct_t \<Rightarrow> (u64 \<times> vm_struct_t \<times> kernel) result" where
  "virt_pg_table_setup fuel st vm =
     (let ram = ram_size vm;
          kernel_phy = img_paddr vm + 0x100000;
          ramdisk_phy = extra_paddr vm
      in rbind (ept_top st) (\<lambda>(pml4t_phy, pml4t_virt, pdpt_virt, st).
         rbind (virt_setup_linux fuel st vm) (\<lambda>(vm, st).
         rbind (fill_tables ram st vm pdpt_virt (kernel_phy, ramdisk_phy)) (\<lambda>st.
         rbind (vm_unmap_page st pml4t_virt) (\<lambda>(_, st).
         rbind (vm_unmap_page st pdpt_virt) (\<lambda>(_, st).
           Inr (pml4t_phy, vm, st)))))))"

end
