(* ===== verification/Vm_Launch.thy ===== *)
theory Vm_Launch
  imports Boot_Config Guest_Memory Vmx_Checks
begin

text \<open>
  The rest of \<^verbatim>\<open>arch/x86_64/virt/virt.c\<close>: \<open>virt_init\<close> fills the table of virtual machines and assigns
  processors to them, \<open>virt_percpu_init\<close> turns on VMX on the running processor, creates the VMCS of its
  virtual CPU and launches it. The flags that a VMX instruction leaves are what the processor answers,
  an argument. A successful launch does not return; its value is the state at the launch.
\<close>

section \<open>State\<close>

record virt =
  vm_structs :: "vm_struct_t list"
  cpu_to_vm :: "u16 list"
  vmxon_region :: "u64 list"
  vmcs_mem_type :: u64
  vmcs_rev :: u32

section \<open>The table of virtual machines\<close>

definition vm_struct_layout :: ctype where
  "vm_struct_layout = Aligned
     [(''vm_id'', uint16), (''name'', Array 32 uint8), (''img_paddr'', uint64), (''img_size'', uint64),
      (''num_cpus'', uint16), (''ram_size'', uint32), (''input'', uint64), (''entry_point'', uint64),
      (''gdtr'', uint64), (''vmcs_paddr'', Array MAX_CPUS uint64), (''extra_paddr'', uint64),
      (''extra_size'', uint64), (''lock'', uint32)]"

text \<open>Copying the name of a module with its terminator into the 32 bytes of \<open>name\<close>.\<close>

definition copy_name :: "nat \<Rightarrow> heap \<Rightarrow> u64 \<Rightarrow> u8 list \<Rightarrow> u8 list result" where
  "copy_name fuel h s name =
     rbind (strlen fuel (h_mem h) s) (\<lambda>n.
       let len = unat (n + 1)
       in if len \<le> length name
          then Inr (map (\<lambda>i. h_mem h (s + of_nat i)) [0 ..< len] @ drop len name)
          else Inl OutOfBounds)"

function assign_cpus :: "u16 list \<Rightarrow> u16 \<Rightarrow> u16 \<Rightarrow> u16 \<Rightarrow> u16 \<Rightarrow> (u16 \<times> u16 list) result" where
  "assign_cpus cm cur_cpu i j num =
     (if j < num
      then rbind (tset cm (ucast cur_cpu) i) (\<lambda>cm. assign_cpus cm (cur_cpu + 1) i (j + 1) num)
      else Inr (cur_cpu, cm))"
  by pat_completeness auto
termination
  by (relation "measure (\<lambda>(cm, cur_cpu, i, j, num). unat num - unat j)") (auto intro: count_up_measure)

declare assign_cpus.simps [simp del]

definition init_vm :: "nat \<Rightarrow> heap \<Rightarrow> boot_arrays \<Rightarrow> u16 \<Rightarrow> vm_struct_t \<Rightarrow> vm_struct_t result" where
  "init_vm fuel h a i vm =
     rbind (copy_name fuel h (load64 (h_mem h) (mod_str a + 8 * ucast i)) (vm_name vm)) (\<lambda>name.
       Inr (vm\<lparr>vm_name := name, vm_id := i, img_paddr := load64 (h_mem h) (mod_paddr a + 8 * ucast i),
         img_size := load64 (h_mem h) (mod_size a + 8 * ucast i), num_cpus := 0,
         ram_size := load32 (h_mem h) (bi_ram_size a + 4 * ucast i), vm_lock := SPINLOCK_UNLOCKED\<rparr>))"

text \<open>The loop advances by two: an image and its ramdisk.\<close>

fun virt_init_loop :: "nat \<Rightarrow> heap \<Rightarrow> boot_arrays \<Rightarrow> u16 \<Rightarrow> u16 \<Rightarrow> virt \<Rightarrow> u16 \<Rightarrow> u16 \<Rightarrow> virt result" where
  "virt_init_loop 0 h a num cpus v i cur_cpu = Inl OutOfFuel"
| "virt_init_loop (Suc fuel) h a num cpus v i cur_cpu =
     (if i < num
      then rbind (tget (vm_structs v) (ucast i)) (\<lambda>vm.
           rbind (init_vm fuel h a i vm) (\<lambda>vm.
             let n = load16 (h_mem h) (bi_num_cpus a + 2 * ucast i)
             in if unat cur_cpu + unat n > unat cpus
                then Inl (Panic ''Number of VM CPUs exceeds the available amount'')
                else rbind (assign_cpus (cpu_to_vm v) cur_cpu i 0 n) (\<lambda>(cur_cpu, cm).
                       let vm = vm\<lparr>entry_point := LINUX_ENTRY_POINT,
                             extra_paddr := load64 (h_mem h) (mod_paddr a + 8 * ucast (i + 1)),
                             extra_size := load64 (h_mem h) (mod_size a + 8 * ucast (i + 1))\<rparr>
                       in rbind (tset (vm_structs v) (ucast i) vm) (\<lambda>vms.
                            virt_init_loop fuel h a num cpus (v\<lparr>vm_structs := vms, cpu_to_vm := cm\<rparr>) (i + 2) cur_cpu))))
      else Inr v)"

text \<open>
  \<open>fresh\<close> is what the new piece of the heap holds, read as virtual machines.
\<close>

definition virt_init ::
    "nat \<Rightarrow> (u32 \<Rightarrow> u32 \<Rightarrow> u32 \<times> u32 \<times> u32 \<times> u32) \<Rightarrow> msrs \<Rightarrow> u16 \<Rightarrow> boot \<Rightarrow> boot_arrays \<Rightarrow> heap \<Rightarrow> virt \<Rightarrow> vm_struct_t
     \<Rightarrow> (boot \<times> heap \<times> virt) result" where
  "virt_init fuel cpuid m cpus b a h v fresh =
     (let (eax, ebx, ecx, edx) = cpuid 1 0
      in if get_bit64 (ucast ecx) 5 = 0 then Inl (Panic ''VMX not supported'')
         else let msr = rdmsr m IA32_VMX_BASIC;
                  v = v\<lparr>vmcs_rev := ucast msr\<rparr>
              in if get_bit64 msr 44 = 0 then Inl (Panic ''VMXON/VMCS size not 4KB'')
                 else let t = drop_bit 50 msr AND 0xF;
                          v = v\<lparr>vmcs_mem_type := (if t = 0 then PGT_PCD else 0), cpu_to_vm := replicate MAX_CPUS VM_NONE\<rparr>;
                          b = b\<lparr>num_mod := num_mod b - 1\<rparr>
                      in rbind (malloc_checked h (ucast (num_mod b) * of_nat (sizeof vm_struct_layout)) ''Failed malloc for vm_structs'') (\<lambda>(p, h).
                           rbind (virt_init_loop fuel h a (num_mod b) cpus
                             (v\<lparr>vm_structs := replicate (unat (num_mod b)) fresh\<rparr>) 0 0) (\<lambda>v. Inr (b, h, v))))"

section \<open>Launching\<close>

datatype vmx_op = Vmxon u64 | Vmptrld u64 | Vmlaunch

text \<open>A page for the processor with the revision in its first word, then \<open>words\<close> more words of 0.\<close>

definition vmx_region :: "kernel \<Rightarrow> u64 \<Rightarrow> u32 list \<Rightarrow> string \<times> string \<Rightarrow> (u64 \<times> kernel) result" where
  "vmx_region k mem_type ws msgs =
     rbind (alloc_frame k (fst msgs)) (\<lambda>(frame, k).
     rbind (map_frame k frame (PGT_P OR PGT_RW OR mem_type) (snd msgs)) (\<lambda>(va, k).
     rbind (foldl (\<lambda>r (i, w). rbind r (\<lambda>k. wr32 k (va + 4 * of_nat i) w)) (Inr k) (zip [0 ..< length ws] ws)) (\<lambda>k.
     rbind (vm_unmap_page k va) (\<lambda>(_, k). Inr (frame, k)))))"

definition enable_vmx_msr :: "msrs \<Rightarrow> msrs result" where
  "enable_vmx_msr m =
     (let msr = rdmsr m IA32_FEATURE_CONTROL
      in if get_bit64 msr 0 \<noteq> 0 \<and> get_bit64 msr 2 = 0 then Inl (Panic ''VMX is disabled'')
         else Inr (wrmsr m IA32_FEATURE_CONTROL (msr OR (1 OR push_bit 2 1))))"

record launch =
  l_vm :: vm_struct_t
  l_virt :: virt
  l_kernel :: kernel
  l_cpu :: cpu
  l_vmcs :: vmcs

text \<open>
  \<open>cpu\<close> is the identifier of the running processor, \<open>c\<close> its registers, \<open>g\<close> the GDT, \<open>ptr\<close> the address
  of \<open>virt_main\<close>, \<open>v0\<close> the VMCS as \<open>vmclear\<close> leaves it. \<open>None\<close> when no virtual machine is assigned.
\<close>

definition virt_percpu_init ::
    "nat \<Rightarrow> (vmx_op \<Rightarrow> u64) \<Rightarrow> kernel \<Rightarrow> cpu \<Rightarrow> gdt_state \<Rightarrow> u64 \<Rightarrow> vmcs \<Rightarrow> virt \<Rightarrow> u16 \<Rightarrow> launch option result" where
  "virt_percpu_init fuel flags k c g ptr v0 vt cpu =
     rbind (tget (cpu_to_vm vt) (ucast cpu)) (\<lambda>id.
       if id = VM_NONE then Inr None
       else rbind (tget (vm_structs vt) (ucast id)) (\<lambda>vm.
         let c = vmx_registers c
         in rbind (enable_vmx_msr (c_msr c)) (\<lambda>m.
              let c = c\<lparr>c_msr := m\<rparr>
              in rbind (vmx_region k (vmcs_mem_type vt) [vmcs_rev vt]
                   (''VMXON region allocation failed'', ''VMXON region mapping failed'')) (\<lambda>(xon, k).
                 rbind (tset (vmxon_region vt) (ucast cpu) xon) (\<lambda>regions.
                   let vt = vt\<lparr>vmxon_region := regions\<rparr>
                   in rbind (virt_check_error (flags (Vmxon xon))) (\<lambda>_.
                      rbind (spin_lock (vm_lock vm)) (\<lambda>l.
                        let vcpu_id = num_cpus vm;
                            vm = vm\<lparr>num_cpus := num_cpus vm + 1, vm_lock := spin_unlock l\<rparr>
                        in rbind (vmx_region k (vmcs_mem_type vt) [vmcs_rev vt, 0]
                             (''VMCS allocation failed'', ''VMCS mapping failed'')) (\<lambda>(p, k).
                           rbind (tset (vmcs_paddr vm) (ucast vcpu_id) p) (\<lambda>ps.
                             let vm = vm\<lparr>vmcs_paddr := ps\<rparr>
                             in rbind (virt_check_error (flags (Vmptrld p))) (\<lambda>_.
                                rbind (virt_pg_table_setup fuel k vm) (\<lambda>(ept_p, vm, k).
                                  rbind (vmcs_setup c g ptr vm ept_p v0) (\<lambda>v.
                                     rbind (tset (vm_structs vt) (ucast id) vm) (\<lambda>vms.
                                     rbind (virt_check_error (flags Vmlaunch)) (\<lambda>_.
                                       Inr (Some \<lparr>l_vm = vm, l_virt = vt\<lparr>vm_structs := vms\<rparr>, l_kernel = k,
                                         l_cpu = c, l_vmcs = v\<rparr>)))))))))))))))"

end
