(* ===== verification/Kernel_Main.thy ===== *)
theory Kernel_Main
  imports Percpu Vm_Launch
begin

text \<open>
  \<open>kernel_main\<close> of \<^verbatim>\<open>boot/init.c\<close> as the composition of all parts, on the boot processor, and
  \<open>panic_raw\<close> of \<^verbatim>\<open>kernel/debug.c\<close>. The rendezvous around \<open>mtrr_config\<close> is the subject of the theory of
  the barrier; here it is the point at which the other processors have done what they do.
\<close>

section \<open>What the machine provides\<close>

text \<open>
  \<open>e_fuel\<close> bounds the loops over tables, \<open>e_answer\<close> is the number of polls after which a processor
  reports, \<open>e_others\<close> what the other processors have changed when they wait in the rendezvous,
  \<open>e_flags\<close> the flags that VMX instructions leave, \<open>e_cpu\<close> the remaining registers of the boot
  processor, \<open>e_vmcs\<close> the VMCS after \<open>vmclear\<close> and \<open>e_fresh\<close> what new heap memory holds.
\<close>

record environment =
  e_fuel :: nat
  e_answer :: "u8 \<Rightarrow> u64 option"
  e_others :: "pmachine \<Rightarrow> pmachine"
  e_flags :: "vmx_op \<Rightarrow> u64"
  e_cpu :: cpu
  e_vmcs :: vmcs
  e_fresh :: vm_struct_t

section \<open>Panic\<close>

definition interrupt_disable :: "'a machine_scheme \<Rightarrow> 'a machine_scheme" where
  "interrupt_disable m = m\<lparr>m_dev := (m_dev m)\<lparr>rflags_if := False\<rparr>\<rparr>"

definition interrupt_enable :: "'a machine_scheme \<Rightarrow> 'a machine_scheme" where
  "interrupt_enable m = m\<lparr>m_dev := (m_dev m)\<lparr>rflags_if := True\<rparr>\<rparr>"

text \<open>The machine when it halts.\<close>

definition panic_raw :: "'a imachine_scheme \<Rightarrow> string \<Rightarrow> string \<Rightarrow> 'a imachine_scheme result" where
  "panic_raw m func msg =
     iprintf (interrupt_disable m) (''%s: %s'' @ [CHR 0x0A]) [VStr (Some func), VStr (Some msg)]"

section \<open>The phases of the boot\<close>

text \<open>Interrupts, paging, per-CPU data, ACPI and the interrupt controllers.\<close>

definition init_devices :: "environment \<Rightarrow> linker \<Rightarrow> pmachine \<Rightarrow> u64 \<Rightarrow> pmachine result" where
  "init_devices e ln m rsdp =
     rbind (interrupt_init m) (\<lambda>m.
     rbind (vm_init (m_kernel m)) (\<lambda>k.
     rbind (percpu_init ln (m\<lparr>m_kernel := k\<rparr>)) (\<lambda>m.
     rbind (get_pcpu_id ln m) (\<lambda>cpu.
     rbind (acpi_init (e_fuel e) (ap_boot_start ln, ap_boot_end ln) (m_kernel m) cpu (m_plat m) rsdp) (\<lambda>(k, p).
     rbind (lapic_init (m\<lparr>m_kernel := k, m_plat := p\<rparr>) cpu) ioapic_init)))))"

text \<open>The frame buffer as a device page.\<close>

definition remap_screen :: "'a imachine_scheme \<Rightarrow> 'a imachine_scheme result" where
  "remap_screen m =
     rbind (vm_map_page (m_kernel m) (frameBuf (m_screen m)) DEVICE_FLAGS) (\<lambda>(va, k).
       Inr (m\<lparr>m_kernel := k, m_screen := (m_screen m)\<lparr>frameBuf := va\<rparr>\<rparr>))"

text \<open>The heap, the configuration and the addresses of the modules.\<close>

definition read_config ::
    "environment \<Rightarrow> boot \<Rightarrow> pmachine \<Rightarrow> heap \<Rightarrow> u64 \<Rightarrow> (boot_arrays \<times> boot \<times> pmachine \<times> heap) result" where
  "read_config e b m h mbi =
     rbind (malloc_init (m_kernel m) h) (\<lambda>(k, h).
     rbind (parse_boot_info (b\<lparr>b_kernel := k\<rparr>) h) (\<lambda>(a, b, h).
     rbind (match_modules (e_fuel e) b a h (mbi + 8)) (\<lambda>h.
       Inr (a, b, m\<lparr>m_kernel := b_kernel b\<rparr>, h))))"

text \<open>The other processors are started, then the identity mapping they needed is removed.\<close>

definition start_others :: "environment \<Rightarrow> linker \<Rightarrow> pmachine \<Rightarrow> pmachine result" where
  "start_others e ln m =
     rbind (acpi_sec_init ln (e_answer e) m) (\<lambda>m.
     rbind (wr64 (m_kernel m) 0xFFFFFFFFC0000000 0) (\<lambda>k. Inr (m\<lparr>m_kernel := k\<rparr>)))"

text \<open>The registers of the processor that \<open>virt_percpu_init\<close> runs on.\<close>

definition cpu_of :: "cpu \<Rightarrow> pmachine \<Rightarrow> cpu" where
  "cpu_of c m = c\<lparr>c_cr3 := cr3 (m_kernel m), c_fs := m_fs m, c_ds := m_ds m, c_tr := m_tr m,
     c_idtr := snd (m_idtr m), c_msr := m_msr m\<rparr>"

definition start_vms ::
    "environment \<Rightarrow> linker \<Rightarrow> boot \<Rightarrow> boot_arrays \<Rightarrow> pmachine \<Rightarrow> heap \<Rightarrow> virt \<Rightarrow> (pmachine \<times> launch option) result" where
  "start_vms e ln b a m h v =
     (let m = m\<lparr>m_msr := mtrr_config (m_msr m)\<rparr>
      in rbind (virt_init (e_fuel e) (cpuid_leaf (m_dev m)) (m_msr m) (g_cpus (m_plat m)) b a h v (e_fresh e)) (\<lambda>(b, h, v).
         rbind (get_pcpu_id ln m) (\<lambda>cpu.
         rbind (virt_percpu_init (e_fuel e) (e_flags e) (m_kernel m) (cpu_of (e_cpu e) m) (m_gdt m)
                  (virt_main_addr ln) (e_vmcs e) v cpu) (\<lambda>l.
           case l of
             Some l \<Rightarrow> Inr (m, Some l)
           | None \<Rightarrow> rbind (iprintf m (''BSP %u: %u cores'' @ [CHR 0x0A]) [VInt (ucast cpu), VInt (ucast (g_cpus (m_plat m)))])
                       (\<lambda>m. Inr (interrupt_enable m, None))))))"

text \<open>
  \<open>None\<close>: the boot loader's arguments are refused. Otherwise the machine, and the launch of the
  boot processor's virtual machine if it has one.
\<close>

definition kernel_main ::
    "environment \<Rightarrow> linker \<Rightarrow> image \<Rightarrow> boot \<Rightarrow> pmachine \<Rightarrow> heap \<Rightarrow> virt \<Rightarrow> u64 \<Rightarrow> u64 \<Rightarrow> (pmachine \<times> launch option) option result" where
  "kernel_main e ln im b m h v magic mbi =
     rbind (boot_memory (e_fuel e) im b magic mbi) (\<lambda>r.
       case r of
         None \<Rightarrow> Inr None
       | Some b \<Rightarrow>
           rbind (init_devices e ln (m\<lparr>m_kernel := b_kernel b, m_screen := (m_screen m)\<lparr>frameBuf := b_frameBuf b\<rparr>\<rparr>) (b_rsdp b)) (\<lambda>m.
           rbind (remap_screen m) (\<lambda>m.
           rbind (setup_tss ln m (kernel_stack ln + PG_SIZE)) (\<lambda>m.
           rbind (read_config e b m h mbi) (\<lambda>(a, b, m, h).
           rbind (start_others e ln m) (\<lambda>m.
           rbind (start_vms e ln b a (e_others e m) h v) (\<lambda>r. Inr (Some r))))))))"

end
