(* ===== verification/Data_Pages.thy ===== *)
theory Data_Pages
  imports Paging_Correct
begin

text \<open>
  Pages that hold data. A data frame is no paging structure; writing into it changes no
  translation. The predicate \<open>data_ctx st F W\<close> collects what code that works on several mapped pages
  relies on: the frames \<open>F\<close> hold its data and are not free, the windows \<open>W\<close> map them at slots of the
  kernel's dynamic window. Allocating a frame, mapping it, storing into it and unmapping it keep the
  predicate, and touch no other data.
\<close>

section \<open>Bytes of a page\<close>

lemma page_fits: "page_aligned f \<Longrightarrow> unat f + 4096 \<le> 2 ^ 64"
  using unat_u64_less [of f] by (auto simp: page_aligned_def elim!: dvdE simp: mod_eq_0_iff_dvd)

lemma page_bytes_iff:
  "page_aligned f \<Longrightarrow> a \<in> bytes_at f 4096 \<longleftrightarrow> unat f \<le> unat a \<and> unat a < unat f + 4096"
  by (rule bytes_at_unat) (rule page_fits)

lemma page_bytes_disjoint:
  assumes "page_aligned f" and "page_aligned g" and "f \<noteq> g"
  shows "bytes_at f 4096 \<inter> bytes_at g 4096 = {}"
proof (rule bytes_at_disjoint)
  obtain k where k: "unat f = 4096 * k" using assms(1) by (auto simp: page_aligned_def)
  obtain l where l: "unat g = 4096 * l" using assms(2) by (auto simp: page_aligned_def)
  have "k \<noteq> l" using assms(3) k l by (auto simp: word_unat_eq_iff)
  then show "unat f + 4096 \<le> unat g \<or> unat g + 4096 \<le> unat f" using k l by linarith
qed (use assms page_fits in auto)

lemma slot_bytes:
  assumes "page_aligned f" and "i < 512"
  shows "bytes_at (slot f i) 8 \<subseteq> bytes_at f 4096"
proof
  fix x assume x: "x \<in> bytes_at (slot f i) 8"
  have i: "unat i < 512" using assms(2) by (simp add: word_less_nat_alt)
  have "unat (slot f i) + 8 \<le> 2 ^ 64" using unat_slot [OF assms] i page_fits [OF assms(1)] by simp
  then show "x \<in> bytes_at f 4096"
    using x unat_slot [OF assms] i by (simp add: bytes_at_unat page_bytes_iff [OF assms(1)])
qed

definition same_outside :: "u64 \<Rightarrow> mem \<Rightarrow> mem \<Rightarrow> bool" where
  "same_outside g m m' \<longleftrightarrow> (\<forall>a. a \<notin> bytes_at g 4096 \<longrightarrow> m' a = m a)"

lemma same_outside_trans: "same_outside g m m' \<Longrightarrow> same_outside g m' m'' \<Longrightarrow> same_outside g m m''"
  by (simp add: same_outside_def)

lemma same_outside_store: "page_aligned g \<Longrightarrow> j < 512 \<Longrightarrow> same_outside g m (store64 m (slot g j) e)"
  using slot_bytes [of g j] by (auto simp: same_outside_def intro: store64_out)

lemma same_outside_upd: "a \<in> bytes_at g 4096 \<Longrightarrow> same_outside g m (m(a := v))"
  by (auto simp: same_outside_def)

lemma load_outside:
  assumes "same_outside g m m'" and "page_aligned f" and "page_aligned g" and "f \<noteq> g" and "i < 512"
  shows "load64 m' (slot f i) = load64 m (slot f i)"
  using assms slot_bytes [OF assms(2,5)] page_bytes_disjoint [OF assms(2-4)]
  by (intro load64_cong) (auto simp: same_outside_def)

section \<open>Data frames\<close>

definition data_frame :: "kernel \<Rightarrow> u64 \<Rightarrow> bool" where
  "data_frame st g \<longleftrightarrow> page_aligned g \<and> g AND ADDR_MASK = g
     \<and> (\<forall>q. good_path q \<longrightarrow> descend table_entry (pmem st) (root st) q \<noteq> Some g)"

lemma data_descend:
  assumes inv: "pg_inv st" and g: "data_frame st g" and m': "same_outside g (pmem st) m'" and q: "good_path q"
  shows "descend table_entry m' (root st) q = descend table_entry (pmem st) (root st) q"
  using q
proof (induction q rule: rev_induct)
  case (snoc i q)
  have q: "good_path q" using snoc.prems by (rule good_path_butlast)
  have i: "i < 512" using snoc.prems by (simp add: good_path_def)
  note IH = snoc.IH [OF q]
  have inj: "tables_inj table_entry (pmem st) (root st)" using inv by (simp add: pg_inv_def)
  show ?case
  proof (cases "descend table_entry (pmem st) (root st) q")
    case (Some f)
    then have "f \<noteq> g" "page_aligned f" "page_aligned g"
      using g q pg.tables_inj_aligned [OF inj Some] by (auto simp: data_frame_def)
    then show ?thesis using load_outside [OF m'] i IH Some by (simp add: descend_snoc)
  qed (simp add: descend_snoc IH)
qed simp

lemma data_write:
  assumes inv: "pg_inv st" and g: "data_frame st g" and m': "same_outside g (pmem st) m'"
  shows "pg_inv (st\<lparr>pmem := m'\<rparr>)"
    and "own_addr a \<Longrightarrow> mmu_walk m' (cr3 st) a = mmu_walk (pmem st) (cr3 st) a"
    and "data_frame (st\<lparr>pmem := m'\<rparr>) h = data_frame st h"
proof -
  note d = data_descend [OF assms]
  have inj: "tables_inj table_entry (pmem st) (root st)" and rs: "rec_slot (pmem st) (root st)"
    using inv by (auto simp: pg_inv_def)
  have g': "page_aligned g" and r: "root st \<noteq> g" "page_aligned (root st)"
    using g rs by (auto simp: data_frame_def rec_slot_def good_path_def dest: spec [of _ "[]"])
  have "rec_slot m' (root st)"
    using rs load_outside [OF m' r(2) g' r(1), of 511] by (simp add: rec_slot_def)
  moreover have "tables_inj table_entry m' (root st)" using inj d by (simp add: tables_inj_def)
  ultimately show "pg_inv (st\<lparr>pmem := m'\<rparr>)"
    using inv d by (simp add: pg_inv_def tables_not_free_def)
  show "data_frame (st\<lparr>pmem := m'\<rparr>) h = data_frame st h" by (simp add: data_frame_def d cong: conj_cong)
  show "mmu_walk m' (cr3 st) a = mmu_walk (pmem st) (cr3 st) a" if a: "own_addr a"
  proof -
    have "walk_from m' (root st) 3 a = walk_from (pmem st) (root st) 3 a"
    proof (rule walk_from_cong)
      fix x assume "x \<in> set (walk_reads (pmem st) (root st) 3 a)"
      then obtain k f where k: "k \<le> 3" "x = slot f (walk_index (3 - k) a)"
        "descend table_entry (pmem st) (root st) (va_path k a) = Some f"
        using walk_reads_path [of x "pmem st" "root st" 3 a] by (auto simp: va_path_def)
      have "f \<noteq> g" using g k(3) good_va_path [OF k(1)] a by (auto simp: data_frame_def own_addr_def)
      then show "load64 m' x = load64 (pmem st) x"
        using load_outside [OF m' pg.tables_inj_aligned [OF inj k(3)] g'] k(2) by simp
    qed
    then show ?thesis by (simp add: mmu_walk_def root_def)
  qed
qed

section \<open>Windows\<close>

text \<open>Slot \<open>i\<close> of the dynamic window maps the frame \<open>g\<close>.\<close>

definition wmap :: "kernel \<Rightarrow> u64 \<Rightarrow> u64 \<Rightarrow> bool" where
  "wmap st i g \<longleftrightarrow> (\<forall>a. page_no a = page_no (kmap_va i) \<longrightarrow> translate st a = Some (g OR (a AND mask 12)))"

lemma page_no_own: "page_no a = page_no (kmap_va i) \<Longrightarrow> i < 512 \<Longrightarrow> own_addr a"
  using walk_index_page_no [of 3 a] walk_index_page_no [of 3 "kmap_va i"]
  by (simp add: own_addr_def kmap_va_index)

lemma kmap_va_inj: "i < 512 \<Longrightarrow> j < 512 \<Longrightarrow> page_no (kmap_va i) = page_no (kmap_va j) \<longleftrightarrow> i = j"
  using walk_index_page_no [of 0 "kmap_va i"] walk_index_page_no [of 0 "kmap_va j"]
  by (auto simp: kmap_va_index)

lemma kmap_va_unat:
  assumes "i < 512"
  shows "unat (kmap_va i) = 0xA00000 + 4096 * unat i"
proof -
  have i: "unat i < 512" using assms by (simp add: word_less_nat_alt)
  then have "unat (push_bit 12 i) = 4096 * unat i"
    by (simp add: push_bit_eq_mult unat_word_ariths)
  then show ?thesis
    using i by (simp add: kmap_va_def KERNEL_MAPPING_BASE_val PG_BITS_def unat_add_small)
qed

lemma page_offset:
  fixes v :: u64
  assumes "page_aligned v" and "off < 4096"
  shows "page_no (v + of_nat off) = page_no v" and "(v + of_nat off) AND mask 12 = of_nat off"
    and "v OR of_nat off = v + of_nat off"
proof -
  have o: "unat (of_nat off :: u64) = off" using assms(2) by (simp add: unat_of_nat_small)
  have fit: "unat (v + of_nat off) = unat v + off"
    using page_fits [OF assms(1)] assms(2) o by (subst unat_add_small) simp_all
  obtain k where k: "unat v = 4096 * k" using assms(1) by (auto simp: page_aligned_def)
  show "(v + of_nat off) AND mask 12 = of_nat off"
    using assms(2) k fit o by (simp add: word_unat_eq_iff unat_and_mask)
  have "drop_bit 12 (v + of_nat off) = drop_bit 12 v"
    using assms(2) k fit by (simp add: word_unat_eq_iff unat_drop_bit_eq drop_bit_eq_div unat_div)
  then show "page_no (v + of_nat off) = page_no v" by (simp add: page_no_def)
  have low: "of_nat off = (of_nat off AND mask 12 :: u64)"
    using assms(2) o by (simp add: word_unat_eq_iff unat_and_mask)
  have "v AND of_nat off = 0"
    by (subst low, rule bit_word_eqI) (use assms(1) in \<open>auto simp: bit_simps page_aligned_bits\<close>)
  then show "v OR of_nat off = v + of_nat off" by (simp add: disjunctive_add_eq_or)
qed

lemma kmap_va_aligned: "i < 512 \<Longrightarrow> page_aligned (kmap_va i)"
  by (simp add: page_aligned_def kmap_va_unat)

lemma wmap_walk:
  assumes "wmap st i g" and "i < 512" and "page_aligned g" and "off < 4096"
  shows "mmu_walk (pmem st) (cr3 st) (kmap_va i + of_nat off) = Inr (g + of_nat off)"
proof -
  note o = page_offset [OF kmap_va_aligned [OF assms(2)] assms(4)]
  have "translate st (kmap_va i + of_nat off) = Some (g + of_nat off)"
    using assms(1) o page_offset(3) [OF assms(3,4)] by (simp add: wmap_def)
  then show ?thesis by (simp add: translate_def split: sum.splits)
qed

lemma wmap_window:
  assumes "wmap st i g" and "i < 512" and "page_aligned g"
  shows "window st (kmap_va i) g"
  unfolding window_def
proof (intro allI impI)
  fix j :: u64 assume j: "j < 512"
  then have "8 * unat j < 4096" by (simp add: word_less_nat_alt)
  then show "mmu_walk (pmem st) (cr3 st) (slot (kmap_va i) j) = Inr (slot g j)"
    using wmap_walk [OF assms, of "8 * unat j"] by (simp add: slot_def)
qed

definition free_slots :: "kernel \<Rightarrow> u64 set" where
  "free_slots st = {i. i < 512 \<and> translate st (kmap_va i) = None}"

lemma finite_free_slots [simp]: "finite (free_slots st)"
  by (rule finite_subset [of _ "{i. i < 512}"]) (auto simp: free_slots_def)

section \<open>Code that works on mapped data\<close>

text \<open>The page table of the dynamic window, which gives each slot one frame or none.\<close>

definition wtab :: "kernel \<Rightarrow> u64 option" where
  "wtab st = descend table_entry (pmem st) (root st) [0, 0, 5]"

definition data_ctx :: "kernel \<Rightarrow> u64 set \<Rightarrow> (u64 \<times> u64) set \<Rightarrow> bool" where
  "data_ctx st F W \<longleftrightarrow> pg_ok st \<and> wtab st \<noteq> None
     \<and> (\<forall>g \<in> F. data_frame st g \<and> frame_no g \<notin> frames (k_phys st))
     \<and> (\<forall>(i, g) \<in> W. i < 512 \<and> wmap st i g)"

text \<open>
  What such code leaves as it was: the contents of the frames \<open>F\<close>, and the translation of the
  addresses outside the dynamic window and the recursive slot.
\<close>

definition outside_window :: "u64 \<Rightarrow> bool" where
  "outside_window a \<longleftrightarrow> own_addr a \<and> (\<forall>i < 512. page_no a \<noteq> page_no (kmap_va i))"

definition same_data :: "u64 set \<Rightarrow> kernel \<Rightarrow> kernel \<Rightarrow> bool" where
  "same_data F st st' \<longleftrightarrow> (\<forall>g \<in> F. \<forall>a \<in> bytes_at g 4096. pmem st' a = pmem st a)
     \<and> (\<forall>a. outside_window a \<longrightarrow> translate st' a = translate st a)"

lemma window_slot_cases:
  assumes "wtab st \<noteq> None" and "i < 512"
  obtains (mapped) g where "wmap st i g"
    | (free) "\<And>a. page_no a = page_no (kmap_va i) \<Longrightarrow> translate st a = None"
proof -
  obtain f where f: "descend table_entry (pmem st) (root st) [0, 0, 5] = Some f"
    using assms(1) by (auto simp: wtab_def simp del: descend.simps)
  let ?e = "load64 (pmem st) (slot f i)"
  have tr: "translate st a = (if entry_present ?e then Some ((?e AND ADDR_MASK) OR (a AND mask 12)) else None)"
    if a: "page_no a = page_no (kmap_va i)" for a
  proof -
    have ix: "walk_index n a = walk_index n (kmap_va i)" if "n \<le> 3" for n
      using a walk_index_page_no [OF that] by simp
    have "va_path 3 a = [0, 0, 5]" "walk_index 0 a = i"
      using ix [of 0] ix [of 1] ix [of 2] ix [of 3] assms(2) by (simp_all add: kmap_va_index)
    then show ?thesis
      using f by (simp add: translate_walk walk_descend_3 [of _ _ a f] Let_def del: descend.simps va_path_simps)
  qed
  then show ?thesis
    using mapped [of "?e AND ADDR_MASK"] free by (cases "entry_present ?e") (auto simp: wmap_def)
qed

text \<open>Code that keeps every window, frees none and touches no other mapping keeps all translations.\<close>

lemma same_translations:
  assumes "same_data F st st'" and "wtab st \<noteq> None" and "wtab st' \<noteq> None" and "free_slots st' = free_slots st"
    and "\<And>i g. i < 512 \<Longrightarrow> wmap st i g \<Longrightarrow> wmap st' i g" and "own_addr a"
  shows "translate st' a = translate st a"
proof (cases "outside_window a")
  case True
  then show ?thesis using assms(1) by (simp add: same_data_def)
next
  case False
  then obtain i where i: "i < 512" "page_no a = page_no (kmap_va i)"
    using assms(6) by (auto simp: outside_window_def)
  have free: "translate st (kmap_va i) = None \<longleftrightarrow> translate st' (kmap_va i) = None"
    using assms(4) i(1) by (auto simp: free_slots_def)
  show ?thesis
  proof (cases rule: window_slot_cases [OF assms(2) i(1)])
    case (1 g)
    then show ?thesis using assms(5) [OF i(1) 1] i(2) by (simp add: wmap_def)
  next
    case 2
    then show ?thesis
      using free i(2) by (cases rule: window_slot_cases [OF assms(3) i(1)]) (auto simp: wmap_def)
  qed
qed

lemma same_data_load:
  assumes "same_data F st st'" and "g \<in> F" and "page_aligned g" and "i < 512"
  shows "load64 (pmem st') (slot g i) = load64 (pmem st) (slot g i)"
  using assms slot_bytes [OF assms(3,4)] by (intro load64_cong) (auto simp: same_data_def)

lemma same_data_trans [trans]: "same_data F st st' \<Longrightarrow> same_data F st' st'' \<Longrightarrow> same_data F st st''"
  by (simp add: same_data_def)

lemma same_data_refl [simp]: "same_data F st st"
  by (simp add: same_data_def)

lemma same_data_mono: "same_data F st st' \<Longrightarrow> G \<subseteq> F \<Longrightarrow> same_data G st st'"
  by (auto simp: same_data_def)

lemma data_ctx_mono: "data_ctx st F W \<Longrightarrow> G \<subseteq> F \<Longrightarrow> V \<subseteq> W \<Longrightarrow> data_ctx st G V"
  by (auto simp: data_ctx_def)

lemma data_ctx_frame:
  assumes "data_ctx st F W" and "g \<in> F"
  shows "page_aligned g" and "g AND ADDR_MASK = g"
  using assms by (auto simp: data_ctx_def data_frame_def)

text \<open>Writing into a data page.\<close>

lemma ctx_write:
  assumes c: "data_ctx st F W" and g: "g \<in> F" and m': "same_outside g (pmem st) m'"
  shows "data_ctx (st\<lparr>pmem := m'\<rparr>) F W" and "free_slots (st\<lparr>pmem := m'\<rparr>) = free_slots st"
    and "avail (st\<lparr>pmem := m'\<rparr>) = avail st" and "same_data (F - {g}) st (st\<lparr>pmem := m'\<rparr>)"
proof -
  have inv: "pg_inv st" "lock_free (pg_lock st)" and d: "data_frame st g"
    using c g by (auto simp: data_ctx_def pg_ok_def)
  note w = data_write [OF inv(1) d m']
  have tr: "translate (st\<lparr>pmem := m'\<rparr>) a = translate st a" if "own_addr a" for a
    using w(2) [OF that] by (simp add: translate_def)
  have "good_path [0, 0, 5]" by (simp add: good_path_def)
  note dd = data_descend [OF inv(1) d m' this]
  have wt: "wtab (st\<lparr>pmem := m'\<rparr>) = wtab st" unfolding wtab_def using dd by (simp del: descend.simps)
  have "wmap (st\<lparr>pmem := m'\<rparr>) i h = wmap st i h" if "i < 512" for i h
    using tr page_no_own [OF _ that] by (auto simp: wmap_def)
  then show "data_ctx (st\<lparr>pmem := m'\<rparr>) F W"
    using c w(1,3) wt inv(2) by (auto simp: data_ctx_def pg_ok_def)
  show "free_slots (st\<lparr>pmem := m'\<rparr>) = free_slots st" by (auto simp: free_slots_def tr)
  show "avail (st\<lparr>pmem := m'\<rparr>) = avail st" by (simp add: avail_def)
  show "same_data (F - {g}) st (st\<lparr>pmem := m'\<rparr>)"
    unfolding same_data_def
  proof (intro conjI ballI allI impI)
    show "translate (st\<lparr>pmem := m'\<rparr>) a = translate st a" if "outside_window a" for a
      using tr that by (simp add: outside_window_def)
    fix h a assume h: "h \<in> F - {g}" and a: "a \<in> bytes_at h 4096"
    have "bytes_at h 4096 \<inter> bytes_at g 4096 = {}"
      using h g data_ctx_frame(1) [OF c] by (intro page_bytes_disjoint) auto
    then show "pmem (st\<lparr>pmem := m'\<rparr>) a = pmem st a" using a m' by (auto simp: same_outside_def)
  qed
qed

lemma ctx_store64:
  assumes c: "data_ctx st F W" and g: "g \<in> F" and w: "(i, g) \<in> W" and j: "j < 512"
  shows "vstore64 st (slot (kmap_va i) j) e = Inr (st\<lparr>pmem := store64 (pmem st) (slot g j) e\<rparr>)"
    and "same_outside g (pmem st) (store64 (pmem st) (slot g j) e)"
proof -
  have i: "i < 512" "wmap st i g" using c w by (auto simp: data_ctx_def)
  note al = data_ctx_frame(1) [OF c g]
  show "vstore64 st (slot (kmap_va i) j) e = Inr (st\<lparr>pmem := store64 (pmem st) (slot g j) e\<rparr>)"
    using window_store [OF wmap_window [OF i(2,1) al] j] .
  show "same_outside g (pmem st) (store64 (pmem st) (slot g j) e)" by (rule same_outside_store [OF al j])
qed

text \<open>Allocating a frame.\<close>

lemma ctx_alloc:
  assumes c: "data_ctx st F W" and a: "avail st \<noteq> {}"
  obtains g ph where "alloc_phys_frame (k_phys st) = Inr (g, ph)" "g \<noteq> 0" "g \<notin> F"
    "data_ctx (st\<lparr>k_phys := ph\<rparr>) (insert g F) W" "free_slots (st\<lparr>k_phys := ph\<rparr>) = free_slots st"
    "frame_no g \<in> avail st" "avail (st\<lparr>k_phys := ph\<rparr>) = avail st - {frame_no g}"
proof -
  have inv: "pg_inv st" using c by (simp add: data_ctx_def pg_ok_def)
  from inv show ?thesis
  proof (cases rule: alloc_in_kernel)
    case none
    then show ?thesis using a by simp
  next
    case (some p g ph)
    have free: "p \<in> frames (k_phys st)" using some(7) by (simp add: avail_def)
    have tr: "translate (st\<lparr>k_phys := ph\<rparr>) = translate st" by (rule ext) (simp add: translate_def)
    have wm: "wmap (st\<lparr>k_phys := ph\<rparr>) = wmap st" by (intro ext) (simp add: wmap_def tr)
    have wt: "wtab (st\<lparr>k_phys := ph\<rparr>) = wtab st" by (simp add: wtab_def del: descend.simps)
    have df: "data_frame (st\<lparr>k_phys := ph\<rparr>) = data_frame st" by (intro ext) (simp add: data_frame_def)
    have "descend table_entry (pmem st) (root st) q \<noteq> Some g" if "good_path q" for q
      using inv that free some(4) by (auto simp: pg_inv_def tables_not_free_def)
    then have g: "data_frame st g" using some(5,6) by (simp add: data_frame_def)
    have "pg_ok (st\<lparr>k_phys := ph\<rparr>)"
      using c inv some(8,10,11) by (auto simp: data_ctx_def pg_ok_def pg_inv_def tables_not_free_def)
    then have "data_ctx (st\<lparr>k_phys := ph\<rparr>) (insert g F) W"
      using c g some(4,8) by (auto simp: data_ctx_def wm df wt)
    moreover have "g \<notin> F" using c some(4) free by (auto simp: data_ctx_def)
    moreover have "avail (st\<lparr>k_phys := ph\<rparr>) = avail st - {frame_no g}"
      using some(4,8,9) by (auto simp: avail_def)
    ultimately show ?thesis
      using that [of g ph] some(1,2,4,7) by (simp add: free_slots_def tr)
  qed
qed

text \<open>Storing an entry of the page table of the dynamic window.\<close>

lemma ctx_leaf:
  fixes e :: u64
  assumes c: "data_ctx st F W" and f: "wtab st = Some f" and i: "i < 512"
  defines "st' \<equiv> st\<lparr>pmem := store64 (pmem st) (slot f i) e\<rparr>"
  shows "pg_ok st'" and "wtab st' = Some f"
    and "j < 512 \<Longrightarrow> j \<noteq> i \<Longrightarrow> wmap st' j g = wmap st j g"
    and "j < 512 \<Longrightarrow> j \<noteq> i \<Longrightarrow> translate st' (kmap_va j) = translate st (kmap_va j)"
    and "entry_present e \<Longrightarrow> wmap st' i (e AND ADDR_MASK)"
    and "\<not> entry_present e \<Longrightarrow> translate st' (kmap_va i) = None"
    and "data_frame st' h = data_frame st h" and "same_data F st st'"
proof -
  have inv: "pg_inv st" using c by (simp add: data_ctx_def pg_ok_def)
  have p: "va_path 3 (kmap_va i) = [0, 0, 5]" "walk_index 0 (kmap_va i) = i"
    using i by (simp_all add: paths_of_windows kmap_va_index del: va_path_simps)
  have g5: "good_path [0, 0, 5]" by (simp add: good_path_def)
  note l = leaf_store [OF inv kmap_va_own [OF i], unfolded p, OF f [unfolded wtab_def], where e = e, folded st'_def]
  show "pg_ok st'" using l(1) c by (simp add: pg_ok_def data_ctx_def st'_def)
  show "wtab st' = Some f" using l(4) [OF g5] f by (simp only: wtab_def)
  show tr: "translate st' (kmap_va j) = translate st (kmap_va j)" if "j < 512" "j \<noteq> i" for j
    using l(2) [of "kmap_va j"] that i kmap_va_inj by simp
  show "wmap st' j g = wmap st j g" if "j < 512" "j \<noteq> i"
    unfolding wmap_def using l(2) page_no_own that i kmap_va_inj by (metis (no_types, lifting))
  show "entry_present e \<Longrightarrow> wmap st' i (e AND ADDR_MASK)" using l(3) by (simp add: wmap_def)
  show "\<not> entry_present e \<Longrightarrow> translate st' (kmap_va i) = None" using l(3) [of "kmap_va i"] by simp
  show "data_frame st' h = data_frame st h" using l(4) by (simp add: data_frame_def st'_def cong: conj_cong)
  have al: "page_aligned f" using pg.tables_inj_aligned [OF _ f [unfolded wtab_def]] inv by (simp add: pg_inv_def)
  show "same_data F st st'"
    unfolding same_data_def
  proof (intro conjI ballI allI impI)
    show "translate st' a = translate st a" if "outside_window a" for a
      using l(2) that i by (simp add: outside_window_def)
    fix h a assume h: "h \<in> F" and a: "a \<in> bytes_at h 4096"
    have "h \<noteq> f" using c h f g5 unfolding wtab_def data_ctx_def data_frame_def by blast
    then have "bytes_at h 4096 \<inter> bytes_at f 4096 = {}"
      using data_ctx_frame(1) [OF c h] al by (intro page_bytes_disjoint)
    then show "pmem st' a = pmem st a"
      using a slot_bytes [OF al i] by (auto simp: st'_def intro!: store64_out)
  qed
qed

lemma ctx_map:
  assumes c: "data_ctx st F W" and e: "entry_parts frame flags" and s: "free_slots st \<noteq> {}"
  obtains i st' where "vm_map_page st frame flags = Inr (kmap_va i, st')" "i \<in> free_slots st"
    "data_ctx st' F (insert (i, frame) W)" "free_slots st' = free_slots st - {i}"
    "avail st' = avail st" "same_data F st st'"
proof -
  obtain f where f: "wtab st = Some f"
    using c by (auto simp: data_ctx_def)
  have ok: "pg_ok st" using c by (simp add: data_ctx_def)
  obtain i where i: "i < 512" "translate st (kmap_va i) = None"
    "vm_map_page st frame flags = Inr (kmap_va i,
            cycle_pg (st\<lparr>pmem := store64 (pmem st) (slot f i) (frame OR flags)\<rparr>))"
    using vm_map_page_cases [OF ok f [unfolded wtab_def], of frame flags] s by (auto simp: free_slots_def)
  define st' where "st' = st\<lparr>pmem := store64 (pmem st) (slot f i) (frame OR flags)\<rparr>"
  note l = ctx_leaf [OF c f i(1), where e = "frame OR flags", folded st'_def]
  note p = entry_parts_or [OF e]
  have wi: "wmap st' i frame" using l(5) p by simp
  have notin: "(i, g) \<notin> W" for g
    using c i(2) by (auto simp: data_ctx_def wmap_def)
  have W: "\<forall>(j, g) \<in> insert (i, frame) W. j < 512 \<and> wmap st' j g"
  proof -
    have "j < 512 \<and> wmap st' j g" if "(j, g) \<in> W" for j g
      using c that notin [of g] l(3) [of j g] by (cases "j = i") (auto simp: data_ctx_def)
    then show ?thesis using wi i(1) by auto
  qed
  have cyc: "wmap (cycle_pg x) = wmap x" "data_frame (cycle_pg x) = data_frame x"
    "avail (cycle_pg x) = avail x" "free_slots (cycle_pg x) = free_slots x" for x
    by (simp_all add: wmap_def data_frame_def avail_def free_slots_def fun_eq_iff)
  have wtc: "wtab (cycle_pg x) = wtab x" for x by (simp only: wtab_def cycle_pg_simps)
  have "data_ctx (cycle_pg st') F (insert (i, frame) W)"
    using c l(1,2,7) W by (simp add: data_ctx_def cyc wtc) (simp add: st'_def)
  moreover have "free_slots st' = free_slots st - {i}"
  proof -
    have "translate st' (kmap_va i) \<noteq> None" using wi by (simp add: wmap_def)
    then have "translate st' (kmap_va j) = None \<longleftrightarrow> translate st (kmap_va j) = None \<and> j \<noteq> i" if "j < 512" for j
      using l(4) [of j] that by (cases "j = i") auto
    then show ?thesis by (auto simp: free_slots_def)
  qed
  moreover have "same_data F st (cycle_pg st')" using l(8) by (simp add: same_data_def)
  ultimately show ?thesis
    using that [of i "cycle_pg st'"] i by (simp add: cyc st'_def avail_def free_slots_def)
qed

lemma ctx_unmap:
  assumes c: "data_ctx st F W" and i: "i < 512"
  obtains r st' where "vm_unmap_page st (kmap_va i) = Inr (r, st')"
    "data_ctx st' F {w \<in> W. fst w \<noteq> i}" "free_slots st' = insert i (free_slots st)"
    "avail st' = avail st" "same_data F st st'"
proof -
  obtain f where f: "wtab st = Some f"
    using c by (auto simp: data_ctx_def)
  have p: "va_path 3 (kmap_va i) = [0, 0, 5]" "walk_index 0 (kmap_va i) = i"
    using i by (simp_all add: paths_of_windows kmap_va_index del: va_path_simps)
  have ok: "pg_ok st" using c by (simp add: data_ctx_def)
  define st' where "st' = st\<lparr>pmem := store64 (pmem st) (slot f i) 0\<rparr>"
  define fin where "fin = cycle_pg (st'\<lparr>invlpg_log := invlpg_log st @ [kmap_va i]\<rparr>)"
  have eq: "vm_unmap_page st (kmap_va i) = Inr (load64 (pmem st) (slot f i) AND PG_MASK, fin)"
    using vm_unmap_page_eq [OF ok, of "kmap_va i" f] f by (simp only: p fin_def st'_def wtab_def)
  note l = ctx_leaf [OF c f i, where e = 0, folded st'_def]
  have cyc: "wmap fin = wmap st'" "data_frame fin = data_frame st'" "avail fin = avail st'"
    "free_slots fin = free_slots st'" "root fin = root st'" "pmem fin = pmem st'" "k_phys fin = k_phys st'"
    "pg_ok fin = pg_ok st'"
    by (simp_all add: fin_def wmap_def data_frame_def avail_def free_slots_def fun_eq_iff)
  have "data_ctx fin F {w \<in> W. fst w \<noteq> i}"
  proof -
    have "wtab fin = wtab st'" by (simp only: wtab_def cyc)
    moreover have "j < 512 \<and> wmap st' j g" if "(j, g) \<in> W" "j \<noteq> i" for j g
      using c that l(3) [of j g] by (auto simp: data_ctx_def)
    ultimately show ?thesis
      using c l(1,2,7) by (auto simp: data_ctx_def cyc) (simp add: st'_def)
  qed
  moreover have "free_slots fin = insert i (free_slots st)"
  proof -
    have "translate st' (kmap_va i) = None" using l(6) by (simp add: entry_present_def)
    then have "translate st' (kmap_va j) = None \<longleftrightarrow> translate st (kmap_va j) = None \<or> j = i" if "j < 512" for j
      using l(4) [of j] that by (cases "j = i") auto
    then show ?thesis unfolding cyc using i by (auto simp: free_slots_def)
  qed
  moreover have "same_data F st fin" using l(8) by (simp add: same_data_def cyc) (simp add: fin_def)
  moreover have "avail fin = avail st" by (simp add: cyc) (simp add: st'_def avail_def)
  ultimately show ?thesis using that eq by blast
qed

end
