(* ===== verification/Ept.thy ===== *)
theory Ept
  imports Data_Pages Guest_Memory
begin

text \<open>
  What the loops of \<open>virt_pg_table_setup\<close> write: each step is followed on the mapped tables, with the
  frames of the extended page tables as data of the hypervisor.
\<close>

section \<open>Writing into a window\<close>

definition within :: "u64 \<Rightarrow> kernel \<Rightarrow> kernel \<Rightarrow> bool" where
  "within g st st' \<longleftrightarrow> (\<exists>m'. st' = st\<lparr>pmem := m'\<rparr> \<and> same_outside g (pmem st) m')"

lemma within_iff: "within g st st' \<longleftrightarrow> st' = st\<lparr>pmem := pmem st'\<rparr> \<and> same_outside g (pmem st) (pmem st')"
  by (auto simp: within_def intro: exI [of _ "pmem st'"])

lemma within_refl: "within g st st"
  by (simp add: within_iff same_outside_def)

lemma within_trans: "within g st st' \<Longrightarrow> within g st' st'' \<Longrightarrow> within g st st''"
  unfolding within_iff by (metis kernel.surjective kernel.update_convs(2) same_outside_trans)

lemma ctx_within:
  assumes "data_ctx st F W" and "g \<in> F" and "within g st st'"
  shows "data_ctx st' F W" and "free_slots st' = free_slots st" and "avail st' = avail st"
    and "same_data (F - {g}) st st'"
  using assms ctx_write [OF assms(1,2)] by (auto simp: within_def)

lemma ctx_wr8_eq:
  assumes "data_ctx st F W" and "g \<in> F" and "(i, g) \<in> W" and "off < 4096"
  shows "wr8 st (kmap_va i + of_nat off) v = Inr (st\<lparr>pmem := (pmem st)(g + of_nat off := v)\<rparr>)"
    and "within g st (st\<lparr>pmem := (pmem st)(g + of_nat off := v)\<rparr>)"
proof -
  have i: "i < 512" "wmap st i g" using assms(1,3) by (auto simp: data_ctx_def)
  note al = data_ctx_frame(1) [OF assms(1,2)]
  have "g + of_nat off \<in> bytes_at g 4096" using assms(4) by (auto simp: bytes_at_def)
  then have "same_outside g (pmem st) ((pmem st)(g + of_nat off := v))" by (rule same_outside_upd)
  then show "within g st (st\<lparr>pmem := (pmem st)(g + of_nat off := v)\<rparr>)" by (auto simp: within_def)
  show "wr8 st (kmap_va i + of_nat off) v = Inr (st\<lparr>pmem := (pmem st)(g + of_nat off := v)\<rparr>)"
    using wmap_walk [OF i(2,1) al assms(4)] by (simp add: wr8_def)
qed

lemma ctx_wr8:
  assumes "data_ctx st F W" and "g \<in> F" and "(i, g) \<in> W" and "off < 4096"
  shows "\<exists>st'. wr8 st (kmap_va i + of_nat off) v = Inr st' \<and> within g st st'"
  using ctx_wr8_eq [OF assms] by blast

lemma ctx_wr16:
  assumes c: "data_ctx st F W" and g: "g \<in> F" "(i, g) \<in> W" and off: "off < 4095"
  shows "\<exists>st'. wr16 st (kmap_va i + of_nat off) v = Inr st' \<and> within g st st'"
proof -
  obtain s1 where s1: "wr8 st (kmap_va i + of_nat off) (ucast (ucast v :: u64)) = Inr s1" "within g st s1"
    using ctx_wr8 [OF c g, of off] off by fastforce
  obtain s2 where s2: "wr8 s1 (kmap_va i + of_nat (Suc off)) (ucast (drop_bit 8 (ucast v :: u64))) = Inr s2" "within g s1 s2"
    using ctx_wr8 [OF ctx_within(1) [OF c g(1) s1(2)] g, of "Suc off"] off by fastforce
  have "wr16 st (kmap_va i + of_nat off) v = Inr s2"
    using s1(1) s2(1) by (simp add: wr16_def numeral_2_eq_2 ac_simps)
  then show ?thesis using within_trans [OF s1(2) s2(2)] by blast
qed

lemma ctx_slot_free: "data_ctx st F W \<Longrightarrow> i \<in> free_slots st \<Longrightarrow> (i, g) \<notin> W"
  by (auto simp: data_ctx_def free_slots_def wmap_def)

lemma unmap_windows: "(\<And>g. (i, g) \<notin> W) \<Longrightarrow> {w \<in> insert (i, f) W. fst w \<noteq> i} = W"
  by auto

lemma present_parts: "g AND ADDR_MASK = g \<Longrightarrow> entry_parts g (PGT_P OR PGT_RW)"
  by (simp add: entry_parts_def PGT_P_def PGT_RW_def ADDR_MASK_def mask_eq_exp_minus_1 entry_present_def)

section \<open>The test program\<close>

abbreviation TEST_FRAME :: u64 where "TEST_FRAME \<equiv> 0x100100000"

lemma write_test_correct:
  assumes c: "data_ctx st F W" and t: "TEST_FRAME \<in> F" and s: "free_slots st \<noteq> {}"
  shows "\<exists>st'. write_test st 0x100000 = Inr st' \<and> data_ctx st' F W \<and> free_slots st' = free_slots st
    \<and> avail st' = avail st \<and> same_data (F - {TEST_FRAME}) st st'"
proof -
  have e: "entry_parts TEST_FRAME (PGT_P OR PGT_RW)" using present_parts data_ctx_frame(2) [OF c t] .
  obtain i s0 where s0: "vm_map_page st TEST_FRAME (PGT_P OR PGT_RW) = Inr (kmap_va i, s0)" "i \<in> free_slots st"
    "data_ctx s0 F (insert (i, TEST_FRAME) W)" "free_slots s0 = free_slots st - {i}" "avail s0 = avail st"
    "same_data F st s0" using ctx_map [OF c e s] .
  have i: "i < 512" using s0(2) by (simp add: free_slots_def)
  note step = ctx_wr16 [OF ctx_within(1) [OF s0(3) t] t insertI1]
  obtain s1 where s1: "wr16 s0 (kmap_va i) 0x05C7 = Inr s1" "within TEST_FRAME s0 s1"
    using step [OF within_refl, of 0] by auto
  obtain s2 where s2: "wr16 s1 (kmap_va i + 2) 0x8000 = Inr s2" "within TEST_FRAME s0 s2"
    using step [OF s1(2), of 2] within_trans [OF s1(2)] by auto
  obtain s3 where s3: "wr16 s2 (kmap_va i + 4) 0x000B = Inr s3" "within TEST_FRAME s0 s3"
    using step [OF s2(2), of 4] within_trans [OF s2(2)] by auto
  obtain s4 where s4: "wr16 s3 (kmap_va i + 6) 0x2F4F = Inr s4" "within TEST_FRAME s0 s4"
    using step [OF s3(2), of 6] within_trans [OF s3(2)] by auto
  obtain s5 where s5: "wr16 s4 (kmap_va i + 8) 0x2F4B = Inr s5" "within TEST_FRAME s0 s5"
    using step [OF s4(2), of 8] within_trans [OF s4(2)] by auto
  obtain s6 where s6: "wr16 s5 (kmap_va i + 10) 0xF4F4 = Inr s6" "within TEST_FRAME s0 s6"
    using step [OF s5(2), of 10] within_trans [OF s5(2)] by auto
  note w = ctx_within [OF s0(3) t s6(2)]
  obtain r st' where u: "vm_unmap_page s6 (kmap_va i) = Inr (r, st')"
    "data_ctx st' F {w \<in> insert (i, TEST_FRAME) W. fst w \<noteq> i}" "free_slots st' = insert i (free_slots s6)"
    "avail st' = avail s6" "same_data F s6 st'" using ctx_unmap [OF w(1) i] .
  have "data_ctx st' F W" using u(2) unmap_windows [OF ctx_slot_free [OF c s0(2)]] by simp
  moreover have "same_data (F - {TEST_FRAME}) st st'"
    using same_data_trans [OF same_data_trans [OF same_data_mono [OF s0(6)] w(4)] same_data_mono [OF u(5)]] by auto
  moreover have "write_test st 0x100000 = Inr st'"
    unfolding write_test_def using s0(1) s1(1) s2(1) s3(1) s4(1) s5(1) s6(1) u(1) by simp
  ultimately show ?thesis
    using u(3,4) w(2,3) s0(2,4,5) by (auto simp: insert_absorb)
qed

section \<open>The page table of the first 2MB\<close>

lemma fill_pt_correct:
  assumes "data_ctx st F W" and pt: "pt \<in> F" "(i, pt) \<in> W" "pt \<noteq> TEST_FRAME" and t: "TEST_FRAME \<in> F"
    and "free_slots st \<noteq> {}" and "n \<le> 512"
  shows "\<exists>st'. fill_pt st (kmap_va i) (of_nat (4096 * n) - 4096) (of_nat n) = Inr st' \<and> data_ctx st' F W
    \<and> free_slots st' = free_slots st \<and> avail st' = avail st \<and> same_data (F - {pt, TEST_FRAME}) st st'
    \<and> (\<forall>l < 512. load64 (pmem st') (slot pt (of_nat l)) =
         (if n \<le> l then pt_ept_entry (of_nat l) (of_nat (4096 * l)) else load64 (pmem st) (slot pt (of_nat l))))"
  using assms(1,6,7)
proof (induction "512 - n" arbitrary: n st)
  case 0
  then have "n = 512" by simp
  then show ?case using 0 by (subst fill_pt.simps) auto
next
  case (Suc d)
  then have n: "n < 512" by simp
  note c = Suc.prems(1)
  have al: "page_aligned pt" using data_ctx_frame(1) [OF c pt(1)] .
  have un: "unat (of_nat n :: u16) = n" "unat (of_nat n :: u64) = n" "(ucast (of_nat n :: u16) :: u64) = of_nat n"
    using n by (simp_all add: unat_of_nat_small word_unat_eq_iff unsigned_ucast_eq take_bit_nat_eq_self)
  have lt: "(of_nat n :: u16) < 512" "(of_nat n :: u64) < 512" using un n by (simp_all add: word_less_nat_alt)
  let ?e = "pt_ept_entry (of_nat n) (of_nat (4096 * n))"
  define s1 where "s1 = st\<lparr>pmem := store64 (pmem st) (slot pt (of_nat n)) ?e\<rparr>"
  note st1 = ctx_store64 [OF c pt(1,2) lt(2), where e = ?e]
  have w1: "within pt st s1" using st1(2) by (auto simp: within_def s1_def)
  note c1 = ctx_within [OF c pt(1) w1]
  have test: "(of_nat n :: u64) = PG_TABLE_ENTRIES div 2 \<longleftrightarrow> n = 256"
    using un(2) by (auto simp: PG_TABLE_ENTRIES_def PG_SIZE_def word_unat_eq_iff)
  obtain s2 where s2: "(if n = 256 then write_test s1 (of_nat (4096 * n)) else Inr s1) = Inr s2"
    "data_ctx s2 F W" "free_slots s2 = free_slots st" "avail s2 = avail st" "same_data (F - {TEST_FRAME}) s1 s2"
    using write_test_correct [OF c1(1) t] c1 Suc.prems(2) by (cases "n = 256") auto
  obtain st' where st': "fill_pt s2 (kmap_va i) (of_nat (4096 * Suc n) - 4096) (of_nat (Suc n)) = Inr st'"
    "data_ctx st' F W" "free_slots st' = free_slots s2" "avail st' = avail s2"
    "same_data (F - {pt, TEST_FRAME}) s2 st'"
    "\<forall>l < 512. load64 (pmem st') (slot pt (of_nat l)) =
       (if Suc n \<le> l then pt_ept_entry (of_nat l) (of_nat (4096 * l)) else load64 (pmem s2) (slot pt (of_nat l)))"
  proof -
    have d: "d = 512 - Suc n" and n': "Suc n \<le> 512" using Suc.hyps(2) n by simp_all
    have "free_slots s2 \<noteq> {}" using s2(3) Suc.prems(2) by simp
    from Suc.hyps(1) [OF d s2(2) this n'] that show ?thesis by blast
  qed
  define fo where "fo = (of_nat (4096 * n) :: u64)"
  have fo: "fo - 4096 + PG_SIZE = fo" "of_nat (4096 * Suc n) - 4096 = fo" "of_nat n + 1 = (of_nat (Suc n) :: u16)"
    by (simp_all add: fo_def PG_SIZE_def)
  have v: "vstore64 st (slot (kmap_va i) (of_nat n)) (pt_ept_entry (of_nat n) fo) = Inr s1"
    using st1(1) by (simp only: s1_def fo_def)
  have "fill_pt st (kmap_va i) (fo - 4096) (of_nat n)
      = rbind (if n = 256 then write_test s1 fo else Inr s1) (\<lambda>s. fill_pt s (kmap_va i) fo (of_nat (Suc n)))"
    by (subst fill_pt.simps) (simp only: Let_def lt(1) if_True fo un(3) v test rbind.simps)
  then have "fill_pt st (kmap_va i) (of_nat (4096 * n) - 4096) (of_nat n) = Inr st'"
    using s2(1) st'(1) unfolding fo(2) fo_def [symmetric] by simp
  moreover have "same_data (F - {pt, TEST_FRAME}) st st'"
    using same_data_trans [OF same_data_mono [OF c1(4)] same_data_trans [OF same_data_mono [OF s2(5)] st'(5)]] by auto
  moreover have "load64 (pmem s2) (slot pt (of_nat l)) = (if l = n then ?e else load64 (pmem st) (slot pt (of_nat l)))"
    if "l < 512" for l
  proof -
    have l: "(of_nat l :: u64) < 512" "(of_nat l :: u64) = of_nat n \<longleftrightarrow> l = n"
      using that n by (auto simp: word_less_nat_alt unat_of_nat_small word_unat_eq_iff)
    have "load64 (pmem s2) (slot pt (of_nat l)) = load64 (pmem s1) (slot pt (of_nat l))"
      using same_data_load [OF s2(5) _ al l(1)] pt by simp
    then show ?thesis using load_slot_store [OF al al l(1) lt(2)] l(2) by (simp add: s1_def)
  qed
  ultimately show ?case
    using st'(2-6) s2(3,4) by (intro exI [of _ st']) (auto simp: Suc_le_eq)
qed

definition first_pt_ok :: "mem \<Rightarrow> u64 \<Rightarrow> bool" where
  "first_pt_ok m pt \<longleftrightarrow> (\<forall>l < 512. load64 m (slot pt (of_nat l)) = pt_ept_entry (of_nat l) (of_nat (4096 * l)))"

lemma EPT_bits: "g OR EPT_RD OR EPT_WR OR EPT_EX = g OR 7"
  by (simp add: EPT_RD_def EPT_WR_def EPT_EX_def or.assoc)

lemma ctx_new_table:
  assumes c: "data_ctx st F W" and p: "p \<in> F" "(w, p) \<in> W" and j: "j < 512"
    and a: "avail st \<noteq> {}" and s: "free_slots st \<noteq> {}"
  obtains g i st' where "new_table st (kmap_va w) j msgs = Inr (kmap_va i, st')"
    "g \<notin> F" "i \<in> free_slots st" "data_ctx st' (insert g F) (insert (i, g) W)" "free_slots st' = free_slots st - {i}"
    "card (avail st) = Suc (card (avail st'))" "same_data (F - {p}) st st'"
    "\<forall>l < 512. load64 (pmem st') (slot p l) = (if l = j then g OR 7 else load64 (pmem st) (slot p l))"
    "\<forall>l < 512. load64 (pmem st') (slot g l) = load64 (pmem st) (slot g l)" "frame_no g \<in> avail st"
proof -
  obtain g ph where g: "alloc_phys_frame (k_phys st) = Inr (g, ph)" "g \<noteq> 0" "g \<notin> F"
    "data_ctx (st\<lparr>k_phys := ph\<rparr>) (insert g F) W" "free_slots (st\<lparr>k_phys := ph\<rparr>) = free_slots st"
    "frame_no g \<in> avail st" "avail (st\<lparr>k_phys := ph\<rparr>) = avail st - {frame_no g}"
    using ctx_alloc [OF c a] .
  define s1 where "s1 = st\<lparr>k_phys := ph\<rparr>"
  define s2 where "s2 = s1\<lparr>pmem := store64 (pmem s1) (slot p j) (g OR 7)\<rparr>"
  note c1 = g(4) [folded s1_def]
  have pF: "p \<in> insert g F" using p(1) by simp
  note v = ctx_store64 [OF c1 pF p(2) j, where e = "g OR 7", folded s2_def]
  have w2: "within p s1 s2" using v(2) by (auto simp: within_def s2_def)
  note c2 = ctx_within [OF c1 pF w2]
  have ne: "free_slots s2 \<noteq> {}" using s c2(2) g(5) by (simp add: s1_def)
  obtain i st' where m: "vm_map_page s2 g (PGT_P OR PGT_RW) = Inr (kmap_va i, st')" "i \<in> free_slots s2"
    "data_ctx st' (insert g F) (insert (i, g) W)" "free_slots st' = free_slots s2 - {i}" "avail st' = avail s2"
    "same_data (insert g F) s2 st'"
    using ctx_map [OF c2(1) present_parts [OF data_ctx_frame(2) [OF c2(1) insertI1]] ne] .
  have "kmap_va i \<noteq> 0" using m(2) kmap_va_unat [of i] by (auto simp: free_slots_def)
  then have run: "new_table st (kmap_va w) j msgs = Inr (kmap_va i, st')"
    unfolding new_table_def alloc_frame_def map_frame_def EPT_bits using g(1,2) v(1) m(1) by (simp add: s1_def)
  note al = data_ctx_frame(1) [OF c2(1) pF] data_ctx_frame(1) [OF c2(1) insertI1]
  have keep: "same_data (F - {p}) st st'"
  proof -
    have "same_data (F - {p}) st s1" by (simp add: same_data_def s1_def)
    also have "same_data (F - {p}) s1 s2" by (rule same_data_mono [OF c2(4)]) auto
    also have "same_data (F - {p}) s2 st'" by (rule same_data_mono [OF m(6)]) auto
    finally show ?thesis .
  qed
  have ld: "load64 (pmem st') (slot f l) = (if f = p \<and> l = j then g OR 7 else load64 (pmem st) (slot f l))"
    if "f = p \<or> f = g" "l < 512" for f l
    using same_data_load [OF m(6), of f l] load_slot_store [of f p l j "pmem st" "g OR 7"] that al pF j
    by (auto simp: s2_def s1_def)
  have "card (avail st) = Suc (card (avail st'))"
    using m(5) c2(3) g(7) card_Suc_Diff1 [OF finite_avail g(6)] by (simp add: s1_def)
  moreover have "g \<noteq> p" using g(3) p(1) by auto
  ultimately show ?thesis
    using that [OF run g(3) _ m(3)] m(2,4) c2(2) g(5,6) keep ld by (simp add: s1_def)
qed

text \<open>Removing the mapping that was added last.\<close>

lemma ctx_close:
  assumes c: "data_ctx st F (insert (i, g) W)" and i: "i < 512" "\<And>h. (i, h) \<notin> W"
  obtains r st' where "vm_unmap_page st (kmap_va i) = Inr (r, st')" "data_ctx st' F W"
    "free_slots st' = insert i (free_slots st)" "avail st' = avail st" "same_data F st st'"
  using ctx_unmap [OF c i(1)] unmap_windows [OF i(2)] by metis

lemma free_slots_less: "i \<in> free_slots st \<Longrightarrow> i < 512"
  by (simp add: free_slots_def)

lemma card_minus_one:
  assumes "A' = A - {i}" and "i \<in> A" and "finite A"
  shows "card A = Suc (card A')"
  using card_Suc_Diff1 [OF assms(3,2)] assms(1) by simp

lemma first_pdt_entry_correct:
  assumes c: "data_ctx st F W" and d: "pdt \<in> F" "(w, pdt) \<in> W" "pdt \<noteq> TEST_FRAME" and t: "TEST_FRAME \<in> F"
    and s: "2 \<le> card (free_slots st)" and a: "avail st \<noteq> {}"
  obtains st' pt where "first_pdt_entry st (kmap_va w) 0 = Inr st'" "pt \<notin> F" "data_ctx st' (insert pt F) W"
    "free_slots st' = free_slots st" "card (avail st) = Suc (card (avail st'))"
    "same_data (F - {pdt, TEST_FRAME}) st st'" "first_pt_ok (pmem st') pt"
    "\<forall>l < 512. load64 (pmem st') (slot pdt l) = (if l = 0 then pt OR 7 else load64 (pmem st) (slot pdt l))"
proof -
  have ne: "free_slots st \<noteq> {}" and z: "(0 :: u64) < 512" using s by auto
  obtain pt i s1 where s1:
    "new_table st (kmap_va w) 0 (''Failed to allocate a PT frame'', ''Failed to map PT'') = Inr (kmap_va i, s1)"
    "pt \<notin> F" "i \<in> free_slots st" "data_ctx s1 (insert pt F) (insert (i, pt) W)" "free_slots s1 = free_slots st - {i}"
    "card (avail st) = Suc (card (avail s1))" "same_data (F - {pdt}) st s1"
    "\<forall>l < 512. load64 (pmem s1) (slot pdt l) = (if l = 0 then pt OR 7 else load64 (pmem st) (slot pdt l))"
    "\<forall>l < 512. load64 (pmem s1) (slot pt l) = load64 (pmem st) (slot pt l)" "frame_no pt \<in> avail st"
    using ctx_new_table [OF c d(1,2) z a ne] .
  have ptt: "pt \<noteq> TEST_FRAME" "pt \<noteq> pdt" "TEST_FRAME \<in> insert pt F" using s1(2) t d(1) by auto
  have ne1: "free_slots s1 \<noteq> {}"
    using card_minus_one [OF s1(5,3)] s by auto
  obtain s2 where s2: "fill_pt s1 (kmap_va i) (0 - PG_SIZE) 0 = Inr s2" "data_ctx s2 (insert pt F) (insert (i, pt) W)"
    "free_slots s2 = free_slots s1" "avail s2 = avail s1" "same_data (insert pt F - {pt, TEST_FRAME}) s1 s2"
    "first_pt_ok (pmem s2) pt"
    using fill_pt_correct [OF s1(4) insertI1 insertI1 ptt(1,3) ne1, of 0] by (auto simp: first_pt_ok_def PG_SIZE_def)
  obtain r st' where u: "vm_unmap_page s2 (kmap_va i) = Inr (r, st')" "data_ctx st' (insert pt F) W"
    "free_slots st' = insert i (free_slots s2)" "avail st' = avail s2" "same_data (insert pt F) s2 st'"
    using ctx_close [OF s2(2) free_slots_less [OF s1(3)] ctx_slot_free [OF c s1(3)]] .
  have "same_data (F - {pdt, TEST_FRAME}) st st'"
  proof -
    have "same_data (F - {pdt, TEST_FRAME}) st s1" by (rule same_data_mono [OF s1(7)]) auto
    also have "same_data (F - {pdt, TEST_FRAME}) s1 s2" by (rule same_data_mono [OF s2(5)]) (use s1(2) in auto)
    also have "same_data (F - {pdt, TEST_FRAME}) s2 st'" by (rule same_data_mono [OF u(5)]) auto
    finally show ?thesis .
  qed
  moreover note al = data_ctx_frame(1) [OF u(2)]
  have "load64 (pmem st') (slot pdt l) = load64 (pmem s1) (slot pdt l)" if "l < 512" for l
    using same_data_load [OF u(5), of pdt l] same_data_load [OF s2(5), of pdt l] al [of pdt] ptt d that by auto
  moreover have "first_pt_ok (pmem st') pt"
    using s2(6) same_data_load [OF u(5) insertI1 al [OF insertI1]]
    by (auto simp: first_pt_ok_def word_less_nat_alt unat_of_nat_small)
  ultimately show ?thesis
    using that [of st' pt] s1(2,3,5,6,8) s2(1,3,4) u(1-4)
    by (simp add: first_pdt_entry_def s1(1) insert_absorb)
qed

section \<open>The page directories\<close>

text \<open>
  What the code puts into the directory entry of the 2MB page \<open>n\<close>, and how the two addresses advance.
\<close>

definition plan_step :: "vm_struct_t \<Rightarrow> u64 \<times> u64 \<Rightarrow> nat \<Rightarrow> u64 \<times> (u64 \<times> u64)" where
  "plan_step vm phys n =
     (let (kp, rp) = phys
      in if kp < img_size vm + img_paddr vm then (kp, (kp + LARGE_PG_SIZE, rp))
         else if rp < extra_size vm + extra_paddr vm then (rp, (kp, rp + LARGE_PG_SIZE))
         else (of_nat (0x200000 * n) + 0x100000000, phys))"

fun plan :: "vm_struct_t \<Rightarrow> u64 \<times> u64 \<Rightarrow> nat \<Rightarrow> u64 \<times> u64" where
  "plan vm p 0 = p"
| "plan vm p (Suc n) = (if n = 0 then p else snd (plan_step vm (plan vm p n) n))"

definition plan_page :: "vm_struct_t \<Rightarrow> u64 \<times> u64 \<Rightarrow> nat \<Rightarrow> u64" where
  "plan_page vm p n = fst (plan_step vm (plan vm p n) n)"

lemma small_ucast: "n < 2 ^ 32 \<Longrightarrow> ucast (of_nat n :: u32) = (of_nat n :: u64)"
  by (simp add: word_unat_eq_iff unsigned_ucast_eq unat_of_nat_small take_bit_nat_eq_self)

lemma table_size: "PG_TABLE_ENTRIES = 512" "PG_SIZE = 4096"
  by (simp_all add: PG_TABLE_ENTRIES_def PG_SIZE_def)

lemma pdt_ept_step_eq:
  assumes "i < 512" and "j < 512" and "512 * i + j \<noteq> 0"
  shows "pdt_ept_step st vm tab (of_nat i) (of_nat j) phys =
    rbind (vstore64 st (slot tab (of_nat j)) (large_ept_entry (fst (plan_step vm phys (512 * i + j))))) (\<lambda>st.
      Inr (snd (plan_step vm phys (512 * i + j)), st))"
proof -
  have z: "(of_nat i :: u32) = 0 \<longleftrightarrow> i = 0" "(of_nat j :: u32) = 0 \<longleftrightarrow> j = 0"
    using assms(1,2) by (simp_all add: word_unat_eq_iff unat_of_nat_small)
  have off: "4096 * 512 * 512 * of_nat i + 4096 * 512 * of_nat j = (of_nat (0x200000 * (512 * i + j)) :: u64)"
    by (simp add: algebra_simps)
  have u: "ucast (of_nat i :: u32) = (of_nat i :: u64)" "ucast (of_nat j :: u32) = (of_nat j :: u64)"
    using assms(1,2) by (simp_all add: small_ucast)
  show ?thesis
    using assms(3) unfolding pdt_ept_step_def Let_def table_size u off z plan_step_def
    by (cases phys) (auto simp: z)
qed

lemma pdt_step_correct:
  assumes c: "data_ctx st F W" and d: "pdt \<in> F" "(w, pdt) \<in> W" and i: "i < 512" and N: "N \<le> 2 ^ 18"
    and n: "n = 512 * i + j" and j: "j < 512" and "n \<noteq> 0" and "n < N"
  obtains s1 where
    "fill_pdt st vm (kmap_va w) (of_nat i) (of_nat j) (plan vm p n) (of_nat (512 * n)) (of_nat (512 * N)) =
      (if N \<le> Suc n then Inr (plan vm p (Suc n), of_nat (512 * Suc n), s1)
       else fill_pdt s1 vm (kmap_va w) (of_nat i) (of_nat (Suc j)) (plan vm p (Suc n)) (of_nat (512 * Suc n)) (of_nat (512 * N)))"
    "data_ctx s1 F W" "free_slots s1 = free_slots st" "avail s1 = avail st" "same_data (F - {pdt}) st s1"
    "\<And>l. l < 512 \<Longrightarrow> load64 (pmem s1) (slot pdt (of_nat l)) =
       (if l = j then large_ept_entry (plan_page vm p n) else load64 (pmem st) (slot pdt (of_nat l)))"
proof -
  have al: "page_aligned pdt" using data_ctx_frame(1) [OF c d(1)] .
  have jw: "(of_nat j :: u64) < 512" "(of_nat j :: u32) < 512" "of_nat j + 1 = (of_nat (Suc j) :: u32)"
    using j by (simp_all add: word_less_nat_alt unat_of_nat_small)
  define s1 where "s1 = st\<lparr>pmem := store64 (pmem st) (slot pdt (of_nat j)) (large_ept_entry (plan_page vm p n))\<rparr>"
  note v = ctx_store64 [OF c d jw(1), where e = "large_ept_entry (plan_page vm p n)", folded s1_def]
  have "within pdt st s1" using v(2) by (auto simp: within_def s1_def)
  note c1 = ctx_within [OF c d(1) this]
  have step: "pdt_ept_step st vm (kmap_va w) (of_nat i) (of_nat j) (plan vm p n) = Inr (plan vm p (Suc n), s1)"
    using pdt_ept_step_eq [OF i j, of st vm "kmap_va w" "plan vm p n"] assms(8) v(1)
    by (simp add: n [symmetric] plan_page_def)
  have cnt: "(of_nat (512 * n) + 512 :: u32) = of_nat (512 * Suc n)" by simp
  have "unat (of_nat (512 * N) :: u32) = 512 * N" "unat (of_nat (512 * Suc n) :: u32) = 512 * Suc n"
    by (rule unat_of_nat_small, use N assms(9) in simp)+
  then have le: "(of_nat (512 * N) :: u32) \<le> of_nat (512 * Suc n) \<longleftrightarrow> N \<le> Suc n"
    by (simp only: word_le_nat_alt mult_le_cancel1) simp
  have "load64 (pmem s1) (slot pdt (of_nat l)) =
      (if l = j then large_ept_entry (plan_page vm p n) else load64 (pmem st) (slot pdt (of_nat l)))" if "l < 512" for l
  proof -
    have l: "(of_nat l :: u64) < 512" "(of_nat l :: u64) = of_nat j \<longleftrightarrow> l = j"
      using that j by (simp_all add: word_less_nat_alt unat_of_nat_small word_unat_eq_iff)
    show ?thesis using load_slot_store [OF al al l(1) jw(1)] by (simp add: s1_def l(2))
  qed
  moreover have "fill_pdt st vm (kmap_va w) (of_nat i) (of_nat j) (plan vm p n) (of_nat (512 * n)) (of_nat (512 * N)) =
    (if N \<le> Suc n then Inr (plan vm p (Suc n), of_nat (512 * Suc n), s1)
     else fill_pdt s1 vm (kmap_va w) (of_nat i) (of_nat (Suc j)) (plan vm p (Suc n)) (of_nat (512 * Suc n)) (of_nat (512 * N)))"
    by (subst fill_pdt.simps) (simp only: jw if_True step rbind.simps case_prod_conv Let_def cnt le)
  ultimately show ?thesis using that [of s1] c1 by simp
qed

lemma fill_pdt_correct:
  assumes "data_ctx st F W" and d: "pdt \<in> F" "(w, pdt) \<in> W" and i: "i < 512" and N: "N \<le> 2 ^ 18"
    and "n = 512 * i + j" and "j < 512" and "n \<noteq> 0" and "n < N" and n': "n' = min (512 * Suc i) N"
  shows "\<exists>st'. fill_pdt st vm (kmap_va w) (of_nat i) (of_nat j) (plan vm p n) (of_nat (512 * n)) (of_nat (512 * N))
       = Inr (plan vm p n', of_nat (512 * n'), st')
    \<and> data_ctx st' F W \<and> free_slots st' = free_slots st \<and> avail st' = avail st \<and> same_data (F - {pdt}) st st'
    \<and> (\<forall>l < 512. load64 (pmem st') (slot pdt (of_nat l)) =
       (if n \<le> 512 * i + l \<and> 512 * i + l < n' then large_ept_entry (plan_page vm p (512 * i + l))
        else load64 (pmem st) (slot pdt (of_nat l))))"
  using assms(1,6-9)
proof (induction "n' - Suc n" arbitrary: n j st rule: less_induct)
  case less
  note n = less.prems(2)
  obtain s1 where unf: "fill_pdt st vm (kmap_va w) (of_nat i) (of_nat j) (plan vm p n) (of_nat (512 * n)) (of_nat (512 * N)) =
      (if N \<le> Suc n then Inr (plan vm p (Suc n), of_nat (512 * Suc n), s1)
       else fill_pdt s1 vm (kmap_va w) (of_nat i) (of_nat (Suc j)) (plan vm p (Suc n)) (of_nat (512 * Suc n)) (of_nat (512 * N)))"
    and c1: "data_ctx s1 F W" "free_slots s1 = free_slots st" "avail s1 = avail st" "same_data (F - {pdt}) st s1"
    and ld: "\<And>l. l < 512 \<Longrightarrow> load64 (pmem s1) (slot pdt (of_nat l)) =
       (if l = j then large_ept_entry (plan_page vm p n) else load64 (pmem st) (slot pdt (of_nat l)))"
    by (rule pdt_step_correct [OF less.prems(1) d i N less.prems(2-5)]) blast
  show ?case
  proof (cases "Suc n < n'")
    case True
    have d': "n' - Suc (Suc n) < n' - Suc n" using True by simp
    have lt: "Suc n < N" "Suc j < 512" "Suc n = 512 * i + Suc j" using True n unfolding n' by simp_all
    from less.hyps [OF d' c1(1) lt(3,2) _ lt(1)] obtain st' where st':
      "fill_pdt s1 vm (kmap_va w) (of_nat i) (of_nat (Suc j)) (plan vm p (Suc n))
        (of_nat (512 * Suc n)) (of_nat (512 * N)) = Inr (plan vm p n', of_nat (512 * n'), st')"
      "data_ctx st' F W" "free_slots st' = free_slots s1" "avail st' = avail s1" "same_data (F - {pdt}) s1 st'"
      and ld': "\<And>l. l < 512 \<Longrightarrow> load64 (pmem st') (slot pdt (of_nat l)) =
         (if Suc n \<le> 512 * i + l \<and> 512 * i + l < n' then large_ept_entry (plan_page vm p (512 * i + l))
          else load64 (pmem s1) (slot pdt (of_nat l)))"
      by auto
    have "load64 (pmem st') (slot pdt (of_nat l)) =
       (if n \<le> 512 * i + l \<and> 512 * i + l < n' then large_ept_entry (plan_page vm p (512 * i + l))
        else load64 (pmem st) (slot pdt (of_nat l)))" if "l < 512" for l
      unfolding ld' [OF that] ld [OF that] using True n by (cases "l = j") auto
    then show ?thesis
      using st'(2-4) same_data_trans [OF c1(4) st'(5)] unf st'(1) lt(1) c1(2,3)
      by (intro exI [of _ st'] conjI allI impI) simp_all
  next
    case False
    then have eq: "n' = Suc n" using n less.prems(3,5) unfolding n' by (auto simp: min_def)
    have "fill_pdt st vm (kmap_va w) (of_nat i) (of_nat j) (plan vm p n) (of_nat (512 * n)) (of_nat (512 * N))
        = Inr (plan vm p n', of_nat (512 * n'), s1)"
    proof (cases "N \<le> Suc n")
      case False
      then have "Suc j = 512" using eq n less.prems(3) unfolding n' by simp
      then have "\<not> (of_nat (Suc j) :: u32) < 512" by simp
      then have "fill_pdt s1 vm (kmap_va w) (of_nat i) (of_nat (Suc j)) x y z = Inr (x, y, s1)" for x y z
        by (subst fill_pdt.simps) (simp only: if_False)
      then show ?thesis using unf False by (simp only: if_False eq)
    qed (use unf eq in \<open>simp only: if_True\<close>)
    moreover have "load64 (pmem s1) (slot pdt (of_nat l)) =
       (if n \<le> 512 * i + l \<and> 512 * i + l < n' then large_ept_entry (plan_page vm p (512 * i + l))
        else load64 (pmem st) (slot pdt (of_nat l)))" if "l < 512" for l
      unfolding ld [OF that] eq using n by auto
    ultimately show ?thesis using c1 by (intro exI [of _ s1]) simp
  qed
qed

end
