(* ===== verification/Guest_Map.thy ===== *)
theory Guest_Map
  imports Ept Free_Ranges
begin

text \<open>
  The memory map that \<open>virt_setup_e820\<close> builds for the guest: which of the free frames it gives away,
  what it stores in the zero page, and that its loop ends.
\<close>

section \<open>Entries of the table\<close>

lemma ctx_wr_bytes:
  assumes "data_ctx st F W" and g: "g \<in> F" "(i, g) \<in> W" and "off + n \<le> 4096"
  shows "wr_bytes st (kmap_va i + of_nat off) n v = Inr (st\<lparr>pmem := store_bytes (pmem st) (g + of_nat off) n v\<rparr>)"
    and "within g st (st\<lparr>pmem := store_bytes (pmem st) (g + of_nat off) n v\<rparr>)"
proof -
  show "wr_bytes st (kmap_va i + of_nat off) n v = Inr (st\<lparr>pmem := store_bytes (pmem st) (g + of_nat off) n v\<rparr>)"
    using assms(1,4)
  proof (induction n arbitrary: st off v)
    case (Suc n)
    let ?s = "st\<lparr>pmem := (pmem st)(g + of_nat off := ucast v)\<rparr>"
    have off: "off < 4096" "Suc off + n \<le> 4096" using Suc.prems(2) by simp_all
    note w = ctx_wr8_eq [OF Suc.prems(1) g off(1), of "ucast v"]
    from Suc.IH [OF ctx_within(1) [OF Suc.prems(1) g(1) w(2)] off(2)]
    show ?case using w(1) by (simp add: ac_simps fun_upd_def)
  qed simp
  have "bytes_at (g + of_nat off) n \<subseteq> bytes_at g 4096"
  proof
    fix x assume "x \<in> bytes_at (g + of_nat off) n"
    then obtain k where "k < n" "x = g + of_nat (off + k)" by (auto simp: in_bytes_at_iff ac_simps)
    then show "x \<in> bytes_at g 4096" using assms(4) by (auto simp: in_bytes_at_iff intro!: exI [of _ "off + k"])
  qed
  then show "within g st (st\<lparr>pmem := store_bytes (pmem st) (g + of_nat off) n v\<rparr>)"
    using store_bytes_out [of _ "g + of_nat off" n "pmem st" v] by (auto simp: within_iff same_outside_def)
qed

definition e820_at :: "mem \<Rightarrow> u64 \<Rightarrow> nat \<Rightarrow> u64 \<times> u64 \<Rightarrow> bool" where
  "e820_at m z i e \<longleftrightarrow> load64 m (z + of_nat (0x2d0 + 20 * i)) = fst e
     \<and> load64 m (z + of_nat (0x2d8 + 20 * i)) = snd e \<and> load32 m (z + of_nat (0x2e0 + 20 * i)) = E820_RAM"

lemma page_off_disjoint:
  assumes "page_aligned z" and "a + n \<le> 4096" and "b + k \<le> 4096" and "a + n \<le> b \<or> b + k \<le> a"
  shows "bytes_at (z + of_nat a) n \<inter> bytes_at (z + of_nat b) k = {}"
proof (cases "n = 0 \<or> k = 0")
  case False
  have "unat (z + of_nat o') = unat z + o'" if "o' < 4096" for o'
    using that page_fits [OF assms(1)] by (subst unat_add_small) (simp_all add: unat_of_nat_small)
  then have "unat (z + of_nat a) = unat z + a" "unat (z + of_nat b) = unat z + b" using assms(2,3) False by auto
  then show ?thesis using assms(2-4) page_fits [OF assms(1)] by (intro bytes_at_disjoint) auto
qed auto

lemma e820_at_other:
  assumes "page_aligned z" and "i < 128" and "off + n \<le> 4096" and "0x2d0 + 20 * Suc i \<le> off"
  shows "e820_at (store_bytes m (z + of_nat off) n v) z i e = e820_at m z i e"
proof -
  have "bytes_at (z + of_nat a) k \<inter> bytes_at (z + of_nat off) n = {}" if "a + k \<le> 0x2d0 + 20 * Suc i" for a k
    using that assms by (intro page_off_disjoint) auto
  note d = this [of "0x2d0 + 20 * i" 8] this [of "0x2d8 + 20 * i" 8] this [of "0x2e0 + 20 * i" 4]
  show ?thesis
    unfolding e820_at_def load64_def load32_def using d by (simp add: load_store_other del: of_nat_add)
qed

lemma e820_offsets:
  "field z boot_params [''e820_table''] = z + 0x2d0" "field e boot_e820_entry [''addr''] = e"
  "field e boot_e820_entry [''size''] = e + 8" "field e boot_e820_entry [''type''] = e + 16"
  "sizeof boot_e820_entry = 20"
proof -
  have "map_of (members boot_params) ''e820_table'' \<noteq> None" by (simp add: boot_params_def)
  then show "field z boot_params [''e820_table''] = z + 0x2d0"
    unfolding field_def offset_of_member boot_params_offsets by simp
qed (simp_all add: field_def boot_e820_entry_def member_pos_def)

lemma e820_put_correct:
  assumes c: "data_ctx k F W" and z: "z \<in> F" "(w, z) \<in> W" and n: "unat num < 128"
  obtains k' where "e820_put k (kmap_va w) num a s = Inr k'" "within z k k'" "e820_at (pmem k') z (unat num) (a, s)"
    "\<And>i e. i < unat num \<Longrightarrow> e820_at (pmem k') z i e = e820_at (pmem k) z i e"
proof -
  let ?o = "0x2d0 + 20 * unat num"
  note al = data_ctx_frame(1) [OF c z(1)]
  have u: "ucast num = (of_nat (unat num) :: u64)" by (simp add: word_unat_eq_iff unat_ucast_up unat_of_nat_small)
  define k1 where "k1 = k\<lparr>pmem := store_bytes (pmem k) (z + of_nat ?o) 8 a\<rparr>"
  define k2 where "k2 = k1\<lparr>pmem := store_bytes (pmem k1) (z + of_nat (?o + 8)) 8 s\<rparr>"
  define k3 where "k3 = k2\<lparr>pmem := store_bytes (pmem k2) (z + of_nat (?o + 16)) 4 (ucast E820_RAM)\<rparr>"
  have o: "?o + 8 \<le> 4096" "?o + 8 + 8 \<le> 4096" "?o + 16 + 4 \<le> 4096" using n by simp_all
  note w1 = ctx_wr_bytes [OF c z o(1), of a, folded k1_def]
  note c1 = ctx_within(1) [OF c z(1) w1(2)]
  note w2 = ctx_wr_bytes [OF c1 z o(2), of s, folded k2_def]
  note c2 = ctx_within(1) [OF c1 z(1) w2(2)]
  note w3 = ctx_wr_bytes [OF c2 z o(3), of "ucast E820_RAM", folded k3_def]
  have "e820_put k (kmap_va w) num a s = Inr k3"
    unfolding e820_put_def Let_def e820_offsets wr64_def wr32_def u
    using w1(1) w2(1) w3(1) by (simp add: ac_simps)
  moreover have "within z k k3" using within_trans [OF w1(2) within_trans [OF w2(2) w3(2)]] .
  moreover have "e820_at (pmem k3) z i e = e820_at (pmem k) z i e" if "i < unat num" for i e
    using that n al by (simp add: k3_def k2_def k1_def e820_at_other del: of_nat_add)
  moreover have "e820_at (pmem k3) z (unat num) (a, s)"
  proof -
    have d: "bytes_at (z + of_nat ?o) 8 \<inter> bytes_at (z + of_nat (?o + 8)) 8 = {}"
      "bytes_at (z + of_nat ?o) 8 \<inter> bytes_at (z + of_nat (?o + 16)) 4 = {}"
      "bytes_at (z + of_nat (?o + 8)) 8 \<inter> bytes_at (z + of_nat (?o + 16)) 4 = {}"
      using al n by (intro page_off_disjoint; simp)+
    have e: "0x2d8 + 20 * unat num = ?o + 8" "0x2e0 + 20 * unat num = ?o + 16" by simp_all
    show ?thesis
      unfolding e820_at_def e fst_conv snd_conv k3_def k2_def k1_def
      using d load64_store64 [of _ "z + of_nat ?o" a] load64_store64 [of _ "z + of_nat (?o + 8)" s]
        load32_store32 [of _ "z + of_nat (?o + 16)" E820_RAM]
      by (simp add: load64_def store64_def load32_def store32_def load_store_other del: of_nat_add)
  qed
  ultimately show ?thesis using that by blast
qed

section \<open>What becomes of a free range\<close>

text \<open>All ranges are whole pages; \<open>up512\<close> rounds a page number up to a multiple of 512.\<close>

definition page_addr :: "nat \<Rightarrow> u64" where
  "page_addr p = of_nat (4096 * p)"

definition up512 :: "nat \<Rightarrow> nat" where
  "up512 p = (p + 511) div 512 * 512"

lemma unat_page_addr: "p < 2 ^ 52 \<Longrightarrow> unat (page_addr p) = 4096 * p"
  unfolding page_addr_def by (rule unat_of_nat_small) simp

lemma page_addr_add: "page_addr p + page_addr n = page_addr (p + n)"
  by (simp add: page_addr_def algebra_simps)

lemma page_addr_sub: "n \<le> p \<Longrightarrow> page_addr p - page_addr n = page_addr (p - n)"
  by (simp add: page_addr_def of_nat_diff algebra_simps)

lemma page_addr_le:
  assumes "p < 2 ^ 52" and "q < 2 ^ 52"
  shows "page_addr p \<le> page_addr q \<longleftrightarrow> p \<le> q" and "page_addr p < page_addr q \<longleftrightarrow> p < q"
    and "page_addr p = page_addr q \<longleftrightarrow> p = q"
  using assms by (simp_all add: word_le_nat_alt word_less_nat_alt word_unat_eq_iff unat_page_addr)

lemma up512_bounds: "p \<le> up512 p" "up512 p < p + 512" "512 dvd up512 p"
proof -
  have "512 * ((p + 511) div 512) + (p + 511) mod 512 = p + 511" by (rule mult_div_mod_eq)
  moreover have "(p + 511) mod 512 < 512" by simp
  ultimately show "p \<le> up512 p" "up512 p < p + 512" by (simp_all add: up512_def)
qed (simp add: up512_def)

lemma LARGE_PG_SIZE_addr: "LARGE_PG_SIZE = page_addr 512"
  by (simp add: LARGE_PG_SIZE_def LARGE_PG_BITS_def page_addr_def)

lemma ceiling64_large:
  assumes "unat x < 2 ^ 63"
  shows "ceiling64 x LARGE_PG_SIZE = Inr (of_nat (0x200000 * ((unat x + 0x1FFFFF) div 0x200000)))"
proof -
  have "unat (x + 0x1FFFFF) = unat x + 0x1FFFFF" using assms by (subst unat_add_small) simp_all
  moreover have "x + 0x200000 - 1 = x + 0x1FFFFF" by simp
  moreover have "(unat x + 0x1FFFFF) div 0x200000 < 2 ^ 64" using assms by (simp add: less_mult_imp_div_less)
  ultimately have "((x + 0x200000 - 1) div 0x200000) = of_nat ((unat x + 0x1FFFFF) div 0x200000)"
    by (simp only: word_unat_eq_iff unat_div) (simp add: unat_of_nat_small)
  then show ?thesis by (simp add: ceiling64_def LARGE_PG_SIZE_def LARGE_PG_BITS_def mult.commute)
qed

lemma ceiling64_page:
  assumes "p < 2 ^ 50"
  shows "ceiling64 (page_addr p) LARGE_PG_SIZE = Inr (page_addr (up512 p))"
proof -
  have "(4096 * p + 0x1FFFFF) div 0x200000 = (4096 * p + 0x1FFFFF) div 4096 div 512" by (simp add: div_mult2_eq)
  also have "(4096 * p + 0x1FFFFF) div 4096 = p + 511" by simp
  finally have d: "(4096 * p + 0x1FFFFF) div 0x200000 = (p + 511) div 512" .
  have u: "unat (page_addr p) = 4096 * p" using assms by (intro unat_page_addr) simp
  have "page_addr (up512 p) = of_nat (0x200000 * ((p + 511) div 512))" by (simp add: page_addr_def up512_def)
  then show ?thesis using ceiling64_large [of "page_addr p", unfolded u d] assms by simp
qed

lemma large_mask_page:
  assumes "n < 2 ^ 52"
  shows "page_addr n AND LARGE_PG_MASK = page_addr (n div 512 * 512)"
proof -
  have m: "LARGE_PG_MASK = NOT (mask 21)"
    by (simp add: LARGE_PG_MASK_def LARGE_PG_SIZE_def LARGE_PG_BITS_def mask_eq_exp_minus_1)
  have "(4096 * n) mod 2 ^ 21 = 4096 * (n mod 512)" using mult_mod_right [of 4096 n 512] by simp
  then have "4096 * n - 4096 * n mod 2 ^ 21 = 4096 * (n div 512 * 512)"
    using minus_mod_eq_mult_div [of n 512] by (simp add: diff_mult_distrib2 [symmetric] mult.commute)
  moreover have "n div 512 * 512 < 2 ^ 52" using assms div_times_less_eq_dividend [of n 512] by linarith
  ultimately show ?thesis
    using assms by (simp add: m word_unat_eq_iff unat_and_not_mask unat_page_addr)
qed

text \<open>
  \<open>range_ok pos p n u\<close>: for the run of \<open>n\<close> free frames from \<open>p\<close> on, found from \<open>pos\<close>, the loop goes on
  behind the run, or gives away the frames \<open>a, \<dots>, a + c - 1\<close>: frames of the run (and, at the very
  beginning, the two before it), all of it below 1MB, whole large pages above the kernel.
\<close>

definition range_ok :: "nat \<Rightarrow> nat \<Rightarrow> nat \<Rightarrow> range_use \<Rightarrow> bool" where
  "range_ok pos p n u \<longleftrightarrow> (case u of
     Skip s m \<Rightarrow> 256 \<le> p \<and> (\<exists>e. s + m = page_addr e \<and> p + n \<le> e \<and> e < p + n + 512)
   | Entry s m \<Rightarrow> \<exists>a c. s = page_addr a \<and> m = page_addr c \<and> 0 < c \<and> a + c \<le> p + n
       \<and> (p \<le> a \<or> pos = 0 \<and> a + 2 = p \<and> p < 256) \<and> (p < 256 \<longrightarrow> a \<le> p \<and> a + c = p + n)
       \<and> (a + c < p + n \<longrightarrow> 512 dvd a + c \<and> p + n < a + c + 512 \<and> \<not> (512 dvd p \<and> n < 512)))"

lemma range_above:
  assumes "0 < n" and lim: "p + n \<le> 2 ^ 40" and above: "kernel_end \<le> page_addr p" and p: "256 \<le> p"
  shows "\<exists>u. range_use_of kernel_end start (page_addr p) (page_addr n) = Inr u \<and> range_ok pos p n u"
proof -
  define t where "t = up512 p - p"
  have t: "page_addr (up512 p) - page_addr p = page_addr t" using up512_bounds by (simp add: t_def page_addr_sub)
  have t5: "t < 512" "up512 p = p + t" using up512_bounds [of p] by (simp_all add: t_def)
  have c: "page_addr n \<le> page_addr t \<longleftrightarrow> n \<le> t" using lim t5 by (intro page_addr_le) simp_all
  have ce: "ceiling64 (page_addr p) LARGE_PG_SIZE = Inr (page_addr (up512 p))" using lim by (intro ceiling64_page) simp
  show ?thesis
  proof (cases "n \<le> t")
    case True
    then have "range_use_of kernel_end start (page_addr p) (page_addr n) = Inr (Skip (page_addr (up512 p)) 0)"
      unfolding range_use_of_def Let_def ce using above by (simp add: t c)
    moreover have "range_ok pos p n (Skip (page_addr (up512 p)) 0)"
      using p True t5 by (auto simp: range_ok_def intro!: exI [of _ "p + t"])
    ultimately show ?thesis by blast
  next
    case False
    define r where "r = n - t"
    have s: "page_addr n - page_addr t = page_addr r" using False by (simp add: r_def page_addr_sub)
    have m: "page_addr r AND LARGE_PG_MASK = page_addr (r div 512 * 512)" using lim by (intro large_mask_page) (simp add: r_def)
    have lt: "page_addr (r div 512 * 512) < LARGE_PG_SIZE \<longleftrightarrow> r < 512"
    proof -
      have "r div 512 * 512 < 2 ^ 52" using div_times_less_eq_dividend [of r 512] lim by (simp add: r_def)
      then show ?thesis
        unfolding LARGE_PG_SIZE_addr by (subst page_addr_le(2)) (simp_all add: div_eq_0_iff)
    qed
    have run: "range_use_of kernel_end start (page_addr p) (page_addr n) =
        Inr (if r < 512 then Skip (page_addr (up512 p)) (page_addr r) else Entry (page_addr (up512 p)) (page_addr (r div 512 * 512)))"
      unfolding range_use_of_def Let_def ce using above False by (simp add: t c s m lt)
    have dv: "r div 512 * 512 \<le> r" "r < r div 512 * 512 + 512" using div_mult_mod_eq [of r 512] mod_less_divisor [of 512 r] by linarith+
    show ?thesis
    proof (cases "r < 512")
      case True
      then show ?thesis
        using run p t5 False by (auto simp: range_ok_def r_def page_addr_add intro!: exI [of _ "p + n"])
    next
      case big: False
      then have "0 < r div 512 * 512" by (simp add: div_greater_zero_iff)
      moreover have "512 dvd up512 p + r div 512 * 512" using up512_bounds(3) by (intro dvd_add) simp_all
      ultimately have "range_ok pos p n (Entry (page_addr (up512 p)) (page_addr (r div 512 * 512)))"
        unfolding range_ok_def range_use.case
        by (intro exI [of _ "up512 p"] exI [of _ "r div 512 * 512"]) (use p t5 dv big False r_def in auto)
      then show ?thesis using run big by simp
    qed
  qed
qed

lemma range_use_ok:
  assumes "0 < n" and lim: "p + n \<le> 2 ^ 40" and pos: "pos \<le> p" "pos = 0 \<longrightarrow> 2 \<le> p" and ke: "LINUX_ENTRY_POINT \<le> kernel_end"
  shows "\<exists>u. range_use_of kernel_end (page_addr pos) (page_addr p) (page_addr n) = Inr u \<and> range_ok pos p n u"
proof -
  have e: "LINUX_ENTRY_POINT = page_addr 256" by (simp add: LINUX_ENTRY_POINT_def page_addr_def)
  have le: "page_addr 256 \<le> page_addr p \<longleftrightarrow> 256 \<le> p" using lim by (intro page_addr_le) simp_all
  consider (above) "kernel_end \<le> page_addr p" | (kernel) "\<not> kernel_end \<le> page_addr p" "256 \<le> p" | (low) "p < 256"
    by linarith
  then show ?thesis
  proof cases
    case above
    then have "256 \<le> p" using ke le e by (metis order_trans)
    then show ?thesis using range_above [OF assms(1) lim above] by blast
  next
    case kernel
    then have "range_use_of kernel_end (page_addr pos) (page_addr p) (page_addr n) = Inr (Skip (page_addr p) (page_addr n))"
      using le e by (simp add: range_use_of_def)
    then show ?thesis using kernel by (auto simp: range_ok_def page_addr_add intro!: exI [of _ "p + n"])
  next
    case low
    have nk: "\<not> kernel_end \<le> page_addr p" "\<not> LINUX_ENTRY_POINT \<le> page_addr p" using low le e ke by auto
    have z: "page_addr pos = 0 \<longleftrightarrow> pos = 0"
      using page_addr_le(3) [of pos 0] lim pos(1) by (simp add: page_addr_def)
    have two: "push_bit PG_BITS 2 = page_addr 2" by (simp add: PG_BITS_def page_addr_def)
    show ?thesis
    proof (cases "pos = 0")
      case True
      then have "range_use_of kernel_end (page_addr pos) (page_addr p) (page_addr n) = Inr (Entry (page_addr (p - 2)) (page_addr (n + 2)))"
        using nk z pos(2) by (simp add: range_use_of_def two page_addr_sub page_addr_add)
      moreover have "range_ok pos p n (Entry (page_addr (p - 2)) (page_addr (n + 2)))"
        unfolding range_ok_def range_use.case by (intro exI [of _ "p - 2"] exI [of _ "n + 2"]) (use True pos(2) low in auto)
      ultimately show ?thesis by blast
    next
      case False
      then have "range_use_of kernel_end (page_addr pos) (page_addr p) (page_addr n) = Inr (Entry (page_addr p) (page_addr n))"
        using nk z by (simp add: range_use_of_def)
      moreover have "range_ok pos p n (Entry (page_addr p) (page_addr n))"
        unfolding range_ok_def range_use.case by (intro exI [of _ p] exI [of _ n]) (use assms(1) in auto)
      ultimately show ?thesis by blast
    qed
  qed
qed

section \<open>How many entries\<close>

text \<open>
  The ends of the runs from \<open>pos\<close> on, and a bound for the entries still to come: one per run, and one
  more where a run is left after whole large pages were taken from it. Such a rest is a stub.
\<close>

definition run_ends :: "nat set \<Rightarrow> nat \<Rightarrow> nat set" where
  "run_ends B pos = {q \<in> B. pos \<le> q \<and> Suc q \<notin> B}"

definition stub :: "nat set \<Rightarrow> nat \<Rightarrow> bool" where
  "stub B pos \<longleftrightarrow> pos \<in> B \<and> 512 dvd pos \<and> \<not> {pos ..< pos + 512} \<subseteq> B"

definition todo :: "nat set \<Rightarrow> nat \<Rightarrow> nat" where
  "todo B pos = 2 * card (run_ends B pos) - (if stub B pos then 1 else 0)"

lemma run_end:
  assumes "next_run B pos p n" and "0 < n"
  shows "p + n - 1 \<in> run_ends B pos" and "pos \<le> p" and "{p ..< p + n} \<subseteq> B" and "p + n \<notin> B"
    and "\<And>q. q \<in> B \<Longrightarrow> pos \<le> q \<Longrightarrow> p \<le> q"
  using assms by (auto simp: next_run_def run_ends_def subset_iff)

lemma todo_behind:
  assumes r: "next_run B pos p n" "0 < n" and "finite B" and e: "p + n \<le> e" and B': "B' \<subseteq> B" "B' \<inter> {e ..} = B \<inter> {e ..}"
  shows "todo B' e < todo B pos"
proof -
  have "run_ends B' e \<subseteq> run_ends B pos - {p + n - 1}"
  proof
    fix q assume q: "q \<in> run_ends B' e"
    then have "q \<in> B" "e \<le> q" "Suc q \<notin> B"
      using B' by (auto simp: run_ends_def)
    then show "q \<in> run_ends B pos - {p + n - 1}" using e r run_end(2) [OF r] by (auto simp: run_ends_def)
  qed
  moreover have fin: "finite (run_ends B pos)" using assms(3) by (simp add: run_ends_def)
  ultimately have "card (run_ends B' e) \<le> card (run_ends B pos - {p + n - 1})" by (intro card_mono) auto
  also have "\<dots> < card (run_ends B pos)" using run_end(1) [OF r] fin by (rule card_Diff1_less [rotated])
  finally have "2 * card (run_ends B' e) + 2 \<le> 2 * card (run_ends B pos)" by simp
  then show ?thesis unfolding todo_def by (auto split: if_splits)
qed

lemma todo_stub:
  assumes r: "next_run B pos p n" "0 < n" and "finite B" and a: "p \<le> a" "0 < c" "a + c < p + n"
    and "512 dvd a + c" "p + n < a + c + 512" "\<not> (512 dvd p \<and> n < 512)"
  shows "todo (B - {a ..< a + c}) (a + c) < todo B pos"
proof -
  let ?B = "B - {a ..< a + c}"
  note e = run_end [OF r]
  have "run_ends ?B (a + c) \<subseteq> run_ends B pos" using e(2) a by (auto simp: run_ends_def)
  moreover have fin: "finite (run_ends B pos)" using assms(3) by (simp add: run_ends_def)
  ultimately have c: "card (run_ends ?B (a + c)) \<le> card (run_ends B pos)" by (intro card_mono)
  have pos: "0 < card (run_ends B pos)" using e(1) fin by (auto simp: card_gt_0_iff)
  have "a + c \<in> ?B" using e(3) a by auto
  moreover have "p + n \<in> {a + c ..< a + c + 512}" "p + n \<notin> ?B" using assms(6,8) e(4) by auto
  ultimately have "stub ?B (a + c)" using assms(7) unfolding stub_def by blast
  moreover have "\<not> stub B pos"
  proof
    assume s: "stub B pos"
    then have "p = pos" using e(2) e(5) [of pos] by (simp add: stub_def)
    moreover have "n < 512"
    proof (rule ccontr)
      assume "\<not> n < 512"
      then have "{p ..< p + 512} \<subseteq> {p ..< p + n}" by auto
      then show False using s e(3) \<open>p = pos\<close> unfolding stub_def by blast
    qed
    ultimately show False using s assms(9) by (simp add: stub_def)
  qed
  ultimately show ?thesis using c pos by (simp add: todo_def)
qed

section \<open>The result\<close>

abbreviation range_pages :: "u64 \<times> u64 \<Rightarrow> nat set" where
  "range_pages e \<equiv> touched_frames (unat (fst e)) (unat (snd e))"

text \<open>The two frames before the first run, which the loop adds to it.\<close>

definition two_before :: "nat set \<Rightarrow> nat \<Rightarrow> nat set" where
  "two_before B pos = (if pos = 0 then {Min B - 2, Min B - 1} else {})"

definition map_result :: "nat set \<Rightarrow> nat \<Rightarrow> bool \<Rightarrow> u64 \<times> u64 \<Rightarrow> (u64 \<times> u64) list \<Rightarrow> nat set \<Rightarrow> bool" where
  "map_result B pos merge rd out B' \<longleftrightarrow> B' = B - \<Union> (range_pages ` set out) \<and> B' \<inter> {..< 256} = {}
     \<and> sorted_wrt (\<lambda>e f. range_pages e \<inter> range_pages f = {}) out
     \<and> (\<forall>e \<in> set out. merge \<and> e = rd \<or> range_pages e \<subseteq> B \<union> two_before B pos)"

lemma map_result_end:
  assumes "\<forall>q \<in> B. q < pos" and "B \<inter> {..< min pos 256} = {}"
  shows "map_result B pos merge rd [] B"
  using assms by (fastforce simp: map_result_def)

lemma map_result_ramdisk:
  assumes "map_result B pos False rd out B'" and "range_pages rd \<inter> (B \<union> two_before B pos) = {}"
  shows "map_result B pos True rd (rd # out) B'"
  using assms unfolding map_result_def by (auto simp: disjoint_iff subset_iff)

lemma map_result_skip:
  assumes "map_result B e merge rd out B'" and "0 < e"
  shows "map_result B pos merge rd out B'"
  using assms unfolding map_result_def two_before_def by auto

lemma map_result_entry:
  assumes "map_result (B - range_pages e) pos' merge rd out B'" and "0 < pos'"
    and "range_pages e \<subseteq> B \<union> two_before B pos" and "merge \<longrightarrow> range_pages rd \<inter> (B \<union> two_before B pos) = {}"
  shows "map_result B pos merge rd (e # out) B'"
proof -
  have two: "two_before (B - range_pages e) pos' = {}" using assms(2) by (simp add: two_before_def)
  have "range_pages e \<inter> range_pages f = {}" if "f \<in> set out" for f
  proof -
    have "merge \<and> f = rd \<or> range_pages f \<subseteq> B - range_pages e"
      using assms(1) that two by (auto simp: map_result_def)
    then show ?thesis using assms(3,4) by blast
  qed
  then show ?thesis using assms(1,3) two unfolding map_result_def by auto
qed

definition table_ok :: "mem \<Rightarrow> mem \<Rightarrow> u64 \<Rightarrow> nat \<Rightarrow> (u64 \<times> u64) list \<Rightarrow> bool" where
  "table_ok m m' z num out \<longleftrightarrow> (\<forall>i < length out. e820_at m' z (num + i) (out ! i))
     \<and> (\<forall>i < num. \<forall>e. e820_at m z i e \<longrightarrow> e820_at m' z i e)"

lemma table_ok_Nil [simp]: "table_ok m m z num []"
  by (simp add: table_ok_def)

lemma table_ok_Cons:
  assumes "e820_at m1 z num e" and "\<And>i f. i < num \<Longrightarrow> e820_at m1 z i f = e820_at m z i f"
    and "table_ok m1 m' z (Suc num) out"
  shows "table_ok m m' z num (e # out)"
  unfolding table_ok_def
proof (intro conjI allI impI)
  fix i assume "i < length (e # out)"
  then show "e820_at m' z (num + i) ((e # out) ! i)"
    using assms(1,3) by (cases i; cases e) (auto simp: table_ok_def)
qed (use assms in \<open>auto simp: table_ok_def\<close>)

end
