(* ===== verification/Ept_Top.thy ===== *)
theory Ept_Top
  imports Ept
begin

text \<open>
  The first half of \<open>virt_pg_table_setup\<close>: the two upper tables of the extended page tables are taken
  from the frame allocator, mapped, cleared and linked.
\<close>

section \<open>The two upper tables\<close>

text \<open>A new data frame, mapped.\<close>

lemma ctx_frame:
  assumes c: "data_ctx st F W" and a: "avail st \<noteq> {}" and s: "free_slots st \<noteq> {}"
  obtains g s1 i st' where "alloc_frame st msg = Inr (g, s1)" "map_frame s1 g (PGT_P OR PGT_RW) msg' = Inr (kmap_va i, st')"
    "g \<notin> F" "i \<in> free_slots st" "data_ctx st' (insert g F) (insert (i, g) W)" "free_slots st' = free_slots st - {i}"
    "card (avail st) = Suc (card (avail st'))" "same_data F st st'"
proof -
  obtain g ph where g: "alloc_phys_frame (k_phys st) = Inr (g, ph)" "g \<noteq> 0" "g \<notin> F"
    "data_ctx (st\<lparr>k_phys := ph\<rparr>) (insert g F) W" "free_slots (st\<lparr>k_phys := ph\<rparr>) = free_slots st"
    "frame_no g \<in> avail st" "avail (st\<lparr>k_phys := ph\<rparr>) = avail st - {frame_no g}"
    using ctx_alloc [OF c a] .
  define s1 where "s1 = st\<lparr>k_phys := ph\<rparr>"
  note c1 = g(4,5,7) [folded s1_def]
  have ne: "free_slots s1 \<noteq> {}" using s c1(2) by simp
  obtain i st' where m: "vm_map_page s1 g (PGT_P OR PGT_RW) = Inr (kmap_va i, st')" "i \<in> free_slots s1"
    "data_ctx st' (insert g F) (insert (i, g) W)" "free_slots st' = free_slots s1 - {i}" "avail st' = avail s1"
    "same_data (insert g F) s1 st'"
    using ctx_map [OF c1(1) present_parts [OF data_ctx_frame(2) [OF c1(1) insertI1]] ne] .
  have "kmap_va i \<noteq> 0" using m(2) kmap_va_unat [of i] by (auto simp: free_slots_def)
  then have "map_frame s1 g (PGT_P OR PGT_RW) msg' = Inr (kmap_va i, st')" using m(1) by (simp add: map_frame_def)
  moreover have "alloc_frame st msg = Inr (g, s1)" using g(1,2) by (simp add: alloc_frame_def s1_def)
  moreover have "same_data F st st'" using m(6) by (auto simp: same_data_def s1_def)
  moreover have "card (avail st) = Suc (card (avail st'))"
    using m(5) c1(3) card_Suc_Diff1 [OF finite_avail g(6)] by simp
  ultimately show ?thesis using that [of g s1 i st'] g(3) m(2-4) c1(2) by simp
qed

lemma ctx_vmemset:
  assumes "data_ctx st F W" and g: "g \<in> F" "(i, g) \<in> W" and "off + n \<le> 4096"
  shows "\<exists>st'. vmemset st (kmap_va i + of_nat off) c n = Inr st' \<and> within g st st'
    \<and> (\<forall>k < 4096. pmem st' (g + of_nat k) = (if off \<le> k \<and> k < off + n then c else pmem st (g + of_nat k)))"
  using assms(1,4)
proof (induction n arbitrary: off st)
  case 0
  then show ?case using within_refl by auto
next
  case (Suc n)
  define s1 where "s1 = st\<lparr>pmem := (pmem st)(g + of_nat off := c)\<rparr>"
  have off: "off < 4096" "Suc off + n \<le> 4096" using Suc.prems(2) by simp_all
  note w = ctx_wr8_eq [OF Suc.prems(1) g off(1), of c, folded s1_def]
  obtain st' where st': "vmemset s1 (kmap_va i + of_nat (Suc off)) c n = Inr st'" "within g s1 st'"
    "\<forall>k < 4096. pmem st' (g + of_nat k) = (if Suc off \<le> k \<and> k < Suc off + n then c else pmem s1 (g + of_nat k))"
    using Suc.IH [OF ctx_within(1) [OF Suc.prems(1) g(1) w(2)] off(2)] by auto
  have "kmap_va i + of_nat off + 1 = kmap_va i + of_nat (Suc off)" by (simp add: ac_simps)
  then have "vmemset st (kmap_va i + of_nat off) c (Suc n) = Inr st'"
    using w(1) st'(1) by (simp only: vmemset.simps rbind.simps)
  moreover have "pmem s1 (g + of_nat k) = (if k = off then c else pmem st (g + of_nat k))" if "k < 4096" for k
  proof -
    have "(of_nat k :: u64) = of_nat off \<longleftrightarrow> k = off"
      using that off(1) by (simp add: word_unat_eq_iff unat_of_nat_small)
    then show ?thesis by (simp add: s1_def)
  qed
  ultimately show ?case
    using within_trans [OF w(2) st'(2)] st'(3) by (intro exI [of _ st']) auto
qed

lemma ctx_clear:
  assumes c: "data_ctx st F W" and g: "g \<in> F" "(i, g) \<in> W"
  obtains st' where "vmemset st (kmap_va i) 0 4096 = Inr st'" "within g st st'"
    "\<And>l. l < 512 \<Longrightarrow> load64 (pmem st') (slot g l) = 0"
proof -
  obtain st' where st': "vmemset st (kmap_va i + of_nat 0) 0 4096 = Inr st'" "within g st st'"
    "\<forall>k < 4096. pmem st' (g + of_nat k) = (if 0 \<le> k \<and> k < 0 + (4096 :: nat) then 0 else pmem st (g + of_nat k))"
    using ctx_vmemset [OF c g, of 0 4096 0] by auto
  have "load64 (pmem st') (slot g l) = 0" if "l < 512" for l
    using slot_bytes [OF data_ctx_frame(1) [OF c g(1)] that] st'(3)
    by (intro load64_zero) (fastforce simp: bytes_at_def)
  then show ?thesis using that st'(1,2) by simp
qed

text \<open>
  What holds when the loop over the page directories starts: the root table links the page directory
  pointer table and nothing else, that one is mapped and empty, and neither is a paging structure of
  the kernel or the frame of the test program.
\<close>

definition ept_ready :: "kernel \<Rightarrow> u64 set \<Rightarrow> (u64 \<times> u64) set \<Rightarrow> u64 \<Rightarrow> u64 \<Rightarrow> u64 \<Rightarrow> bool" where
  "ept_ready st F W pml4 pdpt w \<longleftrightarrow> data_ctx st F W \<and> {pml4, pdpt, TEST_FRAME} \<subseteq> F \<and> distinct [pml4, pdpt, TEST_FRAME]
     \<and> (w, pdpt) \<in> W
     \<and> (\<forall>l < 512. load64 (pmem st) (slot pml4 l) = (if l = 0 then pdpt OR 7 else 0))
     \<and> (\<forall>l < 512. load64 (pmem st) (slot pdpt l) = 0)"

lemma ept_top_ready:
  assumes c: "data_ctx st F W" and t: "TEST_FRAME \<in> F" and s: "2 \<le> card (free_slots st)" and a: "2 \<le> card (avail st)"
  obtains pml4 pdpt v w st' where "ept_top st = Inr (pml4, kmap_va v, kmap_va w, st')" "v \<noteq> w" "pml4 \<notin> F" "pdpt \<notin> F"
    "ept_ready st' (insert pdpt (insert pml4 F)) (insert (w, pdpt) (insert (v, pml4) W)) pml4 pdpt w"
    "card (avail st) = card (avail st') + 2" "free_slots st' = free_slots st - {v, w}" "same_data F st st'"
proof -
  have ne: "avail st \<noteq> {}" "free_slots st \<noteq> {}" using a s by auto
  obtain p s0 v s1 where s1: "alloc_frame st ''Failed to allocate a PML4T frame'' = Inr (p, s0)"
    "map_frame s0 p (PGT_P OR PGT_RW) ''Failed to map PML4T'' = Inr (kmap_va v, s1)"
    "p \<notin> F" "v \<in> free_slots st" "data_ctx s1 (insert p F) (insert (v, p) W)" "free_slots s1 = free_slots st - {v}"
    "card (avail st) = Suc (card (avail s1))" "same_data F st s1"
    using ctx_frame [OF c ne] .
  have ne1: "avail s1 \<noteq> {}" "free_slots s1 \<noteq> {}" using s1(7) a card_minus_one [OF s1(6,4)] s by auto
  obtain d s2 w s3 where s3: "alloc_frame s1 ''Failed to allocate a PDPT frame'' = Inr (d, s2)"
    "map_frame s2 d (PGT_P OR PGT_RW) ''Failed to map PDPT'' = Inr (kmap_va w, s3)"
    "d \<notin> insert p F" "w \<in> free_slots s1" "data_ctx s3 (insert d (insert p F)) (insert (w, d) (insert (v, p) W))"
    "free_slots s3 = free_slots s1 - {w}" "card (avail s1) = Suc (card (avail s3))" "same_data (insert p F) s1 s3"
    using ctx_frame [OF s1(5) ne1] .
  let ?F = "insert d (insert p F)" and ?W = "insert (w, d) (insert (v, p) W)"
  obtain s4 where s4: "vmemset s3 (kmap_va v) 0 4096 = Inr s4" "within p s3 s4" "\<And>l. l < 512 \<Longrightarrow> load64 (pmem s4) (slot p l) = 0"
    using ctx_clear [OF s3(5), of p v] by auto
  note c4 = ctx_within [OF s3(5) _ s4(2)]
  obtain s5 where s5: "vmemset s4 (kmap_va w) 0 4096 = Inr s5" "within d s4 s5" "\<And>l. l < 512 \<Longrightarrow> load64 (pmem s5) (slot d l) = 0"
    using ctx_clear [OF c4(1), of d w] by auto
  note c5 = ctx_within [OF c4(1) _ s5(2)]
  define st' where "st' = s5\<lparr>pmem := store64 (pmem s5) (slot p 0) (d OR 7)\<rparr>"
  have cc: "data_ctx s5 ?F ?W" using c5(1) by simp
  note v6 = ctx_store64 [OF cc, of p v 0 "d OR 7", folded st'_def]
  have w6: "within p s5 st'" using v6(2) by (auto simp: within_def st'_def)
  note c6 = ctx_within [OF cc _ w6]
  have pd: "p \<noteq> d" "p \<in> ?F" "d \<in> ?F" "d \<noteq> TEST_FRAME" "p \<noteq> TEST_FRAME" using s3(3) s1(3) t by auto
  note al = data_ctx_frame(1) [OF cc]
  have "load64 (pmem st') (slot p l) = (if l = 0 then d OR 7 else 0)" if "l < 512" for l
  proof -
    have "load64 (pmem s5) (slot p l) = 0"
      using s4(3) [OF that] same_data_load [OF c5(4), of p l] pd al that by simp
    then show ?thesis using load_slot_store [OF al al that, of p p 0 "pmem s5" "d OR 7"] pd by (simp add: st'_def)
  qed
  moreover have "load64 (pmem st') (slot d l) = 0" if "l < 512" for l
    using s5(3) [OF that] same_data_load [OF c6(4), of d l] pd al that by simp
  ultimately have "ept_ready st' ?F ?W p d w"
    unfolding ept_ready_def using c6(1) pd t by auto
  moreover have "ept_top st = Inr (p, kmap_va v, kmap_va w, st')"
    unfolding ept_top_def EPT_bits using s1(1,2) s3(1,2) s4(1) s5(1) v6(1) by (simp add: PG_SIZE_def)
  moreover have "same_data F st st'"
  proof -
    have "same_data F s1 s3" by (rule same_data_mono [OF s3(8)]) auto
    moreover have "same_data F s3 s4" by (rule same_data_mono [OF c4(4)]) (use s1(3) in auto)
    moreover have "same_data F s4 s5" by (rule same_data_mono [OF c5(4)]) (use s3(3) in auto)
    moreover have "same_data F s5 st'" by (rule same_data_mono [OF c6(4)]) (use s1(3) in auto)
    ultimately show ?thesis using s1(8) same_data_trans by blast
  qed
  moreover have "free_slots st' = free_slots st - {v, w}" "card (avail st) = card (avail st') + 2"
    using c6(2,3) c5(2,3) c4(2,3) s3(6,7) s1(6,7) by auto
  moreover have "v \<noteq> w" using s3(4) s1(6) by auto
  ultimately show ?thesis using that [of p v w st' d] s1(3) s3(3) by auto
qed

end
