(* ===== verification/Ept_Tables.thy ===== *)
theory Ept_Tables
  imports Ept
begin

text \<open>
  The loops over the page directories and the page directory pointer table: which entries they write,
  that they end, and what they leave unchanged.
\<close>

section \<open>All tables\<close>

text \<open>The number of page directories for \<open>N\<close> pages of 2MB.\<close>

definition directories :: "nat \<Rightarrow> nat" where
  "directories N = (N + 511) div 512"

lemma less_ceiling:
  fixes k :: nat
  assumes "0 < l"
  shows "k < (x + (l - 1)) div l \<longleftrightarrow> l * k < x"
proof -
  have "Suc k \<le> (x + (l - 1)) div l \<longleftrightarrow> Suc k * l \<le> x + (l - 1)"
    using assms by (rule less_eq_div_iff_mult_less_eq)
  also have "\<dots> \<longleftrightarrow> l * k < x" using assms by (auto simp: algebra_simps)
  finally show ?thesis by (simp add: Suc_le_eq)
qed

lemma directories_iff: "i < directories N \<longleftrightarrow> 512 * i < N"
  using less_ceiling [of 512 i N] by (simp add: directories_def)

text \<open>The entries of a page directory for the pages below \<open>N\<close>; the first one links the page table.\<close>

definition pdt_ok :: "mem \<Rightarrow> vm_struct_t \<Rightarrow> u64 \<times> u64 \<Rightarrow> nat \<Rightarrow> u64 set \<Rightarrow> nat \<Rightarrow> u64 \<Rightarrow> bool" where
  "pdt_ok m vm p N F i d \<longleftrightarrow> d \<in> F
     \<and> (\<forall>l < 512. 512 * i + l \<noteq> 0 \<longrightarrow> 512 * i + l < N \<longrightarrow>
          load64 m (slot d (of_nat l)) = large_ept_entry (plan_page vm p (512 * i + l)))
     \<and> (i = 0 \<longrightarrow> (\<exists>pt \<in> F. load64 m (slot d 0) = pt OR 7 \<and> first_pt_ok m pt))"

lemma pdt_ok_same:
  assumes "pdt_ok (pmem st) vm p N G i d" and "same_data G st st'" and "G \<subseteq> H" and "\<forall>g \<in> G. page_aligned g"
  shows "pdt_ok (pmem st') vm p N H i d"
proof -
  have "load64 (pmem st') (slot g (of_nat l)) = load64 (pmem st) (slot g (of_nat l))" if "g \<in> G" "l < 512" for g l
    using same_data_load [OF assms(2) that(1)] assms(4) that by (simp add: word_less_nat_alt unat_of_nat_small)
  note ld = this this [of _ 0, simplified]
  show ?thesis
    using assms(1,3) unfolding pdt_ok_def first_pt_ok_def by (auto simp: ld)
qed

lemma fill_pdt_first:
  assumes "first_pdt_entry st tab 0 = Inr s1" and "0 < N" and "N \<le> 2 ^ 18"
  shows "fill_pdt st vm tab 0 0 p 0 (of_nat (512 * N)) =
    (if N \<le> 1 then Inr (p, 512, s1) else fill_pdt s1 vm tab 0 1 p 512 (of_nat (512 * N)))"
proof -
  have "unat (of_nat (512 * N) :: u32) = 512 * N" by (rule unat_of_nat_small) (use assms(3) in simp)
  then have le: "(of_nat (512 * N) :: u32) \<le> 512 \<longleftrightarrow> N \<le> 1" by (simp add: word_le_nat_alt)
  have "pdt_ept_step st vm tab 0 0 p = Inr (p, s1)"
    using assms(1) by (cases p) (simp add: pdt_ept_step_def)
  then show ?thesis
    by (subst fill_pdt.simps) (simp add: Let_def le del: of_nat_mult)
qed

lemma plan_one [simp]: "plan vm p (Suc 0) = p"
  by simp

lemma slot_index:
  assumes "l < 512"
  shows "(of_nat l :: u64) < 512" and "(of_nat l :: u64) = 0 \<longleftrightarrow> l = 0"
  using assms by (simp_all add: word_less_nat_alt unat_of_nat_small word_unat_eq_iff)

lemma first_pt_same:
  assumes "first_pt_ok (pmem st) pt" and "same_data G st st'" and "pt \<in> G" and "page_aligned pt"
  shows "first_pt_ok (pmem st') pt"
  using assms(1) same_data_load [OF assms(2-4)] by (simp add: first_pt_ok_def slot_index)

text \<open>The first directory.\<close>

lemma fill_pdt_zero:
  assumes c: "data_ctx st F W" and d: "pdt \<in> F" "(w, pdt) \<in> W" "pdt \<noteq> TEST_FRAME" and t: "TEST_FRAME \<in> F"
    and s: "2 \<le> card (free_slots st)" and a: "avail st \<noteq> {}" and N: "0 < N" "N \<le> 2 ^ 18"
  obtains st' pt where
    "fill_pdt st vm (kmap_va w) 0 0 p 0 (of_nat (512 * N)) = Inr (plan vm p (min 512 N), of_nat (512 * min 512 N), st')"
    "pt \<notin> F" "data_ctx st' (insert pt F) W" "free_slots st' = free_slots st" "card (avail st) = Suc (card (avail st'))"
    "same_data (F - {pdt, TEST_FRAME}) st st'" "first_pt_ok (pmem st') pt" "load64 (pmem st') (slot pdt 0) = pt OR 7"
    "\<forall>l < 512. l \<noteq> 0 \<longrightarrow> load64 (pmem st') (slot pdt (of_nat l)) =
       (if l < N then large_ept_entry (plan_page vm p l) else load64 (pmem st) (slot pdt (of_nat l)))"
proof -
  obtain s1 pt where s1: "first_pdt_entry st (kmap_va w) 0 = Inr s1" "pt \<notin> F" "data_ctx s1 (insert pt F) W"
    "free_slots s1 = free_slots st" "card (avail st) = Suc (card (avail s1))"
    "same_data (F - {pdt, TEST_FRAME}) st s1" "first_pt_ok (pmem s1) pt"
    "\<forall>l < 512. load64 (pmem s1) (slot pdt l) = (if l = 0 then pt OR 7 else load64 (pmem st) (slot pdt l))"
    using first_pdt_entry_correct [OF c d t s a] .
  have dF: "pdt \<in> insert pt F" "pt \<in> insert pt F - {pdt}" using d(1) s1(2) by auto
  note u = fill_pdt_first [OF s1(1) N, of vm p]
  have ld1: "load64 (pmem s1) (slot pdt (of_nat l)) = (if l = 0 then pt OR 7 else load64 (pmem st) (slot pdt (of_nat l)))"
    if "l < 512" for l using s1(8) slot_index [OF that] by simp
  show ?thesis
  proof (cases "N \<le> 1")
    case True
    then have N1: "N = 1" using N(1) by simp
    show ?thesis
      by (rule that [of s1 pt]) (use u s1 ld1 ld1 [of 0] N1 in simp_all)
  next
    case False
    then have "fill_pdt st vm (kmap_va w) 0 0 p 0 (of_nat (512 * N)) = fill_pdt s1 vm (kmap_va w) (of_nat 0) (of_nat 1) (plan vm p 1) (of_nat (512 * 1)) (of_nat (512 * N))"
      using u by simp
    moreover obtain st' where st': "fill_pdt s1 vm (kmap_va w) (of_nat 0) (of_nat 1) (plan vm p 1) (of_nat (512 * 1))
         (of_nat (512 * N)) = Inr (plan vm p (min 512 N), of_nat (512 * min 512 N), st')"
      "data_ctx st' (insert pt F) W" "free_slots st' = free_slots s1" "avail st' = avail s1"
      "same_data (insert pt F - {pdt}) s1 st'"
      and ld: "\<forall>l < 512. load64 (pmem st') (slot pdt (of_nat l)) =
         (if 1 \<le> 512 * 0 + l \<and> 512 * 0 + l < min 512 N then large_ept_entry (plan_page vm p (512 * 0 + l))
          else load64 (pmem s1) (slot pdt (of_nat l)))"
      using fill_pdt_correct [OF s1(3) dF(1) d(2), of 0 N 1 1 "min 512 N" vm p] N False by auto
    moreover have "first_pt_ok (pmem st') pt"
      using first_pt_same [OF s1(7) st'(5) dF(2)] data_ctx_frame(1) [OF s1(3)] by simp
    moreover have "same_data (F - {pdt, TEST_FRAME}) st st'"
      using same_data_trans [OF s1(6) same_data_mono [OF st'(5)]] by auto
    moreover have "load64 (pmem st') (slot pdt 0) = pt OR 7"
      using ld [rule_format, of 0] ld1 [of 0] by simp
    ultimately show ?thesis
      by (intro that [of st' pt]) (use s1(2,4,5) ld ld1 in \<open>simp_all\<close>)
  qed
qed

text \<open>The directory of the pages from \<open>512 * i\<close> on.\<close>

lemma fill_pdt_all:
  assumes c: "data_ctx st F W" and d: "pdt \<in> F" "(w, pdt) \<in> W" "pdt \<noteq> TEST_FRAME" and t: "TEST_FRAME \<in> F"
    and s: "2 \<le> card (free_slots st)" and a: "i = 0 \<longrightarrow> avail st \<noteq> {}"
    and i: "i < 512" "512 * i < N" and N: "N \<le> 2 ^ 18" and n': "n' = min (512 * Suc i) N"
  obtains st' E where
    "fill_pdt st vm (kmap_va w) (of_nat i) 0 (plan vm p (512 * i)) (of_nat (512 * (512 * i))) (of_nat (512 * N))
      = Inr (plan vm p n', of_nat (512 * n'), st')"
    "F \<subseteq> E" "data_ctx st' E W" "free_slots st' = free_slots st"
    "card (avail st) = card (avail st') + (if i = 0 then 1 else 0)" "same_data (F - {pdt, TEST_FRAME}) st st'"
    "pdt_ok (pmem st') vm p N (insert pdt (E - F)) i pdt"
    "\<forall>l < 512. N \<le> 512 * i + l \<longrightarrow> load64 (pmem st') (slot pdt (of_nat l)) = load64 (pmem st) (slot pdt (of_nat l))"
proof (cases "i = 0")
  case False
  then have n: "512 * i = 512 * i + 0" "512 * i \<noteq> 0" by simp_all
  obtain st' where st': "fill_pdt st vm (kmap_va w) (of_nat i) (of_nat 0) (plan vm p (512 * i)) (of_nat (512 * (512 * i)))
       (of_nat (512 * N)) = Inr (plan vm p n', of_nat (512 * n'), st')"
    "data_ctx st' F W" "free_slots st' = free_slots st" "avail st' = avail st" "same_data (F - {pdt}) st st'"
    "\<forall>l < 512. load64 (pmem st') (slot pdt (of_nat l)) =
       (if 512 * i \<le> 512 * i + l \<and> 512 * i + l < n' then large_ept_entry (plan_page vm p (512 * i + l))
        else load64 (pmem st) (slot pdt (of_nat l)))"
    using fill_pdt_correct [OF c d(1,2) i(1) N n(1) _ n(2) i(2) n', of vm p] by auto
  have "pdt_ok (pmem st') vm p N (insert pdt (F - F)) i pdt"
    using st'(6) False unfolding pdt_ok_def n' by simp
  then show ?thesis
    using that [OF _ subset_refl st'(2,3)] st'(1,4-6) False same_data_mono [OF st'(5), of "F - {pdt, TEST_FRAME}"]
    by (auto simp: n')
next
  case True
  have N0: "0 < N" and av: "avail st \<noteq> {}" using i(2) a True by simp_all
  obtain st' pt where st': "fill_pdt st vm (kmap_va w) 0 0 p 0 (of_nat (512 * N)) = Inr (plan vm p (min 512 N), of_nat (512 * min 512 N), st')"
    "pt \<notin> F" "data_ctx st' (insert pt F) W" "free_slots st' = free_slots st" "card (avail st) = Suc (card (avail st'))"
    "same_data (F - {pdt, TEST_FRAME}) st st'" "first_pt_ok (pmem st') pt" "load64 (pmem st') (slot pdt 0) = pt OR 7"
    "\<forall>l < 512. l \<noteq> 0 \<longrightarrow> load64 (pmem st') (slot pdt (of_nat l)) =
       (if l < N then large_ept_entry (plan_page vm p l) else load64 (pmem st) (slot pdt (of_nat l)))"
    using fill_pdt_zero [OF c d t s av N0 N] .
  have "pdt_ok (pmem st') vm p N (insert pdt (insert pt F - F)) i pdt"
    unfolding pdt_ok_def using st'(2,7-9) True by auto
  then show ?thesis
    by (intro that [of st' "insert pt F"]) (use st' True n' N0 in \<open>simp_all, auto\<close>)
qed

text \<open>The directories below \<open>k\<close> are linked and filled.\<close>

definition dirs_ok :: "mem \<Rightarrow> vm_struct_t \<Rightarrow> u64 \<times> u64 \<Rightarrow> nat \<Rightarrow> u64 set \<Rightarrow> u64 \<Rightarrow> nat \<Rightarrow> bool" where
  "dirs_ok m vm p N F pdpt k \<longleftrightarrow>
     (\<forall>i < k. \<exists>d. load64 m (slot pdpt (of_nat i)) = d OR 7 \<and> pdt_ok m vm p N (F - {pdpt, TEST_FRAME}) i d)"

lemma dirs_ok_extend:
  assumes "dirs_ok (pmem st) vm p N F pdpt i" and keep: "same_data (F - {pdpt, TEST_FRAME}) st st'"
    and FE: "F \<subseteq> E" and al: "\<forall>g \<in> E. page_aligned g" and i: "i < 512"
    and pdpt: "\<And>l. l < 512 \<Longrightarrow> load64 (pmem st') (slot pdpt (of_nat l)) =
      (if l = i then g OR 7 else load64 (pmem st) (slot pdpt (of_nat l)))"
    and g: "pdt_ok (pmem st') vm p N (E - {pdpt, TEST_FRAME}) i g"
  shows "dirs_ok (pmem st') vm p N E pdpt (Suc i)"
  unfolding dirs_ok_def
proof (intro allI impI)
  fix k assume k: "k < Suc i"
  show "\<exists>d. load64 (pmem st') (slot pdpt (of_nat k)) = d OR 7 \<and> pdt_ok (pmem st') vm p N (E - {pdpt, TEST_FRAME}) k d"
  proof (cases "k = i")
    case True
    then show ?thesis using g pdpt [of i] i by auto
  next
    case False
    then obtain e where e: "load64 (pmem st) (slot pdpt (of_nat k)) = e OR 7" "pdt_ok (pmem st) vm p N (F - {pdpt, TEST_FRAME}) k e"
      using assms(1) [unfolded dirs_ok_def, rule_format, of k] k by (auto simp: less_Suc_eq)
    have "pdt_ok (pmem st') vm p N (E - {pdpt, TEST_FRAME}) k e"
      by (rule pdt_ok_same [OF e(2) keep]) (use al FE in auto)
    moreover have "load64 (pmem st') (slot pdpt (of_nat k)) = e OR 7" using pdpt [of k] e(1) k False i by simp
    ultimately show ?thesis by blast
  qed
qed

lemma fill_pdpt_step:
  assumes c: "data_ctx st F W" and d: "pdpt \<in> F" "(w, pdpt) \<in> W" "pdpt \<noteq> TEST_FRAME" and t: "TEST_FRAME \<in> F"
    and s: "3 \<le> card (free_slots st)" and a: "(if i = 0 then 2 else 1) \<le> card (avail st)"
    and i: "i < directories N" and N: "N \<le> 2 ^ 18" and built: "dirs_ok (pmem st) vm p N F pdpt i"
  obtains st' E where
    "fill_pdpt st vm (kmap_va w) (of_nat i) (of_nat (directories N)) (plan vm p (min (512 * i) N))
        (of_nat (512 * min (512 * i) N)) (of_nat (512 * N))
      = fill_pdpt st' vm (kmap_va w) (of_nat (Suc i)) (of_nat (directories N)) (plan vm p (min (512 * Suc i) N))
        (of_nat (512 * min (512 * Suc i) N)) (of_nat (512 * N))"
    "F \<subseteq> E" "data_ctx st' E W" "free_slots st' = free_slots st"
    "card (avail st) = card (avail st') + (if i = 0 then 2 else 1)" "same_data (F - {pdpt, TEST_FRAME}) st st'"
    "dirs_ok (pmem st') vm p N E pdpt (Suc i)"
    "\<exists>g. frame_no g \<in> avail st \<and> g \<in> E \<and> load64 (pmem st') (slot pdpt (of_nat i)) = g OR 7
       \<and> (\<forall>l < 512. N \<le> 512 * i + l \<longrightarrow> load64 (pmem st') (slot g (of_nat l)) = load64 (pmem st) (slot g (of_nat l)))"
    "\<forall>l < 512. l \<noteq> i \<longrightarrow> load64 (pmem st') (slot pdpt (of_nat l)) = load64 (pmem st) (slot pdpt (of_nat l))"
proof -
  have iN: "512 * i < N" "i < 512" using i N by (simp_all add: directories_iff)
  have P: "directories N \<le> 512" using N by (simp add: directories_def)
  have iw: "(of_nat i :: u64) < 512" "ucast (of_nat i :: u32) = (of_nat i :: u64)" "of_nat i + 1 = (of_nat (Suc i) :: u32)"
    using iN(2) slot_index by (simp_all add: small_ucast)
  have lt: "(of_nat i :: u32) < of_nat (directories N)"
    using i P by (simp add: word_less_nat_alt unat_of_nat_small)
  have ne: "avail st \<noteq> {}" "free_slots st \<noteq> {}" using a s by (auto split: if_splits)
  obtain g j s1 where s1: "new_table st (kmap_va w) (of_nat i) (''Failed to allocate a PDT frame'', ''Failed to map PDT'') = Inr (kmap_va j, s1)"
    "g \<notin> F" "j \<in> free_slots st" "data_ctx s1 (insert g F) (insert (j, g) W)" "free_slots s1 = free_slots st - {j}"
    "card (avail st) = Suc (card (avail s1))" "same_data (F - {pdpt}) st s1"
    "\<forall>l < 512. load64 (pmem s1) (slot pdpt l) = (if l = of_nat i then g OR 7 else load64 (pmem st) (slot pdpt l))"
    "\<forall>l < 512. load64 (pmem s1) (slot g l) = load64 (pmem st) (slot g l)" "frame_no g \<in> avail st"
    using ctx_new_table [OF c d(1,2) iw(1) ne] .
  have gt: "g \<noteq> TEST_FRAME" "g \<noteq> pdpt" "TEST_FRAME \<in> insert g F" "pdpt \<in> insert g F - {g, TEST_FRAME}"
    using s1(2) t d by auto
  have sl: "2 \<le> card (free_slots s1)" using card_minus_one [OF s1(5,3)] s by simp
  have av: "i = 0 \<longrightarrow> avail s1 \<noteq> {}" using a s1(6) by auto
  obtain s2 E where s2: "fill_pdt s1 vm (kmap_va j) (of_nat i) 0 (plan vm p (512 * i)) (of_nat (512 * (512 * i))) (of_nat (512 * N))
      = Inr (plan vm p (min (512 * Suc i) N), of_nat (512 * min (512 * Suc i) N), s2)"
    "insert g F \<subseteq> E" "data_ctx s2 E (insert (j, g) W)" "free_slots s2 = free_slots s1"
    "card (avail s1) = card (avail s2) + (if i = 0 then 1 else 0)" "same_data (insert g F - {g, TEST_FRAME}) s1 s2"
    "pdt_ok (pmem s2) vm p N (insert g (E - insert g F)) i g"
    "\<forall>l < 512. N \<le> 512 * i + l \<longrightarrow> load64 (pmem s2) (slot g (of_nat l)) = load64 (pmem s1) (slot g (of_nat l))"
    using fill_pdt_all [OF s1(4) insertI1 insertI1 gt(1,3) sl av iN(2,1) N refl] .
  obtain r st' where u: "vm_unmap_page s2 (kmap_va j) = Inr (r, st')" "data_ctx st' E W"
    "free_slots st' = insert j (free_slots s2)" "avail st' = avail s2" "same_data E s2 st'"
    using ctx_close [OF s2(3) free_slots_less [OF s1(3)] ctx_slot_free [OF c s1(3)]] .
  note al = data_ctx_frame(1) [OF u(2)]
  have keep: "same_data (F - {pdpt, TEST_FRAME}) st st'"
  proof -
    have "same_data (F - {pdpt, TEST_FRAME}) st s1" by (rule same_data_mono [OF s1(7)]) auto
    also have "same_data (F - {pdpt, TEST_FRAME}) s1 s2" by (rule same_data_mono [OF s2(6)]) (use s1(2) in auto)
    also have "same_data (F - {pdpt, TEST_FRAME}) s2 st'" by (rule same_data_mono [OF u(5)]) (use s2(2) in auto)
    finally show ?thesis .
  qed
  have pdpt': "load64 (pmem st') (slot pdpt (of_nat l)) = (if l = i then g OR 7 else load64 (pmem st) (slot pdpt (of_nat l)))"
    if "l < 512" for l
  proof -
    have "(of_nat l :: u64) = of_nat i \<longleftrightarrow> l = i"
      using that iN(2) by (simp add: word_unat_eq_iff unat_of_nat_small)
    then show ?thesis
      using same_data_load [OF u(5), of pdpt "of_nat l"] same_data_load [OF s2(6) gt(4), of "of_nat l"] s1(8)
        al [of pdpt] d(1) s2(2) slot_index(1) [OF that] by auto
  qed
  have sub: "insert g (E - insert g F) \<subseteq> E - {pdpt, TEST_FRAME}" using s2(2) gt d(1) t by auto
  have "pdt_ok (pmem st') vm p N (E - {pdpt, TEST_FRAME}) i g"
    by (rule pdt_ok_same [OF s2(7) same_data_mono [OF u(5)] sub]) (use s2(2) al in auto)
  then have "dirs_ok (pmem st') vm p N E pdpt (Suc i)"
    using dirs_ok_extend [OF built keep _ _ iN(2) pdpt'] s2(2) al by auto
  moreover have "fill_pdpt st vm (kmap_va w) (of_nat i) (of_nat (directories N)) (plan vm p (min (512 * i) N))
        (of_nat (512 * min (512 * i) N)) (of_nat (512 * N))
      = fill_pdpt st' vm (kmap_va w) (of_nat (Suc i)) (of_nat (directories N)) (plan vm p (min (512 * Suc i) N))
        (of_nat (512 * min (512 * Suc i) N)) (of_nat (512 * N))"
  proof -
    have m: "min (512 * i) N = 512 * i" using iN(1) by simp
    show ?thesis
      by (subst fill_pdpt.simps) (simp only: lt if_True iw s1(1) m s2(1) u(1) rbind.simps case_prod_conv)
  qed
  moreover have "free_slots st' = free_slots st" using u(3) s2(4) s1(3,5) by auto
  moreover have "card (avail st) = card (avail st') + (if i = 0 then 2 else 1)" using u(4) s2(5) s1(6) by simp
  moreover have "\<exists>g. frame_no g \<in> avail st \<and> g \<in> E \<and> load64 (pmem st') (slot pdpt (of_nat i)) = g OR 7
       \<and> (\<forall>l < 512. N \<le> 512 * i + l \<longrightarrow> load64 (pmem st') (slot g (of_nat l)) = load64 (pmem st) (slot g (of_nat l)))"
    using s1(9,10) s2(2,8) pdpt' [OF iN(2)] same_data_load [OF u(5), of g] al [of g] slot_index(1)
    by (intro exI [of _ g]) auto
  ultimately show ?thesis using that [of st' E] s2(2) u(2) keep pdpt' by auto
qed

lemma fill_pdpt_correct:
  assumes "data_ctx st F W" and d: "pdpt \<in> F" "(w, pdpt) \<in> W" "pdpt \<noteq> TEST_FRAME" and t: "TEST_FRAME \<in> F"
    and "3 \<le> card (free_slots st)" and "directories N - i + (if i = 0 then 1 else 0) \<le> card (avail st)"
    and N: "N \<le> 2 ^ 18" and "i \<le> directories N" and "dirs_ok (pmem st) vm p N F pdpt i"
  shows "\<exists>st' E. fill_pdpt st vm (kmap_va w) (of_nat i) (of_nat (directories N)) (plan vm p (min (512 * i) N))
        (of_nat (512 * min (512 * i) N)) (of_nat (512 * N)) = Inr st'
    \<and> F \<subseteq> E \<and> data_ctx st' E W \<and> free_slots st' = free_slots st \<and> same_data (F - {pdpt, TEST_FRAME}) st st'
    \<and> dirs_ok (pmem st') vm p N E pdpt (directories N)
    \<and> (\<forall>l < 512. directories N \<le> l \<longrightarrow> load64 (pmem st') (slot pdpt (of_nat l)) = load64 (pmem st) (slot pdpt (of_nat l)))"
  using assms(1,2,5,6,7,9,10)
proof (induction "directories N - i" arbitrary: i st F)
  case 0
  then have "i = directories N" by simp
  then show ?case using 0 by (subst fill_pdpt.simps) auto
next
  case (Suc x)
  then have i: "i < directories N" by simp
  have a: "(if i = 0 then 2 else 1) \<le> card (avail st)" using Suc.prems(5) i by (auto split: if_splits)
  obtain s1 E1 where s1: "fill_pdpt st vm (kmap_va w) (of_nat i) (of_nat (directories N)) (plan vm p (min (512 * i) N))
        (of_nat (512 * min (512 * i) N)) (of_nat (512 * N))
      = fill_pdpt s1 vm (kmap_va w) (of_nat (Suc i)) (of_nat (directories N)) (plan vm p (min (512 * Suc i) N))
        (of_nat (512 * min (512 * Suc i) N)) (of_nat (512 * N))"
    "F \<subseteq> E1" "data_ctx s1 E1 W" "free_slots s1 = free_slots st"
    "card (avail st) = card (avail s1) + (if i = 0 then 2 else 1)" "same_data (F - {pdpt, TEST_FRAME}) st s1"
    "dirs_ok (pmem s1) vm p N E1 pdpt (Suc i)"
    "\<forall>l < 512. l \<noteq> i \<longrightarrow> load64 (pmem s1) (slot pdpt (of_nat l)) = load64 (pmem st) (slot pdpt (of_nat l))"
    by (rule fill_pdpt_step [OF Suc.prems(1,2) d(2,3) Suc.prems(3,4) a i N Suc.prems(7)]) blast
  have x: "x = directories N - Suc i" using Suc.hyps(2) by simp
  have sub: "pdpt \<in> E1" "TEST_FRAME \<in> E1" using s1(2) Suc.prems(2,3) by auto
  have sl: "3 \<le> card (free_slots s1)" using s1(4) Suc.prems(4) by simp
  have av: "directories N - Suc i + (if Suc i = 0 then 1 else 0) \<le> card (avail s1)"
    using Suc.prems(5) s1(5) i by (auto split: if_splits)
  have le: "Suc i \<le> directories N" using i by simp
  obtain st' E where st': "fill_pdpt s1 vm (kmap_va w) (of_nat (Suc i)) (of_nat (directories N)) (plan vm p (min (512 * Suc i) N))
        (of_nat (512 * min (512 * Suc i) N)) (of_nat (512 * N)) = Inr st'"
    "E1 \<subseteq> E" "data_ctx st' E W" "free_slots st' = free_slots s1" "same_data (E1 - {pdpt, TEST_FRAME}) s1 st'"
    "dirs_ok (pmem st') vm p N E pdpt (directories N)"
    "\<forall>l < 512. directories N \<le> l \<longrightarrow> load64 (pmem st') (slot pdpt (of_nat l)) = load64 (pmem s1) (slot pdpt (of_nat l))"
    using Suc.hyps(1) [OF x s1(3) sub sl av le s1(7)] by blast
  have "same_data (F - {pdpt, TEST_FRAME}) st st'"
    by (rule same_data_trans [OF s1(6) same_data_mono [OF st'(5)]]) (use s1(2) in auto)
  then show ?case
    using st' s1(1,2,4,8) i by (intro exI [of _ st'] exI [of _ E]) auto
qed

end
