(* ===== verification/Ept_Walk.thy ===== *)
theory Ept_Walk
  imports Ept_Top Ept_Tables
begin

text \<open>
  The extended page tables as the processor walks them: what the guest sees at a guest-physical
  address when the tables are filled as the loops of \<open>virt_pg_table_setup\<close> fill them.
\<close>

section \<open>The processor's walk\<close>

text \<open>
  \<open>ept_from m f n r gpa\<close> translates \<open>gpa\<close> from the table at \<open>f\<close>, \<open>n\<close> levels above a page table, \<open>r\<close>
  being the access rights granted so far. The result is the host address, the rights (read 1,
  write 2, execute 4) and the memory type; \<open>None\<close> stands for an EPT violation and for an EPT
  misconfiguration (an entry that allows writing or executing only, a reserved bit, a large page
  that is not aligned, an undefined memory type).
\<close>

definition ept_leaf :: "nat \<Rightarrow> u64 \<Rightarrow> bool" where
  "ept_leaf n e \<longleftrightarrow> n = 0 \<or> n < 3 \<and> e AND EPT_PG \<noteq> 0"

definition ept_refused :: "nat \<Rightarrow> u64 \<Rightarrow> bool" where
  "ept_refused n e \<longleftrightarrow> e AND EPT_RD = 0
     \<or> (if ept_leaf n e then (e AND ADDR_MASK) AND mask (12 + 9 * n) \<noteq> 0 \<or> e AND 0x38 \<in> {0x10, 0x18, 0x38}
        else e AND (if n = 3 then 0xF8 else 0x78) \<noteq> 0)"

fun ept_from :: "mem \<Rightarrow> u64 \<Rightarrow> nat \<Rightarrow> u64 \<Rightarrow> u64 \<Rightarrow> (u64 \<times> u64 \<times> u64) option" where
  "ept_from m f n r gpa =
     (let e = load64 m (slot f (walk_index n gpa))
      in if ept_refused n e then None
         else if ept_leaf n e
         then Some ((e AND ADDR_MASK) OR (gpa AND mask (12 + 9 * n)), r AND e AND 7, drop_bit 3 (e AND 0x38))
         else case n of 0 \<Rightarrow> None | Suc n \<Rightarrow> ept_from m (e AND ADDR_MASK) n (r AND e) gpa)"

declare ept_from.simps [simp del]

definition ept_walk :: "mem \<Rightarrow> u64 \<Rightarrow> u64 \<Rightarrow> (u64 \<times> u64 \<times> u64) option" where
  "ept_walk m eptp gpa = ept_from m (eptp AND ADDR_MASK) 3 7 gpa"

lemma entry_bits:
  fixes x c k :: u64
  assumes "x AND ADDR_MASK = x" and "c AND mask 12 = c"
  shows "(x OR c) AND ADDR_MASK = x" and "k AND mask 12 = k \<Longrightarrow> (x OR c) AND k = c AND k"
proof -
  have "x AND mask 12 = (x AND ADDR_MASK) AND mask 12" using assms(1) by simp
  also have "\<dots> = 0" by (rule bit_word_eqI) (auto simp: ADDR_MASK_def bit_simps)
  finally have x: "x AND mask 12 = 0" .
  have "c AND ADDR_MASK = (c AND mask 12) AND ADDR_MASK" using assms(2) by simp
  also have "\<dots> = 0" by (rule bit_word_eqI) (auto simp: ADDR_MASK_def bit_simps)
  finally show "(x OR c) AND ADDR_MASK = x" using assms(1) by (simp add: bit.conj_disj_distrib2)
  assume k: "k AND mask 12 = k"
  have "x AND (k AND mask 12) = (x AND mask 12) AND k" by (simp only: ac_simps)
  then have "x AND k = 0" using k x by simp
  then show "(x OR c) AND k = c AND k" by (simp add: bit.conj_disj_distrib2)
qed

lemma low_12: "(1 :: u64) AND mask 12 = 1" "(3 :: u64) AND mask 12 = 3" "(7 :: u64) AND mask 12 = 7" "(0x38 :: u64) AND mask 12 = 0x38"
  "(0x78 :: u64) AND mask 12 = 0x78" "(0xF8 :: u64) AND mask 12 = 0xF8" "(0x80 :: u64) AND mask 12 = 0x80"
  "(0xB7 :: u64) AND mask 12 = 0xB7" "(0x37 :: u64) AND mask 12 = 0x37"
  by (simp_all add: mask_eq_exp_minus_1)

lemma ept_link:
  assumes "load64 m (slot f (walk_index (Suc n) gpa)) = g OR 7" and "g AND ADDR_MASK = g"
  shows "ept_from m f (Suc n) 7 gpa = ept_from m g n 7 gpa"
proof -
  note b = entry_bits [OF assms(2) low_12(3)]
  have "7 AND (g OR 7) = (7 :: u64)" using b(2) [of 7] low_12 by (simp add: ac_simps)
  moreover have "\<not> ept_leaf (Suc n) (g OR 7)" "\<not> ept_refused (Suc n) (g OR 7)"
    using b(2) low_12 by (simp_all add: ept_leaf_def ept_refused_def EPT_PG_def EPT_RD_def)
  ultimately show ?thesis using b(1) by (subst ept_from.simps) (simp add: Let_def assms(1))
qed

lemma ept_page:
  assumes "load64 m (slot f (walk_index n gpa)) = x OR c" and "x AND ADDR_MASK = x" and "c AND mask 12 = c"
    and "n = 0 \<or> n < 3 \<and> c AND 0x80 \<noteq> 0" and "c AND 1 \<noteq> 0" and "x AND mask (12 + 9 * n) = 0"
    and "c AND 0x38 \<notin> {0x10, 0x18, 0x38}"
  shows "ept_from m f n 7 gpa = Some (x OR (gpa AND mask (12 + 9 * n)), c AND 7, drop_bit 3 (c AND 0x38))"
proof -
  note b = entry_bits [OF assms(2,3)]
  have l: "ept_leaf n (x OR c)" using b(2) [of "0x80"] assms(4) low_12 by (auto simp: ept_leaf_def EPT_PG_def)
  moreover have "\<not> ept_refused n (x OR c)"
    using b(1) b(2) [of "1"] b(2) [of "0x38"] assms(5-7) low_12 l by (simp add: ept_refused_def EPT_RD_def)
  moreover have "7 AND (x OR c) AND 7 = c AND 7" using b(2) [of 7] low_12 by (simp add: ac_simps)
  ultimately show ?thesis
    using b(1) b(2) [of "0x38"] low_12 by (subst ept_from.simps) (simp add: Let_def assms(1))
qed

section \<open>The guest's memory\<close>

text \<open>Number of large pages from \<open>s\<close> up to \<open>e\<close>.\<close>

definition large_pages :: "u64 \<Rightarrow> u64 \<Rightarrow> nat" where
  "large_pages s e = (unat e - unat s + 0x1FFFFF) div 0x200000"

text \<open>The host page of the guest's 2MB page \<open>n\<close>, for \<open>n > 0\<close>: the kernel, then the ramdisk, then memory from 4GB on.\<close>

definition guest_page :: "vm_struct_t \<Rightarrow> u64 \<times> u64 \<Rightarrow> nat \<Rightarrow> u64" where
  "guest_page vm p n =
     (let nk = large_pages (fst p) (img_size vm + img_paddr vm);
          nr = large_pages (snd p) (extra_size vm + extra_paddr vm)
      in if n - 1 < nk then fst p + of_nat (0x200000 * (n - 1))
         else if n - 1 - nk < nr then snd p + of_nat (0x200000 * (n - 1 - nk))
         else of_nat (0x200000 * n) + 0x100000000)"

lemma large_pages_iff: "k < large_pages s e \<longleftrightarrow> unat s + 0x200000 * k < unat e"
  using less_ceiling [of "0x200000" k "unat e - unat s"] by (auto simp: large_pages_def)

lemma large_pages_step:
  assumes "k \<le> large_pages s e" and "unat e \<le> 2 ^ 51"
  shows "unat (s + of_nat (0x200000 * k)) = unat s + 0x200000 * k" and "s + of_nat (0x200000 * k) < e \<longleftrightarrow> k < large_pages s e"
proof -
  have "unat s + 0x200000 * k < 2 ^ 64"
  proof (cases k)
    case 0
    then show ?thesis using unat_u64_less [of s] by simp
  next
    case (Suc j)
    then show ?thesis using assms large_pages_iff [of j s e] by simp
  qed
  then show u: "unat (s + of_nat (0x200000 * k)) = unat s + 0x200000 * k"
    using unat_add_small [of s "of_nat (0x200000 * k)"] unat_of_nat_small [of "0x200000 * k", where 'a = 64] by (simp del: of_nat_mult)
  show "s + of_nat (0x200000 * k) < e \<longleftrightarrow> k < large_pages s e"
    by (simp only: word_less_nat_alt u large_pages_iff)
qed

lemma plan_closed:
  assumes "unat (img_size vm + img_paddr vm) \<le> 2 ^ 51" and "unat (extra_size vm + extra_paddr vm) \<le> 2 ^ 51"
    and nk: "nk = large_pages kp (img_size vm + img_paddr vm)" and nr: "nr = large_pages rp (extra_size vm + extra_paddr vm)"
  shows "plan vm (kp, rp) (Suc m) = (kp + of_nat (0x200000 * min m nk), rp + of_nat (0x200000 * min (m - nk) nr))"
    and "plan_page vm (kp, rp) (Suc m) = guest_page vm (kp, rp) (Suc m)"
proof -
  define at where "at m = (kp + of_nat (0x200000 * min m nk), rp + of_nat (0x200000 * min (m - nk) nr))" for m
  have k: "kp + of_nat (0x200000 * min m nk) < img_size vm + img_paddr vm \<longleftrightarrow> m < nk" for m
    using large_pages_step(2) [of "min m nk" kp "img_size vm + img_paddr vm"] assms(1) nk by auto
  have r: "rp + of_nat (0x200000 * min (m - nk) nr) < extra_size vm + extra_paddr vm \<longleftrightarrow> m - nk < nr" for m
    using large_pages_step(2) [of "min (m - nk) nr" rp "extra_size vm + extra_paddr vm"] assms(2) nr by auto
  have step: "snd (plan_step vm (at m) n) = at (Suc m)" for m n
  proof -
    consider "m < nk" | "\<not> m < nk" "m - nk < nr" | "\<not> m < nk" "\<not> m - nk < nr" by blast
    then show ?thesis
      unfolding plan_step_def Let_def at_def case_prod_conv k r
      by cases (simp_all add: LARGE_PG_SIZE_def LARGE_PG_BITS_def algebra_simps Suc_diff_le)
  qed
  have plan: "plan vm (kp, rp) (Suc m) = at m" for m
  proof (induction m)
    case 0
    then show ?case by (simp add: at_def)
  next
    case (Suc m)
    then show ?case using step by simp
  qed
  then show "plan vm (kp, rp) (Suc m) = (kp + of_nat (0x200000 * min m nk), rp + of_nat (0x200000 * min (m - nk) nr))"
    by (simp add: at_def)
  show "plan_page vm (kp, rp) (Suc m) = guest_page vm (kp, rp) (Suc m)"
    unfolding plan_page_def plan plan_step_def Let_def at_def case_prod_conv k r guest_page_def nk [symmetric] nr [symmetric]
      fst_conv snd_conv
    by (simp add: nk [symmetric] nr [symmetric] del: of_nat_mult)
qed

definition large_aligned :: "u64 \<Rightarrow> bool" where
  "large_aligned a \<longleftrightarrow> unat a mod 0x200000 = 0"

lemma frame_masks:
  fixes a :: u64
  assumes "a AND mask k = 0" and "12 \<le> k" and "unat a < 2 ^ 52"
  shows "a AND ADDR_MASK = a"
proof (rule bit_word_eqI)
  fix n :: nat assume "n < LENGTH(64)"
  have "bit (a AND mask k) n \<longleftrightarrow> False" using assms(1) by simp
  moreover have "a = a AND mask 52" using assms(3) by (simp add: word_unat_eq_iff unat_and_mask)
  then have "bit a n \<Longrightarrow> n < 52" by (metis bit_and_iff bit_mask_iff)
  ultimately show "bit (a AND ADDR_MASK) n \<longleftrightarrow> bit a n"
    using assms(2) \<open>n < LENGTH(64)\<close> by (auto simp: ADDR_MASK_def bit_simps)
qed

lemma large_frame:
  assumes "unat a mod 0x200000 = 0" and "unat a < 2 ^ 52"
  shows "a AND ADDR_MASK = a" and "a AND mask 21 = 0"
proof -
  show "a AND mask 21 = 0" using assms(1) by (simp add: word_unat_eq_iff unat_and_mask)
  then show "a AND ADDR_MASK = a" by (rule frame_masks) (use assms(2) in simp_all)
qed

lemma small_frame:
  assumes "l < 2 ^ 40"
  shows "(of_nat (4096 * l) :: u64) AND ADDR_MASK = of_nat (4096 * l)" and "(of_nat (4096 * l) :: u64) AND mask 12 = 0"
proof -
  have u: "unat (of_nat (4096 * l) :: u64) = 4096 * l" using assms by (intro unat_of_nat_small) simp
  then show "(of_nat (4096 * l) :: u64) AND mask 12 = 0" by (simp add: word_unat_eq_iff unat_and_mask del: of_nat_mult)
  then show "(of_nat (4096 * l) :: u64) AND ADDR_MASK = of_nat (4096 * l)"
    by (rule frame_masks) (use u assms in \<open>simp_all del: of_nat_mult\<close>)
qed

lemma large_step_mod: "(0x200000 * k) mod 4096 = (0 :: nat)"
  using mod_mult_self1_is_0 [of 4096 "512 * k"] by (simp add: mult.assoc [symmetric])

lemma page_step:
  assumes "page_aligned s" and "unat (s + of_nat (0x200000 * k)) = unat s + 0x200000 * k"
  shows "unat (s + of_nat (0x200000 * k)) mod 4096 = 0"
  unfolding assms(2) using assms(1) large_step_mod [of k] mod_add_eq [of "unat s" 4096 "0x200000 * k"]
  by (simp add: page_aligned_def)

lemma page_step_word:
  assumes "page_aligned s"
  shows "page_aligned (s + 4096 * k)"
proof -
  have "4096 dvd unat s" using assms by (simp add: page_aligned_def dvd_eq_mod_eq_0)
  moreover have "4096 dvd 4096 * unat k mod 2 ^ 64" by (rule dvd_mod) simp_all
  ultimately have "4096 dvd (unat s + 4096 * unat k mod 2 ^ 64) mod 2 ^ 64" by (intro dvd_mod dvd_add) simp_all
  moreover have "unat (s + 4096 * k) = (unat s + 4096 * unat k mod 2 ^ 64) mod 2 ^ 64"
    by (simp only: unat_word_ariths(1,2) unat_numeral) simp
  ultimately have "4096 dvd unat (s + 4096 * k)" by simp
  then show ?thesis by (simp only: page_aligned_def dvd_eq_mod_eq_0)
qed

lemma guest_page_frame:
  assumes "unat (img_size vm + img_paddr vm) \<le> 2 ^ 51" and "unat (extra_size vm + extra_paddr vm) \<le> 2 ^ 51"
    and "page_aligned kp" and "page_aligned rp" and "n < 2 ^ 18"
  shows "guest_page vm (kp, rp) n AND ADDR_MASK = guest_page vm (kp, rp) n"
proof -
  let ?k = "large_pages kp (img_size vm + img_paddr vm)" and ?r = "large_pages rp (extra_size vm + extra_paddr vm)"
  have "unat (guest_page vm (kp, rp) n) mod 4096 = 0 \<and> unat (guest_page vm (kp, rp) n) < 2 ^ 52"
  proof -
    consider (kernel) "n - 1 < ?k" | (ramdisk) "\<not> n - 1 < ?k" "n - 1 - ?k < ?r"
      | (other) "\<not> n - 1 < ?k" "\<not> n - 1 - ?k < ?r" by blast
    then show ?thesis
    proof cases
      case kernel
      then have eq: "guest_page vm (kp, rp) n = kp + of_nat (0x200000 * (n - 1))" by (simp add: guest_page_def)
      have "unat kp + 0x200000 * (n - 1) < 2 ^ 51" using kernel assms(1) large_pages_iff [of "n - 1" kp] by fastforce
      then show ?thesis
        using large_pages_step(1) [OF less_imp_le [OF kernel] assms(1)] page_step [OF assms(3)] unfolding eq
        by (simp del: of_nat_mult)
    next
      case ramdisk
      then have eq: "guest_page vm (kp, rp) n = rp + of_nat (0x200000 * (n - 1 - ?k))" by (simp add: guest_page_def)
      have "unat rp + 0x200000 * (n - 1 - ?k) < 2 ^ 51" using ramdisk assms(2) large_pages_iff [of "n - 1 - ?k" rp] by fastforce
      then show ?thesis
        using large_pages_step(1) [OF less_imp_le [OF ramdisk(2)] assms(2)] page_step [OF assms(4)] unfolding eq
        by (simp del: of_nat_mult)
    next
      case other
      then have "guest_page vm (kp, rp) n = of_nat (0x200000 * (n + 2048))" by (simp add: guest_page_def)
      moreover have "unat (of_nat (0x200000 * (n + 2048)) :: u64) = 0x200000 * (n + 2048)"
        using assms(5) by (intro unat_of_nat_small) simp
      ultimately show ?thesis using assms(5) large_step_mod [of "n + 2048"] by (simp del: of_nat_mult)
    qed
  qed
  then show ?thesis
    by (intro frame_masks [of _ 12]) (simp_all add: word_unat_eq_iff unat_and_mask)
qed

text \<open>
  What the guest sees at a guest-physical address: host address, access rights, memory type (6 is
  write-back, 0 uncacheable). A large page whose host address is not a multiple of 2MB is
  misconfigured, and every access to it is refused.
\<close>

definition guest_view :: "vm_struct_t \<Rightarrow> u64 \<times> u64 \<Rightarrow> u64 \<Rightarrow> (u64 \<times> u64 \<times> u64) option" where
  "guest_view vm p gpa =
     (if unat gpa div 4096 = 0xB8 then Some (gpa, 3, 0)
      else if gpa < 0x100000 then Some (gpa, 7, 6)
      else if gpa < 0x200000 then Some (gpa + 0x100000000, 7, 6)
      else let host = guest_page vm p (unat gpa div 0x200000)
           in if large_aligned host then Some (host + (gpa AND mask 21), 7, 6) else None)"

lemma walk_index_nat: "walk_index n gpa = of_nat (unat gpa div 2 ^ (12 + 9 * n) mod 512)"
  by (simp add: walk_index_def word_unat_eq_iff unat_and_mask unat_shiftr unat_of_nat take_bit_nat_eq_self)

lemma or_offset:
  fixes x a :: u64
  assumes "x AND mask n = 0"
  shows "x OR (a AND mask n) = x + (a AND mask n)"
proof -
  have "x AND (a AND mask n) = (x AND mask n) AND a" by (simp only: ac_simps)
  then show ?thesis using assms by (simp add: disjunctive_add_eq_or)
qed

lemma pt_ept_entry_parts:
  assumes "l < 512"
  shows "pt_ept_entry (of_nat l) (of_nat (4096 * l)) =
    (if l = 0xB8 then of_nat (4096 * l) OR 3 else if l < 256 then of_nat (4096 * l) OR 0x37 else of_nat (4096 * (l + 0x100000)) OR 0x37)"
proof -
  have u: "unat (of_nat l :: u16) = l" "unat (of_nat l :: u64) = l" "ucast (of_nat l :: u16) = (of_nat l :: u64)"
    using assms by (simp_all add: unat_of_nat_small word_unat_eq_iff unsigned_ucast_eq take_bit_nat_eq_self)
  have "(of_nat l :: u16) = 0xB8 \<longleftrightarrow> l = 0xB8" using u(1) by (auto simp: word_unat_eq_iff)
  moreover have "(of_nat l :: u64) < PG_TABLE_ENTRIES div 2 \<longleftrightarrow> l < 256"
    using u(2) by (simp add: table_size word_less_nat_alt)
  ultimately show ?thesis
    unfolding pt_ept_entry_def u(3)
    by (simp add: EPT_RD_def EPT_WR_def EPT_EX_def EPT_TP_def EPT_TYPE_UC_def EPT_TYPE_WB_def or.assoc algebra_simps push_bit_eq_mult)
qed

lemma fill_tables_eq:
  assumes N: "N = unat ram div 2" "N \<le> 2 ^ 18"
  shows "fill_tables ram st vm tab p = fill_pdpt st vm tab 0 (of_nat (directories N)) p 0 (of_nat (512 * N))"
proof -
  have r: "drop_bit 1 ram = of_nat N" using N by (simp add: word_unat_eq_iff unat_shiftr unat_of_nat_small)
  have c: "ucast (of_nat N :: u32) = (of_nat N :: u64)" using N(2) by (intro small_ucast) simp
  have "unat (of_nat N + 511 :: u64) = N + 511" using N(2) by (simp add: unat_of_nat_small unat_add_small)
  then have "ucast (drop_bit 9 (of_nat N + 511 :: u64)) = (of_nat (directories N) :: u32)"
    using N(2) by (simp add: word_unat_eq_iff unsigned_ucast_eq unat_shiftr directories_def unat_of_nat take_bit_nat_eq_self)
  moreover have "ucast (of_nat N * 512 :: u64) = (of_nat (512 * N) :: u32)"
  proof -
    have "unat (of_nat (512 * N) :: u64) = 512 * N" "unat (of_nat (512 * N) :: u32) = 512 * N"
      by (rule unat_of_nat_small, use N(2) in simp)+
    then have "ucast (of_nat (512 * N) :: u64) = (of_nat (512 * N) :: u32)"
      using N(2) by (simp only: word_unat_eq_iff unsigned_ucast_eq) (simp add: take_bit_nat_eq_self)
    then show ?thesis by (simp add: mult.commute)
  qed
  ultimately show ?thesis
    unfolding fill_tables_def Let_def r c by (simp add: table_size PG_TABLE_BITS_def PG_BITS_def)
qed


text \<open>The first 2MB: a page table of their own.\<close>

lemma ept_first:
  assumes pt: "first_pt_ok m pt" and "unat gpa < 0x200000"
  shows "ept_from m pt 0 7 gpa = guest_view vm p gpa"
proof -
  define l where "l = unat gpa div 4096"
  have l: "l < 512" using assms(2) by (simp add: l_def less_mult_imp_div_less)
  have e: "load64 m (slot pt (walk_index 0 gpa)) = pt_ept_entry (of_nat l) (of_nat (4096 * l))"
    using pt l by (simp add: first_pt_ok_def walk_index_nat l_def)
  have base: "of_nat (4096 * l) + (gpa AND mask 12) = gpa"
  proof -
    have "gpa = of_nat (4096 * (unat gpa div 4096) + unat gpa mod 4096)" by (simp del: of_nat_add of_nat_mult)
    also have "\<dots> = of_nat (4096 * l) + of_nat (unat (gpa AND mask 12))"
      by (simp only: of_nat_add l_def unat_and_mask) simp
    finally show ?thesis by simp
  qed
  have o: "of_nat (4096 * l) OR (gpa AND mask 12) = gpa"
    using or_offset [OF small_frame(2)] l base by simp
  have o': "of_nat (4096 * (l + 0x100000)) OR (gpa AND mask 12) = gpa + 0x100000000"
  proof -
    have "of_nat (4096 * (l + 0x100000)) = of_nat (4096 * l) + (0x100000000 :: u64)" by simp
    then show ?thesis using or_offset [OF small_frame(2), of "l + 0x100000" gpa] l base by (simp add: algebra_simps)
  qed
  have lt: "gpa < 0x100000 \<longleftrightarrow> l < 256" "gpa < 0x200000"
    using assms(2) by (auto simp: word_less_nat_alt l_def)
  note page = ept_page [OF _ small_frame(1), where n = 0, unfolded mult_0_right add_0_right, OF _ _ _ _ _ small_frame(2)]
  consider "l = 0xB8" | "l \<noteq> 0xB8" "l < 256" | "\<not> l < 256" by linarith
  then show ?thesis
  proof cases
    case 1
    then show ?thesis
      using page [of m pt gpa l 3] e pt_ept_entry_parts [OF l] l o low_12 lt
      by (simp add: guest_view_def l_def [symmetric] del: of_nat_mult)
  next
    case 2
    then show ?thesis
      using page [of m pt gpa l "0x37"] e pt_ept_entry_parts [OF l] l o low_12 lt
      by (simp add: guest_view_def l_def [symmetric] del: of_nat_mult)
  next
    case 3
    then show ?thesis
      using page [of m pt gpa "l + 0x100000" "0x37"] e pt_ept_entry_parts [OF l] l o' low_12 lt
      by (simp add: guest_view_def l_def [symmetric] del: of_nat_mult of_nat_add)
  qed
qed

lemma large_entry_bits: "large_ept_entry x = x OR 0xB7"
  by (simp add: large_ept_entry_def EPT_RD_def EPT_WR_def EPT_EX_def EPT_PG_def EPT_TP_def EPT_TYPE_WB_def or.assoc)

text \<open>The other pages.\<close>

lemma ept_large:
  assumes "load64 m (slot d (walk_index 1 gpa)) = large_ept_entry x" and "x AND ADDR_MASK = x" and "x AND mask 21 = 0"
  shows "ept_from m d 1 7 gpa = Some (x + (gpa AND mask 21), 7, 6)"
  using ept_page [of m d 1 gpa x "0xB7"] assms or_offset [OF assms(3), of gpa] low_12 by (simp add: large_entry_bits)

text \<open>
  An image that does not start at a multiple of 2MB makes the entries of its pages misconfigured.
\<close>

lemma ept_misaligned:
  assumes "load64 m (slot d (walk_index 1 gpa)) = large_ept_entry x" and "x AND ADDR_MASK = x" and "x AND mask 21 \<noteq> 0"
  shows "ept_from m d 1 r gpa = None"
proof -
  note b = entry_bits [OF assms(2) low_12(8)]
  have "ept_refused 1 (x OR 0xB7)"
    using b(1) b(2) [of "0x80"] low_12 assms(3) by (simp add: ept_refused_def ept_leaf_def EPT_PG_def)
  then show ?thesis using assms(1) by (subst ept_from.simps) (simp add: Let_def large_entry_bits)
qed

text \<open>The two upper levels.\<close>

lemma ept_walk_directory:
  assumes al: "\<And>g. g \<in> F \<Longrightarrow> g AND ADDR_MASK = g" and F: "pml4 \<in> F" "pdpt \<in> F"
    and top: "load64 m (slot pml4 0) = pdpt OR 7" and d: "dirs_ok m vm p N F pdpt (directories N)"
    and N: "N \<le> 2 ^ 18" and gpa: "unat gpa < 0x200000 * N" and n: "n = unat gpa div 0x200000"
  obtains g where "pdt_ok m vm p N (F - {pdpt, TEST_FRAME}) (n div 512) g" "walk_index 1 gpa = of_nat (n mod 512)"
    "ept_walk m pml4 gpa = ept_from m g 1 7 gpa" "g AND ADDR_MASK = g" "n < N"
proof -
  define i where "i = n div 512"
  have nN: "n < N" using gpa by (simp add: n less_mult_imp_div_less mult.commute)
  then have i: "i < directories N" "i < 512" using N by (simp_all add: directories_iff i_def)
  have wi: "walk_index 3 gpa = 0" "walk_index 2 gpa = of_nat i" "walk_index 1 gpa = of_nat (n mod 512)"
  proof -
    have "unat gpa div 2 ^ 39 = 0" using gpa N by (simp add: div_less)
    moreover have "unat gpa div 2 ^ 30 = i" by (simp add: i_def n div_mult2_eq [symmetric])
    moreover have "unat gpa div 2 ^ 21 mod 512 = n mod 512" by (simp add: n)
    ultimately show "walk_index 3 gpa = 0" "walk_index 2 gpa = of_nat i" "walk_index 1 gpa = of_nat (n mod 512)"
      using i(2) by (simp_all add: walk_index_nat)
  qed
  obtain g where g: "load64 m (slot pdpt (of_nat i)) = g OR 7" "pdt_ok m vm p N (F - {pdpt, TEST_FRAME}) i g"
    using d i(1) by (auto simp: dirs_ok_def)
  have gF: "g AND ADDR_MASK = g" using g(2) al by (simp add: pdt_ok_def)
  have "ept_walk m pml4 gpa = ept_from m pdpt 2 7 gpa"
    using ept_link [of m pml4 2 gpa pdpt] top wi al F by (simp add: ept_walk_def numeral_3_eq_3)
  also have "\<dots> = ept_from m g 1 7 gpa"
    using ept_link [of m pdpt 1 gpa g] g(1) wi gF by (simp add: numeral_2_eq_2)
  finally show ?thesis using that [of g] g(2) wi(3) gF nN by (simp add: i_def)
qed

lemma pdt_ok_entry:
  assumes "pdt_ok m vm p N F (n div 512) g" and "n \<noteq> 0" and "n < N" and "walk_index 1 gpa = of_nat (n mod 512)"
  shows "load64 m (slot g (walk_index 1 gpa)) = large_ept_entry (plan_page vm p n)"
  using assms(1) [unfolded pdt_ok_def, THEN conjunct2, THEN conjunct1, rule_format, of "n mod 512"] assms(2-4) by simp

lemma ept_walk_guest:
  assumes al: "\<And>g. g \<in> F \<Longrightarrow> g AND ADDR_MASK = g" and F: "pml4 \<in> F" "pdpt \<in> F"
    and top: "load64 m (slot pml4 0) = pdpt OR 7" and d: "dirs_ok m vm (kp, rp) N F pdpt (directories N)"
    and N: "N \<le> 2 ^ 18" and gpa: "unat gpa < 0x200000 * N"
    and lim: "unat (img_size vm + img_paddr vm) \<le> 2 ^ 51" "unat (extra_size vm + extra_paddr vm) \<le> 2 ^ 51"
    and a: "page_aligned kp" "page_aligned rp"
  shows "ept_walk m pml4 gpa = guest_view vm (kp, rp) gpa"
proof -
  define n where "n = unat gpa div 0x200000"
  obtain g where g: "pdt_ok m vm (kp, rp) N (F - {pdpt, TEST_FRAME}) (n div 512) g" "walk_index 1 gpa = of_nat (n mod 512)"
    "ept_walk m pml4 gpa = ept_from m g 1 7 gpa" "g AND ADDR_MASK = g" "n < N"
    using ept_walk_directory [OF al F top d N gpa n_def] .
  show ?thesis
  proof (cases "n = 0")
    case True
    then have z: "unat gpa < 0x200000" by (simp add: n_def div_eq_0_iff)
    obtain pt where pt: "pt \<in> F" "load64 m (slot g 0) = pt OR 7" "first_pt_ok m pt"
      using g(1) True by (auto simp: pdt_ok_def)
    have "ept_from m g 1 7 gpa = ept_from m pt 0 7 gpa"
      using ept_link [of m g 0 gpa pt] pt(1,2) al g(2) True by simp
    then show ?thesis using ept_first [OF pt(3) z] g(3) by simp
  next
    case False
    then obtain k where k: "n = Suc k" by (cases n) auto
    let ?x = "guest_page vm (kp, rp) n"
    have e: "load64 m (slot g (walk_index 1 gpa)) = large_ept_entry ?x"
      using pdt_ok_entry [OF g(1) False g(5,2)] plan_closed(2) [OF lim refl refl, of kp rp k] k by simp
    have x: "?x AND ADDR_MASK = ?x" using guest_page_frame [OF lim a, of n] g(5) N by simp
    have al: "large_aligned ?x \<longleftrightarrow> ?x AND mask 21 = 0"
      by (simp add: large_aligned_def word_unat_eq_iff unat_and_mask)
    have "\<not> unat gpa < 0x200000" using False by (simp add: n_def div_eq_0_iff)
    then have "guest_view vm (kp, rp) gpa = (if large_aligned ?x then Some (?x + (gpa AND mask 21), 7, 6) else None)"
      by (auto simp: guest_view_def word_less_nat_alt n_def Let_def)
    then show ?thesis
      using ept_large [OF e x] ept_misaligned [OF e x, of 7] al g(3) by simp
  qed
qed

text \<open>What the upper tables do not link is refused.\<close>

lemma ept_absent: "load64 m (slot f (walk_index n gpa)) = 0 \<Longrightarrow> ept_from m f n r gpa = None"
  by (subst ept_from.simps) (simp add: ept_refused_def)

lemma ept_walk_beyond:
  assumes al: "pml4 AND ADDR_MASK = pml4" "pdpt AND ADDR_MASK = pdpt"
    and top: "\<And>l. l < 512 \<Longrightarrow> load64 m (slot pml4 l) = (if l = 0 then pdpt OR 7 else 0)"
    and dirs: "\<And>l. l < 512 \<Longrightarrow> k \<le> l \<Longrightarrow> load64 m (slot pdpt (of_nat l)) = 0"
    and gpa: "0x40000000 * k \<le> unat gpa" "unat gpa < 2 ^ 48"
  shows "ept_walk m pml4 gpa = None"
proof (cases "walk_index 3 gpa = 0")
  case False
  then show ?thesis using top [of "walk_index 3 gpa"] ept_absent [of m pml4 3 gpa 7] al(1) by (simp add: ept_walk_def)
next
  case True
  have "unat gpa div 2 ^ 39 < 512" using gpa(2) by (simp add: less_mult_imp_div_less)
  then have "unat gpa div 2 ^ 39 = 0" using True by (simp add: walk_index_nat word_unat_eq_iff unat_of_nat_small)
  then have i: "unat gpa div 2 ^ 30 < 512" by (simp add: div_eq_0_iff less_mult_imp_div_less)
  moreover have "k \<le> unat gpa div 2 ^ 30" using gpa(1) by (simp add: less_eq_div_iff_mult_less_eq mult.commute)
  ultimately have "load64 m (slot pdpt (walk_index 2 gpa)) = 0" using dirs by (simp add: walk_index_nat)
  then show ?thesis
    using ept_link [of m pml4 2 gpa pdpt] top [of 0] True al ept_absent [of m pdpt 2 gpa 7]
    by (simp add: ept_walk_def numeral_3_eq_3)
qed

text \<open>The loop, from the state that \<open>ept_top\<close> establishes.\<close>

lemma fill_tables_ready:
  assumes "ept_ready st F W pml4 pdpt w" and "N = unat ram div 2" and "N \<le> 2 ^ 18"
    and "3 \<le> card (free_slots st)" and "directories N + 1 \<le> card (avail st)"
  obtains st' E where "fill_tables ram st vm (kmap_va w) p = Inr st'" "pml4 \<in> E" "pdpt \<in> E" "data_ctx st' E W"
    "free_slots st' = free_slots st" "same_data (F - {pdpt, TEST_FRAME}) st st'" "dirs_ok (pmem st') vm p N E pdpt (directories N)"
    "\<And>l. l < 512 \<Longrightarrow> load64 (pmem st') (slot pml4 l) = (if l = 0 then pdpt OR 7 else 0)"
    "\<And>l. l < 512 \<Longrightarrow> directories N \<le> l \<Longrightarrow> load64 (pmem st') (slot pdpt (of_nat l)) = 0"
proof -
  note r = assms(1) [unfolded ept_ready_def]
  have "dirs_ok (pmem st) vm p N F pdpt 0" by (simp add: dirs_ok_def)
  then obtain st' E where st': "fill_tables ram st vm (kmap_va w) p = Inr st'" "F \<subseteq> E" "data_ctx st' E W"
    "free_slots st' = free_slots st" "same_data (F - {pdpt, TEST_FRAME}) st st'" "dirs_ok (pmem st') vm p N E pdpt (directories N)"
    "\<forall>l < 512. directories N \<le> l \<longrightarrow> load64 (pmem st') (slot pdpt (of_nat l)) = load64 (pmem st) (slot pdpt (of_nat l))"
    using fill_pdpt_correct [of st F W pdpt w N 0 vm p] r assms(3-5) fill_tables_eq [OF assms(2,3)] by auto
  have "load64 (pmem st') (slot pml4 l) = (if l = 0 then pdpt OR 7 else 0)" if "l < 512" for l
    using same_data_load [OF st'(5), of pml4 l] r data_ctx_frame(1) [of st F W pml4] that by auto
  moreover have "load64 (pmem st') (slot pdpt (of_nat l)) = 0" if "l < 512" "directories N \<le> l" for l
    using st'(7) that r slot_index(1) by simp
  ultimately show ?thesis using that [of st' E] st' r by auto
qed

end
