(* ===== verification/Ept_Correct.thy ===== *)
theory Ept_Correct
  imports Ept_Walk Paging_Properties
begin

text \<open>
  The properties of the extended page tables that \<open>virt_pg_table_setup\<close> builds: they translate the
  guest's memory as planned, and what they let through beyond it.
\<close>

section \<open>An example\<close>

text \<open>
  The small address space with the window's slot 0 on the frame \<open>0x6000\<close>, the upper tables at \<open>0x5000\<close>
  and \<open>0x6000\<close>, and free memory full of stale entries for the large page at 0.
\<close>

definition ept_demo_mem :: mem where
  "ept_demo_mem a =
     (if unat a < 0x100000 then store64 (store64 demo_mem (slot 0x4000 0) 0x6003) (slot 0x5000 0) 0x6007 a
      else if unat a mod 8 = 0 then 0xB7 else 0)"

lemma ept_demo_aligned: "page_aligned 0x5000" "page_aligned 0x6000" "page_aligned TEST_FRAME"
  by (simp_all add: page_aligned_def)

lemma ept_demo_load:
  assumes "page_aligned f" and "i < 512" and "unat f < 0x100000"
  shows "load64 ept_demo_mem (slot f i) = (if f = 0x5000 \<and> i = 0 then 0x6007 else if f = 0x4000 \<and> i = 0 then 0x6003
    else load64 demo_mem (slot f i))"
proof -
  have "unat f + 4096 \<le> 0x100000" using assms(1,3) by (auto simp: page_aligned_def)
  then have low: "unat x < 0x100000" if "x \<in> bytes_at (slot f i) 8" for x
    using that slot_bytes [OF assms(1,2)] page_bytes_iff [OF assms(1), of x] by auto
  have "load64 ept_demo_mem (slot f i) = load64 (store64 (store64 demo_mem (slot 0x4000 0) 0x6003) (slot 0x5000 0) 0x6007) (slot f i)"
    by (rule load64_cong) (simp add: ept_demo_mem_def low)
  then show ?thesis using assms by (simp add: load_slot_store ept_demo_aligned)
qed

lemma ept_demo_stale:
  assumes "page_aligned g" and "i < 512" and "0x100000 \<le> unat g"
  shows "load64 ept_demo_mem (slot g i) = large_ept_entry 0"
proof -
  have s: "unat (slot g i) = unat g + 8 * unat i" "unat g mod 8 = 0" "unat i < 512"
    using unat_slot [OF assms(1,2)] assms(1,2) by (auto simp: page_aligned_def word_less_nat_alt)
  have "ept_demo_mem (slot g i + of_nat k) = (if k = 0 then 0xB7 else 0)" if "k < 8" for k
  proof -
    have "unat (slot g i + of_nat k) = unat g + 8 * unat i + k"
      using s page_fits [OF assms(1)] that by (subst unat_add_small) (simp_all add: unat_of_nat_small)
    moreover have "(unat g + 8 * unat i + k) mod 8 = k" using s(2) that by presburger
    ultimately show ?thesis using assms(3) by (simp add: ept_demo_mem_def)
  qed
  note b = this
  have "load_bytes ept_demo_mem (slot g i + 1) 7 = 0"
  proof (rule load_bytes_zero)
    fix x assume "x \<in> bytes_at (slot g i + 1) 7"
    then obtain k where "k < 7" "x = slot g i + of_nat (Suc k)" by (auto simp: bytes_at_def ac_simps)
    then show "ept_demo_mem x = 0" using b [of "Suc k"] by simp
  qed
  moreover have "load64 ept_demo_mem (slot g i) =
      ucast (ept_demo_mem (slot g i)) OR push_bit 8 (load_bytes ept_demo_mem (slot g i + 1) 7)"
    using load_bytes.simps(2) [of ept_demo_mem "slot g i" 7] by (simp add: load64_def)
  ultimately show ?thesis using b [of 0] by (simp add: large_entry_bits)
qed

lemma ept_demo_descend:
  assumes "good_path q"
  shows "descend table_entry ept_demo_mem 0x1000 q = (if q = [] then Some 0x1000
    else if q = [0] then Some 0x2000 else if q = [0, 0] then Some 0x3000
    else if q = [0, 0, 5] then Some 0x4000 else None)"
proof -
  have "length q \<le> 3" "\<forall>i \<in> set q. i < 512" "q \<noteq> [] \<Longrightarrow> hd q \<noteq> 511" using assms by (auto simp: good_path_def)
  then consider "q = []" | a where "q = [a]" | a b where "q = [a, b]" | a b c where "q = [a, b, c]"
    by (auto simp: le_Suc_eq eval_nat_numeral length_Suc_conv)
  then show ?thesis using assms by cases (auto simp: good_path_def ept_demo_load demo_load)
qed

lemma ept_demo_ready: "ept_ready (demo_kernel ept_demo_mem) {0x5000, 0x6000, TEST_FRAME} {(0, 0x6000)} 0x5000 0x6000 0"
proof -
  let ?st = "demo_kernel ept_demo_mem"
  have "pg_inv ?st"
  proof (rule demo_pg_inv)
    show "rec_slot ept_demo_mem 0x1000" by (simp add: rec_slot_def ept_demo_load demo_load)
    show "tables_inj table_entry ept_demo_mem 0x1000"
      by (auto simp: tables_inj_def ept_demo_descend split: if_splits)
  qed (auto simp: ept_demo_descend split: if_splits)
  then have ok: "pg_ok ?st" by (simp add: pg_ok_def)
  have g5: "good_path [0, 0, 5]" by (simp add: good_path_def)
  have wt: "descend table_entry (pmem ?st) (root ?st) [0, 0, 5] = Some 0x4000"
    using ept_demo_descend [OF g5] by (simp del: descend.simps)
  have fr: "frame_no g \<notin> frames (k_phys ?st)" if "g \<in> {0x5000, 0x6000, TEST_FRAME}" for g
    using that demo_frames [of "frame_no g"] by (auto simp: frame_no_def frames_def bits_of_def)
  have df: "data_frame ?st g" if "g \<in> {0x5000, 0x6000, TEST_FRAME}" for g
    unfolding data_frame_def using that ept_demo_aligned
    by (auto simp: ept_demo_descend ADDR_MASK_def mask_eq_exp_minus_1 split: if_splits)
  have "wmap ?st 0 0x6000"
    unfolding wmap_def
  proof (intro allI impI)
    fix a assume a: "page_no a = page_no (kmap_va 0)"
    have ix: "walk_index n a = walk_index n (kmap_va 0)" if "n \<le> 3" for n using a walk_index_page_no [OF that] by simp
    then have "va_path 3 a = [0, 0, 5]" "walk_index 0 a = 0" by (simp_all add: kmap_va_index)
    then show "translate ?st a = Some (0x6000 OR (a AND mask 12))"
      using wt by (simp add: translate_walk walk_descend_3 [of _ _ a "0x4000"] ept_demo_load entry_present_def ADDR_MASK_def
          mask_eq_exp_minus_1 del: descend.simps va_path_simps)
  qed
  then have "data_ctx ?st {0x5000, 0x6000, TEST_FRAME} {(0, 0x6000)}"
    using ok wt fr df by (simp add: data_ctx_def wtab_def del: descend.simps)
  then show ?thesis
    unfolding ept_ready_def by (simp add: ept_demo_load demo_load ept_demo_aligned)
qed

lemma ept_demo_slots: "free_slots (demo_kernel ept_demo_mem) = {i. i < 512 \<and> i \<noteq> 0}" "3 \<le> card (free_slots (demo_kernel ept_demo_mem))"
proof -
  let ?st = "demo_kernel ept_demo_mem"
  have g5: "good_path [0, 0, 5]" by (simp add: good_path_def)
  have "descend table_entry (pmem ?st) (root ?st) (va_path 3 (kmap_va i)) = Some 0x4000" if "i < 512" for i
    using ept_demo_descend [OF g5] paths_of_windows [OF that] by (simp del: descend.simps va_path_simps)
  from translate_leaf_None [OF this]
  have "translate ?st (kmap_va i) = None \<longleftrightarrow> i \<noteq> 0" if "i < 512" for i
    using that by (simp add: kmap_va_index ept_demo_load demo_load entry_present_def)
  then show eq: "free_slots ?st = {i. i < 512 \<and> i \<noteq> 0}" by (auto simp: free_slots_def)
  have "card {1, 2, 3 :: u64} \<le> card (free_slots ?st)"
    using finite_free_slots [of ?st] unfolding eq by (intro card_mono) auto
  then show "3 \<le> card (free_slots ?st)" by simp
qed

lemma ept_demo_avail: "2 \<le> card (avail (demo_kernel ept_demo_mem))"
proof -
  have "card {256, 257 :: nat} \<le> card (avail (demo_kernel ept_demo_mem))"
    by (intro card_mono) (auto simp: avail_def frames_def bits_of_def test_bit_def)
  then show ?thesis by simp
qed

section \<open>Properties\<close>

text \<open>
  C10: the loop by which \<open>virt_pg_table_setup\<close> fills the extended page tables ends without a failed
  step, and the processor then translates every guest-physical address below the memory size as
  planned: the first MB to itself (the text screen uncached and not executable), the second MB and
  the pages behind the images to the address plus 4GB, and the large pages from 2MB on to the
  kernel and then the ramdisk. The loop starts at 1MB above the address of the image and at the
  address of the ramdisk in \<open>vm0\<close>, the structure before \<open>virt_setup_linux\<close> moves them, and compares
  with the ends in \<open>vm\<close>, the structure after it. A large page whose host address is then not a
  multiple of 2MB is misconfigured, so that the guest's access to it is refused. From the end of
  the last page directory on every access is refused. No translation of the kernel changes, and no
  data but the tables and the test program. This needs enough free frames and window slots, images
  that start at page boundaries and end below \<open>2 ^ 51\<close>, and at most 512GB of guest memory.
\<close>

theorem ept_maps_guest:
  fixes vm0 vm :: vm_struct_t
  assumes "ept_ready st F W pml4 pdpt w" and "N = unat (ram_size vm0) div 2" and "N \<le> 2 ^ 18"
    and "3 \<le> card (free_slots st)" and "directories N + 1 \<le> card (avail st)"
    and "unat (img_size vm + img_paddr vm) \<le> 2 ^ 51" and "unat (extra_size vm + extra_paddr vm) \<le> 2 ^ 51"
    and "page_aligned (img_paddr vm0)" and "page_aligned (extra_paddr vm0)"
    and "phys = (img_paddr vm0 + 0x100000, extra_paddr vm0)"
  shows "\<exists>st'. fill_tables (ram_size vm0) st vm (kmap_va w) phys = Inr st'
    \<and> (\<forall>gpa. unat gpa < 0x200000 * N \<longrightarrow> ept_walk (pmem st') pml4 gpa = guest_view vm phys gpa)
    \<and> (\<forall>gpa. 0x40000000 * directories N \<le> unat gpa \<longrightarrow> unat gpa < 2 ^ 48 \<longrightarrow> ept_walk (pmem st') pml4 gpa = None)
    \<and> pg_ok st' \<and> (\<forall>a. own_addr a \<longrightarrow> translate st' a = translate st a)
    \<and> (\<forall>g \<in> F - {pdpt, TEST_FRAME}. \<forall>a \<in> bytes_at g 4096. pmem st' a = pmem st a)"
proof -
  define V where "V = {(i, g). i < 512 \<and> wmap st i g}"
  have "data_ctx st F W" "(w, pdpt) \<in> W" using assms(1) by (auto simp: ept_ready_def)
  then have "data_ctx st F V" "(w, pdpt) \<in> V" and wt: "wtab st \<noteq> None"
    by (auto simp: data_ctx_def V_def)
  then have ready: "ept_ready st F V pml4 pdpt w" using assms(1) by (auto simp: ept_ready_def)
  obtain st' E where st': "fill_tables (ram_size vm0) st vm (kmap_va w) phys = Inr st'" "pml4 \<in> E" "pdpt \<in> E" "data_ctx st' E V"
    "free_slots st' = free_slots st" "same_data (F - {pdpt, TEST_FRAME}) st st'" "dirs_ok (pmem st') vm phys N E pdpt (directories N)"
    and top: "\<And>l. l < 512 \<Longrightarrow> load64 (pmem st') (slot pml4 l) = (if l = 0 then pdpt OR 7 else 0)"
    and rest: "\<And>l. l < 512 \<Longrightarrow> directories N \<le> l \<Longrightarrow> load64 (pmem st') (slot pdpt (of_nat l)) = 0"
    by (rule fill_tables_ready [OF ready assms(2-5)]) blast
  note al = data_ctx_frame(2) [OF st'(4)]
  have start: "page_aligned (img_paddr vm0 + 0x100000)" using page_step_word [OF assms(8), of 256] by simp
  have "ept_walk (pmem st') pml4 gpa = guest_view vm phys gpa" if "unat gpa < 0x200000 * N" for gpa
    using ept_walk_guest [OF al st'(2,3) _ st'(7) [unfolded assms(10)] assms(3) that assms(6,7) start assms(9)] top [of 0]
    by (simp add: assms(10))
  moreover have "ept_walk (pmem st') pml4 gpa = None" if "0x40000000 * directories N \<le> unat gpa" "unat gpa < 2 ^ 48" for gpa
    by (rule ept_walk_beyond [OF al [OF st'(2)] al [OF st'(3)] top rest that])
  moreover have "translate st' a = translate st a" if "own_addr a" for a
    by (rule same_translations [OF st'(6) wt _ st'(5) _ that]) (use st'(4) in \<open>auto simp: data_ctx_def V_def\<close>)
  ultimately show ?thesis using st'(1,4,6) by (auto simp: data_ctx_def same_data_def)
qed

theorem ept_maps_guest_witness:
  "\<exists>(vm0 :: vm_struct_t) vm st'. img_paddr vm0 = 0x3FF00000 \<and> extra_paddr vm0 = 0x50001000
    \<and> fill_tables 8 (demo_kernel ept_demo_mem) vm (kmap_va 0) (img_paddr vm0 + 0x100000, extra_paddr vm0) = Inr st'
    \<and> ept_walk (pmem st') 0x5000 0xB8F00 = Some (0xB8F00, 3, 0)
    \<and> ept_walk (pmem st') 0x5000 0x100000 = Some (0x100100000, 7, 6)
    \<and> ept_walk (pmem st') 0x5000 0x400123 = Some (0x40200123, 7, 6)
    \<and> ept_walk (pmem st') 0x5000 0x600000 = None
    \<and> ept_walk (pmem st') 0x5000 0x40000000 = None
    \<and> (\<forall>a. own_addr a \<longrightarrow> translate st' a = translate (demo_kernel ept_demo_mem) a)"
proof -
  obtain vm :: vm_struct_t where vm: "img_paddr vm = 0x40000000" "img_size vm = 0x300000" "extra_paddr vm = 0x50000000" "extra_size vm = 0x2000"
    by (metis vm_struct_t.select_convs)
  obtain vm0 :: vm_struct_t where vm0: "img_paddr vm0 = 0x3FF00000" "extra_paddr vm0 = 0x50001000" "ram_size vm0 = 8"
    by (metis vm_struct_t.select_convs)
  have n: "directories 4 = 1" by (simp add: directories_def)
  let ?p = "(0x40000000, 0x50001000) :: u64 \<times> u64"
  obtain st' where st': "fill_tables 8 (demo_kernel ept_demo_mem) vm (kmap_va 0) ?p = Inr st'"
    "\<And>gpa. unat gpa < 0x200000 * 4 \<Longrightarrow> ept_walk (pmem st') 0x5000 gpa = guest_view vm ?p gpa"
    "\<And>gpa. 0x40000000 * directories 4 \<le> unat gpa \<Longrightarrow> unat gpa < 2 ^ 48 \<Longrightarrow> ept_walk (pmem st') 0x5000 gpa = None"
    "\<And>a. own_addr a \<Longrightarrow> translate st' a = translate (demo_kernel ept_demo_mem) a"
    using ept_maps_guest [OF ept_demo_ready, of 4 vm0 vm ?p] ept_demo_slots(2) ept_demo_avail n
    by (auto simp: vm vm0 page_aligned_def)
  have l: "large_pages 0x40000000 0x40300000 = 2" "large_pages 0x50001000 0x50002000 = 1" by (simp_all add: large_pages_def)
  show ?thesis
    using st'(1,4) st'(2) [of "0xB8F00"] st'(2) [of "0x100000"] st'(2) [of "0x400123"] st'(2) [of "0x600000"]
      st'(3) [of "0x40000000"]
    by (intro exI [of _ vm0] exI [of _ vm] exI [of _ st'])
      (simp add: n guest_view_def guest_page_def vm vm0 l large_aligned_def mask_eq_exp_minus_1)
qed

text \<open>
  C37: a page directory is not cleared: with less than 1GB of guest memory, the entries behind the
  last one the loop writes keep what was in the free frame that became the directory. Where that
  looks like an entry for a large page, the guest reads, writes and executes that host page, at a
  guest-physical address beyond its memory.
\<close>

theorem ept_stale_entries:
  assumes "ept_ready st F W pml4 pdpt w" and "N = unat ram div 2" and "0 < N" and "N < 512"
    and "3 \<le> card (free_slots st)" and "2 \<le> card (avail st)"
  shows "\<exists>st' g. fill_tables ram st vm (kmap_va w) phys = Inr st' \<and> page_aligned g \<and> frame_no g \<in> avail st
    \<and> (\<forall>gpa x. 0x200000 * N \<le> unat gpa \<longrightarrow> unat gpa < 0x40000000
         \<longrightarrow> load64 (pmem st) (slot g (of_nat (unat gpa div 0x200000))) = large_ept_entry x
         \<longrightarrow> large_aligned x \<longrightarrow> unat x < 2 ^ 52
         \<longrightarrow> ept_walk (pmem st') pml4 gpa = Some (x + (gpa AND mask 21), 7, 6))"
proof -
  note r = assms(1) [unfolded ept_ready_def]
  have N: "N \<le> 2 ^ 18" "directories N = 1" "0 < directories N" using assms(3,4) by (simp_all add: directories_def)
  have d: "dirs_ok (pmem st) vm phys N F pdpt 0" by (simp add: dirs_ok_def)
  have c: "data_ctx st F W" "pdpt \<in> F" "(w, pdpt) \<in> W" "pdpt \<noteq> TEST_FRAME" "TEST_FRAME \<in> F"
    "(if (0 :: nat) = 0 then 2 else 1) \<le> card (avail st)" using r assms(6) by auto
  obtain st' E where "fill_pdpt st vm (kmap_va w) (of_nat 0) (of_nat (directories N)) (plan vm phys (min (512 * 0) N))
        (of_nat (512 * min (512 * 0) N)) (of_nat (512 * N))
      = fill_pdpt st' vm (kmap_va w) (of_nat (Suc 0)) (of_nat (directories N)) (plan vm phys (min (512 * Suc 0) N))
        (of_nat (512 * min (512 * Suc 0) N)) (of_nat (512 * N))"
    and E: "F \<subseteq> E" "data_ctx st' E W" "same_data (F - {pdpt, TEST_FRAME}) st st'"
    and "\<exists>g. frame_no g \<in> avail st \<and> g \<in> E \<and> load64 (pmem st') (slot pdpt (of_nat 0)) = g OR 7
       \<and> (\<forall>l < 512. N \<le> 512 * 0 + l \<longrightarrow> load64 (pmem st') (slot g (of_nat l)) = load64 (pmem st) (slot g (of_nat l)))"
    by (rule fill_pdpt_step [OF c(1-5) assms(5) c(6) N(3,1) d]) blast
  then obtain g where g: "frame_no g \<in> avail st" "g \<in> E" "load64 (pmem st') (slot pdpt 0) = g OR 7"
    "\<forall>l < 512. N \<le> l \<longrightarrow> load64 (pmem st') (slot g (of_nat l)) = load64 (pmem st) (slot g (of_nat l))"
    and run: "fill_pdpt st vm (kmap_va w) 0 1 phys 0 (of_nat (512 * N)) = Inr st'"
    using N(2) by (auto simp: fill_pdpt.simps [of st'])
  note al = data_ctx_frame [OF E(2)]
  have top: "load64 (pmem st') (slot pml4 0) = pdpt OR 7"
    using same_data_load [OF E(3), of pml4 0] r data_ctx_frame(1) [of st F W pml4] by auto
  have "ept_walk (pmem st') pml4 gpa = Some (x + (gpa AND mask 21), 7, 6)"
    if gpa: "0x200000 * N \<le> unat gpa" "unat gpa < 0x40000000" and x: "large_aligned x" "unat x < 2 ^ 52"
      "load64 (pmem st) (slot g (of_nat (unat gpa div 0x200000))) = large_ept_entry x" for gpa x
  proof -
    define n where "n = unat gpa div 0x200000"
    have n: "N \<le> n" "n < 512"
      using gpa by (simp_all add: n_def less_eq_div_iff_mult_less_eq less_mult_imp_div_less mult.commute)
    have wi: "walk_index 3 gpa = 0" "walk_index 2 gpa = 0" "walk_index 1 gpa = of_nat n"
      using gpa(2) n(2) by (simp_all add: walk_index_nat div_less n_def)
    have "ept_walk (pmem st') pml4 gpa = ept_from (pmem st') g 1 7 gpa"
      using ept_link [of "pmem st'" pml4 2 gpa pdpt] ept_link [of "pmem st'" pdpt 1 gpa g] top wi g(2,3) al(2) r E(1)
      by (simp add: ept_walk_def numeral_3_eq_3 numeral_2_eq_2 subset_iff)
    also have "\<dots> = Some (x + (gpa AND mask 21), 7, 6)"
      using ept_large [of "pmem st'" g gpa x] large_frame [of x] x g(4) n wi by (simp add: large_aligned_def n_def)
    finally show ?thesis .
  qed
  then show ?thesis
    using fill_tables_eq [OF assms(2) N(1)] run N(2) g(1,2) al(1) by (intro exI [of _ st'] exI [of _ g]) auto
qed

theorem ept_stale_entries_witness:
  "\<forall>vm. \<exists>st'. fill_tables 2 (demo_kernel ept_demo_mem) vm (kmap_va 0) (0, 0) = Inr st'
    \<and> ept_walk (pmem st') 0x5000 0x2000B0 = Some (0xB0, 7, 6)"
proof
  fix vm :: vm_struct_t
  obtain st' g where st': "fill_tables 2 (demo_kernel ept_demo_mem) vm (kmap_va 0) (0, 0) = Inr st'"
    and g: "page_aligned g" "frame_no g \<in> avail (demo_kernel ept_demo_mem)"
    and w: "\<And>gpa x. 0x200000 * 1 \<le> unat gpa \<Longrightarrow> unat gpa < 0x40000000
         \<Longrightarrow> load64 (pmem (demo_kernel ept_demo_mem)) (slot g (of_nat (unat gpa div 0x200000))) = large_ept_entry x
         \<Longrightarrow> large_aligned x \<Longrightarrow> unat x < 2 ^ 52 \<Longrightarrow> ept_walk (pmem st') 0x5000 gpa = Some (x + (gpa AND mask 21), 7, 6)"
    using ept_stale_entries [OF ept_demo_ready, of 1 2 vm "(0, 0)"] ept_demo_slots(2) ept_demo_avail by auto
  have "256 \<le> unat g div 4096" using g(2) demo_frames by (simp add: avail_def frame_no_def)
  then have "0x100000 \<le> unat g" by simp
  then show "\<exists>st'. fill_tables 2 (demo_kernel ept_demo_mem) vm (kmap_va 0) (0, 0) = Inr st'
    \<and> ept_walk (pmem st') 0x5000 0x2000B0 = Some (0xB0, 7, 6)"
    using st' w [of "0x2000B0" 0] ept_demo_stale [OF g(1)] by (auto simp: large_aligned_def mask_eq_exp_minus_1)
qed

end
