(* ===== verification/Guest_Map_Correct.thy ===== *)
theory Guest_Map_Correct
  imports Guest_Map Ept_Correct
begin

text \<open>
  The loop of \<open>virt_setup_e820\<close>, run by run: it ends, and the guest and the hypervisor share no frame
  afterwards.
\<close>

section \<open>The loop\<close>

lemma ctx_phys:
  assumes c: "data_ctx st F W" and p: "phys_ok p" "length (mm_table p) \<le> 2 ^ 34"
    and t: "\<And>q f. good_path q \<Longrightarrow> descend table_entry (pmem st) (root st) q = Some f \<Longrightarrow> frame_no f \<notin> frames p"
    and d: "\<And>g. g \<in> F \<Longrightarrow> frame_no g \<notin> frames p"
  shows "data_ctx (st\<lparr>k_phys := p\<rparr>) F W"
proof -
  have tr: "translate (st\<lparr>k_phys := p\<rparr>) = translate st" by (rule ext) (simp add: translate_def)
  have wm: "wmap (st\<lparr>k_phys := p\<rparr>) = wmap st" by (intro ext) (simp add: wmap_def tr)
  have wt: "wtab (st\<lparr>k_phys := p\<rparr>) = wtab st" by (simp add: wtab_def del: descend.simps)
  have df: "data_frame (st\<lparr>k_phys := p\<rparr>) = data_frame st" by (intro ext) (simp add: data_frame_def)
  have "pg_ok (st\<lparr>k_phys := p\<rparr>)"
    using c p t by (auto simp: data_ctx_def pg_ok_def pg_inv_def tables_not_free_def)
  then show ?thesis using c d by (auto simp: data_ctx_def wm df wt)
qed

text \<open>The state of the loop: the zero page is mapped, the table of frames has a word to spare.\<close>

definition map_ctx :: "u64 set \<Rightarrow> (u64 \<times> u64) set \<Rightarrow> kernel \<Rightarrow> bool" where
  "map_ctx F W k \<longleftrightarrow> data_ctx k F W \<and> unat (entry_end (k_phys k)) < length (mm_table (k_phys k))
     \<and> frames (k_phys k) \<subseteq> {2 ..< 64 * unat (entry_end (k_phys k))}"

lemma map_ctx_phys:
  assumes "map_ctx F W k"
  shows "phys_ok (k_phys k)" and "64 * unat (entry_end (k_phys k)) < 2 ^ 40" and "finite (frames (k_phys k))"
  using assms finite_subset [of "frames (k_phys k)" "{2 ..< 64 * unat (entry_end (k_phys k))}"]
  by (auto simp: map_ctx_def data_ctx_def pg_ok_def pg_inv_def)

lemma map_ctx_within:
  assumes "map_ctx F W k" and "z \<in> F" and "within z k k'"
  shows "map_ctx F W k'" and "k_phys k' = k_phys k" and "same_data (F - {z}) k k'"
proof -
  show ph: "k_phys k' = k_phys k" using assms(3) by (auto simp: within_def)
  show "map_ctx F W k'" using assms(1) ph ctx_within(1) [OF _ assms(2,3)] by (simp add: map_ctx_def)
  show "same_data (F - {z}) k k'" using ctx_within(4) [OF _ assms(2,3), of W] assms(1) by (simp add: map_ctx_def)
qed

lemma map_next:
  assumes c: "map_ctx F W k" and "pos < 2 ^ 41"
  obtains s p n where "physical_next_free_range (k_phys k) (page_addr pos) start = Inr (s, page_addr n)"
    "next_run (frames (k_phys k)) pos p n" "0 < n \<Longrightarrow> s = page_addr p" "0 < n \<Longrightarrow> p + n \<le> 64 * unat (entry_end (k_phys k))"
    "0 < n \<Longrightarrow> 2 \<le> p" "n < 2 ^ 41" "0 < n \<Longrightarrow> p < 2 ^ 41"
proof -
  let ?B = "frames (k_phys k)"
  have u: "unat (page_addr pos) div 4096 = pos" using assms(2) by (simp add: unat_page_addr)
  have B: "?B \<subseteq> {2 ..< 64 * unat (entry_end (k_phys k))}" using c by (simp add: map_ctx_def)
  obtain s sz where r: "physical_next_free_range (k_phys k) (page_addr pos) start = Inr (s, sz)" "stored_run ?B pos (s, sz)"
    using physical_next_free_range_runs [OF map_ctx_phys(1) [OF c], of "page_addr pos" start] c u
    by (auto simp: map_ctx_def subset_iff)
  then obtain p n where p: "next_run ?B pos p n" "sz = page_addr n" "0 < n \<longrightarrow> s = page_addr p"
    by (auto simp: stored_run_def page_addr_def)
  have "p \<in> {2 ..< 64 * unat (entry_end (k_phys k))} \<and> p + n - 1 \<in> {2 ..< 64 * unat (entry_end (k_phys k))}" if "0 < n"
    using run_end(3) [OF p(1) that] that B by (auto simp: subset_iff)
  then have "0 < n \<Longrightarrow> p + n \<le> 64 * unat (entry_end (k_phys k)) \<and> 2 \<le> p" by fastforce
  then show ?thesis using that [of s n p] r(1) p map_ctx_phys(2) [OF c] by (cases "n = 0") auto
qed

lemma page_sum: "(4096 * a + 4096 * c + 4095) div 4096 = a + (c :: nat)"
  by (rule div_nat_eqI) simp_all

lemma page_range: "a + c < 2 ^ 50 \<Longrightarrow> range_pages (page_addr a, page_addr c) = {a ..< a + c}"
proof -
  assume "a + c < 2 ^ 50"
  then have u: "unat (page_addr a) = 4096 * a" "unat (page_addr c) = 4096 * c" by (simp_all add: unat_page_addr)
  have "4096 * a div 4096 = a" by simp
  then show ?thesis by (simp only: touched_frames_def u page_sum fst_conv snd_conv)
qed

lemma map_take:
  assumes c: "map_ctx F W k" and a: "a + c \<le> 64 * unat (entry_end (k_phys k))"
  obtains p where "physical_take_range (k_phys k) (page_addr a) (page_addr c) = Inr p"
    "map_ctx F W (k\<lparr>k_phys := p\<rparr>)" "frames p = frames (k_phys k) - {a ..< a + c}" "entry_end p = entry_end (k_phys k)"
proof -
  have lim: "a + c < 2 ^ 40" using map_ctx_phys(2) [OF c] a by simp
  have u: "unat (page_addr a) = 4096 * a" "unat (page_addr c) = 4096 * c" using lim by (simp_all add: unat_page_addr)
  have fit: "(unat (page_addr a) + unat (page_addr c) + 4095) div 4096 \<le> 64 * length (mm_table (k_phys k))"
    unfolding u page_sum using a c by (simp add: map_ctx_def)
  obtain t where t: "physical_take_range (k_phys k) (page_addr a) (page_addr c) = Inr (cycle_lock (k_phys k\<lparr>mm_table := t\<rparr>))"
    "length t = length (mm_table (k_phys k))" "bits_of t = frames (k_phys k) - range_pages (page_addr a, page_addr c)"
    using physical_take_range_frames [OF map_ctx_phys(1) [OF c] _ fit] lim by (auto simp: u)
  define p where "p = cycle_lock (k_phys k\<lparr>mm_table := t\<rparr>)"
  have pf: "frames p = frames (k_phys k) - {a ..< a + c}" "entry_end p = entry_end (k_phys k)" "length (mm_table p) = length (mm_table (k_phys k))"
    using t(2,3) page_range [of a c] lim by (simp_all add: p_def frames_def cycle_lock_def)
  have "phys_ok p" using map_ctx_phys(1) [OF c] t(2) by (simp add: p_def phys_ok_def cycle_lock_def lock_free_def)
  then have "data_ctx (k\<lparr>k_phys := p\<rparr>) F W"
    using c pf by (intro ctx_phys) (auto simp: map_ctx_def data_ctx_def pg_ok_def pg_inv_def tables_not_free_def)
  then have "map_ctx F W (k\<lparr>k_phys := p\<rparr>)" using c pf by (auto simp: map_ctx_def)
  then show ?thesis using that t(1) pf by (simp add: p_def)
qed

definition ramdisk_entry :: "u64 \<Rightarrow> u64 \<Rightarrow> u64 \<times> u64" where
  "ramdisk_entry img sz = (img, of_nat (0x200000 * ((unat sz + 0x1FFFFF) div 0x200000)))"

text \<open>The ramdisk's entry, which is inserted once.\<close>

definition put_ramdisk ::
    "kernel \<Rightarrow> u64 \<Rightarrow> u64 \<Rightarrow> u64 \<Rightarrow> bool \<Rightarrow> u8 \<Rightarrow> bool \<Rightarrow> ((u64 \<times> u64) list \<times> kernel \<times> u8 \<times> bool) result" where
  "put_ramdisk k zp img sz here num merge =
     (if here \<and> merge
      then rbind (ceiling64 sz LARGE_PG_SIZE) (\<lambda>sz.
           rbind (e820_put k zp num img sz) (\<lambda>k. Inr ([(img, sz)], k, num + 1, False)))
      else Inr ([], k, num, merge))"

text \<open>
  The state of the loop at the position \<open>pos\<close>, with \<open>num\<close> entries stored, and its result when it has
  added the entries \<open>out\<close>.
\<close>

definition map_state ::
    "u64 set \<Rightarrow> (u64 \<times> u64) set \<Rightarrow> nat \<Rightarrow> u64 \<times> u64 \<Rightarrow> kernel \<Rightarrow> nat \<Rightarrow> u8 \<Rightarrow> bool \<Rightarrow> bool" where
  "map_state F W lim rd k pos num merge \<longleftrightarrow> (let B = frames (k_phys k) in
     map_ctx F W k \<and> lim = 64 * unat (entry_end (k_phys k)) \<and> pos \<le> lim + 511
     \<and> unat num + todo B pos + (if merge then 1 else 0) \<le> 128
     \<and> (merge \<longrightarrow> range_pages rd \<inter> (B \<union> two_before B pos) = {}) \<and> B \<inter> {..< min pos 256} = {})"

definition map_done ::
    "u64 set \<Rightarrow> (u64 \<times> u64) set \<Rightarrow> u64 \<Rightarrow> u64 \<times> u64 \<Rightarrow> kernel \<Rightarrow> nat \<Rightarrow> u8 \<Rightarrow> bool \<Rightarrow> (u64 \<times> u64) list \<Rightarrow> kernel \<Rightarrow> bool" where
  "map_done F W z rd k pos num merge out k' \<longleftrightarrow> map_ctx F W k' \<and> same_data (F - {z}) k k'
     \<and> map_result (frames (k_phys k)) pos merge rd out (frames (k_phys k')) \<and> table_ok (pmem k) (pmem k') z (unat num) out"

lemma ramdisk_step:
  assumes st: "map_state F W lim rd k pos num merge" and z: "z \<in> F" "(w, z) \<in> W" and sz: "unat sz < 2 ^ 63"
    and rd: "rd = ramdisk_entry img sz"
  obtains out0 k1 num1 merge1 where "put_ramdisk k (kmap_va w) img sz here num merge = Inr (out0, k1, num1, merge1)"
    "map_state F W lim rd k1 pos num1 merge1" "k_phys k1 = k_phys k"
    "\<And>out k'. map_done F W z rd k1 pos num1 merge1 out k' \<Longrightarrow> map_done F W z rd k pos num merge (out0 @ out) k'"
proof (cases "here \<and> merge")
  case False
  show ?thesis by (rule that [of "[]" k num merge]) (use False st in \<open>auto simp: put_ramdisk_def\<close>)
next
  case True
  have c: "map_ctx F W k" "data_ctx k F W" and lt: "unat num < 128"
    and dis: "range_pages rd \<inter> (frames (k_phys k) \<union> two_before (frames (k_phys k)) pos) = {}"
    using st True by (auto simp: map_state_def map_ctx_def Let_def)
  obtain k1 where k1: "e820_put k (kmap_va w) num img (snd rd) = Inr k1" "within z k k1" "e820_at (pmem k1) z (unat num) (img, snd rd)"
    "\<And>i e. i < unat num \<Longrightarrow> e820_at (pmem k1) z i e = e820_at (pmem k) z i e"
    by (rule e820_put_correct [OF c(2) z lt]) blast
  have r: "rd = (img, snd rd)" by (simp add: rd ramdisk_entry_def)
  have n1: "unat (num + 1) = Suc (unat num)" using lt by (simp add: unat_add_small)
  note m1 = map_ctx_within [OF c(1) z(1) k1(2)]
  show ?thesis
  proof (rule that)
    show "put_ramdisk k (kmap_va w) img sz here num merge = Inr ([rd], k1, num + 1, False)"
      using True k1(1) ceiling64_large [OF sz] r by (simp add: put_ramdisk_def rd ramdisk_entry_def)
    show "map_state F W lim rd k1 pos (num + 1) False"
      using st True n1 m1(1,2) by (simp add: map_state_def Let_def)
    fix out k' assume "map_done F W z rd k1 pos (num + 1) False out k'"
    then show "map_done F W z rd k pos num merge ([rd] @ out) k'"
      using map_result_ramdisk [OF _ dis, of out "frames (k_phys k')"] table_ok_Cons [OF k1(3,4), of "pmem k'" out] True r n1 m1(2)
        same_data_trans [OF m1(3), of k'] by (simp add: map_done_def)
  qed (rule m1(2))
qed

lemma e820_loop_unfold:
  "e820_loop (Suc fuel) k zp (img, sz, rend, kend) ms msz num merge =
     rbind (physical_next_free_range (k_phys k) (ms + msz) ms) (\<lambda>(s, n).
     rbind (put_ramdisk k zp img sz (rend \<le> s) num merge) (\<lambda>(out, k, num, merge).
       if n = 0 then Inr (out, k)
       else rbind (range_use_of kend (ms + msz) s n) (\<lambda>u. case u of
              Skip s n \<Rightarrow> rbind (e820_loop fuel k zp (img, sz, rend, kend) s n num merge) (\<lambda>(out', k). Inr (out @ out', k))
            | Entry s n \<Rightarrow> rbind (e820_put k zp num s n) (\<lambda>k. rbind (physical_take_range (k_phys k) s n) (\<lambda>p.
                rbind (e820_loop fuel (k\<lparr>k_phys := p\<rparr>) zp (img, sz, rend, kend) s n (num + 1) merge)
                  (\<lambda>(out', k). Inr (out @ (s, n) # out', k)))))))"
  by (simp add: put_ramdisk_def Let_def)

lemma Min_next: "next_run B 0 p n \<Longrightarrow> 0 < n \<Longrightarrow> finite B \<Longrightarrow> Min B = p"
  using run_end [of B 0 p n] by (intro Min_eqI) auto

text \<open>What holds after frames of a run were given away.\<close>

lemma entry_facts:
  assumes r: "next_run B pos p n" "0 < n" and fin: "finite B" and low: "B \<inter> {..< min p 256} = {}"
    and c: "0 < c" "a + c \<le> p + n" and a: "p \<le> a \<or> pos = 0 \<and> a + 2 = p \<and> p < 256" "p < 256 \<longrightarrow> a \<le> p \<and> a + c = p + n"
    and rest: "a + c < p + n \<longrightarrow> 512 dvd a + c \<and> p + n < a + c + 512 \<and> \<not> (512 dvd p \<and> n < 512)"
  shows "{a ..< a + c} \<subseteq> B \<union> two_before B pos" and "todo (B - {a ..< a + c}) (a + c) < todo B pos"
    and "(B - {a ..< a + c}) \<inter> {..< min (a + c) 256} = {}" and "pos < a + c"
proof -
  note run = run_end [OF r]
  show "pos < a + c" using c(1) a(1) run(2) by auto
  show "{a ..< a + c} \<subseteq> B \<union> two_before B pos"
  proof
    fix q assume q: "q \<in> {a ..< a + c}"
    show "q \<in> B \<union> two_before B pos"
    proof (cases "p \<le> q")
      case True
      then show ?thesis using q c(2) run(3) by auto
    next
      case False
      then have "pos = 0" "a + 2 = p" using q a(1) by auto
      moreover have "Min B = p" using Min_next [of B p n] r fin \<open>pos = 0\<close> by simp
      ultimately show ?thesis using q False by (auto simp: two_before_def)
    qed
  qed
  show "todo (B - {a ..< a + c}) (a + c) < todo B pos"
  proof (cases "a + c = p + n")
    case True
    show ?thesis by (rule todo_behind [OF r fin]) (use True in auto)
  next
    case False
    then have "a + c < p + n" "p \<le> a" using a c(2) by auto
    then show ?thesis using todo_stub [OF r fin _ c(1)] rest by blast
  qed
  show "(B - {a ..< a + c}) \<inter> {..< min (a + c) 256} = {}"
  proof (cases "p < 256")
    case True
    then have "B \<inter> {..< p} = {}" "a \<le> p" using low a(2) by (simp_all add: min_def)
    then show ?thesis by (auto simp: disjoint_iff)
  next
    case False
    then have "B \<inter> {..< 256} = {}" using low by (simp add: min_def split: if_splits)
    then show ?thesis by (auto simp: disjoint_iff)
  qed
qed

lemma map_give:
  assumes c: "map_ctx F W k" and z: "z \<in> F" "(w, z) \<in> W" and num: "unat num < 128"
    and a: "a + c \<le> 64 * unat (entry_end (k_phys k))"
  obtains k2 p where "e820_put k (kmap_va w) num (page_addr a) (page_addr c) = Inr k2"
    "physical_take_range (k_phys k2) (page_addr a) (page_addr c) = Inr p" "map_ctx F W (k2\<lparr>k_phys := p\<rparr>)"
    "frames p = frames (k_phys k) - {a ..< a + c}" "entry_end p = entry_end (k_phys k)" "same_data (F - {z}) k k2"
    "unat (num + 1) = Suc (unat num)"
    "\<And>out m'. table_ok (pmem k2) m' z (unat (num + 1)) out \<Longrightarrow> table_ok (pmem k) m' z (unat num) ((page_addr a, page_addr c) # out)"
proof -
  have d: "data_ctx k F W" using c by (simp add: map_ctx_def)
  obtain k2 where k2: "e820_put k (kmap_va w) num (page_addr a) (page_addr c) = Inr k2" "within z k k2"
    "e820_at (pmem k2) z (unat num) (page_addr a, page_addr c)"
    "\<And>i e. i < unat num \<Longrightarrow> e820_at (pmem k2) z i e = e820_at (pmem k) z i e"
    by (rule e820_put_correct [OF d z num]) blast
  note m2 = map_ctx_within [OF c z(1) k2(2)]
  have ac: "a + c \<le> 64 * unat (entry_end (k_phys k2))" using m2(2) a by simp
  obtain p where p: "physical_take_range (k_phys k2) (page_addr a) (page_addr c) = Inr p"
    "map_ctx F W (k2\<lparr>k_phys := p\<rparr>)" "frames p = frames (k_phys k2) - {a ..< a + c}" "entry_end p = entry_end (k_phys k2)"
    by (rule map_take [OF m2(1) ac]) blast
  have s1: "unat (num + 1) = Suc (unat num)" using num by (simp add: unat_add_small)
  show ?thesis
    by (rule that [OF k2(1) p(1,2)]) (use p(3,4) m2(2,3) s1 table_ok_Cons [OF k2(3,4)] in simp_all)
qed

lemma skip_step:
  assumes st: "map_state F W lim rd k pos num merge" and run: "next_run (frames (k_phys k)) pos p n" "0 < n" and pn: "p + n \<le> lim"
    and e: "256 \<le> p" "p + n \<le> e" "e < p + n + 512"
  shows "map_state F W lim rd k e num merge" and "pos < e"
    and "map_done F W z rd k e num merge out k' \<Longrightarrow> map_done F W z rd k pos num merge out k'"
proof -
  let ?B = "frames (k_phys k)"
  note r = run_end [OF run]
  have fin: "finite ?B" using st map_ctx_phys(3) by (auto simp: map_state_def Let_def)
  have td: "todo ?B e < todo ?B pos" using todo_behind [OF run fin e(2)] by simp
  have low: "?B \<inter> {..< min e 256} = {}"
    using st e(1,2) r(5) by (fastforce simp: map_state_def Let_def disjoint_iff)
  show "pos < e" using r(2) run(2) e(2) by simp
  then show "map_state F W lim rd k e num merge"
    using st td low pn e(3) by (auto simp: map_state_def Let_def two_before_def)
  show "map_done F W z rd k e num merge out k' \<Longrightarrow> map_done F W z rd k pos num merge out k'"
    using map_result_skip [of ?B e merge rd out] \<open>pos < e\<close> by (simp add: map_done_def)
qed

lemma entry_step:
  assumes st: "map_state F W lim rd k pos num merge" and z: "z \<in> F" "(w, z) \<in> W"
    and run: "next_run (frames (k_phys k)) pos p n" "0 < n" and pn: "p + n \<le> lim"
    and c: "0 < c" "a + c \<le> p + n" and a: "p \<le> a \<or> pos = 0 \<and> a + 2 = p \<and> p < 256" "p < 256 \<longrightarrow> a \<le> p \<and> a + c = p + n"
    and rest: "a + c < p + n \<longrightarrow> 512 dvd a + c \<and> p + n < a + c + 512 \<and> \<not> (512 dvd p \<and> n < 512)"
  obtains k2 ph where "e820_put k (kmap_va w) num (page_addr a) (page_addr c) = Inr k2"
    "physical_take_range (k_phys k2) (page_addr a) (page_addr c) = Inr ph"
    "map_state F W lim rd (k2\<lparr>k_phys := ph\<rparr>) (a + c) (num + 1) merge" "pos < a + c"
    "\<And>out k'. map_done F W z rd (k2\<lparr>k_phys := ph\<rparr>) (a + c) (num + 1) merge out k'
       \<Longrightarrow> map_done F W z rd k pos num merge ((page_addr a, page_addr c) # out) k'"
proof -
  let ?B = "frames (k_phys k)"
  have ctx: "map_ctx F W k" and lim: "lim = 64 * unat (entry_end (k_phys k))" using st by (simp_all add: map_state_def Let_def)
  have low: "?B \<inter> {..< min p 256} = {}"
    using st run_end(5) [OF run] by (fastforce simp: map_state_def Let_def disjoint_iff)
  note f = entry_facts [OF run map_ctx_phys(3) [OF ctx] low c a rest]
  have n1: "unat num < 128" using st f(2) by (auto simp: map_state_def Let_def)
  have ac: "a + c \<le> 64 * unat (entry_end (k_phys k))" using c(2) pn lim by simp
  obtain k2 ph where k2: "e820_put k (kmap_va w) num (page_addr a) (page_addr c) = Inr k2"
    "physical_take_range (k_phys k2) (page_addr a) (page_addr c) = Inr ph"
    "map_ctx F W (k2\<lparr>k_phys := ph\<rparr>)" "frames ph = ?B - {a ..< a + c}" "entry_end ph = entry_end (k_phys k)"
    "same_data (F - {z}) k k2" "unat (num + 1) = Suc (unat num)"
    and tab: "\<And>out m'. table_ok (pmem k2) m' z (unat (num + 1)) out \<Longrightarrow> table_ok (pmem k) m' z (unat num) ((page_addr a, page_addr c) # out)"
    by (rule map_give [OF ctx z n1 ac]) blast
  have rp: "range_pages (page_addr a, page_addr c) = {a ..< a + c}"
    using page_range [of a c] ac map_ctx_phys(2) [OF ctx] by simp
  have two: "two_before (?B - {a ..< a + c}) (a + c) = {}" using c(1) by (simp add: two_before_def)
  show ?thesis
  proof (rule that [OF k2(1,2)])
    show "map_state F W lim rd (k2\<lparr>k_phys := ph\<rparr>) (a + c) (num + 1) merge"
      using st k2(3,4,5,7) f(2,3) c(2) pn two by (auto simp: map_state_def Let_def)
    fix out k' assume d: "map_done F W z rd (k2\<lparr>k_phys := ph\<rparr>) (a + c) (num + 1) merge out k'"
    then have "map_result ?B pos merge rd ((page_addr a, page_addr c) # out) (frames (k_phys k'))"
      using map_result_entry [of ?B "(page_addr a, page_addr c)" "a + c" merge rd out "frames (k_phys k')" pos, unfolded rp] k2(4) f(1) st c(1)
      by (simp add: map_done_def map_state_def Let_def)
    moreover have "same_data (F - {z}) k2 k'" using d by (simp add: map_done_def same_data_def)
    ultimately show "map_done F W z rd k pos num merge ((page_addr a, page_addr c) # out) k'"
      using d tab same_data_trans [OF k2(6)] by (simp add: map_done_def)
  qed (rule f(4))
qed

text \<open>The loop, round by round.\<close>

lemma e820_loop_correct:
  assumes z: "z \<in> F" "(w, z) \<in> W" and sz: "unat sz < 2 ^ 63" and ke: "LINUX_ENTRY_POINT \<le> kend"
    and rd: "rd = ramdisk_entry img sz"
    and "map_state F W lim rd k pos num merge" and "ms + msz = page_addr pos" and "lim + 511 - pos < fuel"
  shows "\<exists>out k'. e820_loop fuel k (kmap_va w) (img, sz, rend, kend) ms msz num merge = Inr (out, k')
    \<and> map_done F W z rd k pos num merge out k'"
  using assms(6-)
proof (induction fuel arbitrary: k ms msz pos num merge)
  case (Suc fuel)
  let ?B = "frames (k_phys k)"
  note st = Suc.prems(1)
  have c: "map_ctx F W k" and lim: "lim = 64 * unat (entry_end (k_phys k))" "pos \<le> lim + 511" and pos: "?B \<inter> {..< min pos 256} = {}"
    using st by (auto simp: map_state_def Let_def)
  have p41: "pos < 2 ^ 41" "lim < 2 ^ 40" using map_ctx_phys(2) [OF c] lim by simp_all
  obtain s p n where s: "physical_next_free_range (k_phys k) (page_addr pos) ms = Inr (s, page_addr n)"
    "next_run ?B pos p n" "0 < n \<Longrightarrow> s = page_addr p" "0 < n \<Longrightarrow> p + n \<le> lim" "0 < n \<Longrightarrow> 2 \<le> p" "n < 2 ^ 41"
    unfolding lim(1) by (rule map_next [OF c p41(1)]) blast
  obtain out0 k1 num1 merge1 where k1: "put_ramdisk k (kmap_va w) img sz (rend \<le> s) num merge = Inr (out0, k1, num1, merge1)"
    "map_state F W lim rd k1 pos num1 merge1" "k_phys k1 = k_phys k"
    and done0: "\<And>out k'. map_done F W z rd k1 pos num1 merge1 out k' \<Longrightarrow> map_done F W z rd k pos num merge (out0 @ out) k'"
    by (rule ramdisk_step [OF st z sz rd]) blast
  note unf = e820_loop_unfold [of fuel k "kmap_va w" img sz rend kend ms msz num merge, unfolded Suc.prems(2) s(1) k1(1) rbind.simps case_prod_conv]
  have z0: "page_addr n = 0 \<longleftrightarrow> n = 0" using page_addr_le(3) [of n 0] s(6) by (simp add: page_addr_def)
  show ?case
  proof (cases "n = 0")
    case True
    have "map_result ?B pos merge1 rd [] ?B" using s(2) True pos by (intro map_result_end) (simp_all add: next_run_def)
    then have "map_done F W z rd k1 pos num1 merge1 [] k1" using k1(2,3) by (simp add: map_done_def map_state_def Let_def)
    then show ?thesis using unf True z0 done0 [of "[]" k1] by auto
  next
    case False
    then have n: "0 < n" and sp: "s = page_addr p" "p + n \<le> lim" "2 \<le> p" using s by simp_all
    have run: "next_run (frames (k_phys k1)) pos p n" using s(2) k1(3) by simp
    obtain u where u: "range_use_of kend (page_addr pos) (page_addr p) (page_addr n) = Inr u" "range_ok pos p n u"
      using range_use_ok [OF n _ run_end(2) [OF run n] _ ke] sp p41 by auto
    note unf' = unf [unfolded sp(1) u(1) rbind.simps z0]
    show ?thesis
    proof (cases u)
      case (Skip s' m)
      then obtain e where e: "256 \<le> p" "s' + m = page_addr e" "p + n \<le> e" "e < p + n + 512"
        using u(2) by (auto simp: range_ok_def)
      note k = skip_step [OF k1(2) run n sp(2) e(1,3,4)]
      have "lim + 511 - e < fuel" using k(1,2) Suc.prems(3) by (auto simp: map_state_def Let_def)
      then obtain out k' where IH: "e820_loop fuel k1 (kmap_va w) (img, sz, rend, kend) s' m num1 merge1 = Inr (out, k')"
        "map_done F W z rd k1 e num1 merge1 out k'" using Suc.IH [OF k(1) e(2)] by blast
      show ?thesis
        by (intro exI [of _ "out0 @ out"] exI [of _ k'] conjI done0 k(3) IH(2)) (use unf' Skip n IH(1) in simp)
    next
      case (Entry s' m)
      then obtain a c where a: "s' = page_addr a" "m = page_addr c" "0 < c" "a + c \<le> p + n" "p \<le> a \<or> pos = 0 \<and> a + 2 = p \<and> p < 256"
        "p < 256 \<longrightarrow> a \<le> p \<and> a + c = p + n"
        "a + c < p + n \<longrightarrow> 512 dvd a + c \<and> p + n < a + c + 512 \<and> \<not> (512 dvd p \<and> n < 512)"
        using u(2) by (auto simp: range_ok_def)
      obtain k2 ph where k2: "e820_put k1 (kmap_va w) num1 s' m = Inr k2" "physical_take_range (k_phys k2) s' m = Inr ph"
        "map_state F W lim rd (k2\<lparr>k_phys := ph\<rparr>) (a + c) (num1 + 1) merge1" "pos < a + c"
        and done2: "\<And>out k'. map_done F W z rd (k2\<lparr>k_phys := ph\<rparr>) (a + c) (num1 + 1) merge1 out k'
           \<Longrightarrow> map_done F W z rd k1 pos num1 merge1 ((s', m) # out) k'"
        unfolding a(1,2) by (rule entry_step [OF k1(2) z run n sp(2) a(3-7)]) blast
      have "s' + m = page_addr (a + c)" "lim + 511 - (a + c) < fuel"
        using a(1,2) k2(3,4) Suc.prems(3) by (auto simp: page_addr_add map_state_def Let_def)
      then obtain out k' where IH: "e820_loop fuel (k2\<lparr>k_phys := ph\<rparr>) (kmap_va w) (img, sz, rend, kend) s' m (num1 + 1) merge1 = Inr (out, k')"
        "map_done F W z rd (k2\<lparr>k_phys := ph\<rparr>) (a + c) (num1 + 1) merge1 out k'" using Suc.IH [OF k2(3)] by blast
      show ?thesis
        by (intro exI [of _ "out0 @ (s', m) # out"] exI [of _ k'] conjI done0 done2 IH(2)) (use unf' Entry n IH(1) k2(1,2) in simp)
    qed
  qed
qed simp

section \<open>Reading the zero page\<close>

lemma ctx_rd_bytes:
  assumes "data_ctx st F W" and "g \<in> F" and "(i, g) \<in> W" and "off + n \<le> 4096"
  shows "rd_bytes st (kmap_va i + of_nat off) n = Inr (load_bytes (pmem st) (g + of_nat off) n)"
  using assms(4)
proof (induction n arbitrary: off)
  case (Suc n)
  have i: "i < 512" "wmap st i g" using assms(1,3) by (auto simp: data_ctx_def)
  have "rd8 st (kmap_va i + of_nat off) = Inr (pmem st (g + of_nat off))"
    using wmap_walk [OF i(2,1) data_ctx_frame(1) [OF assms(1,2)], of off] Suc.prems by (simp add: rd8_def)
  then show ?case using Suc.IH [of "Suc off"] Suc.prems by (simp add: ac_simps)
qed simp

section \<open>An example\<close>

text \<open>Three free frames below 1MB, and an empty zero page.\<close>

definition map_demo :: kernel where
  "map_demo = (demo_kernel ept_demo_mem)\<lparr>k_phys := \<lparr>mm_table = [0x70000, 0, 0, 0, 0, 0, 0], mm_limit = 384, entry_end = 6,
     phy_lock = SPINLOCK_UNLOCKED\<rparr>\<rparr>"

lemma map_demo_frames: "frames (k_phys map_demo) = {16, 17, 18}"
proof -
  have "q \<in> frames (k_phys map_demo) \<longleftrightarrow> q \<in> {16, 17, 18}" for q
  proof (cases "q < 64")
    case True
    have "bit (0x70000 :: u64) q \<longleftrightarrow> q \<in> {16, 17, 18}"
    proof -
      have e: "(0x70000 :: u64) = push_bit 16 (mask 3)" by (simp add: mask_eq_exp_minus_1)
      show ?thesis using True unfolding e by (simp add: bit_push_bit_iff bit_mask_iff) linarith
    qed
    then show ?thesis using True by (simp add: map_demo_def frames_def bits_of_def test_bit_def)
  next
    case False
    then have "q div 64 \<noteq> 0" by (simp add: div_eq_0_iff)
    then obtain j where "q div 64 = Suc j" by (cases "q div 64") auto
    then show ?thesis using False by (auto simp: map_demo_def frames_def bits_of_def test_bit_def nth_Cons split: nat.splits)
  qed
  then show ?thesis by blast
qed

lemma map_demo_ctx: "map_ctx {0x6000} {(0, 0x6000)} map_demo"
proof -
  have d: "data_ctx (demo_kernel ept_demo_mem) {0x6000} {(0, 0x6000)}"
    using ept_demo_ready by (auto simp: ept_ready_def intro: data_ctx_mono)
  have eq: "map_demo = (demo_kernel ept_demo_mem)\<lparr>k_phys := k_phys map_demo\<rparr>" by (simp add: map_demo_def)
  have ph: "phys_ok (k_phys map_demo)" "entry_end (k_phys map_demo) = 6" "length (mm_table (k_phys map_demo)) = 7"
    by (simp_all add: map_demo_def phys_ok_def lock_free_def SPINLOCK_UNLOCKED_def lock_of_data_def)
  have "data_ctx map_demo {0x6000} {(0, 0x6000)}"
  proof (subst eq, rule ctx_phys [OF d ph(1)])
    show "frame_no f \<notin> frames (k_phys map_demo)"
      if "good_path q" "descend table_entry (pmem (demo_kernel ept_demo_mem)) (root (demo_kernel ept_demo_mem)) q = Some f" for q f
      using that by (auto simp: ept_demo_descend map_demo_frames frame_no_def split: if_splits)
  qed (simp_all add: map_demo_frames frame_no_def ph)
  then show ?thesis by (simp add: map_ctx_def map_demo_frames ph)
qed

lemma ramdisk_offsets:
  "offset_of boot_params [''hdr'', ''ramdisk_image''] = 0x218" "offset_of boot_params [''hdr'', ''ramdisk_size''] = 0x21c"
proof -
  have h: "map_of (members boot_params) ''hdr'' = Some setup_header" by (simp add: boot_params_def)
  have "offset_of boot_params [''hdr'', f] = 0x1f1 + offset_of setup_header [f]" for f
    by (subst offset_of.simps, simp only: boot_params_offsets h) simp
  then show "offset_of boot_params [''hdr'', ''ramdisk_image''] = 0x218" "offset_of boot_params [''hdr'', ''ramdisk_size''] = 0x21c"
    by (simp_all add: setup_header_def member_pos_def del: offset_of.simps(2)) (simp_all add: member_pos_def)
qed

lemma map_demo_zero:
  assumes "off + 4 \<le> 4096"
  shows "rd32 map_demo (kmap_va 0 + of_nat off) = Inr 0"
proof -
  have "load_bytes ept_demo_mem (0x6000 + of_nat off) 4 = 0"
  proof (rule load_bytes_zero)
    fix x :: u64 assume x: "x \<in> bytes_at (0x6000 + of_nat off) 4"
    have "unat (0x6000 + of_nat off :: u64) = 0x6000 + off"
      using assms by (subst unat_add_small) (simp_all add: unat_of_nat_small)
    then have u: "0x6000 \<le> unat x" "unat x < 0x7000" using x assms by (simp_all add: bytes_at_unat)
    have "x \<notin> bytes_at b 8" if "unat b + 8 \<le> 0x6000" for b using u that by (subst bytes_at_unat) simp_all
    then show "ept_demo_mem x = 0"
      using u by (simp add: ept_demo_mem_def demo_mem_def boot_mem_def store64_out slot_def)
  qed
  then show ?thesis
    using ctx_rd_bytes [of map_demo "{0x6000}" "{(0, 0x6000)}" "0x6000" 0 off 4] map_demo_ctx assms
    by (simp add: rd32_def map_ctx_def) (simp add: map_demo_def)
qed

section \<open>Properties\<close>

text \<open>
  C11: the memory map for the guest: \<open>virt_setup_e820\<close> ends and stores a table whose entries are pairwise
  disjoint; every entry is the ramdisk or consists of frames that were free (and the two frames before
  the first of them, for the zero page and the command line). The hypervisor keeps exactly the free
  frames that are in no entry, and none below 1MB, so that it never hands out memory of the guest. All
  of the table is written, and no other data changes. This needs fewer than 64 runs of free frames,
  since nothing bounds the number of entries by the size of the table, and a ramdisk that overlaps
  neither a free frame nor the two frames before the first of them.
\<close>

theorem virt_setup_e820_correct:
  assumes "map_ctx F W k" and "z \<in> F" and "(w, z) \<in> W"
    and "rd32 k (field (kmap_va w) boot_params [''hdr'', ''ramdisk_image'']) = Inr img"
    and "rd32 k (field (kmap_va w) boot_params [''hdr'', ''ramdisk_size'']) = Inr sz"
    and "rd = ramdisk_entry (ucast img) (ucast sz)" and "B = frames (k_phys k)"
    and "range_pages rd \<inter> (B \<union> {Min B - 2, Min B - 1}) = {}"
    and "LINUX_ENTRY_POINT \<le> LINUX_ENTRY_POINT + kernel_size"
    and "2 * card {q \<in> B. Suc q \<notin> B} < 128" and "64 * unat (entry_end (k_phys k)) + 511 < fuel"
  shows "\<exists>out k'. virt_setup_e820 fuel k (kmap_va w) kernel_size = Inr (out, k')
    \<and> (\<forall>i < length out. e820_at (pmem k') z i (out ! i))
    \<and> sorted_wrt (\<lambda>e f. range_pages e \<inter> range_pages f = {}) out
    \<and> (\<forall>e \<in> set out. e = rd \<or> range_pages e \<subseteq> B \<union> {Min B - 2, Min B - 1})
    \<and> frames (k_phys k') = B - \<Union> (range_pages ` set out) \<and> frames (k_phys k') \<inter> {..< 256} = {}
    \<and> map_ctx F W k' \<and> same_data (F - {z}) k k'"
proof -
  have sz: "unat (ucast sz :: u64) < 2 ^ 63" 
  proof -
    have "unat sz < 2 ^ LENGTH(32)" by (rule unsigned_less)
    then show ?thesis by (simp add: unat_ucast_up)
  qed
  have "run_ends B 0 = {q \<in> B. Suc q \<notin> B}" by (simp add: run_ends_def)
  then have "map_state F W (64 * unat (entry_end (k_phys k))) rd k 0 0 True"
    using assms(1,7,8,10) by (simp add: map_state_def todo_def two_before_def Let_def)
  then obtain out k' where "e820_loop fuel k (kmap_va w) (ucast img, ucast sz, ucast (img + sz), LINUX_ENTRY_POINT + kernel_size) 0 0 0 True
      = Inr (out, k')" "map_done F W z rd k 0 0 True out k'"
    using e820_loop_correct [OF assms(2,3) sz assms(9,6), where lim = "64 * unat (entry_end (k_phys k))" and k = k and pos = 0 and num = 0
        and merge = True and ms = 0 and msz = 0 and fuel = fuel and rend = "ucast (img + sz)"] assms(11) by (auto simp: page_addr_def)
  then show ?thesis
    using assms(4,5,7) by (auto simp: virt_setup_e820_def map_done_def map_result_def table_ok_def two_before_def)
qed

theorem virt_setup_e820_correct_witness:
  "\<exists>out k'. virt_setup_e820 1000 map_demo (kmap_va 0) 0x200000 = Inr (out, k') \<and> frames (k_phys k') = {}
    \<and> {16, 17, 18} \<subseteq> \<Union> (range_pages ` set out)"
proof -
  have r: "rd32 map_demo (field (kmap_va 0) boot_params [''hdr'', f]) = Inr 0" if "offset_of boot_params [''hdr'', f] + 4 \<le> 4096" for f
    using map_demo_zero [OF that] by (simp add: field_def del: offset_of.simps)
  have rd: "range_pages (ramdisk_entry (ucast (0 :: u32)) (ucast (0 :: u32))) = {}" by (simp add: ramdisk_entry_def touched_frames_def)
  have ends: "{q \<in> {16, 17, 18 :: nat}. Suc q \<notin> {16, 17, 18}} = {18}" by auto
  have f: "64 * unat (entry_end (k_phys map_demo)) + 511 < 1000" by (simp add: map_demo_def)
  obtain out k' where v: "virt_setup_e820 1000 map_demo (kmap_va 0) 0x200000 = Inr (out, k')"
    "frames (k_phys k') = {16, 17, 18} - \<Union> (range_pages ` set out)" "frames (k_phys k') \<inter> {..< 256} = {}"
    using virt_setup_e820_correct [OF map_demo_ctx _ _ r r refl map_demo_frames [symmetric] _ _ _ f, of "0x6000" "0x200000"]
      rd ends ramdisk_offsets by (auto simp: LINUX_ENTRY_POINT_def simp del: offset_of.simps)
  then have "frames (k_phys k') = {}" by auto
  then show ?thesis using v(1,2) by (intro exI [of _ out] exI [of _ k']) auto
qed

end
