(* ===== verification/Apic_Correct.thy ===== *)
theory Apic_Correct
  imports Apic Paging_Properties
begin

text \<open>
  Correctness of the interrupt controller code: the I/O APIC's redirection table after
  \<open>ioapic_init\<close>, and the writes to the local APIC.
\<close>

section \<open>Register access\<close>

text \<open>The addresses of the registers reach the device.\<close>

definition ioapic_reached :: "'a machine_scheme \<Rightarrow> bool" where
  "ioapic_reached m \<longleftrightarrow> ioapic_base (m_dev m) AND mask 12 = 0
     \<and> mmu_walk (pmem (m_kernel m)) (cr3 (m_kernel m)) (ioapic_addr (m_plat m)) = Inr (ioapic_base (m_dev m))
     \<and> mmu_walk (pmem (m_kernel m)) (cr3 (m_kernel m)) (ioapic_addr (m_plat m) + 0x10)
         = Inr (ioapic_base (m_dev m) OR 0x10)"

lemma page_off:
  assumes "(b :: u64) AND mask 12 = 0"
  shows "b AND NOT (mask 12) = b" and "(b OR 0x10) AND NOT (mask 12) = b" and "(b OR 0x10) AND mask 12 = 0x10"
proof -
  have b: "12 \<le> i" if "bit b i" for i using that arg_cong [OF assms, of "\<lambda>w. bit w i"] by (auto simp: bit_simps dest: bit_imp_le_length)
  have "(0x10 :: u64) AND NOT (mask 12) = 0" "(0x10 :: u64) AND mask 12 = 0x10"
    by (simp_all add: mask_eq_exp_minus_1)
  moreover show "b AND NOT (mask 12) = b" using b by (intro bit_word_eqI) (force simp: bit_simps)
  ultimately show "(b OR 0x10) AND NOT (mask 12) = b" "(b OR 0x10) AND mask 12 = 0x10"
    using assms by (simp_all add: bit.conj_disj_distrib2)
qed

abbreviation upd_dev :: "(devices \<Rightarrow> devices) \<Rightarrow> 'a machine_scheme \<Rightarrow> 'a machine_scheme" where
  "upd_dev f m \<equiv> m\<lparr>m_dev := f (m_dev m)\<rparr>"

lemma ioapic_select:
  "ioapic_reached m \<Longrightarrow> ioapic_write32_raw m IOAPIC_REGSEL v = Inr (upd_dev (\<lambda>d. d\<lparr>ioregsel := ucast v\<rparr>) m)"
  by (simp add: ioapic_reached_def ioapic_write32_raw_def mmio_write32_def IOAPIC_REGSEL_def Let_def page_off
      ioapic_dev_write_def)

lemma ioapic_window:
  "ioapic_reached m \<Longrightarrow> ioregsel (m_dev m) \<noteq> 1 \<Longrightarrow> ioregsel (m_dev m) \<noteq> 2 \<Longrightarrow>
   ioapic_write32_raw m IOAPIC_WIN v =
     Inr (upd_dev (\<lambda>d. d\<lparr>ioapic_regs := (ioapic_regs d)(ioregsel d := v)\<rparr>) m)"
  by (simp add: ioapic_reached_def ioapic_write32_raw_def mmio_write32_def IOAPIC_WIN_def Let_def page_off
      ioapic_dev_write_def IOAPIC_VER_def IOAPIC_ARB_def)

lemma ioapic_reached_upd [simp]:
  "ioapic_base d = ioapic_base (m_dev m) \<Longrightarrow> ioapic_reached (m\<lparr>m_dev := d\<rparr>) = ioapic_reached m"
  "ioapic_addr p = ioapic_addr (m_plat m) \<Longrightarrow> ioapic_reached (m\<lparr>m_plat := p\<rparr>) = ioapic_reached m"
  by (simp_all add: ioapic_reached_def)

lemma u8_via_u32 [simp]: "ucast (ucast (x :: u8) :: u32) = x" "ucast (ucast x + 1 :: u32) = x + 1"
proof -
  have x: "unat x < 256" using unsigned_less [of x] by simp
  then show "ucast (ucast x :: u32) = x" by (simp add: word_unat_eq_iff unat_ucast_mod unat_ucast_up)
  show "ucast (ucast x + 1 :: u32) = x + 1"
    using x by (simp add: word_unat_eq_iff unat_ucast_mod unat_word_ariths unat_ucast_up)
qed

lemma ioapic_read:
  "ioapic_reached m \<Longrightarrow>
   ioapic_read32 m reg = Inr (ioapic_regs (m_dev m) reg, upd_dev (\<lambda>d. d\<lparr>ioregsel := reg\<rparr>) m)"
  by (simp add: ioapic_read32_def ioapic_select)
     (simp add: ioapic_reached_def ioapic_read32_raw_def mmio_read32_def IOAPIC_WIN_def Let_def page_off
      ioapic_dev_read_def)

text \<open>The entry of the redirection table behind a register pair.\<close>

definition red_entry :: "devices \<Rightarrow> nat \<Rightarrow> u64" where
  "red_entry d i = push_bit 32 (ucast (ioapic_regs d (of_nat (0x11 + 2 * i)))) OR ucast (ioapic_regs d (of_nat (0x10 + 2 * i)))"

definition put_entry :: "nat \<Rightarrow> u64 \<Rightarrow> devices \<Rightarrow> devices" where
  "put_entry i v d = d\<lparr>ioregsel := of_nat (0x10 + 2 * i),
     ioapic_regs := (ioapic_regs d)(of_nat (0x11 + 2 * i) := ucast (drop_bit 32 v),
                                    of_nat (0x10 + 2 * i) := ucast v)\<rparr>"

lemma u8_of_nat_eq: "a < 256 \<Longrightarrow> b < 256 \<Longrightarrow> (of_nat a :: u8) = of_nat b \<longleftrightarrow> a = b"
  by (simp add: word_unat_eq_iff unat_of_nat_small)

lemma redtbl_reg: "i < 120 \<Longrightarrow> (ucast (IOAPIC_REDTBL (of_nat i)) :: u8) = of_nat (0x10 + 2 * i)"
  by (rule word_unat_eq_iff [THEN iffD2])
     (simp add: IOAPIC_REDTBL_def unat_ucast_mod unat_add_small unat_mult_lem unat_of_nat_small unat_word_ariths unat_of_nat)

lemma ucast_low32: "(ucast ((v :: u64) AND 0xFFFFFFFF) :: u32) = ucast v"
proof -
  have e: "(0xFFFFFFFF :: u64) = mask 32" by (simp add: mask_eq_exp_minus_1)
  show ?thesis unfolding e by (auto intro!: bit_word_eqI simp: bit_simps)
qed

lemma ioapic_write64_pair:
  assumes "ioapic_reached m" and "r \<noteq> 1" "r \<noteq> 2" "r + 1 \<noteq> 1" "r + 1 \<noteq> 2"
  shows "ioapic_write64 m r v = Inr (upd_dev (\<lambda>d. d\<lparr>ioregsel := r,
    ioapic_regs := (ioapic_regs d)(r + 1 := ucast (drop_bit 32 v), r := ucast v)\<rparr>) m)"
proof -
  have "r + 1 \<noteq> r" by simp
  then show ?thesis
    using assms unfolding ioapic_write64_def
    by (simp add: ioapic_select ioapic_window ucast_low32 fun_upd_twist)
qed

lemma ioapic_write64_entry:
  assumes "ioapic_reached m" and "i < 120"
  shows "ioapic_write64 m (ucast (IOAPIC_REDTBL (of_nat i))) v = Inr (upd_dev (put_entry i v) m)"
proof -
  let ?r = "of_nat (0x10 + 2 * i) :: u8"
  have r: "?r \<noteq> 1" "?r \<noteq> 2" "?r + 1 \<noteq> 1" "?r + 1 \<noteq> 2" "?r + 1 = of_nat (0x11 + 2 * i)"
    using assms(2) u8_of_nat_eq [of "0x10 + 2 * i" 1] u8_of_nat_eq [of "0x10 + 2 * i" 2]
      u8_of_nat_eq [of "0x11 + 2 * i" 1] u8_of_nat_eq [of "0x11 + 2 * i" 2]
    by (simp_all add: ac_simps)
  show ?thesis
    unfolding redtbl_reg [OF assms(2)] ioapic_write64_pair [OF assms(1) r(1-4)]
    by (simp only: r(5) put_entry_def)
qed

lemma word_halves: "push_bit 32 (ucast (ucast (drop_bit 32 (v :: u64)) :: u32)) OR ucast (ucast v :: u32) = v"
  by (rule bit_word_eqI) (auto simp: bit_simps not_less)

lemma red_entry_put:
  assumes "i < 120" and "j < 120"
  shows "red_entry (put_entry i v d) j = (if j = i then v else red_entry d j)"
proof -
  have e: "(of_nat (16 + 2 * j) :: u8) = of_nat (16 + 2 * i) \<longleftrightarrow> j = i"
    "(of_nat (17 + 2 * j) :: u8) = of_nat (17 + 2 * i) \<longleftrightarrow> j = i"
    "(of_nat (16 + 2 * j) :: u8) = of_nat (17 + 2 * i) \<longleftrightarrow> False"
    "(of_nat (17 + 2 * j) :: u8) = of_nat (16 + 2 * i) \<longleftrightarrow> False"
    using assms by (subst u8_of_nat_eq; simp; presburger)+
  have r: "ioapic_regs (put_entry i v d) = (ioapic_regs d)(of_nat (17 + 2 * i) := ucast (drop_bit 32 v),
      of_nat (16 + 2 * i) := ucast v)" by (simp add: put_entry_def)
  show ?thesis by (simp only: red_entry_def r fun_upd_apply e if_False) (simp add: word_halves)
qed

text \<open>From \<open>m\<close> to \<open>m'\<close> only the I/O APIC has changed, and its redirection table is \<open>f\<close>.\<close>

definition table_becomes :: "'a machine_scheme \<Rightarrow> 'a machine_scheme \<Rightarrow> (nat \<Rightarrow> u64) \<Rightarrow> bool" where
  "table_becomes m m' f \<longleftrightarrow> (\<exists>s r. m' = m\<lparr>m_dev := (m_dev m)\<lparr>ioregsel := s, ioapic_regs := r\<rparr>\<rparr>)
     \<and> (\<forall>j < 120. red_entry (m_dev m') j = f j)"

lemma table_becomes_refl: "table_becomes m m (red_entry (m_dev m))"
  unfolding table_becomes_def
  by (intro conjI exI [of _ "ioregsel (m_dev m)"] exI [of _ "ioapic_regs (m_dev m)"]) simp_all

lemma table_becomes_select: "table_becomes m (upd_dev (\<lambda>d. d\<lparr>ioregsel := s\<rparr>) m) (red_entry (m_dev m))"
  unfolding table_becomes_def
  by (intro conjI exI [of _ s] exI [of _ "ioapic_regs (m_dev m)"]) (simp_all add: red_entry_def)

lemma table_becomes_trans: "table_becomes m m' f \<Longrightarrow> table_becomes m' m'' g \<Longrightarrow> table_becomes m m'' g"
  by (clarsimp simp: table_becomes_def) blast

lemma table_becomes_cong: "table_becomes m m' f \<Longrightarrow> (\<And>j. j < 120 \<Longrightarrow> f j = g j) \<Longrightarrow> table_becomes m m' g"
  by (simp add: table_becomes_def)

lemma table_becomes_put:
  "i < 120 \<Longrightarrow> table_becomes m (upd_dev (put_entry i v) m) ((red_entry (m_dev m))(i := v))"
  by (auto simp: table_becomes_def red_entry_put) (auto simp: put_entry_def)

lemma table_becomes_reached: "table_becomes m m' f \<Longrightarrow> ioapic_reached m' = ioapic_reached m"
  by (auto simp: table_becomes_def)

lemma mask_gsis_all:
  assumes "ioapic_reached m" and "i \<le> n" and "n \<le> 120"
  shows "\<exists>m'. mask_gsis m (of_nat i) (of_nat n) = Inr m'
    \<and> table_becomes m m' (\<lambda>j. if i \<le> j \<and> j < n then 0x10000 else red_entry (m_dev m) j)"
  using assms(1,2)
proof (induction "n - i" arbitrary: i m)
  case 0
  then have "mask_gsis m (of_nat i) (of_nat n) = Inr m" by (subst mask_gsis.simps) simp
  then show ?case
    using 0 by (intro exI [of _ m] conjI table_becomes_cong [OF table_becomes_refl]) auto
next
  case (Suc k)
  have i: "i < n" "i < 120" using Suc.hyps(2) assms(3) by simp_all
  have less: "(of_nat i :: u32) < of_nat n"
    using i assms(3) by (simp add: word_less_nat_alt unat_of_nat_small)
  let ?m = "upd_dev (put_entry i 0x10000) m"
  note put = table_becomes_put [OF i(2), of m "0x10000"]
  have "mask_gsis m (of_nat i) (of_nat n) = mask_gsis ?m (of_nat (Suc i)) (of_nat n)"
    using less ioapic_write64_entry [OF Suc.prems(1) i(2), of "0x10000"]
    by (subst mask_gsis.simps) (simp add: add.commute)
  moreover have IH: "\<exists>m'. mask_gsis ?m (of_nat (Suc i)) (of_nat n) = Inr m'
    \<and> table_becomes ?m m' (\<lambda>j. if Suc i \<le> j \<and> j < n then 0x10000 else red_entry (m_dev ?m) j)"
    by (rule Suc.hyps(1)) (use Suc.hyps(2) Suc.prems(1) i table_becomes_reached [OF put] in simp_all)
  moreover obtain m' where m': "mask_gsis ?m (of_nat (Suc i)) (of_nat n) = Inr m'"
    "table_becomes ?m m' (\<lambda>j. if Suc i \<le> j \<and> j < n then 0x10000 else red_entry (m_dev ?m) j)"
    using IH by blast
  moreover have "table_becomes m m' (\<lambda>j. if i \<le> j \<and> j < n then 0x10000 else red_entry (m_dev m) j)"
    by (rule table_becomes_cong [OF table_becomes_trans [OF put m'(2)]]) (use i in \<open>auto simp: red_entry_put\<close>)
  ultimately show ?case by auto
qed

section \<open>Mapping the devices\<close>

lemma page_offset_16:
  assumes "(a :: u64) AND mask 12 = 0"
  shows "a + 0x10 = a OR 0x10" and "page_no (a + 0x10) = page_no a"
proof -
  have "a AND 0x10 = (a AND mask 12) AND 0x10" by (simp add: and.assoc mask_eq_exp_minus_1)
  then have "a AND 0x10 = 0" using assms by simp
  then show e: "a + 0x10 = a OR 0x10" by (rule disjunctive_add_eq_or)
  show "page_no (a + 0x10) = page_no a" unfolding e page_no_def by simp
qed

definition can_map :: "kernel \<Rightarrow> u64 \<Rightarrow> bool" where
  "can_map k a \<longleftrightarrow> pg_ok k \<and> free_zero k \<and> no_large_at k 3 a \<and> own_addr a \<and> a AND ADDR_MASK = a
     \<and> translate k a = None \<and> 3 \<le> card (avail k)"

lemma own_addr_page: "page_no a = page_no b \<Longrightarrow> own_addr a = own_addr b"
  by (simp add: own_addr_def walk_index_page_no)

lemma device_flags: "DEVICE_FLAGS AND ADDR_MASK = 0" "entry_present DEVICE_FLAGS"
  by (simp_all add: DEVICE_FLAGS_def PGT_P_def PGT_RW_def PGT_PCD_def PGT_PWT_def PGT_XD_def ADDR_MASK_def
      mask_eq_exp_minus_1 entry_present_def)

lemma map_device_ok:
  assumes "can_map (m_kernel m) a"
  shows "\<exists>k. map_device m a = Inr (m\<lparr>m_kernel := k\<rparr>) \<and> pg_ok k \<and> free_zero k
    \<and> (\<forall>b. own_addr b \<longrightarrow> translate k b =
          (if page_no b = page_no a then Some (a OR (b AND mask 12)) else translate (m_kernel m) b))"
  using assms vm_map_page_unrestricted_cases [of "m_kernel m" a a DEVICE_FLAGS]
  by (auto simp: can_map_def map_device_def entry_parts_def device_flags)

lemma translate_SomeD: "translate k a = Some p \<Longrightarrow> mmu_walk (pmem k) (cr3 k) a = Inr p"
  by (auto simp: translate_def split: sum.splits)

lemma addr_mask_aligned: "(a :: u64) AND ADDR_MASK = a \<Longrightarrow> a AND mask 12 = 0"
proof -
  assume a: "a AND ADDR_MASK = a"
  have "(a AND ADDR_MASK) AND mask 12 = 0" by (rule bit_word_eqI) (auto simp: ADDR_MASK_def bit_simps)
  then show ?thesis by (simp add: a)
qed

lemma map_ioapic:
  assumes "can_map (m_kernel m) (ioapic_addr (m_plat m))" and "ioapic_base (m_dev m) = ioapic_addr (m_plat m)"
  shows "\<exists>k. map_device m (ioapic_addr (m_plat m)) = Inr (m\<lparr>m_kernel := k\<rparr>)
    \<and> ioapic_reached (m\<lparr>m_kernel := k\<rparr>) \<and> pg_ok k
    \<and> (\<forall>b. own_addr b \<longrightarrow> page_no b \<noteq> page_no (ioapic_addr (m_plat m)) \<longrightarrow>
         translate k b = translate (m_kernel m) b)"
proof -
  let ?a = "ioapic_addr (m_plat m)"
  have al: "?a AND mask 12 = 0" using assms(1) by (auto simp: can_map_def intro: addr_mask_aligned)
  note off = page_off [OF al] page_offset_16 [OF al]
  have own: "own_addr ?a" "own_addr (?a + 0x10)"
    using assms(1) own_addr_page [OF off(5)] by (simp_all add: can_map_def)
  obtain k where k: "map_device m ?a = Inr (m\<lparr>m_kernel := k\<rparr>)" "pg_ok k"
    "\<forall>b. own_addr b \<longrightarrow> translate k b =
          (if page_no b = page_no ?a then Some (?a OR (b AND mask 12)) else translate (m_kernel m) b)"
    using map_device_ok [OF assms(1)] by blast
  have "translate k ?a = Some ?a" using k(3) own al by simp
  moreover have "translate k (?a + 0x10) = Some (?a OR 0x10)"
    using k(3) own(2) off(5) by (simp only: off(4) off(3) simp_thms if_True)
  ultimately have "ioapic_reached (m\<lparr>m_kernel := k\<rparr>)"
    using al assms(2) by (simp add: ioapic_reached_def translate_SomeD)
  then show ?thesis using k by auto
qed

section \<open>The redirection table\<close>

lemma acpi_irq_to_gsi_num_gsi: "acpi_irq_to_gsi (st\<lparr>num_gsi := n\<rparr>) irq = acpi_irq_to_gsi st irq"
proof -
  have "irq_loop (st\<lparr>num_gsi := n\<rparr>) irq i = irq_loop st irq i" for i
  proof (induction st irq i rule: irq_loop.induct)
    case (1 st irq i)
    then show ?case
      by (cases "tget (irq_map st) (ucast i)"; subst (1 2) irq_loop.simps) auto
  qed
  then show ?thesis by (simp add: acpi_irq_to_gsi_def)
qed

lemma pit_entry_fields:
  "(pit_entry flags OR 0x20) AND 0xFF = 0x20" "bit (pit_entry flags OR 0x20) 13 = bit flags 1"
  "bit (pit_entry flags OR 0x20) 15 = bit flags 3" "\<not> bit (pit_entry flags OR 0x20) 16"
  "drop_bit 56 (pit_entry flags OR 0x20) = 0xFF"
proof -
  have "flags AND 2 \<noteq> 0 \<longleftrightarrow> bit flags 1" "flags AND 8 \<noteq> 0 \<longleftrightarrow> bit flags 3"
    using and_exp_eq_0_iff_not_bit [of flags 1] and_exp_eq_0_iff_not_bit [of flags 3] by simp_all
  then show "(pit_entry flags OR 0x20) AND 0xFF = 0x20" "bit (pit_entry flags OR 0x20) 13 = bit flags 1"
  "bit (pit_entry flags OR 0x20) 15 = bit flags 3" "\<not> bit (pit_entry flags OR 0x20) 16"
  "drop_bit 56 (pit_entry flags OR 0x20) = 0xFF"
    by (simp_all add: pit_entry_def)
qed

lemma ioapic_init_runs:
  assumes m: "can_map (m_kernel m) (ioapic_addr (m_plat m))" "ioapic_base (m_dev m) = ioapic_addr (m_plat m)"
    and n: "unat (drop_bit 16 (ioapic_regs (m_dev m) 1) AND 0xFF) = n" "n < 120"
    and irq: "acpi_irq_to_gsi (m_plat m) 0 = Inr (gsi, flags)"
    and gsi: "unat (gsi_base (m_plat m)) \<le> unat gsi" "unat gsi \<le> unat (gsi_base (m_plat m)) + n"
      "unat (gsi_base (m_plat m)) + n + 1 < 2 ^ 32"
  shows "\<exists>m' m1 k. ioapic_init m = Inr m'
    \<and> m1 = upd_plat (\<lambda>p. p\<lparr>num_gsi := of_nat (n + 1)\<rparr>) ((outb (outb m PIC1_DATA 0xFF) PIC2_DATA 0xFF)\<lparr>m_kernel := k\<rparr>)
    \<and> pg_ok k \<and> (\<forall>b. own_addr b \<longrightarrow> page_no b \<noteq> page_no (ioapic_addr (m_plat m)) \<longrightarrow>
         translate k b = translate (m_kernel m) b)
    \<and> table_becomes m1 m' (\<lambda>j. if j = unat gsi - unat (gsi_base (m_plat m)) then pit_entry flags OR 0x20
         else if j \<le> n then 0x10000 else red_entry (m_dev m) j)"
proof -
  let ?m0 = "outb (outb m PIC1_DATA 0xFF) PIC2_DATA 0xFF"
  let ?g = "unat gsi - unat (gsi_base (m_plat m))"
  have same: "m_kernel ?m0 = m_kernel m" "m_plat ?m0 = m_plat m" "ioapic_base (m_dev ?m0) = ioapic_base (m_dev m)"
    "ioapic_regs (m_dev ?m0) = ioapic_regs (m_dev m)" by (simp_all add: outb_def)
  obtain k where k: "map_device ?m0 (ioapic_addr (m_plat m)) = Inr (?m0\<lparr>m_kernel := k\<rparr>)"
    "ioapic_reached (?m0\<lparr>m_kernel := k\<rparr>)" "pg_ok k"
    "\<forall>b. own_addr b \<longrightarrow> page_no b \<noteq> page_no (ioapic_addr (m_plat m)) \<longrightarrow> translate k b = translate (m_kernel m) b"
    using map_ioapic [of ?m0] m by (auto simp: same)
  have cnt: "(drop_bit 16 (ioapic_regs (m_dev m) 1) AND 0xFF) + 1 = of_nat (n + 1)"
    using n(1) by (auto simp: word_unat_eq_iff unat_word_ariths unat_of_nat mod_Suc_eq)
  let ?m1 = "upd_plat (\<lambda>p. p\<lparr>num_gsi := of_nat (n + 1)\<rparr>) (?m0\<lparr>m_kernel := k\<rparr>)"
  let ?m2 = "upd_dev (\<lambda>d. d\<lparr>ioregsel := 1\<rparr>) ?m1"
  have r2: "ioapic_reached ?m2" using k(2) by (subst ioapic_reached_upd; simp add: ioapic_reached_def)
  obtain m3 where m3: "mask_gsis ?m2 0 (of_nat (n + 1)) = Inr m3"
    "table_becomes ?m2 m3 (\<lambda>j. if j < n + 1 then 0x10000 else red_entry (m_dev ?m2) j)"
    using mask_gsis_all [OF r2, of 0 "n + 1"] n(2) by auto
  have p3: "m_plat m3 = m_plat ?m1" using m3(2) by (auto simp: table_becomes_def)
  have r3: "ioapic_reached m3" using table_becomes_reached [OF m3(2)] r2 by simp
  have g: "?g < 120" "gsi - gsi_base (m_plat m) = of_nat ?g"
    using gsi n(2) by (auto intro!: word_unat_eq_iff [THEN iffD2] simp: unat_sub_le word_le_nat_alt unat_of_nat)
  have "unat (gsi_base (m_plat m) + of_nat (n + 1)) = unat (gsi_base (m_plat m)) + n + 1"
    using gsi(3) by (subst unat_add_small) (simp_all add: unat_of_nat_small del: of_nat_Suc of_nat_add)
  then have guard: "\<not> (gsi < gsi_base (m_plat m) \<or> gsi_base (m_plat m) + of_nat (n + 1) \<le> gsi)"
    using gsi by (simp add: word_less_nat_alt word_le_nat_alt)
  let ?m4 = "upd_dev (put_entry ?g (pit_entry flags OR 0x20)) m3"
  have rd: "ioapic_read32 (?m0\<lparr>m_kernel := k\<rparr>) IOAPIC_VER
      = Inr (ioapic_regs (m_dev m) 1, upd_dev (\<lambda>d. d\<lparr>ioregsel := 1\<rparr>) (?m0\<lparr>m_kernel := k\<rparr>))"
    using ioapic_read [OF k(2)] same by (simp add: IOAPIC_VER_def)
  have set_num: "upd_plat (\<lambda>p. p\<lparr>num_gsi := of_nat (n + 1)\<rparr>) (upd_dev (\<lambda>d. d\<lparr>ioregsel := 1\<rparr>) (?m0\<lparr>m_kernel := k\<rparr>)) = ?m2"
    by simp
  have mp: "ioapic_map_gsi m3 gsi 0x20 (pit_entry flags) = Inr ?m4"
    using guard ioapic_write64_entry [OF r3 g(1)] by (simp add: ioapic_map_gsi_def Let_def p3 same g(2))
  have run: "ioapic_init m = Inr ?m4"
    unfolding ioapic_init_def Let_def same(2) k(1) rbind.simps rd prod.case cnt set_num
    using m3(1) mp irq by (simp add: p3 same(2) acpi_irq_to_gsi_num_gsi PIT_IRQ_def)
  have tab: "table_becomes ?m1 ?m4 (\<lambda>j. if j = ?g then pit_entry flags OR 0x20
         else if j \<le> n then 0x10000 else red_entry (m_dev m) j)"
  proof -
    have "table_becomes ?m1 ?m2 (red_entry (m_dev m))"
      by (rule table_becomes_cong [OF table_becomes_select]) (simp add: red_entry_def same(4))
    then have b: "table_becomes ?m1 ?m4 ((red_entry (m_dev m3))(?g := pit_entry flags OR 0x20))"
      using m3(2) table_becomes_put [OF g(1)] table_becomes_trans by blast
    have "red_entry (m_dev m3) j = (if j < n + 1 then 0x10000 else red_entry (m_dev m) j)" if "j < 120" for j
      using m3(2) that same(4) by (simp add: table_becomes_def red_entry_def)
    then show ?thesis by (intro table_becomes_cong [OF b]) auto
  qed
  show ?thesis
    by (rule exI [of _ ?m4], rule exI [of _ ?m1], rule exI [of _ k]) (intro conjI run refl k(3,4) tab)
qed

text \<open>
  C33: \<open>ioapic_init\<close> on an I/O APIC with \<open>n + 1 \<le> 120\<close> inputs ends with both 8259 PICs masked and
  every input masked except the one that ACPI assigns to the timer interrupt; that one delivers
  vector 0x20 to all processors, with the polarity and the trigger mode that the ACPI flags ask for.
  No other page's translation has changed. The page of the registers has to be unmapped and not below
  a large page, at least three frames have to be free, and the free frames have to hold zeros,
  since a new page table is not cleared.
\<close>

theorem ioapic_init_correct:
  assumes "can_map (m_kernel m) (ioapic_addr (m_plat m))" and "ioapic_base (m_dev m) = ioapic_addr (m_plat m)"
    and "unat (drop_bit 16 (ioapic_regs (m_dev m) 1) AND 0xFF) = n" and "n < 120"
    and "acpi_irq_to_gsi (m_plat m) 0 = Inr (gsi, flags)"
    and "unat (gsi_base (m_plat m)) \<le> unat gsi" and "unat gsi \<le> unat (gsi_base (m_plat m)) + n"
    and "unat (gsi_base (m_plat m)) + n + 1 < 2 ^ 32"
  shows "\<exists>m'. ioapic_init m = Inr m'
    \<and> port_log (m_dev m') = port_log (m_dev m) @ [(0x21, 0xFF), (0xA1, 0xFF)]
    \<and> m_plat m' = (m_plat m)\<lparr>num_gsi := of_nat (n + 1)\<rparr>
    \<and> (\<forall>i \<le> n. bit (red_entry (m_dev m') i) 16 \<longleftrightarrow> i \<noteq> unat gsi - unat (gsi_base (m_plat m)))
    \<and> (\<exists>e. red_entry (m_dev m') (unat gsi - unat (gsi_base (m_plat m))) = e
        \<and> e AND 0xFF = 0x20 \<and> drop_bit 56 e = 0xFF \<and> bit e 13 = bit flags 1 \<and> bit e 15 = bit flags 3)
    \<and> (\<forall>b. own_addr b \<longrightarrow> page_no b \<noteq> page_no (ioapic_addr (m_plat m)) \<longrightarrow>
         translate (m_kernel m') b = translate (m_kernel m) b)"
proof -
  let ?g = "unat gsi - unat (gsi_base (m_plat m))"
  obtain m' m1 k where run: "ioapic_init m = Inr m'"
    and m1: "m1 = upd_plat (\<lambda>p. p\<lparr>num_gsi := of_nat (n + 1)\<rparr>) ((outb (outb m PIC1_DATA 0xFF) PIC2_DATA 0xFF)\<lparr>m_kernel := k\<rparr>)"
    and k: "\<forall>b. own_addr b \<longrightarrow> page_no b \<noteq> page_no (ioapic_addr (m_plat m)) \<longrightarrow> translate k b = translate (m_kernel m) b"
    and t: "table_becomes m1 m' (\<lambda>j. if j = ?g then pit_entry flags OR 0x20
         else if j \<le> n then 0x10000 else red_entry (m_dev m) j)"
    using ioapic_init_runs [OF assms] by blast
  have r: "red_entry (m_dev m') i = (if i = ?g then pit_entry flags OR 0x20 else 0x10000)" if "i \<le> n" for i
    using t that assms(4) by (simp add: table_becomes_def)
  have "?g \<le> n" using assms(7) by simp
  moreover have "port_log (m_dev m') = port_log (m_dev m) @ [(0x21, 0xFF), (0xA1, 0xFF)]"
    "m_plat m' = (m_plat m)\<lparr>num_gsi := of_nat (n + 1)\<rparr>" "m_kernel m' = k"
    using t by (auto simp: table_becomes_def m1 outb_def PIC1_DATA_def PIC2_DATA_def PIC1_def PIC2_def)
  ultimately show ?thesis
    using run k r pit_entry_fields [of flags] by auto
qed

definition demo_machine :: machine where
  "demo_machine = \<lparr>m_kernel = demo_kernel boot_mem, m_plat = platform_init,
     m_dev = \<lparr>lapic_base = 0xFEE00000, lapic_regs = \<lambda>_. 0, lapic_log = [], ioapic_base = 0xFEC00000, ioregsel = 0,
       ioapic_regs = (\<lambda>_. 0)(1 := 0x170011), port_log = [], cpuid_leaf = \<lambda>_ _. (2, 176, 24000000, 0), rflags_if = False\<rparr>\<rparr>"

lemma boot_can_map: "can_map (demo_kernel boot_mem) 0xFEC00000"
proof -
  have w: "walk_index 3 0xFEC00000 = 0" by (simp add: walk_index_def mask_eq_exp_minus_1)
  have "p \<in> avail (demo_kernel boot_mem)" if "p \<in> {256, 257, 258}" for p
    using that by (auto simp: avail_def frames_def bits_of_def test_bit_def)
  then have "card {256, 257, 258 :: nat} \<le> card (avail (demo_kernel boot_mem))"
    by (intro card_mono) auto
  then have c: "3 \<le> card (avail (demo_kernel boot_mem))" by simp
  have "page_aligned 0x1000" by (simp add: page_aligned_def)
  then have "load64 boot_mem (slot 0x1000 0) = 0" by (simp add: boot_load)
  then have "translate (demo_kernel boot_mem) 0xFEC00000 = None"
    using w by (simp add: translate_walk numeral_3_eq_3 entry_present_def)
  then show ?thesis
    using boot_pg_ok boot_free_zero boot_no_large [of "0xFEC00000"] w c
    by (simp add: can_map_def own_addr_def ADDR_MASK_def mask_eq_exp_minus_1)
qed

theorem ioapic_init_correct_witness:
  "\<exists>m'. ioapic_init demo_machine = Inr m' \<and> num_gsi (m_plat m') = 24
    \<and> (\<forall>i \<le> 23. bit (red_entry (m_dev m') i) 16 \<longleftrightarrow> i \<noteq> 0) \<and> red_entry (m_dev m') 0 AND 0xFF = 0x20"
proof -
  have irq: "acpi_irq_to_gsi platform_init 0 = Inr (0, 0)"
    by (simp add: acpi_irq_to_gsi_def platform_init_def) (subst irq_loop.simps, simp)
  show ?thesis
    using ioapic_init_correct [of demo_machine 23 0 0] boot_can_map irq
    by (auto simp: demo_machine_def platform_init_def)
qed

end
