(* ===== verification/Multiboot_Correct.thy ===== *)
theory Multiboot_Correct
  imports Multiboot Frame_Allocator
begin

text \<open>
  Correctness of the first part of the boot: on a well-formed boot information the free frames are
  exactly those the memory map offers, without the first one, the kernel image and the modules.
\<close>

section \<open>Encoding\<close>

type_synonym map_entry = "u64 \<times> u64 \<times> u32"

datatype mb_tag =
    MmapTag "map_entry list"
  | ModuleTag u32 u32 "u8 list"
  | FramebufferTag u64 "u8 list"
  | AcpiTag bool "u8 list"
  | OtherTag u32 "u8 list"

fun encode_map :: "map_entry list \<Rightarrow> u8 list" where
  "encode_map [] = []"
| "encode_map ((addr, len, type) # es) = le64 addr @ le64 len @ le32 type @ le32 0 @ encode_map es"

fun tag_type :: "mb_tag \<Rightarrow> u32" where
  "tag_type (MmapTag es) = 6"
| "tag_type (ModuleTag s e cmd) = 3"
| "tag_type (FramebufferTag a rest) = 8"
| "tag_type (AcpiTag new rsdp) = (if new then 15 else 14)"
| "tag_type (OtherTag t body) = t"

fun tag_body :: "mb_tag \<Rightarrow> u8 list" where
  "tag_body (MmapTag es) = le32 24 @ le32 0 @ encode_map es"
| "tag_body (ModuleTag s e cmd) = le32 s @ le32 e @ cmd @ [0]"
| "tag_body (FramebufferTag a rest) = le64 a @ rest"
| "tag_body (AcpiTag new rsdp) = rsdp"
| "tag_body (OtherTag t body) = body"

definition tag_size :: "mb_tag \<Rightarrow> nat" where
  "tag_size t = 8 + length (tag_body t)"

definition padded :: "nat \<Rightarrow> nat" where
  "padded n = (n + 7) div 8 * 8"

definition encode_tag :: "mb_tag \<Rightarrow> u8 list" where
  "encode_tag t = le32 (tag_type t) @ le32 (of_nat (tag_size t)) @ tag_body t
     @ replicate (padded (tag_size t) - tag_size t) 0"

definition encode_tags :: "mb_tag list \<Rightarrow> u8 list" where
  "encode_tags ts = concat (map encode_tag ts) @ le32 0 @ le32 8"

definition encode_info :: "mb_tag list \<Rightarrow> u8 list" where
  "encode_info ts = le32 (of_nat (8 + length (encode_tags ts))) @ le32 0 @ encode_tags ts"

lemma length_encode_map [simp]: "length (encode_map es) = 24 * length es"
  by (induction es rule: encode_map.induct) auto

lemma padded_ge: "n \<le> padded n"
  by (simp add: padded_def)

lemma length_encode_tag: "length (encode_tag t) = padded (tag_size t)"
  using padded_ge [of "tag_size t"] by (simp add: encode_tag_def) (simp add: tag_size_def)

section \<open>What the tags say\<close>

fun map_frames :: "map_entry list \<Rightarrow> nat set" where
  "map_frames [] = {}"
| "map_frames ((addr, len, type) # es) = (if type = 1 then inner_frames (unat addr) (unat len) else {}) \<union> map_frames es"

fun map_limit :: "map_entry list \<Rightarrow> nat \<Rightarrow> nat" where
  "map_limit [] m = m"
| "map_limit ((addr, len, type) # es) m = map_limit es (if type = 1 then max m (unat addr + unat len) else m)"

fun map_ok :: "nat \<Rightarrow> map_entry list \<Rightarrow> bool" where
  "map_ok n [] \<longleftrightarrow> True"
| "map_ok n ((addr, len, type) # es) \<longleftrightarrow> map_ok n es \<and> (type = 1 \<longrightarrow> unat addr + unat len < 2 ^ 64
     \<and> (unat addr + 4095) div 4096 \<le> (unat addr + unat len) div 4096
     \<and> (unat addr + unat len) div 4096 \<le> 64 * n)"

section \<open>Effects on the frame table\<close>

lemma free_range_effect:
  assumes "phys_ok st" and "unat a + unat l < 2 ^ 64"
    and "(unat a + 4095) div 4096 \<le> (unat a + unat l) div 4096"
    and "(unat a + unat l) div 4096 \<le> 64 * length (mm_table st)"
  shows "\<exists>p. physical_free_range st a l = Inr p \<and> phys_ok p \<and> length (mm_table p) = length (mm_table st)
    \<and> frames p = frames st \<union> inner_frames (unat a) (unat l)"
proof -
  obtain t where "physical_free_range st a l = Inr (cycle_lock (st\<lparr>mm_table := t\<rparr>))"
    "length t = length (mm_table st)" "bits_of t = frames st \<union> inner_frames (unat a) (unat l)"
    using physical_free_range_frames [OF assms] by blast
  then show ?thesis using assms(1) by (auto simp: frames_table)
qed

lemma take_range_effect:
  assumes "phys_ok st" and "unat a + unat l + 4096 < 2 ^ 64"
    and "(unat a + unat l + 4095) div 4096 \<le> 64 * length (mm_table st)"
  shows "\<exists>p. physical_take_range st a l = Inr p \<and> phys_ok p \<and> length (mm_table p) = length (mm_table st)
    \<and> frames p = frames st - touched_frames (unat a) (unat l) \<and> mm_limit p = mm_limit st \<and> entry_end p = entry_end st"
proof -
  obtain t where "physical_take_range st a l = Inr (cycle_lock (st\<lparr>mm_table := t\<rparr>))"
    "length t = length (mm_table st)" "bits_of t = frames st - touched_frames (unat a) (unat l)"
    using physical_take_range_frames [OF assms] by blast
  then show ?thesis using assms(1) by (auto simp: frames_table)
qed

lemma set_limit_effect:
  assumes "phys_ok st" and "unat limit div 4096 \<le> 64 * length (mm_table st)"
  shows "\<exists>p. physical_set_limit st limit = Inr p \<and> phys_ok p \<and> length (mm_table p) = length (mm_table st)
    \<and> frames p = frames st \<and> unat (mm_limit p) = unat limit div 4096"
proof -
  obtain p where p: "physical_set_limit st limit = Inr p" "phys_ok p" "frames p = frames st"
    "unat (mm_limit p) = unat limit div 4096"
    using physical_set_limit_covers [OF assms] by blast
  have "mm_table p = mm_table st"
    using p(1) assms(1) by (auto simp: physical_set_limit_def Let_def locked_def unlock_phys_def)
  then show ?thesis using p by auto
qed

section \<open>Reading\<close>

lemma rd_phys [simp]: "rd8 (upd_phys k p) a = rd8 k a"
  by (simp add: rd8_def)

lemma rd_bytes_phys [simp]: "rd_bytes (upd_phys k p) a n = rd_bytes k a n"
  by (induction n arbitrary: a) simp_all

lemma rd_words_phys [simp]: "rd32 (upd_phys k p) a = rd32 k a" "rd64 (upd_phys k p) a = rd64 k a"
  by (simp_all add: rd32_def rd64_def)

lemma vbytes_phys [simp]: "vbytes (upd_phys k p) a bs = vbytes k a bs"
  by (induction bs arbitrary: a) simp_all

lemma multiboot_offsets:
  "offset_of multiboot_tag [''type''] = 0" "offset_of multiboot_tag [''size''] = 4"
  "offset_of multiboot_tag_mmap [''entry_size''] = 8" "offset_of multiboot_tag_mmap [''entries''] = 16"
  "offset_of multiboot_mmap_entry [''addr''] = 0" "offset_of multiboot_mmap_entry [''len''] = 8"
  "offset_of multiboot_mmap_entry [''type''] = 16"
  "offset_of multiboot_tag_framebuffer [''common'', ''framebuffer_addr''] = 8"
  "offset_of multiboot_tag_old_acpi [''rsdp''] = 8" "offset_of multiboot_tag_new_acpi [''rsdp''] = 8"
  "offset_of multiboot_tag_module [''mod_start''] = 8" "offset_of multiboot_tag_module [''mod_end''] = 12"
  "offset_of multiboot_tag_module [''cmdline''] = 16"
  by code_simp+

lemma multiboot_fields [simp]:
  "field a multiboot_tag [''type''] = a" "field a multiboot_tag [''size''] = a + 4"
  "field a multiboot_tag_mmap [''entry_size''] = a + 8" "field a multiboot_tag_mmap [''entries''] = a + 16"
  "field a multiboot_mmap_entry [''addr''] = a" "field a multiboot_mmap_entry [''len''] = a + 8"
  "field a multiboot_mmap_entry [''type''] = a + 16"
  "field a multiboot_tag_framebuffer [''common'', ''framebuffer_addr''] = a + 8"
  "field a multiboot_tag_old_acpi [''rsdp''] = a + 8" "field a multiboot_tag_new_acpi [''rsdp''] = a + 8"
  "field a multiboot_tag_module [''mod_start''] = a + 8" "field a multiboot_tag_module [''mod_end''] = a + 12"
  "field a multiboot_tag_module [''cmdline''] = a + 16"
  by (simp_all add: field_def multiboot_offsets del: offset_of.simps)

section \<open>The memory map\<close>

lemma mmap_loop_correct:
  assumes "rd32 (b_kernel b) (tag + 4) = Inr sz" and "rd32 (b_kernel b) (tag + 8) = Inr 24"
    and "vbytes (b_kernel b) mmap (encode_map es)" and "mmap + of_nat (24 * length es) = tag + ucast sz"
    and "unat mmap + 24 * length es < 2 ^ 64" and "map_ok n es" and "length es < fuel"
    and "phys_ok (k_phys (b_kernel b))" and "length (mm_table (k_phys (b_kernel b))) = n"
  shows "\<exists>p l. mmap_loop fuel b tag mmap = Inr (b\<lparr>b_kernel := upd_phys (b_kernel b) p, b_mem_limit := l\<rparr>)
    \<and> phys_ok p \<and> length (mm_table p) = n \<and> frames p = frames (k_phys (b_kernel b)) \<union> map_frames es
    \<and> unat l = map_limit es (unat (b_mem_limit b))"
  using assms
proof (induction es arbitrary: b mmap fuel)
  case Nil
  then obtain f where "fuel = Suc f" by (cases fuel) auto
  then show ?case
    using Nil by (intro exI [of _ "k_phys (b_kernel b)"] exI [of _ "b_mem_limit b"]) simp
next
  case (Cons e es)
  obtain addr len type where e: "e = (addr, len, type)" by (cases e)
  obtain f where f: "fuel = Suc f" using Cons.prems(7) by (cases fuel) auto
  have v: "vbytes (b_kernel b) mmap (le64 addr @ le64 len @ le32 type @ le32 0 @ encode_map es)"
    using Cons.prems(3) by (simp add: e)
  have rd: "rd64 (b_kernel b) mmap = Inr addr" "rd64 (b_kernel b) (mmap + 8) = Inr len"
    "rd32 (b_kernel b) (mmap + 16) = Inr type" and rest: "vbytes (b_kernel b) (mmap + 24) (encode_map es)"
    using v by (auto simp: vbytes_append rd64_le rd32_le add.assoc)
  have u: "unat (mmap + 24) = unat mmap + 24" using Cons.prems(5) by (subst unat_add_small) simp_all
  have "unat (mmap + of_nat (24 * length (e # es))) = unat mmap + 24 * length (e # es)"
    using Cons.prems(5) by (rule unat_add_of_nat)
  then have less: "mmap < tag + ucast sz"
    unfolding Cons.prems(4) [symmetric] by (simp only: word_less_nat_alt) simp
  let ?step = "if type = MULTIBOOT_MEMORY_AVAILABLE
       then rbind (physical_free_range (k_phys (b_kernel b)) addr len) (\<lambda>p.
              let mem_end = addr + len; b = b\<lparr>b_kernel := upd_phys (b_kernel b) p\<rparr>
              in Inr (if mem_end > b_mem_limit b then b\<lparr>b_mem_limit := mem_end\<rparr> else b))
       else Inr b"
  have "\<exists>p l. ?step = Inr (b\<lparr>b_kernel := upd_phys (b_kernel b) p, b_mem_limit := l\<rparr>)
     \<and> phys_ok p \<and> length (mm_table p) = n \<and> frames p = frames (k_phys (b_kernel b)) \<union> map_frames [e]
     \<and> unat l = map_limit [e] (unat (b_mem_limit b))"
  proof (cases "type = 1")
    case True
    have ok: "unat addr + unat len < 2 ^ 64" "(unat addr + 4095) div 4096 \<le> (unat addr + unat len) div 4096"
      "(unat addr + unat len) div 4096 \<le> 64 * length (mm_table (k_phys (b_kernel b)))"
      using Cons.prems(6,9) True by (simp_all add: e)
    have "unat (addr + len) = unat addr + unat len" using ok(1) by (subst unat_add_small) simp_all
    moreover obtain p where "physical_free_range (k_phys (b_kernel b)) addr len = Inr p" "phys_ok p"
      "length (mm_table p) = n" "frames p = frames (k_phys (b_kernel b)) \<union> inner_frames (unat addr) (unat len)"
      using free_range_effect [OF Cons.prems(8) ok] Cons.prems(9) by auto
    ultimately show ?thesis
      using True by (intro exI [of _ p] exI [of _ "if b_mem_limit b < addr + len then addr + len else b_mem_limit b"])
        (simp add: e MULTIBOOT_MEMORY_AVAILABLE_def Let_def max_def word_less_nat_alt)
  next
    case False
    then show ?thesis
      using Cons.prems(8,9) by (intro exI [of _ "k_phys (b_kernel b)"] exI [of _ "b_mem_limit b"])
        (simp add: e MULTIBOOT_MEMORY_AVAILABLE_def)
  qed
  then obtain p l where pl: "?step = Inr (b\<lparr>b_kernel := upd_phys (b_kernel b) p, b_mem_limit := l\<rparr>)"
    "phys_ok p" "length (mm_table p) = n" "frames p = frames (k_phys (b_kernel b)) \<union> map_frames [e]"
    "unat l = map_limit [e] (unat (b_mem_limit b))" by blast
  let ?b = "b\<lparr>b_kernel := upd_phys (b_kernel b) p, b_mem_limit := l\<rparr>"
  have "mmap_loop fuel b tag mmap = mmap_loop f ?b tag (mmap + 24)"
    using less rd Cons.prems(1,2) pl(1) by (simp add: f split: if_splits)
  moreover obtain p' l' where "mmap_loop f ?b tag (mmap + 24)
      = Inr (?b\<lparr>b_kernel := upd_phys (b_kernel ?b) p', b_mem_limit := l'\<rparr>)"
    "phys_ok p'" "length (mm_table p') = n" "frames p' = frames (k_phys (b_kernel ?b)) \<union> map_frames es"
    "unat l' = map_limit es (unat (b_mem_limit ?b))"
    using Cons.IH [of ?b "mmap + 24" f] Cons.prems rest u pl(2,3) by (auto simp: f e algebra_simps)
  ultimately show ?case
    using pl by (intro exI [of _ p'] exI [of _ l']) (simp add: e Un_assoc)
qed

section \<open>Tags\<close>

fun tags_frames :: "mb_tag list \<Rightarrow> nat set" where
  "tags_frames [] = {}"
| "tags_frames (MmapTag es # ts) = map_frames es \<union> tags_frames ts"
| "tags_frames (t # ts) = tags_frames ts"

fun tags_limit :: "mb_tag list \<Rightarrow> nat \<Rightarrow> nat" where
  "tags_limit [] m = m"
| "tags_limit (MmapTag es # ts) m = tags_limit ts (map_limit es m)"
| "tags_limit (t # ts) m = tags_limit ts m"

fun tags_framebuffer :: "mb_tag list \<Rightarrow> u64 \<Rightarrow> u64" where
  "tags_framebuffer [] a = a"
| "tags_framebuffer (FramebufferTag a rest # ts) _ = tags_framebuffer ts a"
| "tags_framebuffer (t # ts) a = tags_framebuffer ts a"

text \<open>The root pointer is a copy inside the last ACPI tag.\<close>

fun tags_rsdp :: "u64 \<Rightarrow> mb_tag list \<Rightarrow> u64 \<Rightarrow> u64" where
  "tags_rsdp a [] r = r"
| "tags_rsdp a (t # ts) r =
     tags_rsdp (a + of_nat (length (encode_tag t))) ts (case t of AcpiTag new rsdp \<Rightarrow> a + 8 | _ \<Rightarrow> r)"

fun tag_ok :: "nat \<Rightarrow> mb_tag \<Rightarrow> bool" where
  "tag_ok n (MmapTag es) \<longleftrightarrow> map_ok n es"
| "tag_ok n (ModuleTag s e cmd) \<longleftrightarrow> 0 \<notin> set cmd \<and> s \<le> e \<and> (unat e + 4095) div 4096 \<le> 64 * n"
| "tag_ok n (OtherTag t body) \<longleftrightarrow> t \<notin> {0, 3, 6, 8, 14, 15}"
| "tag_ok n t \<longleftrightarrow> True"

lemma tag_type_nonzero: "tag_ok n t \<Longrightarrow> tag_type t \<noteq> 0"
  by (cases t) auto

lemma next_tag_size:
  assumes "sz + 8 \<le> 2 ^ 32"
  shows "next_tag a (of_nat sz) = a + of_nat (padded sz)"
proof -
  have m: "(NOT 7 :: u32) = NOT (mask 3)" by (simp add: mask_eq_exp_minus_1)
  have "unat (of_nat sz + 7 :: u32) = sz + 7" using assms by (simp add: unat_add_small unat_of_nat_small)
  then have "unat ((of_nat sz + 7 :: u32) AND NOT 7) = (sz + 7) - (sz + 7) mod 8"
    unfolding m unat_and_not_mask by simp
  also have "\<dots> = padded sz" by (simp add: padded_def minus_mod_eq_div_mult)
  finally have "(ucast ((of_nat sz + 7 :: u32) AND NOT 7) :: u64) = of_nat (padded sz)"
    by (metis of_nat_unat)
  then show ?thesis by (simp add: next_tag_def)
qed

lemma encode_tag_reads:
  assumes "vbytes k a (encode_tag t)" and "tag_size t + 8 \<le> 2 ^ 32"
  shows "rd32 k a = Inr (tag_type t)" and "rd32 k (a + 4) = Inr (of_nat (tag_size t))"
    and "vbytes k (a + 8) (tag_body t)"
    and "next_tag a (of_nat (tag_size t)) = a + of_nat (length (encode_tag t))"
proof -
  show "next_tag a (of_nat (tag_size t)) = a + of_nat (length (encode_tag t))"
    using next_tag_size [OF assms(2)] by (simp only: length_encode_tag)
qed (use assms(1) in \<open>auto simp: encode_tag_def vbytes_append rd32_le add.assoc\<close>)

definition upd_boot :: "boot \<Rightarrow> phys \<Rightarrow> u64 \<Rightarrow> u64 \<Rightarrow> u64 \<Rightarrow> boot" where
  "upd_boot b p l f r = b\<lparr>b_kernel := upd_phys (b_kernel b) p, b_mem_limit := l, b_frameBuf := f, b_rsdp := r\<rparr>"

lemma parse_tag_correct:
  assumes v: "vbytes (b_kernel b) a (encode_tag t)" and ok: "tag_ok n t" and size: "tag_size t + 8 \<le> 2 ^ 32"
    "unat a + tag_size t < 2 ^ 64" and fuel: "length (tag_body t) < fuel"
    and p: "phys_ok (k_phys (b_kernel b))" "length (mm_table (k_phys (b_kernel b))) = n"
  shows "\<exists>p l f r. parse_tag fuel b a (tag_type t) = Inr (upd_boot b p l f r)
    \<and> phys_ok p \<and> length (mm_table p) = n \<and> frames p = frames (k_phys (b_kernel b)) \<union> tags_frames [t]
    \<and> unat l = tags_limit [t] (unat (b_mem_limit b)) \<and> f = tags_framebuffer [t] (b_frameBuf b)
    \<and> r = tags_rsdp a [t] (b_rsdp b)"
proof -
  note rd = encode_tag_reads [OF v size(1)]
  note types = MULTIBOOT_TAG_TYPE_MMAP_def MULTIBOOT_TAG_TYPE_FRAMEBUFFER_def MULTIBOOT_TAG_TYPE_ACPI_OLD_def
    MULTIBOOT_TAG_TYPE_ACPI_NEW_def
  have same: ?thesis if "parse_tag fuel b a (tag_type t) = Inr (b\<lparr>b_frameBuf := f, b_rsdp := r\<rparr>)"
    "f = tags_framebuffer [t] (b_frameBuf b)" "r = tags_rsdp a [t] (b_rsdp b)" "tags_frames [t] = {}"
    "tags_limit [t] (unat (b_mem_limit b)) = unat (b_mem_limit b)" for f r
    using that p by (intro exI [of _ "k_phys (b_kernel b)"] exI [of _ "b_mem_limit b"] exI [of _ f] exI [of _ r])
      (simp add: upd_boot_def)
  show ?thesis
  proof (cases t)
    case (MmapTag es)
    have v: "rd32 (b_kernel b) (a + 8) = Inr 24" "vbytes (b_kernel b) (a + 16) (encode_map es)"
      using rd(3) rd32_le [of "b_kernel b" "a + 8" 24] by (auto simp: MmapTag vbytes_append add.assoc)
    have sz: "tag_size t = 16 + 24 * length es" by (simp add: tag_size_def MmapTag)
    have u: "(ucast (of_nat (tag_size t) :: u32) :: u64) = of_nat (tag_size t)"
      using size by (intro word_unat_eq_iff [THEN iffD2]) (simp add: unat_ucast_up unat_of_nat_small)
    have e: "a + 16 + of_nat (24 * length es) = a + ucast (of_nat (tag_size t) :: u32)" unfolding u by (simp add: sz)
    have u16: "unat (a + 16) = unat a + 16" using size(2) by (subst unat_add_small) (simp_all add: sz)
    show ?thesis
      using mmap_loop_correct [OF rd(2) v e, of n fuel] ok p size(2) fuel u16
      by (auto simp: MmapTag parse_tag_def types upd_boot_def sz [unfolded MmapTag])
  next
    case (FramebufferTag fb rest)
    have "rd64 (b_kernel b) (a + 8) = Inr fb" using rd(3) by (simp add: FramebufferTag vbytes_append rd64_le)
    then show ?thesis by (intro same [of "b_rsdp b" fb]) (simp_all add: FramebufferTag parse_tag_def types)
  next
    case (AcpiTag new rsdp)
    then show ?thesis by (intro same [of "a + 8" "b_frameBuf b"]) (simp_all add: parse_tag_def types)
  next
    case (ModuleTag s' e' cmd)
    then show ?thesis by (intro same [of "b_rsdp b" "b_frameBuf b"]) (simp_all add: parse_tag_def types)
  next
    case (OtherTag t' body)
    then show ?thesis using ok by (intro same [of "b_rsdp b" "b_frameBuf b"]) (simp_all add: parse_tag_def types)
  qed
qed

lemma tags_frames_Cons: "tags_frames (t # ts) = tags_frames [t] \<union> tags_frames ts"
  by (cases t) auto

lemma tags_limit_Cons: "tags_limit (t # ts) m = tags_limit ts (tags_limit [t] m)"
  by (cases t) auto

lemma tags_framebuffer_Cons: "tags_framebuffer (t # ts) a = tags_framebuffer ts (tags_framebuffer [t] a)"
  by (cases t) auto

lemma encode_tags_Cons: "encode_tags (t # ts) = encode_tag t @ encode_tags ts"
  by (simp add: encode_tags_def)

lemma tag_lengths: "length (tag_body t) + 8 \<le> length (encode_tag t)" "8 \<le> length (encode_tags ts)"
  using padded_ge [of "tag_size t"] by (simp_all add: length_encode_tag encode_tags_def) (simp add: tag_size_def)

text \<open>One tag of a list, as the loops meet it.\<close>

lemma tag_step:
  assumes "vbytes k a (encode_tags (t # ts))" and "length (encode_tags (t # ts)) \<le> 4096"
    and "unat a + length (encode_tags (t # ts)) < 2 ^ 64"
  shows "vbytes k a (encode_tag t)" and "vbytes k (a + of_nat (length (encode_tag t))) (encode_tags ts)"
    and "tag_size t + 8 \<le> 2 ^ 32" and "unat a + tag_size t < 2 ^ 64"
    and "unat (a + of_nat (length (encode_tag t))) = unat a + length (encode_tag t)"
proof -
  have n: "tag_size t \<le> length (encode_tag t)" using padded_ge [of "tag_size t"] by (simp add: length_encode_tag)
  show "unat (a + of_nat (length (encode_tag t))) = unat a + length (encode_tag t)"
    using assms(3) by (intro unat_add_of_nat) (simp add: encode_tags_Cons)
  show "tag_size t + 8 \<le> 2 ^ 32" "unat a + tag_size t < 2 ^ 64"
    using assms(2,3) n by (simp_all add: encode_tags_Cons)
qed (use assms(1) in \<open>simp_all add: encode_tags_Cons vbytes_append\<close>)

lemma tags_end: "vbytes k a (encode_tags []) \<Longrightarrow> rd32 k a = Inr 0"
  using rd32_le [of k a 0] by (simp add: encode_tags_def vbytes_append)

lemma tags_loop_correct:
  assumes "vbytes (b_kernel b) a (encode_tags ts)" and "\<forall>t \<in> set ts. tag_ok n t"
    and "length (encode_tags ts) \<le> 4096" and "unat a + length (encode_tags ts) < 2 ^ 64"
    and "length (encode_tags ts) \<le> fuel"
    and "phys_ok (k_phys (b_kernel b))" and "length (mm_table (k_phys (b_kernel b))) = n"
  shows "\<exists>p l f r. tags_loop fuel b a = Inr (upd_boot b p l f r)
    \<and> phys_ok p \<and> length (mm_table p) = n \<and> frames p = frames (k_phys (b_kernel b)) \<union> tags_frames ts
    \<and> unat l = tags_limit ts (unat (b_mem_limit b)) \<and> f = tags_framebuffer ts (b_frameBuf b)
    \<and> r = tags_rsdp a ts (b_rsdp b)"
  using assms
proof (induction ts arbitrary: b a fuel)
  case Nil
  then obtain f where "fuel = Suc f" by (cases fuel) (auto simp: encode_tags_def)
  then show ?case
    using Nil tags_end [OF Nil.prems(1)] by (intro exI [of _ "k_phys (b_kernel b)"] exI [of _ "b_mem_limit b"]
        exI [of _ "b_frameBuf b"] exI [of _ "b_rsdp b"]) (simp add: MULTIBOOT_TAG_TYPE_END_def upd_boot_def)
next
  case (Cons t ts)
  note st = tag_step [OF Cons.prems(1,3,4)]
  note rd = encode_tag_reads [OF st(1,3)]
  have len: "length (encode_tags (t # ts)) = length (encode_tag t) + length (encode_tags ts)"
    by (simp add: encode_tags_Cons)
  have fuel: "length (tag_body t) + 16 \<le> fuel" using Cons.prems(5) tag_lengths(1) [of t] tag_lengths(2) [of ts] len by linarith
  obtain fu where f: "fuel = Suc fu" using fuel by (cases fuel) auto
  have ok: "tag_ok n t" using Cons.prems(2) by simp
  obtain p l f r where pt: "parse_tag fu b a (tag_type t) = Inr (upd_boot b p l f r)"
    "phys_ok p" "length (mm_table p) = n" "frames p = frames (k_phys (b_kernel b)) \<union> tags_frames [t]"
    "unat l = tags_limit [t] (unat (b_mem_limit b))" "f = tags_framebuffer [t] (b_frameBuf b)"
    "r = tags_rsdp a [t] (b_rsdp b)"
    using parse_tag_correct [OF st(1) ok st(3,4) _ Cons.prems(6,7), where fuel = fu] fuel f by auto
  let ?b = "upd_boot b p l f r" and ?a = "a + of_nat (length (encode_tag t))"
  have k: "b_kernel ?b = upd_phys (b_kernel b) p" "b_mem_limit ?b = l" "b_frameBuf ?b = f" "b_rsdp ?b = r"
    by (simp_all add: upd_boot_def)
  have "tags_loop fuel b a = tags_loop fu ?b ?a"
    using rd pt(1) tag_type_nonzero [OF ok] by (simp add: f MULTIBOOT_TAG_TYPE_END_def k)
  moreover obtain p' l' f' r' where "tags_loop fu ?b ?a = Inr (upd_boot ?b p' l' f' r')"
    "phys_ok p'" "length (mm_table p') = n" "frames p' = frames (k_phys (b_kernel ?b)) \<union> tags_frames ts"
    "unat l' = tags_limit ts (unat (b_mem_limit ?b))" "f' = tags_framebuffer ts (b_frameBuf ?b)"
    "r' = tags_rsdp ?a ts (b_rsdp ?b)"
    using Cons.IH [of ?b ?a fu] Cons.prems(2-5) st(2,5) pt(2,3) len tag_lengths(1) [of t] f by (auto simp: k)
  ultimately show ?case
    using pt by (intro exI [of _ p'] exI [of _ l'] exI [of _ f'] exI [of _ r'])
      (simp add: k upd_boot_def Un_assoc tags_frames_Cons [of t ts] tags_limit_Cons [of t ts] tags_framebuffer_Cons [of t ts])
qed

section \<open>Modules\<close>

fun tags_taken :: "mb_tag list \<Rightarrow> nat set" where
  "tags_taken [] = {}"
| "tags_taken (ModuleTag s e cmd # ts) = touched_frames (unat s) (unat e - unat s) \<union> tags_taken ts"
| "tags_taken (t # ts) = tags_taken ts"

definition config_name :: "u8 list" where "config_name = [0x63, 0x6F, 0x6E, 0x66, 0x69, 0x67]"

fun tags_config :: "mb_tag list \<Rightarrow> u64 \<times> u32 \<Rightarrow> u64 \<times> u32" where
  "tags_config [] c = c"
| "tags_config (ModuleTag s e cmd # ts) c = tags_config ts (if cmd = config_name then (ucast s, e - s) else c)"
| "tags_config (t # ts) c = tags_config ts c"

fun tags_images :: "mb_tag list \<Rightarrow> nat" where
  "tags_images [] = 0"
| "tags_images (ModuleTag s e cmd # ts) = (if cmd = config_name then 0 else 1) + tags_images ts"
| "tags_images (t # ts) = tags_images ts"

lemma strncmp_lit_eq:
  assumes "vbytes k a (cmd @ [0])" and "0 \<notin> set cmd" and "0 \<notin> set lit"
  shows "\<exists>d. strncmp_lit k a (lit @ [0]) (Suc (length lit)) c c' = Inr d \<and> (d = 0 \<longleftrightarrow> cmd = lit)"
  using assms
proof (induction lit arbitrary: a cmd c c')
  case Nil
  then show ?case by (cases cmd) (auto simp: word_uint_eq_iff)
next
  case (Cons x lit)
  then show ?case by (cases cmd) (auto simp: word_uint_eq_iff [symmetric] uint_0_iff)
qed

lemma config_lit: "config_name @ [0] = CONFIG" "Suc (length config_name) = 7" "0 \<notin> set config_name"
  by (simp_all add: CONFIG_def config_name_def)

definition upd_mods :: "boot \<Rightarrow> phys \<Rightarrow> u64 \<times> u32 \<Rightarrow> u16 \<Rightarrow> boot" where
  "upd_mods b p c i = b\<lparr>b_kernel := upd_phys (b_kernel b) p, config_paddr := fst c, config_size := snd c, num_mod := i\<rparr>"

lemma take_module_correct:
  assumes v: "vbytes (b_kernel b) a (encode_tag t)" and t: "t = ModuleTag s e cmd" and ok: "tag_ok n t"
    and size: "tag_size t + 8 \<le> 2 ^ 32"
    and p: "phys_ok (k_phys (b_kernel b))" "length (mm_table (k_phys (b_kernel b))) = n"
  shows "\<exists>p. take_module b a = Inr (upd_mods b p (tags_config [t] (config_paddr b, config_size b))
      (num_mod b + of_nat (tags_images [t])))
    \<and> phys_ok p \<and> length (mm_table p) = n \<and> frames p = frames (k_phys (b_kernel b)) - tags_taken [t]
    \<and> mm_limit p = mm_limit (k_phys (b_kernel b))"
proof -
  have body: "vbytes (b_kernel b) (a + 8) (le32 s @ le32 e @ cmd @ [0])"
    using encode_tag_reads(3) [OF v size] by (simp add: t)
  have rd: "rd32 (b_kernel b) (a + 8) = Inr s" "rd32 (b_kernel b) (a + 12) = Inr e"
    "vbytes (b_kernel b) (a + 16) (cmd @ [0])"
    using body by (auto simp: vbytes_append rd32_le add.assoc)
  obtain d where d: "strncmp_lit (b_kernel b) (a + 16) CONFIG 7 0 0 = Inr d" "d = 0 \<longleftrightarrow> cmd = config_name"
    using strncmp_lit_eq [OF rd(3), of config_name 0 0, unfolded config_lit] ok by (auto simp: t config_lit)
  have le: "unat s \<le> unat e" using ok by (simp add: t word_le_nat_alt)
  have es: "unat (ucast s :: u64) = unat s" "unat (ucast (e - s) :: u64) = unat e - unat s"
    using le by (simp_all add: unat_ucast_up unat_sub_le word_le_nat_alt)
  have "unat e < 2 ^ 32" using unsigned_less [of e] by simp
  then obtain p where "physical_take_range (k_phys (b_kernel b)) (ucast s) (ucast (e - s)) = Inr p" "phys_ok p"
    "length (mm_table p) = n" "frames p = frames (k_phys (b_kernel b)) - touched_frames (unat s) (unat e - unat s)"
    "mm_limit p = mm_limit (k_phys (b_kernel b))"
    using take_range_effect [OF assms(5), of "ucast s" "ucast (e - s)"] ok le assms(6) by (auto simp: t es)
  then show ?thesis
    using rd d by (intro exI [of _ p]) (auto simp: take_module_def take_range_def t upd_mods_def Let_def)
qed

lemma tags_taken_Cons: "tags_taken (t # ts) = tags_taken [t] \<union> tags_taken ts"
  by (cases t) auto

lemma tags_config_Cons: "tags_config (t # ts) c = tags_config ts (tags_config [t] c)"
  by (cases t) auto

lemma tags_images_Cons: "tags_images (t # ts) = tags_images [t] + tags_images ts"
  by (cases t) auto

lemma module_tag_correct:
  assumes "vbytes (b_kernel b) a (encode_tag t)" and "tag_ok n t" and "tag_size t + 8 \<le> 2 ^ 32"
    and "phys_ok (k_phys (b_kernel b))" and "length (mm_table (k_phys (b_kernel b))) = n"
  shows "\<exists>p. (if tag_type t = MULTIBOOT_TAG_TYPE_MODULE then take_module b a else Inr b)
      = Inr (upd_mods b p (tags_config [t] (config_paddr b, config_size b)) (num_mod b + of_nat (tags_images [t])))
    \<and> phys_ok p \<and> length (mm_table p) = n \<and> frames p = frames (k_phys (b_kernel b)) - tags_taken [t]
    \<and> mm_limit p = mm_limit (k_phys (b_kernel b))"
proof (cases "\<exists>s e cmd. t = ModuleTag s e cmd")
  case True
  then show ?thesis
    using take_module_correct [OF assms(1) _ assms(2-5)] by (auto simp: MULTIBOOT_TAG_TYPE_MODULE_def)
next
  case False
  then have "tag_type t \<noteq> 3" "tags_config [t] c = c" "tags_images [t] = 0" "tags_taken [t] = {}" for c
    using assms(2) by (cases t; simp)+
  then show ?thesis
    using assms(4,5) by (intro exI [of _ "k_phys (b_kernel b)"]) (simp add: MULTIBOOT_TAG_TYPE_MODULE_def upd_mods_def)
qed

lemma modules_loop_correct:
  assumes "vbytes (b_kernel b) a (encode_tags ts)" and "\<forall>t \<in> set ts. tag_ok n t"
    and "length (encode_tags ts) \<le> 4096" and "unat a + length (encode_tags ts) < 2 ^ 64"
    and "length (encode_tags ts) \<le> fuel"
    and "phys_ok (k_phys (b_kernel b))" and "length (mm_table (k_phys (b_kernel b))) = n"
  shows "\<exists>p. modules_loop fuel b a = Inr (upd_mods b p (tags_config ts (config_paddr b, config_size b))
      (num_mod b + of_nat (tags_images ts)))
    \<and> phys_ok p \<and> length (mm_table p) = n \<and> frames p = frames (k_phys (b_kernel b)) - tags_taken ts
    \<and> mm_limit p = mm_limit (k_phys (b_kernel b))"
  using assms
proof (induction ts arbitrary: b a fuel)
  case Nil
  then obtain f where "fuel = Suc f" by (cases fuel) (auto simp: encode_tags_def)
  then show ?case
    using Nil tags_end [OF Nil.prems(1)]
    by (intro exI [of _ "k_phys (b_kernel b)"]) (simp add: MULTIBOOT_TAG_TYPE_END_def upd_mods_def)
next
  case (Cons t ts)
  note st = tag_step [OF Cons.prems(1,3,4)]
  note rd = encode_tag_reads [OF st(1,3)]
  have len: "length (encode_tags (t # ts)) = length (encode_tag t) + length (encode_tags ts)"
    by (simp add: encode_tags_Cons)
  obtain fu where f: "fuel = Suc fu" using Cons.prems(5) len tag_lengths(2) [of ts] by (cases fuel) auto
  have ok: "tag_ok n t" using Cons.prems(2) by simp
  let ?c = "tags_config [t] (config_paddr b, config_size b)" and ?i = "num_mod b + of_nat (tags_images [t])"
  obtain p where pt: "(if tag_type t = MULTIBOOT_TAG_TYPE_MODULE then take_module b a else Inr b)
      = Inr (upd_mods b p ?c ?i)"
    "phys_ok p" "length (mm_table p) = n" "frames p = frames (k_phys (b_kernel b)) - tags_taken [t]"
    "mm_limit p = mm_limit (k_phys (b_kernel b))"
    using module_tag_correct [OF st(1) ok st(3) Cons.prems(6,7)] by blast
  let ?b = "upd_mods b p ?c ?i" and ?a = "a + of_nat (length (encode_tag t))"
  have k: "b_kernel ?b = upd_phys (b_kernel b) p" "config_paddr ?b = fst ?c" "config_size ?b = snd ?c" "num_mod ?b = ?i"
    by (simp_all add: upd_mods_def)
  have "modules_loop fuel b a = modules_loop fu ?b ?a"
    unfolding f modules_loop.simps multiboot_fields rd(1) rbind.simps pt(1)
    using rd tag_type_nonzero [OF ok] by (simp add: MULTIBOOT_TAG_TYPE_END_def k)
  moreover obtain p' where "modules_loop fu ?b ?a = Inr (upd_mods ?b p' (tags_config ts (config_paddr ?b, config_size ?b))
      (num_mod ?b + of_nat (tags_images ts)))"
    "phys_ok p'" "length (mm_table p') = n" "frames p' = frames (k_phys (b_kernel ?b)) - tags_taken ts"
    "mm_limit p' = mm_limit (k_phys (b_kernel ?b))"
    using Cons.IH [of ?b ?a fu] Cons.prems(2-5) st(2,5) pt(2,3) len tag_lengths(1) [of t] f by (auto simp: k)
  ultimately show ?case
    using pt by (intro exI [of _ p']) (simp add: k upd_mods_def Diff_Diff_Int Diff_eq Int_assoc ac_simps
        tags_taken_Cons [of t ts] tags_config_Cons [of t ts] tags_images_Cons [of t ts])
qed

section \<open>The free memory after the boot\<close>

definition image_size :: "image \<Rightarrow> nat" where
  "image_size im = 4096 * (unat (boot_pages im) + unat (kernel_code_pages im) + unat (kernel_ro_pages im)
     + unat (kernel_rw_pages im))"

definition image_ok :: "nat \<Rightarrow> image \<Rightarrow> bool" where
  "image_ok n im \<longleftrightarrow> unat (boot_start im) + image_size im + 4096 < 2 ^ 64
     \<and> (unat (boot_start im) + image_size im + 4095) div 4096 \<le> 64 * n"

lemma image_bytes:
  assumes "image_ok n im"
  shows "unat ((boot_pages im + kernel_code_pages im + kernel_ro_pages im + kernel_rw_pages im) * PG_SIZE) = image_size im"
proof -
  let ?s = "unat (boot_pages im) + unat (kernel_code_pages im) + unat (kernel_ro_pages im) + unat (kernel_rw_pages im)"
  have b: "4096 * ?s < 2 ^ 64" using assms by (simp add: image_ok_def image_size_def)
  have "unat (boot_pages im + kernel_code_pages im + kernel_ro_pages im + kernel_rw_pages im) = ?s"
    using b by (simp add: unat_add_small)
  then show ?thesis using b by (simp add: unat_word_ariths image_size_def PG_SIZE_def PG_BITS_def mult.commute)
qed

lemma take_range_ok:
  assumes "phys_ok (k_phys (b_kernel b))" and "length (mm_table (k_phys (b_kernel b))) = n"
    and "unat a + unat l + 4096 < 2 ^ 64" and "(unat a + unat l + 4095) div 4096 \<le> 64 * n"
  shows "\<exists>p. take_range b a l = Inr (b\<lparr>b_kernel := upd_phys (b_kernel b) p\<rparr>) \<and> phys_ok p \<and> length (mm_table p) = n
    \<and> frames p = frames (k_phys (b_kernel b)) - touched_frames (unat a) (unat l)
    \<and> mm_limit p = mm_limit (k_phys (b_kernel b))"
  using take_range_effect [OF assms(1,3)] assms(2,4) by (auto simp: take_range_def)

lemma take_image_correct:
  assumes "phys_ok (k_phys (b_kernel b))" and "length (mm_table (k_phys (b_kernel b))) = n"
    and "unat (b_mem_limit b) div 4096 \<le> 64 * n" and "image_ok n im" and "0 < n"
  shows "\<exists>p. take_image im b = Inr (b\<lparr>b_kernel := upd_phys (b_kernel b) p\<rparr>) \<and> phys_ok p \<and> length (mm_table p) = n
    \<and> frames p = frames (k_phys (b_kernel b)) - {0} - touched_frames (unat (boot_start im)) (image_size im)
    \<and> unat (mm_limit p) = unat (b_mem_limit b) div 4096"
proof -
  obtain p where p: "physical_set_limit (k_phys (b_kernel b)) (b_mem_limit b) = Inr p" "phys_ok p"
    "length (mm_table p) = n" "frames p = frames (k_phys (b_kernel b))" "unat (mm_limit p) = unat (b_mem_limit b) div 4096"
    using set_limit_effect [OF assms(1), of "b_mem_limit b"] assms(2,3) by auto
  let ?b = "b\<lparr>b_kernel := upd_phys (b_kernel b) p\<rparr>"
  have z: "unat PG_SIZE = 4096" "touched_frames 0 4096 = {0}" by (auto simp: PG_SIZE_def PG_BITS_def touched_frames_def)
  have "(0 + 4096 + 4095) div 4096 \<le> 64 * n" using assms(5) by simp
  then obtain q where q: "take_range ?b 0 PG_SIZE = Inr (?b\<lparr>b_kernel := upd_phys (b_kernel ?b) q\<rparr>)" "phys_ok q"
    "length (mm_table q) = n" "frames q = frames p - {0}" "mm_limit q = mm_limit p"
    using take_range_ok [of ?b n 0 PG_SIZE] p(2,3) z by auto
  let ?c = "?b\<lparr>b_kernel := upd_phys (b_kernel ?b) q\<rparr>"
  note im = image_bytes [OF assms(4)]
  obtain r where "take_range ?c (boot_start im)
      ((boot_pages im + kernel_code_pages im + kernel_ro_pages im + kernel_rw_pages im) * PG_SIZE)
      = Inr (?c\<lparr>b_kernel := upd_phys (b_kernel ?c) r\<rparr>)" "phys_ok r" "length (mm_table r) = n"
    "frames r = frames q - touched_frames (unat (boot_start im)) (image_size im)" "mm_limit r = mm_limit q"
    using take_range_ok [of ?c n "boot_start im"
        "(boot_pages im + kernel_code_pages im + kernel_ro_pages im + kernel_rw_pages im) * PG_SIZE"]
      q(2,3) assms(4) im by (auto simp: image_ok_def)
  then show ?thesis using p q by (intro exI [of _ r]) (simp add: take_image_def)
qed

text \<open>
  C32: Which memory the hypervisor starts with. On a boot information of at most one page that encodes
  a list of tags, whose memory map and modules lie inside the table, the first part of
  \<open>kernel_main\<close> ends and the free frames are exactly those that were free or lie wholly inside an
  available entry of the memory map, without frame 0, the frames of the kernel image and the frames
  that a module touches. The limit is the highest end of an available entry; the frame buffer, the
  configuration module and the number of other modules are those of the tags.
\<close>

theorem boot_memory_free:
  assumes "vbytes (b_kernel b) mbi (encode_info ts)" and "\<forall>t \<in> set ts. tag_ok n t"
    and "8 + length (encode_tags ts) \<le> 4096" and "unat mbi + 4096 < 2 ^ 64" and "4096 \<le> fuel"
    and "phys_ok (k_phys (b_kernel b))" and "length (mm_table (k_phys (b_kernel b))) = n" and "0 < n"
    and "tags_limit ts (unat (b_mem_limit b)) div 4096 \<le> 64 * n" and "image_ok n im"
    and "tags_config ts (config_paddr b, config_size b) = (cfg_addr, cfg_size)" and "cfg_size \<noteq> 0"
  shows "\<exists>b'. boot_memory fuel im b 0x36D76289 mbi = Inr (Some b')
    \<and> frames (k_phys (b_kernel b')) = (frames (k_phys (b_kernel b)) \<union> tags_frames ts)
        - {0} - touched_frames (unat (boot_start im)) (image_size im) - tags_taken ts
    \<and> unat (mm_limit (k_phys (b_kernel b'))) = tags_limit ts (unat (b_mem_limit b)) div 4096
    \<and> phys_ok (k_phys (b_kernel b')) \<and> pmem (b_kernel b') = pmem (b_kernel b)
    \<and> b_frameBuf b' = tags_framebuffer ts (b_frameBuf b) \<and> b_rsdp b' = tags_rsdp (mbi + 8) ts (b_rsdp b)
    \<and> config_paddr b' = cfg_addr \<and> config_size b' = cfg_size \<and> num_mod b' = num_mod b + of_nat (tags_images ts)"
proof -
  have v: "rd32 (b_kernel b) mbi = Inr (of_nat (8 + length (encode_tags ts)))"
    "vbytes (b_kernel b) (mbi + 8) (encode_tags ts)"
    using assms(1) by (auto simp: encode_info_def vbytes_append rd32_le add.assoc)
  have "unat (ucast (of_nat (8 + length (encode_tags ts)) :: u32) :: u64) = 8 + length (encode_tags ts)"
    using assms(3) by (simp add: unat_ucast_up unat_of_nat_small del: of_nat_add)
  then have small: "\<not> ucast (of_nat (8 + length (encode_tags ts)) :: u32) > PG_SIZE"
    using assms(3) by (simp add: word_less_nat_alt PG_SIZE_def PG_BITS_def del: of_nat_add)
  have u: "unat (mbi + 8) = unat mbi + 8" using assms(4) by (subst unat_add_small) simp_all
  have len: "length (encode_tags ts) \<le> 4096" "unat (mbi + 8) + length (encode_tags ts) < 2 ^ 64"
    "length (encode_tags ts) \<le> fuel" using assms(3-5) u by simp_all
  obtain p l where p: "tags_loop fuel b (mbi + 8) = Inr (upd_boot b p l (tags_framebuffer ts (b_frameBuf b))
        (tags_rsdp (mbi + 8) ts (b_rsdp b)))"
    "phys_ok p" "length (mm_table p) = n" "frames p = frames (k_phys (b_kernel b)) \<union> tags_frames ts"
    "unat l = tags_limit ts (unat (b_mem_limit b))"
    using tags_loop_correct [OF v(2) assms(2) len assms(6,7)] by blast
  let ?b = "upd_boot b p l (tags_framebuffer ts (b_frameBuf b)) (tags_rsdp (mbi + 8) ts (b_rsdp b))"
  have k: "b_kernel ?b = upd_phys (b_kernel b) p" "b_mem_limit ?b = l" by (simp_all add: upd_boot_def)
  obtain q where q: "take_image im ?b = Inr (?b\<lparr>b_kernel := upd_phys (b_kernel ?b) q\<rparr>)" "phys_ok q"
    "length (mm_table q) = n" "frames q = frames p - {0} - touched_frames (unat (boot_start im)) (image_size im)"
    "unat (mm_limit q) = unat l div 4096"
    using take_image_correct [of ?b n im] p(2,3,5) assms(8-10) by (auto simp: k)
  let ?c = "?b\<lparr>b_kernel := upd_phys (b_kernel ?b) q\<rparr>"
  have vc: "vbytes (b_kernel ?c) (mbi + 8) (encode_tags ts)" using v(2) by (simp add: k)
  obtain r where r: "modules_loop fuel ?c (mbi + 8) = Inr (upd_mods ?c r (tags_config ts (config_paddr ?c, config_size ?c))
      (num_mod ?c + of_nat (tags_images ts)))" "phys_ok r" "frames r = frames q - tags_taken ts" "mm_limit r = mm_limit q"
    using modules_loop_correct [OF vc assms(2) len] q(2,3) by auto
  have cfg: "tags_config ts (config_paddr ?c, config_size ?c) = (cfg_addr, cfg_size)"
    using assms(11) by (simp add: upd_boot_def)
  let ?d = "upd_mods ?c r (cfg_addr, cfg_size) (num_mod ?c + of_nat (tags_images ts))"
  have "boot_memory fuel im b 0x36D76289 mbi = Inr (Some ?d)"
    unfolding boot_memory_def v(1) rbind.simps if_not_P [OF small] p(1) q(1) r(1) [unfolded cfg]
    using assms(12) by (simp add: MULTIBOOT2_BOOTLOADER_MAGIC_def upd_mods_def)
  then show ?thesis
    using p q r by (intro exI [of _ ?d]) (simp add: upd_mods_def upd_boot_def)
qed

definition demo_tags :: "mb_tag list" where
  "demo_tags = [OtherTag 1 [0], MmapTag [(0, 0x9F000, 1), (0xF0000, 0x10000, 2), (0x100000, 0x80000, 1)],
     ModuleTag 0x140000 0x140010 config_name, ModuleTag 0x141000 0x143000 [0x6C], FramebufferTag 0xB8000 [],
     AcpiTag True [1, 2]]"

definition demo_image :: image where
  "demo_image = \<lparr>boot_start = 0x100000, boot_pages = 1, kernel_code_pages = 2, kernel_ro_pages = 1, kernel_rw_pages = 1\<rparr>"

definition demo_boot :: boot where
  "demo_boot = \<lparr>b_kernel = upd_phys (ident_kernel 0x3000 (encode_info demo_tags)) (small_phys [0, 0]), b_frameBuf = 0,
     b_rsdp = 0, b_mem_limit = 0, config_paddr = 0, config_size = 0, num_mod = 0\<rparr>"

lemma demo_tags_size: "length (encode_tags demo_tags) = 192"
  by (simp add: demo_tags_def encode_tags_def length_encode_tag tag_size_def padded_def config_name_def)

lemma demo_info: "vbytes (b_kernel demo_boot) 0x3000 (encode_info demo_tags)"
  using ident_vbytes [of "0x3000" "encode_info demo_tags"]
  by (simp add: demo_boot_def encode_info_def demo_tags_size)

lemma demo_boot_simps:
  "k_phys (b_kernel demo_boot) = small_phys [0, 0]" "b_mem_limit demo_boot = 0" "config_paddr demo_boot = 0"
  "config_size demo_boot = 0" "num_mod demo_boot = 0" "boot_start demo_image = 0x100000"
  by (simp_all add: demo_boot_def demo_image_def)

theorem boot_memory_free_witness:
  "\<exists>b'. boot_memory 4096 demo_image demo_boot 0x36D76289 0x3000 = Inr (Some b')
    \<and> frames (k_phys (b_kernel b')) = (frames (small_phys [0, 0]) \<union> tags_frames demo_tags)
        - {0} - touched_frames 0x100000 0x5000 - tags_taken demo_tags
    \<and> unat (mm_limit (k_phys (b_kernel b'))) = 384 \<and> config_paddr b' = 0x140000 \<and> num_mod b' = 1"
proof -
  have ok: "\<forall>t \<in> set demo_tags. tag_ok 6 t" by (simp add: demo_tags_def config_name_def)
  have im: "image_size demo_image = 0x5000" by (simp add: image_size_def demo_image_def)
  have i: "image_ok 6 demo_image" by (simp add: image_ok_def im) (simp add: demo_image_def)
  have l: "tags_limit demo_tags 0 = 0x180000" "tags_images demo_tags = 1"
    "tags_config demo_tags (0, 0) = (0x140000, 0x10)" by (simp_all add: demo_tags_def config_name_def)
  show ?thesis
    using boot_memory_free [OF demo_info ok, of 4096 demo_image "0x140000" "0x10"] i l
    by (simp add: demo_tags_size demo_boot_simps im) blast
qed

end
