(* ===== verification/Spec2Isabelle.thy ===== *)
theory Spec2Isabelle
  imports Paging_Properties Malloc_Properties Malloc_Check Vmx_Checks Linux Strings Screen_Correct Mtrr_Barrier Acpi_Correct Kernel_Main Guest_Map_Correct
    Apic_Correct Interrupt Multiboot_Correct
begin

text \<open>
  \<^bold>\<open>Verification of the RTV hypervisor.\<close> RTV is a small type-1 hypervisor in C for x86-64: GRUB
  loads it with multiboot2, \<^verbatim>\<open>kernel_main\<close> takes over the physical memory, sets up paging,
  interrupts and the other processors, and starts a Linux guest with Intel VT-x. The theories
  below model its C code function by function, over machine words, byte memory and a result type
  in which every panic, out-of-bounds access, page fault and endless wait is a value.

  \<^bold>\<open>Parts and theories.\<close>
  \<^item> Shared ground: \<open>Prelude\<close> (machine integers, results, bounds-checked arrays, word lemmas),
    \<open>Memory\<close> (byte memory, little-endian access; \<^verbatim>\<open>asm_string.h\<close>), \<open>Layout\<close> (size and member
    offsets of C structures).
  \<^item> Utilities: \<open>Bits\<close> (\<^verbatim>\<open>bits.h\<close>, \<^verbatim>\<open>bits.c\<close>, \<^verbatim>\<open>math.h\<close>), \<open>Strings\<close> (\<^verbatim>\<open>string.c\<close>), \<open>Linked_List\<close>
    (\<^verbatim>\<open>list.h\<close>: circular lists in byte memory), \<open>Spinlock\<close> (\<^verbatim>\<open>spinlock.h\<close>: sequential operations and
    an interleaving semantics for any number of CPUs), \<open>Screen\<close> and \<open>Screen_Correct\<close>
    (\<^verbatim>\<open>screen.c\<close>: console and \<^verbatim>\<open>printf\<close>).
  \<^item> Physical memory, \<^verbatim>\<open>kernel/mm/physical.c\<close>: \<open>Physical\<close> (the bitmap and all operations),
    \<open>Physical_Runs\<close>, \<open>Free_Ranges\<close> and \<open>Frame_Allocator\<close> (the loops, the interface of a frame
    allocator as a locale and its interpretation).
  \<^item> Virtual memory, \<^verbatim>\<open>arch/x86_64/mm/vm.c\<close>: \<open>Radix\<close> (trees of tables in memory as a locale),
    \<open>Paging\<close> (the functions, over physical memory and the processor's page walk, which resolves the
    recursive slot), \<open>Paging_Walk\<close>, \<open>Paging_Correct\<close>, \<open>Paging_Windows\<close> (the two mapping windows,
    one locale) and \<open>Paging_Properties\<close>.
  \<^item> Heap, \<^verbatim>\<open>kernel/mm/malloc.c\<close>: \<open>Malloc\<close> (the functions), \<open>Buddy_Tiling\<close> (the abstract state:
    a tiling of the pool by blocks), \<open>Malloc_Buckets\<close>, \<open>Malloc_Invariant\<close>, \<open>Malloc_Correct\<close>,
    \<open>Malloc_Alloc\<close>, \<open>Malloc_Init\<close>, \<open>Malloc_Check\<close>, and \<open>Heap_Client\<close> (the contract with the users
    of the heap as a locale over a step relation) interpreted in \<open>Malloc_Properties\<close>.
  \<^item> Virtual addresses: \<open>Virtual_Access\<close> (bytes and words at mapped addresses, \<^verbatim>\<open>memset\<close> and \<^verbatim>\<open>memcpy\<close>
    across pages), used by the parts that read tables and fill structures.
  \<^item> Platform: \<open>Multiboot\<close> (\<^verbatim>\<open>multiboot2.h\<close> and the loops of \<^verbatim>\<open>kernel_main\<close> over the boot information),
    \<open>Acpi\<close> (\<^verbatim>\<open>acpi.c\<close>, \<^verbatim>\<open>acpi.h\<close>: root tables, MADT, DMAR, interrupt overrides), \<open>Apic\<close> (\<^verbatim>\<open>apic.c\<close>: local and
    I/O APIC over a model of the device registers), \<open>Interrupt\<close> (\<^verbatim>\<open>interrupt.c\<close>: IDT, PIC, PIT, handlers),
    each with the proofs in the theory of the same name with \<open>_Correct\<close> (those of \<open>Interrupt\<close> are in it).
  \<^item> Processors and boot: \<open>Percpu\<close> (\<^verbatim>\<open>percpu.c\<close>, \<^verbatim>\<open>percpu.h\<close>, \<^verbatim>\<open>smp.c\<close>, \<^verbatim>\<open>acpi_sec_init\<close>, \<^verbatim>\<open>iommu.c\<close>: per-CPU data, starting
    the other processors), \<open>Boot_Config\<close> (\<^verbatim>\<open>boot_info.c\<close> and the module lookup of \<^verbatim>\<open>kernel_main\<close>),
    \<open>Kernel_Main\<close> (the whole of \<^verbatim>\<open>kernel_main\<close> on the boot processor, \<^verbatim>\<open>panic_raw\<close>).
  \<^item> Guests: \<open>Guest_Memory\<close> (\<^verbatim>\<open>mem.c\<close>: loading Linux, the memory map, the extended page tables), \<open>Vm_Launch\<close>
    (\<^verbatim>\<open>virt_init\<close> and \<^verbatim>\<open>virt_percpu_init\<close> of \<^verbatim>\<open>virt.c\<close>).
  \<^item> The extended page tables on the kernel's own paging: \<open>Data_Pages\<close> (frames that hold data, mapped in the
    dynamic window; what allocating, mapping, storing and unmapping keep), \<open>Ept\<close> and \<open>Ept_Tables\<close> (the loops
    of \<^verbatim>\<open>virt_pg_table_setup\<close>, table by table), \<open>Ept_Top\<close> (the two upper tables before the loop), \<open>Ept_Walk\<close> (the
    processor's walk of the tables, with rights and memory types), \<open>Ept_Correct\<close> (the properties).
  \<^item> The guest's memory map: \<open>Guest_Map\<close> (the entries in the zero page, what becomes of a free range, how many
    entries there can be), \<open>Guest_Map_Correct\<close> (the loop of \<^verbatim>\<open>virt_setup_e820\<close>). The fuel is the number of frames
    the table covers plus 512, since the position advances by at least a page in every round.
  \<^item> Processors: \<open>Gdt\<close> (\<^verbatim>\<open>cpu/mmu.c\<close>: TSS descriptors, memory types), \<open>Mtrr_Barrier\<close> (the
    rendezvous of all CPUs around \<^verbatim>\<open>mtrr_config\<close> in \<^verbatim>\<open>init.c\<close> and \<^verbatim>\<open>smp.c\<close>, as a step relation).
  \<^item> Virtual machines: \<open>Vmcs\<close> (\<^verbatim>\<open>virt_internal.h\<close>), \<open>Vmx_Setup\<close> (\<^verbatim>\<open>virt.c\<close>: guest, host and control
    state), \<open>Vmx_Checks\<close> (the checks of a VM entry), \<open>Linux\<close> (\<^verbatim>\<open>linux.h\<close>: boot protocol).

  \<^bold>\<open>What is shown.\<close> The frame allocator hands out each free frame once and never a taken one; its
  range operations are exact. The paging code reaches the paging structures through the recursive
  slot, maps exactly the requested pages and changes no other translation. It does not clear the
  tables it allocates: where one is needed this assumes zeroed frames, and another theorem states
  which translations appear when the frames are not. The heap keeps its
  invariant in every state a client can reach: the pieces are disjoint, no byte of a piece changes
  unless its owner writes it, and after everything is freed the pool is one block again. The ticket
  lock is mutually exclusive, first-come first-served and never blocks. \<^verbatim>\<open>printf\<close> prints the digits of
  its numbers and stays in the frame buffer. The VM state that is set up passes the processor's
  entry checks. The boot leaves exactly the frames free that the memory map offers, without the image and the
  modules; the MADT parser records what the table says; the I/O APIC routes the timer as ACPI asks; every
  vector's gate leads to its entry point. The loop that builds the extended page tables ends, and the
  processor then translates the guest's memory as the code plans it and refuses what lies behind the last
  page directory and the large pages of an image that does not start at a multiple of 2MB; no translation of
  the kernel changes; the entries of that directory behind the guest's memory keep what the frame held. The
  memory map for Linux gives away free frames only, each once, and takes them from the hypervisor. Where the code does not do what it means to, a theorem states what it
  does (the properties of kind error and bounds).

  \<^bold>\<open>Modelling decisions.\<close> State is passed explicitly, as records. Loops are recursion with a
  termination proof; where a C loop need not end, fuel bounds it, and the theorems state that a
  given fuel is enough (27 rounds for \<^verbatim>\<open>next_power2\<close>, one round per bucket, per table slot or per list
  node) or that none is. Reading or writing outside a C array is \<open>OutOfBounds\<close>; waiting for a
  condition that nobody can change in a sequential run is \<open>Deadlock\<close>. What the hardware provides
  (model-specific registers, capability values, the page walk) is an argument or a definition
  that follows the processor manual. Addresses that the linker chooses are fields of the state.

  \<^bold>\<open>Not modelled.\<close> The assembly files (\<^verbatim>\<open>boot.S\<close>, \<^verbatim>\<open>boot64.S\<close>, \<^verbatim>\<open>ap_boot.S\<close>, \<^verbatim>\<open>isr.S\<close>); access rights
  and translation caches of the MMU; caching and memory ordering beyond the interleaving of
  atomic steps; time. The properties of the extended page tables start from the state after \<^verbatim>\<open>virt_setup_linux\<close>; of that function
  only the memory map has a theorem, the relocation of the images is modelled but not verified. Parts of the C code that are not covered are listed as such in the manifest. What other processors do
  while one boots is an argument of \<^verbatim>\<open>kernel_main\<close>'s model; what the processor answers to VMX instructions is
  an argument of \<^verbatim>\<open>virt_percpu_init\<close>'s.
\<close>

end
